(* ===== verification/Prelude.thy ===== *)
theory Prelude
  imports Main "HOL-Library.Word"
begin

text \<open>
  Shared vocabulary of the development: machine integers and byte strings, the faults
  a C++ routine can end in, the sum type of a fallible routine with its sequencing
  operator, and the ordered associative container \<open>std::map\<close> as a list of pairs in
  ascending key order (the order in which the code iterates over it), with the laws of
  that container as a locale that is interpreted on the list model.
\<close>

section \<open>Machine types\<close>

type_synonym u8 = "8 word"
type_synonym u32 = "32 word"
type_synonym u64 = "64 word"

text \<open>\<open>std::string\<close> and the protobuf type \<open>bytes\<close>: a sequence of bytes.\<close>

type_synonym bytes = "u8 list"

text \<open>Below a bound an increment does not wrap around.\<close>

lemma unat_Suc_less:
  fixes i n :: "'a::len word"
  assumes "i < n"
  shows "unat (i + 1) = Suc (unat i)"
proof -
  have "unat n < 2 ^ LENGTH('a)" by (rule unsigned_less)
  moreover have "unat i < unat n" using assms by (simp add: word_less_nat_alt)
  ultimately have "Suc (unat i) < 2 ^ LENGTH('a)" by linarith
  then show ?thesis by (simp add: unat_word_ariths)
qed

lemma unat_Suc_no_wrap:
  fixes w :: u32
  assumes "unat w + 1 < 2 ^ 32"
  shows "unat (w + 1) = Suc (unat w)" and "w + 1 \<noteq> 0"
proof -
  show s: "unat (w + 1) = Suc (unat w)" using assms by (simp add: unat_word_ariths)
  show "w + 1 \<noteq> 0"
  proof
    assume "w + 1 = 0"
    then have "unat (w + 1) = 0" by simp
    then show False using s by simp
  qed
qed

lemma less_Suc_no_wrap:
  fixes a b :: "'a::len word"
  assumes "a < b" and "b + 1 \<noteq> 0"
  shows "a < b + 1"
proof -
  have "unat (b + 1) = Suc (unat b)" using assms(2) unatSuc [of b] by (simp add: add.commute)
  then show ?thesis using assms(1) by (simp add: word_less_nat_alt)
qed

lemma word_Suc_le_iff:
  fixes a b s :: "'a::len word"
  assumes "a < b"
  shows "a + 1 \<le> s \<longleftrightarrow> a < s"
  using unat_Suc_less [OF assms] by (simp add: word_le_nat_alt word_less_nat_alt Suc_le_eq)

lemma atLeastLessThan_word_Suc:
  fixes i n :: "'a::len word"
  assumes "i < n"
  shows "{i..<n} = insert i {i + 1..<n}"
  using assms by (auto simp: word_Suc_le_iff)

text \<open>Widening a 32-bit value to 64 bits and back, and the order of widened values.\<close>

lemma ucast_ucast_up [simp]: "ucast (ucast (i :: u32) :: u64) = i"
  by (rule bit_word_eqI) (simp add: bit_simps)

lemma ucast_scast_up [simp]: "ucast (scast (i :: u32) :: u64) = i"
  by (rule bit_word_eqI) (simp add: bit_simps)

lemma unat_ucast_up [simp]: "unat (ucast (i :: u32) :: u64) = unat i"
  using unsigned_less [of i, where ?'a = nat]
  by (simp add: unsigned_ucast_eq take_bit_nat_eq_self)

lemma ucast_up_less [simp]: "(ucast (i :: u32) :: u64) < ucast j \<longleftrightarrow> i < j"
  by (simp add: word_less_nat_alt)

lemma ucast_up_eq [simp]: "(ucast (i :: u32) :: u64) = ucast j \<longleftrightarrow> i = j"
  by (simp add: word_unat_eq_iff)

lemma sint_unat:
  fixes w :: u32
  assumes "unat w < 2 ^ 31"
  shows "sint w = int (unat w)"
proof -
  have "unat w < 2147483648" using assms by simp
  then have "int (unat w) < 2147483648" by linarith
  then have "uint w < 2147483648" by simp
  moreover have "- (2 ^ 31) \<le> uint w" by (rule order_trans [OF _ uint_ge_0]) simp
  ultimately have "signed_take_bit 31 (uint w) = uint w"
    by (intro signed_take_bit_int_eq_self) simp_all
  then show ?thesis by (simp add: sint_uint)
qed

lemma card_greaterThanAtMost_word:
  fixes a b :: "'a::len word"
  shows "card {a<..b} = unat b - unat a"
proof -
  have "unat ` {a<..b} = {unat a<..unat b}"
  proof
    show "{unat a<..unat b} \<subseteq> unat ` {a<..b}"
    proof
      fix k assume k: "k \<in> {unat a<..unat b}"
      have "unat b < 2 ^ LENGTH('a)" by (rule unsigned_less)
      with k have "k < 2 ^ LENGTH('a)" by (auto intro: le_less_trans)
      then have "unat (of_nat k :: 'a word) = k"
        by (simp add: unat_of_nat)
      with k show "k \<in> unat ` {a<..b}"
        by (intro image_eqI [of _ _ "of_nat k"]) (simp_all add: word_less_nat_alt word_le_nat_alt)
    qed
  qed (auto simp: word_less_nat_alt word_le_nat_alt)
  moreover have "inj_on unat {a<..b}" by (simp add: inj_on_def word_unat_eq_iff)
  ultimately show ?thesis by (metis card_image card_greaterThanAtMost)
qed

lemma takeWhile_filter_sorted:
  "sorted_wrt (<) (map f xs) \<Longrightarrow> takeWhile (\<lambda>x. f x < (i :: 'a::linorder)) xs = filter (\<lambda>x. f x < i) xs"
proof (induction xs)
  case (Cons x xs)
  have "filter (\<lambda>x. f x < i) xs = []" if "\<not> f x < i"
    using Cons.prems that by (auto simp: filter_empty_conv)
  then show ?case using Cons by auto
qed simp

lemma dropWhile_filter_sorted:
  "sorted_wrt (<) (map f xs) \<Longrightarrow> dropWhile (\<lambda>x. f x \<le> (i :: 'a::linorder)) xs = filter (\<lambda>x. i < f x) xs"
proof (induction xs)
  case (Cons x xs)
  have "filter (\<lambda>x. i < f x) xs = xs" if "\<not> f x \<le> i"
    using Cons.prems that by (auto simp: filter_id_conv)
  then show ?case using Cons by auto
qed simp

text \<open>A collection of the lemmas that describe the ordered map, and one for
  invariants of component states.\<close>

named_theorems smap_simps
named_theorems inv_intros

section \<open>Faults and fallible routines\<close>

text \<open>
  \<open>RuntimeError\<close>: a thrown \<open>std::runtime_error\<close> or \<open>std::logic_error\<close> that no
  caller catches; \<open>AssertFailed\<close>: a failed \<open>assert\<close>; \<open>ExitProcess\<close>: a call of
  \<open>exit(1)\<close>; \<open>Undefined\<close>: an access the language leaves undefined (an index out of
  range, a null or past-the-end dereference).
\<close>

datatype fault = RuntimeError | AssertFailed | ExitProcess | Undefined

type_synonym 'a res = "fault + 'a"

definition bindE :: "'a res \<Rightarrow> ('a \<Rightarrow> 'b res) \<Rightarrow> 'b res" where
  "bindE r k = (case r of Inl e \<Rightarrow> Inl e | Inr x \<Rightarrow> k x)"

lemma bindE_simps [simp]:
  "bindE (Inl e) k = Inl e"
  "bindE (Inr x) k = k x"
  by (simp_all add: bindE_def)

lemma bindE_cong [fundef_cong]:
  assumes "r = r'" and "\<And>x. r' = Inr x \<Longrightarrow> k x = k' x"
  shows "bindE r k = bindE r' k'"
  using assms by (cases r') simp_all

lemma bindE_eq_Inr: "bindE r k = Inr y \<longleftrightarrow> (\<exists>x. r = Inr x \<and> k x = Inr y)"
  by (cases r) simp_all

lemma bindE_InrE:
  assumes "bindE r k = Inr y"
  obtains x where "r = Inr x" and "k x = Inr y"
  using assms by (auto simp: bindE_eq_Inr)

text \<open>A loop over a list whose body can fail: the first fault ends it.\<close>

fun foldE :: "('x \<Rightarrow> 's \<Rightarrow> 's res) \<Rightarrow> 'x list \<Rightarrow> 's \<Rightarrow> 's res" where
  "foldE f [] s = Inr s"
| "foldE f (x # xs) s = bindE (f x s) (foldE f xs)"

lemma foldE_append: "foldE f (xs @ ys) s = bindE (foldE f xs s) (foldE f ys)"
proof (induction xs arbitrary: s)
  case (Cons x xs)
  then show ?case by (cases "f x s") simp_all
qed simp

lemma foldE_invariant:
  assumes "foldE f xs s = Inr t" and "P s"
    and "\<And>x s t. x \<in> set xs \<Longrightarrow> P s \<Longrightarrow> f x s = Inr t \<Longrightarrow> P t"
  shows "P t"
  using assms
proof (induction xs arbitrary: s)
  case (Cons x xs)
  from Cons.prems(1) obtain u where u: "f x s = Inr u" "foldE f xs u = Inr t"
    by (auto elim: bindE_InrE)
  have "P u" using Cons.prems(2,3) u(1) by auto
  then show ?case using Cons.IH [OF u(2)] Cons.prems(3) by auto
qed simp

section \<open>Ordered maps\<close>

type_synonym ('k, 'v) smap = "('k \<times> 'v) list"

abbreviation sm_get :: "('k, 'v) smap \<Rightarrow> 'k \<Rightarrow> 'v option" where
  "sm_get m k \<equiv> map_of m k"

text \<open>\<open>m[k] = v\<close>: insert at the key's place, or replace the value there.\<close>

fun sm_put :: "'k::linorder \<Rightarrow> 'v \<Rightarrow> ('k, 'v) smap \<Rightarrow> ('k, 'v) smap" where
  "sm_put k v [] = [(k, v)]"
| "sm_put k v ((k', v') # m) =
     (if k < k' then (k, v) # (k', v') # m
      else if k = k' then (k, v) # m
      else (k', v') # sm_put k v m)"

text \<open>\<open>m.erase(k)\<close>\<close>

definition sm_del :: "'k \<Rightarrow> ('k, 'v) smap \<Rightarrow> ('k, 'v) smap" where
  "sm_del k m = filter (\<lambda>p. fst p \<noteq> k) m"

text \<open>\<open>m.contains(k)\<close> and \<open>m.count(k)\<close>\<close>

definition sm_has :: "'k \<Rightarrow> ('k, 'v) smap \<Rightarrow> bool" where
  "sm_has k m = (map_of m k \<noteq> None)"

text \<open>\<open>m.insert({k, v})\<close> and \<open>m.emplace(k, v)\<close>: no effect when the key is present.\<close>

definition sm_insert :: "'k::linorder \<Rightarrow> 'v \<Rightarrow> ('k, 'v) smap \<Rightarrow> ('k, 'v) smap" where
  "sm_insert k v m = (if sm_has k m then m else sm_put k v m)"

text \<open>\<open>m[k]\<close> read where the key may be absent: the value-initialised default.\<close>

definition sm_at :: "'v \<Rightarrow> ('k, 'v) smap \<Rightarrow> 'k \<Rightarrow> 'v" where
  "sm_at d m k = (case map_of m k of None \<Rightarrow> d | Some v \<Rightarrow> v)"

definition sm_ok :: "('k::linorder, 'v) smap \<Rightarrow> bool" where
  "sm_ok m = sorted_wrt (<) (map fst m)"

lemma sm_ok_Nil [simp]: "sm_ok []"
  by (simp add: sm_ok_def)

lemma sm_ok_Cons: "sm_ok (p # m) \<longleftrightarrow> (\<forall>q \<in> set m. fst p < fst q) \<and> sm_ok m"
  by (auto simp: sm_ok_def)

lemma sm_ok_append1: "sm_ok (m @ m') \<Longrightarrow> sm_ok m"
  by (simp add: sm_ok_def sorted_wrt_append)

lemma sm_ok_distinct: "sm_ok m \<Longrightarrow> distinct (map fst m)"
  by (simp add: sm_ok_def strict_sorted_iff)

lemma sm_get_put [simp, smap_simps]: "map_of (sm_put k v m) = (map_of m)(k \<mapsto> v)"
  by (induction m rule: sm_put.induct) (auto simp: fun_eq_iff)

lemma sm_keys_put: "fst ` set (sm_put k v m) = insert k (fst ` set m)"
  by (induction k v m rule: sm_put.induct) auto

lemma sm_put_keys_le: "q \<in> set (sm_put k v m) \<Longrightarrow> fst q = k \<or> q \<in> set m"
  by (induction k v m rule: sm_put.induct) (auto split: if_splits)

lemma sm_ok_put [simp, inv_intros]: "sm_ok m \<Longrightarrow> sm_ok (sm_put k v m)"
proof (induction k v m rule: sm_put.induct)
  case (2 k v k' v' m)
  then show ?case
    by (fastforce simp: sm_ok_Cons dest: sm_put_keys_le)
qed (simp add: sm_ok_def)

lemma sm_get_del [simp, smap_simps]: "map_of (sm_del k m) = (map_of m)(k := None)"
  by (induction m) (auto simp: sm_del_def fun_eq_iff)

lemma sm_ok_filter [simp]: "sm_ok m \<Longrightarrow> sm_ok (filter P m)"
  by (induction m) (auto simp: sm_ok_Cons)

lemma sm_ok_del [simp, inv_intros]: "sm_ok m \<Longrightarrow> sm_ok (sm_del k m)"
  by (simp add: sm_del_def)

lemma sm_ok_insert [simp, inv_intros]: "sm_ok m \<Longrightarrow> sm_ok (sm_insert k v m)"
  by (simp add: sm_insert_def)

lemma sm_put_set:
  "sm_ok m \<Longrightarrow> set (sm_put k v m) = insert (k, v) {p \<in> set m. fst p \<noteq> k}"
  by (induction k v m rule: sm_put.induct) (auto simp: sm_ok_Cons)

lemma sm_get_in_set: "sm_ok m \<Longrightarrow> map_of m k = Some v \<longleftrightarrow> (k, v) \<in> set m"
  by (simp add: sm_ok_distinct)

lemma sm_ok_takeWhile [simp]: "sm_ok m \<Longrightarrow> sm_ok (takeWhile P m)"
  by (metis sm_ok_append1 takeWhile_dropWhile_id)

lemma sm_ok_append:
  "sm_ok (m @ m') \<longleftrightarrow> sm_ok m \<and> sm_ok m' \<and> (\<forall>p \<in> set m. \<forall>q \<in> set m'. fst p < fst q)"
  by (auto simp: sm_ok_def sorted_wrt_append)

lemma sm_takeWhile_filter: "sm_ok m \<Longrightarrow> takeWhile (\<lambda>p. fst p < k) m = filter (\<lambda>p. fst p < k) m"
proof (induction m)
  case (Cons p m)
  have "filter (\<lambda>q. fst q < k) m = []" if "\<not> fst p < k"
    using Cons.prems that by (auto simp: sm_ok_Cons filter_empty_conv)
  then show ?case using Cons by (auto simp: sm_ok_Cons)
qed simp

lemma sm_dropWhile_filter: "sm_ok m \<Longrightarrow> dropWhile (\<lambda>p. fst p < k) m = filter (\<lambda>p. \<not> fst p < k) m"
proof (induction m)
  case (Cons p m)
  have "filter (\<lambda>q. \<not> fst q < k) m = m" if "\<not> fst p < k"
    using Cons.prems that by (auto simp: sm_ok_Cons filter_id_conv)
  then show ?case using Cons by (auto simp: sm_ok_Cons)
qed simp

lemma sm_put_above:
  "\<forall>p \<in> set m. fst p < k \<Longrightarrow> sm_put k v m = m @ [(k, v)]"
  by (induction m) auto

lemma length_sm_put: "length (sm_put k v m) \<le> Suc (length m)"
  by (induction k v m rule: sm_put.induct) auto

lemma length_sm_put_new:
  "map_of m k = None \<Longrightarrow> length (sm_put k v m) = Suc (length m)"
  by (induction k v m rule: sm_put.induct) (auto split: if_splits)

lemma length_sm_put_old:
  "sm_ok m \<Longrightarrow> map_of m k = Some w \<Longrightarrow> length (sm_put k v m) = length m"
proof (induction k v m rule: sm_put.induct)
  case (2 k v k' v' m)
  have "k < k' \<Longrightarrow> map_of ((k', v') # m) k = None"
    using "2.prems"(1) by (auto simp: sm_ok_Cons map_of_eq_None_iff)
  then show ?case using 2 by (auto simp: sm_ok_Cons)
qed simp

text \<open>
  The container interface the components rely on. A provider gives lookup, assignment,
  erasure and the entries in iteration order; the laws say what a lookup returns after
  each operation, and that iteration is in strictly ascending key order.
\<close>

locale ordered_map =
  fixes get :: "'m \<Rightarrow> 'k::linorder \<Rightarrow> 'v option"
    and put :: "'k \<Rightarrow> 'v \<Rightarrow> 'm \<Rightarrow> 'm"
    and del :: "'k \<Rightarrow> 'm \<Rightarrow> 'm"
    and entries :: "'m \<Rightarrow> ('k \<times> 'v) list"
    and ok :: "'m \<Rightarrow> bool"
  assumes get_entries: "ok m \<Longrightarrow> get m = map_of (entries m)"
    and entries_ascending: "ok m \<Longrightarrow> sorted_wrt (<) (map fst (entries m))"
    and get_put: "ok m \<Longrightarrow> get (put k v m) = (get m)(k \<mapsto> v)"
    and get_del: "ok m \<Longrightarrow> get (del k m) = (get m)(k := None)"
    and ok_put: "ok m \<Longrightarrow> ok (put k v m)"
    and ok_del: "ok m \<Longrightarrow> ok (del k m)"
begin

lemma entries_distinct: "ok m \<Longrightarrow> distinct (map fst (entries m))"
  using entries_ascending strict_sorted_iff by blast

lemma get_iff_entry: "ok m \<Longrightarrow> get m k = Some v \<longleftrightarrow> (k, v) \<in> set (entries m)"
  by (simp add: get_entries entries_distinct)

text \<open>Counting over the iteration is counting the keys whose value satisfies the test
  (the \<open>std::count_if\<close> loops of the protocol).\<close>

lemma count_entries:
  assumes "ok m"
  shows "length (filter (\<lambda>p. P (fst p) (snd p)) (entries m))
       = card {k. \<exists>v. get m k = Some v \<and> P k v}"
proof -
  let ?F = "filter (\<lambda>p. P (fst p) (snd p)) (entries m)"
  have d: "distinct (map fst ?F)"
    using entries_distinct [OF assms] by (rule distinct_map_filter)
  have "{k. \<exists>v. get m k = Some v \<and> P k v} = set (map fst ?F)"
    by (force simp: get_iff_entry [OF assms])
  then have "card {k. \<exists>v. get m k = Some v \<and> P k v} = length (map fst ?F)"
    using d distinct_card by metis
  then show ?thesis by simp
qed

lemma keys_of_entries: "ok m \<Longrightarrow> dom (get m) = fst ` set (entries m)"
  by (simp add: get_entries dom_map_of_conv_image_fst)

lemma length_entries: "ok m \<Longrightarrow> length (entries m) = card (dom (get m))"
  using count_entries [of m "\<lambda>_ _. True"] by (simp add: dom_def)

text \<open>The iteration order is a function of the content alone: two replicas that hold the
  same bindings iterate over them alike.\<close>

lemma entries_unique:
  assumes "ok m" and "ok m'" and "get m = get m'"
  shows "entries m = entries m'"
proof -
  have keys: "map fst (entries m) = map fst (entries m')"
  proof (rule strict_sorted_equal [OF entries_ascending [OF assms(2)]
        entries_ascending [OF assms(1)]])
    show "set (map fst (entries m)) = set (map fst (entries m'))"
      using assms by (simp add: keys_of_entries [symmetric])
  qed
  have "entries m = map (\<lambda>k. (k, the (get m k))) (map fst (entries m))"
    using get_iff_entry [OF assms(1)] by (auto simp: comp_def intro!: nth_equalityI)
       (metis nth_mem option.sel prod.collapse)
  moreover have "entries m' = map (\<lambda>k. (k, the (get m' k))) (map fst (entries m'))"
    using get_iff_entry [OF assms(2)] by (auto simp: comp_def intro!: nth_equalityI)
       (metis nth_mem option.sel prod.collapse)
  ultimately show ?thesis using keys assms(3) by simp
qed

end

interpretation smap: ordered_map
  "\<lambda>m. map_of m" sm_put sm_del "\<lambda>m. m" sm_ok
  by unfold_locales (auto simp: sm_ok_def [symmetric])

end
