(* ===== verification/Config.thy ===== *)
theory Config
  imports Prelude
begin

text \<open>
  The configuration singleton \<open>ConfigManager\<close> (\<open>lib/config/config_manager.h\<close> and
  \<open>.cc\<close>): the fields of \<open>ProcessConfig\<close> that the protocol reads, the derived sizes
  (number of replicas, quorum, super quorum) and the quorum arithmetic that the protocol
  rests on. Addresses, ports and key directories are not modelled; the vectors of
  addresses are modelled by their lengths.
\<close>

text \<open>\<open>struct ProcessConfig\<close>: \<open>replicaIps\<close>, \<open>clientIps\<close> and \<open>proxyIps\<close> as their sizes;
  the timeouts are C++ \<open>int\<close>, which the code converts to \<open>uint64_t\<close>.\<close>

datatype preserialization = PS_Disabled | PS_Full | PS_Order

record process_config =
  cfg_f :: u32
  cfg_e :: u32
  cfg_replicaIps_size :: nat
  cfg_clientIps_size :: nat
  cfg_proxyIps_size :: nat
  cfg_clientNormalPathEnabled :: bool
  cfg_clientSendProofs :: bool
  cfg_replicaCheckpointTimeout :: u64
  cfg_replicaRepairViewTimeout :: u64
  cfg_replicaCheckpointInterval :: u32
  cfg_replicaSnapshotInterval :: u32
  cfg_replicaIncludeFullRequests :: bool
  cfg_replicaSkipAlignment :: bool
  cfg_preserializationMode :: preserialization

record config_manager =
  cm_config :: process_config
  cm_numReplicas :: u32
  cm_numClients :: u32
  cm_numProxies :: u32
  cm_quorumSize :: u32
  cm_superQuorumSize :: u32

text \<open>\<open>ConfigManager::calculateDerivedValues\<close>: 32-bit arithmetic, and an assertion
  that the number of replicas is \<open>3f + 2e + 1\<close>. The comparison of the assertion is
  between 32-bit values.\<close>

definition calculateDerivedValues :: "process_config \<Rightarrow> config_manager res" where
  "calculateDerivedValues c =
     (let m = \<lparr> cm_config = c,
                cm_numReplicas = of_nat (cfg_replicaIps_size c),
                cm_numClients = of_nat (cfg_clientIps_size c),
                cm_numProxies = of_nat (cfg_proxyIps_size c),
                cm_quorumSize = 2 * cfg_f c + 2 * cfg_e c + 1,
                cm_superQuorumSize = 3 * cfg_f c + cfg_e c + 1 \<rparr>
      in if cm_numReplicas m = 3 * cfg_f c + 2 * cfg_e c + 1 then Inr m else Inl AssertFailed)"

text \<open>Accessors under the names the code uses.\<close>

definition getF :: "config_manager \<Rightarrow> nat" where
  "getF m = unat (cfg_f (cm_config m))"

definition getE :: "config_manager \<Rightarrow> nat" where
  "getE m = unat (cfg_e (cm_config m))"

definition getNumReplicas :: "config_manager \<Rightarrow> nat" where
  "getNumReplicas m = unat (cm_numReplicas m)"

definition getQuorumSize :: "config_manager \<Rightarrow> nat" where
  "getQuorumSize m = unat (cm_quorumSize m)"

definition getSuperQuorumSize :: "config_manager \<Rightarrow> nat" where
  "getSuperQuorumSize m = unat (cm_superQuorumSize m)"

text \<open>A manager that the initialisation produced from a configuration whose fault
  bounds do not overflow 32 bits.\<close>

definition cm_valid :: "config_manager \<Rightarrow> bool" where
  "cm_valid m \<longleftrightarrow> calculateDerivedValues (cm_config m) = Inr m \<and> 3 * getF m + 2 * getE m + 1 < 2 ^ 32"

lemma unat_u32_eqI:
  assumes "w = (of_nat n :: u32)" and "n < 2 ^ 32"
  shows "unat w = n"
  using assms by (simp add: unat_of_nat)

lemma cm_valid_sizes:
  assumes "cm_valid m"
  shows "getNumReplicas m = 3 * getF m + 2 * getE m + 1"
    and "getQuorumSize m = 2 * getF m + 2 * getE m + 1"
    and "getSuperQuorumSize m = 3 * getF m + getE m + 1"
proof -
  let ?c = "cm_config m"
  from assms have eq: "calculateDerivedValues ?c = Inr m"
    and small: "3 * getF m + 2 * getE m + 1 < 2 ^ 32"
    by (simp_all add: cm_valid_def)
  have f: "cfg_f ?c = of_nat (getF m)" and e: "cfg_e ?c = of_nat (getE m)"
    by (simp_all add: getF_def getE_def)
  have m: "cm_numReplicas m = 3 * cfg_f ?c + 2 * cfg_e ?c + 1"
      "cm_quorumSize m = 2 * cfg_f ?c + 2 * cfg_e ?c + 1"
      "cm_superQuorumSize m = 3 * cfg_f ?c + cfg_e ?c + 1"
    using eq by (auto simp: calculateDerivedValues_def Let_def split: if_splits)
      (metis config_manager.select_convs)+
  show "getNumReplicas m = 3 * getF m + 2 * getE m + 1"
    unfolding getNumReplicas_def using m(1) small
    by (intro unat_u32_eqI) (simp_all add: f e)
  show "getQuorumSize m = 2 * getF m + 2 * getE m + 1"
    unfolding getQuorumSize_def using m(2) small
    by (intro unat_u32_eqI) (simp_all add: f e)
  show "getSuperQuorumSize m = 3 * getF m + getE m + 1"
    unfolding getSuperQuorumSize_def using m(3) small
    by (intro unat_u32_eqI) (simp_all add: f e)
qed

section \<open>Quorum arithmetic\<close>

lemma card_Int_lower:
  assumes "finite R" and "A \<subseteq> R" and "B \<subseteq> R"
  shows "card A + card B \<le> card R + card (A \<inter> B)"
proof -
  have "finite A" "finite B" using assms finite_subset by auto
  then have "card A + card B = card (A \<union> B) + card (A \<inter> B)" by (rule card_Un_Int)
  moreover have "card (A \<union> B) \<le> card R" using assms by (intro card_mono) auto
  ultimately show ?thesis by simp
qed

text \<open>
  The contract between the configuration and the protocol: the sizes of a valid
  configuration. The lemmas are the intersection facts that the commit, repair and view
  change rules rely on; \<open>R\<close> is the set of replicas and \<open>B\<close> the faulty ones.
\<close>

locale quorum_sizes =
  fixes valid :: "'c \<Rightarrow> bool"
    and n :: "'c \<Rightarrow> nat" and f :: "'c \<Rightarrow> nat" and e :: "'c \<Rightarrow> nat"
    and q :: "'c \<Rightarrow> nat" and s :: "'c \<Rightarrow> nat"
  assumes total: "valid c \<Longrightarrow> n c = 3 * f c + 2 * e c + 1"
    and quorum: "valid c \<Longrightarrow> q c = 2 * f c + 2 * e c + 1"
    and super: "valid c \<Longrightarrow> s c = 3 * f c + e c + 1"
begin

lemma quorums_intersect:
  assumes "valid c" "finite R" "card R = n c" "A \<subseteq> R" "A' \<subseteq> R" "q c \<le> card A" "q c \<le> card A'"
  shows "f c + 2 * e c + 1 \<le> card (A \<inter> A')"
  using card_Int_lower [of R A A'] assms total [of c] quorum [of c] by simp

lemma honest_in_intersection:
  assumes "finite A" "card B \<le> f c" "finite B" "f c + k \<le> card A"
  shows "k \<le> card (A - B)"
proof -
  have "card A - card B \<le> card (A - B)" using assms by (intro diff_card_le_card_Diff) simp
  then show ?thesis using assms by simp
qed

lemma quorums_share_honest:
  assumes "valid c" "finite R" "card R = n c" "A \<subseteq> R" "A' \<subseteq> R" "q c \<le> card A" "q c \<le> card A'"
    and "finite B" "card B \<le> f c"
  shows "A \<inter> A' - B \<noteq> {}"
proof -
  have fin: "finite (A \<inter> A')" using assms finite_subset by blast
  have "f c + 1 \<le> card (A \<inter> A')" using quorums_intersect [OF assms(1-7)] by simp
  then have "1 \<le> card (A \<inter> A' - B)"
    by (intro honest_in_intersection) (use assms fin in auto)
  then show ?thesis by (metis card.empty not_one_le_zero)
qed

text \<open>A super quorum meets every quorum in at least \<open>f + e + 1\<close> honest replicas, the
  threshold of the repair procedure.\<close>

lemma super_meets_quorum:
  assumes "valid c" "finite R" "card R = n c" "A \<subseteq> R" "A' \<subseteq> R" "s c \<le> card A" "q c \<le> card A'"
    and "finite B" "card B \<le> f c"
  shows "f c + e c + 1 \<le> card (A \<inter> A' - B)"
proof -
  have fin: "finite (A \<inter> A')" using assms finite_subset by blast
  have "f c + (f c + e c + 1) \<le> card (A \<inter> A')"
    using card_Int_lower [of R A A'] assms total [of c] quorum [of c] super [of c] by simp
  then show ?thesis by (intro honest_in_intersection) (use assms fin in auto)
qed

text \<open>Within one quorum of votes, two disjoint groups cannot both reach \<open>f + e + 1\<close>.\<close>

lemma threshold_unique:
  assumes "valid c" "finite V" "card V = q c" "A \<subseteq> V" "A' \<subseteq> V"
    and "f c + e c + 1 \<le> card A" "f c + e c + 1 \<le> card A'"
  shows "A \<inter> A' \<noteq> {}"
proof
  assume "A \<inter> A' = {}"
  then show False
    using card_Int_lower [of V A A'] assms quorum [of c] by simp
qed

end

interpretation cm: quorum_sizes cm_valid getNumReplicas getF getE getQuorumSize getSuperQuorumSize
  by unfold_locales (simp_all add: cm_valid_sizes)

text \<open>A configuration of four replicas (\<open>f = 1\<close>, \<open>e = 0\<close>), for the witnesses.\<close>

definition demo_config :: config_manager where
  "demo_config =
     \<lparr>cm_config = \<lparr>cfg_f = 1, cfg_e = 0, cfg_replicaIps_size = 4, cfg_clientIps_size = 1,
        cfg_proxyIps_size = 1, cfg_clientNormalPathEnabled = True, cfg_clientSendProofs = False,
        cfg_replicaCheckpointTimeout = 0, cfg_replicaRepairViewTimeout = 0,
        cfg_replicaCheckpointInterval = 10, cfg_replicaSnapshotInterval = 100,
        cfg_replicaIncludeFullRequests = False, cfg_replicaSkipAlignment = False,
        cfg_preserializationMode = PS_Disabled\<rparr>,
      cm_numReplicas = 4, cm_numClients = 1, cm_numProxies = 1, cm_quorumSize = 3,
      cm_superQuorumSize = 4\<rparr>"

lemma demo_config_valid: "cm_valid demo_config"
  by (simp add: cm_valid_def demo_config_def calculateDerivedValues_def getF_def getE_def Let_def)

lemma demo_config_sizes [simp]:
  "getF demo_config = 1" "getE demo_config = 0" "getNumReplicas demo_config = 4"
  "getQuorumSize demo_config = 3" "getSuperQuorumSize demo_config = 4"
  by (simp_all add: demo_config_def getF_def getE_def getNumReplicas_def getQuorumSize_def getSuperQuorumSize_def)

section \<open>Properties\<close>

text \<open>With the sizes the configuration derives, any two quorums of replicas share a correct one,
  as long as at most \<open>f\<close> replicas are faulty.\<close>

theorem config_quorums_share_correct:
  assumes "cm_valid m" and "finite R" and "card R = getNumReplicas m"
    and "A \<subseteq> R" and "A' \<subseteq> R" and "getQuorumSize m \<le> card A" and "getQuorumSize m \<le> card A'"
    and "finite B" and "card B \<le> getF m"
  shows "A \<inter> A' - B \<noteq> {}"
  using assms by (rule cm.quorums_share_honest)

theorem config_quorums_share_correct_witness:
  "{0, 1, 2} \<inter> {1, 2, 3} - {1 :: nat} \<noteq> {}"
  by (rule config_quorums_share_correct [OF demo_config_valid, of "{0, 1, 2, 3}"]) (simp_all add: card_insert_if)

text \<open>A fast-path commit survives a repair: the replicas that took part in it and whose logs are
  in the repair's quorum include at least \<open>f + e + 1\<close> correct ones, the threshold at which the
  repair keeps an entry; and within a quorum of logs only one value can reach that threshold.\<close>

theorem config_fast_path_survives_repair:
  assumes "cm_valid m" and "finite R" and "card R = getNumReplicas m"
    and "A \<subseteq> R" and "V \<subseteq> R" and "getSuperQuorumSize m \<le> card A" and "card V = getQuorumSize m"
    and "finite B" and "card B \<le> getF m"
  shows "getF m + getE m + 1 \<le> card (A \<inter> V - B) \<and>
    (\<forall>X. X \<subseteq> V \<and> getF m + getE m + 1 \<le> card X \<longrightarrow> X \<inter> (A \<inter> V - B) \<noteq> {})"
proof (intro conjI allI impI)
  show meet: "getF m + getE m + 1 \<le> card (A \<inter> V - B)"
    using assms by (intro cm.super_meets_quorum [where R = R]) simp_all
  fix X assume X: "X \<subseteq> V \<and> getF m + getE m + 1 \<le> card X"
  have "finite V" using assms(2,5) finite_subset by blast
  then show "X \<inter> (A \<inter> V - B) \<noteq> {}"
    using assms(1,7) X meet by (intro cm.threshold_unique [where V = V]) auto
qed

theorem config_fast_path_survives_repair_witness:
  "2 \<le> card ({0, 1, 2, 3} \<inter> {1, 2, 3} - {1 :: nat})"
proof -
  have "getF demo_config + getE demo_config + 1 \<le> card ({0, 1, 2, 3} \<inter> {1, 2, 3} - {1 :: nat})"
    by (rule config_fast_path_survives_repair [OF demo_config_valid, of "{0, 1, 2, 3}", THEN conjunct1])
      (simp_all add: card_insert_if)
  then show ?thesis by simp
qed

end
