(* ===== verification/Messages.thy ===== *)
theory Messages
  imports Prelude
begin

text \<open>
  The protocol messages of \<open>proto/dombft_proto.proto\<close> as records, field by field, in the
  order of the file. A \<open>repeated\<close> field is a list, an \<open>optional\<close> one an \<open>option\<close>; a field
  without presence is a plain value. Parsing and serialisation are done by generated code
  that is not part of the repository, so no definition here gives their bytes: the
  components that need them take them as parameters.
\<close>

text \<open>The getter of an \<open>optional bytes\<close> field: the empty string when it is absent.\<close>

definition bytes_or_empty :: "bytes option \<Rightarrow> bytes" where
  "bytes_or_empty x = (case x of None \<Rightarrow> [] | Some b \<Rightarrow> b)"

lemma bytes_or_empty_simps [simp]:
  "bytes_or_empty None = []"
  "bytes_or_empty (Some b) = b"
  by (simp_all add: bytes_or_empty_def)

record padded_request_data =
  prd_req_data :: bytes
  prd_padding :: bytes

text \<open>The protobuf message \<open>ClientRequest\<close>.\<close>

record client_request =
  crq_client_id :: u32
  crq_client_seq :: u32
  crq_send_time :: u64
  crq_deadline :: u64
  crq_is_write :: bool
  crq_req_data :: bytes

record dom_request =
  dom_deadline :: u64
  dom_send_time :: u64
  dom_proxy_id :: u32
  dom_late :: bool
  dom_deadline_set_size :: u32
  dom_client_id :: u32
  dom_client_seq :: u32
  dom_client_req :: bytes

record dom_batch_request =
  dbr_send_time :: u64
  dbr_proxy_id :: u32
  dbr_requests :: "dom_request list"

text \<open>\<open>owd\<close> is a 32-bit signed number: its bits, read by \<open>sint\<close>.\<close>

record measurement_reply =
  mr_receiver_id :: u32
  mr_owd :: u32
  mr_send_time :: u64

record reply =
  rep_client_id :: u32
  rep_client_seq :: u32
  rep_round :: u32
  rep_seq :: u32
  rep_replica_id :: u32
  rep_result :: bytes
  rep_digest :: bytes
  rep_queued :: bool

record cert =
  cert_seq :: u32
  cert_round :: u32
  cert_replies :: "reply list"
  cert_signatures :: "bytes list"

record cert_reply =
  crp_replica_id :: u32
  crp_client_id :: u32
  crp_client_seq :: u32
  crp_round :: u32
  crp_seq :: u32

text \<open>The protobuf messages \<open>ClientSequence\<close> and \<open>ClientRecord\<close>.\<close>

record client_sequence_pb =
  csp_client_id :: u32
  csp_last_seq :: u32
  csp_missed_seqs :: "u32 list"

record client_record_pb =
  crpb_digest :: bytes
  crpb_sequences :: "client_sequence_pb list"

record commit_msg =
  com_replica_id :: u32
  com_round :: u32
  com_seq :: u32
  com_log_digest :: bytes
  com_app_digest :: "bytes option"
  com_client_record :: client_record_pb

record repair_timeout =
  rt_replica_id :: u32
  rt_round :: u32
  rt_view :: u32
  rt_seq :: u32

record repair_timeout_proof =
  rtp_replica_id :: u32
  rtp_round :: u32
  rtp_view :: u32
  rtp_timeouts :: "repair_timeout list"
  rtp_signatures :: "bytes list"

record repair_reply_proof =
  rrp_replica_id :: u32
  rrp_round :: u32
  rrp_view :: u32
  rrp_replies :: "reply list"
  rrp_signatures :: "bytes list"

text \<open>The protobuf message \<open>LogEntry\<close>.\<close>

record log_entry_pb =
  lep_seq :: u32
  lep_client_id :: u32
  lep_client_seq :: u32
  lep_digest :: bytes
  lep_request :: "bytes option"
  lep_request_digest :: bytes

record pbft_prepare =
  prep_round :: u32
  prep_replica_id :: u32
  prep_pbft_view :: u32
  prep_proposal_digest :: bytes
  prep_log_digest :: bytes

record pbft_commit =
  pc_round :: u32
  pc_replica_id :: u32
  pc_pbft_view :: u32
  pc_proposal_digest :: bytes
  pc_log_digest :: bytes

text \<open>The protobuf message \<open>LogCheckpoint\<close>.\<close>

record log_checkpoint_pb =
  lcp_seq :: u32
  lcp_log_digest :: bytes
  lcp_app_digest :: "bytes option"
  lcp_commits :: "commit_msg list"
  lcp_commit_sigs :: "bytes list"
  lcp_repair_commits :: "pbft_commit list"
  lcp_repair_commit_sigs :: "bytes list"
  lcp_client_record :: client_record_pb

record repair_log =
  rl_entries :: "log_entry_pb list"
  rl_checkpoint :: log_checkpoint_pb
  rl_cert :: "cert option"

record prepared_history =
  ph_prepares :: "pbft_prepare list"
  ph_prepare_sigs :: "bytes list"

text \<open>\<open>RepairStart.log\<close> is a message field, so its presence is tracked: \<open>None\<close> when unset.\<close>

record repair_start =
  rs_pbft_view :: u32
  rs_round :: u32
  rs_replica_id :: u32
  rs_log :: "repair_log option"
  rs_prepared_history :: "prepared_history option"

record repair_proposal =
  rpr_round :: u32
  rpr_view :: u32
  rpr_replica_id :: u32
  rpr_start_msgs :: "repair_start list"
  rpr_signatures :: "bytes list"

record committed_reply =
  cr_replica_id :: u32
  cr_client_id :: u32
  cr_client_seq :: u32
  cr_seq :: u32
  cr_result :: bytes
  cr_is_repair :: bool

record repair_summary =
  sum_round :: u32
  sum_replica_id :: u32
  sum_replies :: "committed_reply list"
  sum_pbft_view :: u32
  sum_committed_seqs :: client_sequence_pb

record pbft_preprepare =
  pp_round :: u32
  pp_primary_id :: u32
  pp_pbft_view :: u32
  pp_proposal :: repair_proposal
  pp_proposal_digest :: bytes

record view_update =
  vu_round :: u32
  vu_replica_id :: u32
  vu_view :: u32

record snapshot_request =
  srq_round :: u32
  srq_seq :: u32
  srq_replica_id :: u32
  srq_last_checkpoint_seq :: u32
  srq_for_repair :: bool

record snapshot_reply =
  srp_round :: u32
  srp_seq :: u32
  srp_replica_id :: u32
  srp_checkpoint :: log_checkpoint_pb
  srp_log_entries :: "log_entry_pb list"
  srp_snapshot_checkpoint :: "log_checkpoint_pb option"
  srp_snapshot :: "bytes option"

text \<open>\<open>RequestIdPair\<close> is the pair of client id and client sequence number.\<close>

type_synonym request_id = "u32 \<times> u32"

record missing_request_fetch =
  mrf_round :: u32
  mrf_replica_id :: u32
  mrf_request_ids :: "request_id list"

record request_data =
  rd_client_id :: u32
  rd_client_seq :: u32
  rd_request :: bytes

record missing_request_reply =
  mrr_round :: u32
  mrr_replica_id :: u32
  mrr_requests :: "request_data list"

record ps_leader_forward =
  psf_seq :: u32
  psf_request :: client_request
  psf_client_signature :: bytes

record ps_leader_order =
  pso_client_id :: u32
  pso_client_seq :: u32
  pso_seq :: u32

text \<open>Default instances (proto3: zero and empty).\<close>

definition empty_client_record_pb :: client_record_pb where
  "empty_client_record_pb = \<lparr>crpb_digest = [], crpb_sequences = []\<rparr>"

definition empty_checkpoint_pb :: log_checkpoint_pb where
  "empty_checkpoint_pb =
     \<lparr>lcp_seq = 0, lcp_log_digest = [], lcp_app_digest = None, lcp_commits = [],
      lcp_commit_sigs = [], lcp_repair_commits = [], lcp_repair_commit_sigs = [],
      lcp_client_record = empty_client_record_pb\<rparr>"

definition empty_repair_log :: repair_log where
  "empty_repair_log = \<lparr>rl_entries = [], rl_checkpoint = empty_checkpoint_pb, rl_cert = None\<rparr>"

text \<open>\<open>msg.log()\<close>: the default instance when the field is unset.\<close>

definition rs_log_of :: "repair_start \<Rightarrow> repair_log" where
  "rs_log_of m = (case rs_log m of None \<Rightarrow> empty_repair_log | Some l \<Rightarrow> l)"

definition empty_proposal :: repair_proposal where
  "empty_proposal =
     \<lparr>rpr_round = 0, rpr_view = 0, rpr_replica_id = 0, rpr_start_msgs = [], rpr_signatures = []\<rparr>"

text \<open>Replies that differ in replica and round only, for the witnesses.\<close>

definition demo_reply :: "u32 \<Rightarrow> u32 \<Rightarrow> reply" where
  "demo_reply i rd =
     \<lparr>rep_client_id = 7, rep_client_seq = 1, rep_round = rd, rep_seq = 5, rep_replica_id = i,
      rep_result = [1], rep_digest = [2], rep_queued = False\<rparr>"

end
