(* ===== verification/ClientRecord.thy ===== *)
theory ClientRecord
  imports Messages
begin

text \<open>
  \<open>lib/client_record.h\<close> and \<open>lib/client_record.cc\<close>: per client, the highest sequence number
  seen and the set of those below it that were skipped (\<open>ClientSequence\<close>), and the map from
  client to such a sequence (\<open>ClientRecord\<close>). The log uses it to drop duplicates, the
  checkpoints carry it, and the digest of it is part of what replicas agree on.
  \<open>seen\<close> is the abstract state of a sequence: the set of numbers already accepted.
\<close>

section \<open>ClientSequence\<close>

record client_sequence =
  lastSeq :: u32
  missedSeqs :: "u32 set"

definition empty_sequence :: client_sequence where
  "empty_sequence = \<lparr>lastSeq = 0, missedSeqs = {}\<rparr>"

text \<open>The converting constructor from the protobuf message.\<close>

definition sequence_of_pb :: "client_sequence_pb \<Rightarrow> client_sequence" where
  "sequence_of_pb p = \<lparr>lastSeq = csp_last_seq p, missedSeqs = set (csp_missed_seqs p)\<rparr>"

definition seq_contains :: "client_sequence \<Rightarrow> u32 \<Rightarrow> bool" where
  "seq_contains q s = (s \<le> lastSeq q \<and> s \<notin> missedSeqs q)"

text \<open>The loop \<open>for (i = lastSeq_ + 1; i < newSeq; i++) missedSeqs_.insert(i)\<close>.\<close>

function insert_range :: "u32 \<Rightarrow> u32 \<Rightarrow> u32 set \<Rightarrow> u32 set" where
  "insert_range i n S = (if i < n then insert_range (i + 1) n (insert i S) else S)"
  by pat_completeness auto
termination
proof (relation "measure (\<lambda>(i, n, S). unat n - unat i)")
  fix i n :: u32 and S :: "u32 set"
  assume "i < n"
  then show "((i + 1, n, insert i S), i, n, S) \<in> measure (\<lambda>(i, n, S). unat n - unat i)"
    by (simp add: unat_Suc_less word_less_nat_alt)
qed simp

declare insert_range.simps [simp del]

definition seq_update :: "u32 \<Rightarrow> client_sequence \<Rightarrow> bool \<times> client_sequence" where
  "seq_update newSeq q =
     (if lastSeq q < newSeq then
        (True, q\<lparr>missedSeqs := insert_range (lastSeq q + 1) newSeq (missedSeqs q),
                 lastSeq := newSeq\<rparr>)
      else if newSeq \<in> missedSeqs q then
        (True, q\<lparr>missedSeqs := missedSeqs q - {newSeq}\<rparr>)
      else (False, q))"

text \<open>\<open>lastSeq_ - missedSeqs_.size()\<close>, truncated to 32 bits.\<close>

definition seq_size :: "client_sequence \<Rightarrow> u32" where
  "seq_size q = lastSeq q - of_nat (card (missedSeqs q))"

text \<open>\<open>ClientSequence::numMissing\<close>: the distance to \<open>upper_bound(reference.lastSeq_)\<close> in the
  set difference, plus the difference of the last numbers.\<close>

definition seq_numMissing :: "client_sequence \<Rightarrow> client_sequence \<Rightarrow> u32" where
  "seq_numMissing q r =
     (let myMissed = missedSeqs q - missedSeqs r;
          ret = of_nat (card (Set.filter (\<lambda>s. s \<le> lastSeq r) myMissed))
      in if lastSeq q < lastSeq r then ret + (lastSeq r - lastSeq q) else ret)"

section \<open>ClientRecord\<close>

type_synonym client_record = "(u32, client_sequence) smap"

definition rec_contains :: "client_record \<Rightarrow> u32 \<Rightarrow> u32 \<Rightarrow> bool" where
  "rec_contains r c s = (sm_has c r \<and> seq_contains (sm_at empty_sequence r c) s)"

text \<open>\<open>sequences[clientId].update(seq)\<close>: the map access inserts an empty sequence first.\<close>

definition rec_update :: "u32 \<Rightarrow> u32 \<Rightarrow> client_record \<Rightarrow> bool \<times> client_record" where
  "rec_update c s r =
     (let (b, q) = seq_update s (sm_at empty_sequence r c) in (b, sm_put c q r))"

text \<open>The bytes of a \<open>uint32_t\<close> in memory, on the little-endian hosts the code runs on.\<close>

definition le32 :: "u32 \<Rightarrow> bytes" where
  "le32 w = [ucast w, ucast (drop_bit 8 w), ucast (drop_bit 16 w), ucast (drop_bit 24 w)]"

text \<open>The input of the hash in \<open>ClientRecord::digest\<close>: successive updates hash the
  concatenation; the set is iterated in ascending order.\<close>

definition sequence_bytes :: "u32 \<Rightarrow> client_sequence \<Rightarrow> bytes" where
  "sequence_bytes c q =
     le32 c @ le32 (lastSeq q) @ concat (map le32 (sorted_list_of_set (missedSeqs q)))"

definition rec_bytes :: "client_record \<Rightarrow> bytes" where
  "rec_bytes r = concat (map (\<lambda>(c, q). sequence_bytes c q) r)"

definition rec_digest :: "(bytes \<Rightarrow> bytes) \<Rightarrow> client_record \<Rightarrow> bytes" where
  "rec_digest sha r = sha (rec_bytes r)"

definition sequence_to_pb :: "u32 \<Rightarrow> client_sequence \<Rightarrow> client_sequence_pb" where
  "sequence_to_pb c q =
     \<lparr>csp_client_id = c, csp_last_seq = lastSeq q,
      csp_missed_seqs = sorted_list_of_set (missedSeqs q)\<rparr>"

definition rec_toProto :: "(bytes \<Rightarrow> bytes) \<Rightarrow> client_record \<Rightarrow> client_record_pb" where
  "rec_toProto sha r =
     \<lparr>crpb_digest = rec_digest sha r, crpb_sequences = map (\<lambda>(c, q). sequence_to_pb c q) r\<rparr>"

text \<open>\<open>toProtoSingleClient\<close> leaves the message as it is when the client is unknown.\<close>

definition rec_toProtoSingleClient ::
  "client_record \<Rightarrow> u32 \<Rightarrow> client_sequence_pb \<Rightarrow> client_sequence_pb" where
  "rec_toProtoSingleClient r c p =
     (if \<not> sm_has c r then p
      else let q = sm_at empty_sequence r c
           in p\<lparr>csp_client_id := c, csp_last_seq := lastSeq q,
                csp_missed_seqs := csp_missed_seqs p @ sorted_list_of_set (missedSeqs q)\<rparr>)"

text \<open>The constructor from the protobuf message: a repeated client id overwrites the last
  number and adds to the set.\<close>

definition rec_add_pb :: "client_sequence_pb \<Rightarrow> client_record \<Rightarrow> client_record" where
  "rec_add_pb p r =
     (let q = sm_at empty_sequence r (csp_client_id p)
      in sm_put (csp_client_id p)
           (q\<lparr>lastSeq := csp_last_seq p,
             missedSeqs := missedSeqs q \<union> set (csp_missed_seqs p)\<rparr>) r)"

definition rec_of_pb :: "client_record_pb \<Rightarrow> client_record" where
  "rec_of_pb p = fold rec_add_pb (crpb_sequences p) []"

definition rec_numMissing :: "client_record \<Rightarrow> client_record \<Rightarrow> u32" where
  "rec_numMissing r ref =
     fold (\<lambda>(c, q) ret.
        if \<not> sm_has c r then ret + seq_size q
        else ret + seq_numMissing (sm_at empty_sequence r c) q) ref 0"

section \<open>Well-formed sequences and their abstract state\<close>

definition seq_wf :: "client_sequence \<Rightarrow> bool" where
  "seq_wf q \<longleftrightarrow> (\<forall>s \<in> missedSeqs q. 0 < s \<and> s < lastSeq q)"

definition seen :: "client_sequence \<Rightarrow> u32 set" where
  "seen q = {s. seq_contains q s}"

definition rec_wf :: "client_record \<Rightarrow> bool" where
  "rec_wf r \<longleftrightarrow> sm_ok r \<and> (\<forall>p \<in> set r. seq_wf (snd p))"

text \<open>The set of (client, sequence number) pairs a record has accepted.\<close>

definition rec_seen :: "client_record \<Rightarrow> request_id set" where
  "rec_seen r = {(c, s). rec_contains r c s}"

text \<open>A history of updates, with the verdicts of the calls.\<close>

fun rec_updates :: "request_id list \<Rightarrow> client_record \<Rightarrow> bool list \<times> client_record" where
  "rec_updates [] r = ([], r)"
| "rec_updates ((c, s) # xs) r =
     (let (b, r1) = rec_update c s r; (bs, r2) = rec_updates xs r1 in (b # bs, r2))"

section \<open>Lemmas on sequences\<close>

lemma insert_range_eq: "insert_range i n S = S \<union> {i..<n}"
proof (induction i n S rule: insert_range.induct)
  case (1 i n S)
  then show ?case
    by (subst insert_range.simps) (simp add: atLeastLessThan_word_Suc)
qed

lemma seq_wf_empty [simp, inv_intros]: "seq_wf empty_sequence"
  by (simp add: seq_wf_def empty_sequence_def)

lemma seq_contains_empty [simp]: "seq_contains empty_sequence s \<longleftrightarrow> s = 0"
  by (simp add: seq_contains_def empty_sequence_def)

lemma seen_empty: "seen empty_sequence = {0}"
  by (simp add: seen_def)

lemma seq_update_wf [inv_intros]: "seq_wf q \<Longrightarrow> seq_wf (snd (seq_update s q))"
  by (auto simp: seq_update_def seq_wf_def insert_range_eq word_Suc_le_iff
      intro: less_trans le_less_trans [OF word_zero_le])

lemma seq_update_accepts: "fst (seq_update s q) \<longleftrightarrow> (lastSeq q < s \<or> s \<in> missedSeqs q)"
  by (simp add: seq_update_def)

lemma seq_update_verdict: "seq_wf q \<Longrightarrow> fst (seq_update s q) \<longleftrightarrow> \<not> seq_contains q s"
  by (auto simp: seq_update_accepts seq_contains_def seq_wf_def)

lemma seq_contains_update:
  "seq_wf q \<Longrightarrow> seq_contains (snd (seq_update s q)) t \<longleftrightarrow> t = s \<or> seq_contains q t"
  by (auto simp: seq_update_def seq_contains_def seq_wf_def insert_range_eq word_Suc_le_iff)

lemma seen_update: "seq_wf q \<Longrightarrow> seen (snd (seq_update s q)) = insert s (seen q)"
  by (auto simp: seen_def seq_contains_update)


text \<open>Counting the numbers of the reference that are missing here.\<close>

lemma seen_diff_split:
  assumes "seq_wf q" and "seq_wf r"
  shows "seen r - seen q =
     {s \<in> missedSeqs q - missedSeqs r. s \<le> lastSeq r} \<union> ({lastSeq q<..lastSeq r} - missedSeqs r)"
  using assms by (auto simp: seen_def seq_contains_def seq_wf_def)

lemma card_missing_le:
  assumes "seq_wf q"
  shows "card {s \<in> missedSeqs q - M. s \<le> b} \<le> unat (lastSeq q)"
proof -
  have "{s \<in> missedSeqs q - M. s \<le> b} \<subseteq> {0<..lastSeq q}"
    using assms by (auto simp: seq_wf_def)
  then have "card {s \<in> missedSeqs q - M. s \<le> b} \<le> card {0<..lastSeq q}"
    by (intro card_mono) auto
  then show ?thesis by (simp add: card_greaterThanAtMost_word)
qed

lemma seq_numMissing_count:
  assumes "seq_wf q" and "seq_wf r"
  shows "unat (seq_numMissing q r) =
     card (seen r - seen q) + card (missedSeqs r \<inter> {lastSeq q<..})"
proof -
  let ?A = "{s \<in> missedSeqs q - missedSeqs r. s \<le> lastSeq r}"
  let ?I = "{lastSeq q<..lastSeq r}"
  have gaps: "missedSeqs r \<inter> {lastSeq q<..} = ?I \<inter> missedSeqs r"
    using assms(2) by (auto simp: seq_wf_def)
  have "?A \<inter> (?I - missedSeqs r) = {}"
    using assms(1) by (auto simp: seq_wf_def)
  then have "card (seen r - seen q) = card ?A + card (?I - missedSeqs r)"
    by (simp add: seen_diff_split [OF assms] card_Un_disjoint)
  moreover have "card (?I - missedSeqs r) + card (?I \<inter> missedSeqs r) = card ?I"
    by (metis add.commute card_Int_Diff finite)
  ultimately have total: "card (seen r - seen q) + card (missedSeqs r \<inter> {lastSeq q<..})
      = card ?A + (unat (lastSeq r) - unat (lastSeq q))"
    by (simp add: gaps card_greaterThanAtMost_word)
  have A: "card ?A \<le> unat (lastSeq q)" by (rule card_missing_le [OF assms(1)])
  have last: "unat (lastSeq q) < 2 ^ 32" "unat (lastSeq r) < 2 ^ 32"
    using unsigned_less [of "lastSeq q"] unsigned_less [of "lastSeq r"] by simp_all
  have filter_A: "Set.filter (\<lambda>s. s \<le> lastSeq r) (missedSeqs q - missedSeqs r) = ?A"
    by auto
  show ?thesis
  proof (cases "lastSeq q < lastSeq r")
    case True
    then have lt: "unat (lastSeq q) < unat (lastSeq r)" by (simp add: word_less_nat_alt)
    have "lastSeq q \<le> lastSeq r" using True by simp
    then have "unat (lastSeq r - lastSeq q) = unat (lastSeq r) - unat (lastSeq q)"
      by (simp add: word_le_nat_alt unat_sub)
    with True A last lt show ?thesis
      unfolding total by (simp add: seq_numMissing_def filter_A unat_word_ariths unat_of_nat)
  next
    case False
    then have "unat (lastSeq r) - unat (lastSeq q) = 0" by (simp add: word_less_nat_alt)
    with False A last show ?thesis
      unfolding total by (simp add: seq_numMissing_def filter_A unat_of_nat)
  qed
qed

section \<open>Lemmas on records\<close>

lemma rec_wf_Nil [simp, inv_intros]: "rec_wf []"
  by (simp add: rec_wf_def)

lemma rec_wf_at: "rec_wf r \<Longrightarrow> seq_wf (sm_at empty_sequence r c)"
  by (fastforce simp: rec_wf_def sm_at_def split: option.splits dest: map_of_SomeD)

lemma rec_update_wf [inv_intros]: "rec_wf r \<Longrightarrow> rec_wf (snd (rec_update c s r))"
  using seq_update_wf [OF rec_wf_at, of r s c]
  by (auto simp: rec_update_def rec_wf_def sm_put_set split: prod.splits)

lemma rec_contains_at:
  "s \<noteq> 0 \<Longrightarrow> rec_contains r c s \<longleftrightarrow> seq_contains (sm_at empty_sequence r c) s"
  by (auto simp: rec_contains_def sm_has_def sm_at_def split: option.splits)

lemma rec_contains_zero: "rec_wf r \<Longrightarrow> rec_contains r c 0 \<longleftrightarrow> sm_has c r"
  using rec_wf_at [of r c] by (auto simp: rec_contains_def seq_contains_def seq_wf_def)

lemma rec_update_verdict:
  assumes "rec_wf r"
  shows "fst (rec_update c s r) \<longleftrightarrow> s \<noteq> 0 \<and> \<not> rec_contains r c s"
proof (cases "s = 0")
  case True
  have "seq_contains (sm_at empty_sequence r c) 0"
    using rec_wf_at [OF assms, of c] by (auto simp: seq_contains_def seq_wf_def)
  then show ?thesis
    using True seq_update_verdict [OF rec_wf_at [OF assms], of s c]
    by (simp add: rec_update_def split_beta)
next
  case False
  then show ?thesis
    using seq_update_verdict [OF rec_wf_at [OF assms], of s c]
    by (simp add: rec_update_def split_beta rec_contains_at)
qed

lemma rec_contains_update:
  assumes "rec_wf r"
  shows "rec_contains (snd (rec_update c s r)) c' s' \<longleftrightarrow>
     (c' = c \<and> (s' = s \<or> s' = 0)) \<or> rec_contains r c' s'"
proof -
  let ?q = "sm_at empty_sequence r c"
  have at: "sm_has c' (snd (rec_update c s r)) \<longleftrightarrow> c' = c \<or> sm_has c' r"
    "sm_at empty_sequence (snd (rec_update c s r)) c' =
       (if c' = c then snd (seq_update s ?q) else sm_at empty_sequence r c')"
    by (auto simp: rec_update_def split_beta sm_has_def sm_at_def)
  have zero: "seq_contains (snd (seq_update s ?q)) 0"
    using seq_update_wf [OF rec_wf_at [OF assms], of s c]
    by (auto simp: seq_contains_def seq_wf_def)
  show ?thesis
  proof (cases "c' = c")
    case True
    then show ?thesis
      using at zero rec_contains_at [of s' r c]
      by (cases "s' = 0")
        (auto simp: rec_contains_def seq_contains_update [OF rec_wf_at [OF assms]])
  next
    case False
    then show ?thesis using at by (simp add: rec_contains_def)
  qed
qed

lemma rec_seen_update:
  "rec_wf r \<Longrightarrow> rec_seen (snd (rec_update c s r)) = insert (c, s) (insert (c, 0) (rec_seen r))"
  by (auto simp: rec_seen_def rec_contains_update)

lemma sequence_to_pb_sel [simp]:
  "csp_client_id (sequence_to_pb c q) = c"
  "csp_last_seq (sequence_to_pb c q) = lastSeq q"
  "csp_missed_seqs (sequence_to_pb c q) = sorted_list_of_set (missedSeqs q)"
  by (simp_all add: sequence_to_pb_def)

lemma sm_put_last:
  "sm_ok (m @ [(k, v)]) \<Longrightarrow> sm_put k v m = m @ [(k, v)]"
proof (induction m)
  case (Cons p m)
  then show ?case by (cases p) (auto simp: sm_ok_Cons)
qed simp

lemma sm_get_append_last:
  "sm_ok (m @ (k, v) # m') \<Longrightarrow> map_of m k = None"
  by (induction m) (auto simp: sm_ok_Cons)

lemma rec_add_pb_fresh:
  assumes "sm_ok (m @ [(c, q)])"
  shows "rec_add_pb (sequence_to_pb c q) m = m @ [(c, q)]"
  using sm_get_append_last [of m c q "[]"] sm_put_last [OF assms] assms
  by (cases q) (simp add: rec_add_pb_def sm_at_def empty_sequence_def)

lemma fold_rec_add_pb:
  "sm_ok (m @ m') \<Longrightarrow>
   fold rec_add_pb (map (\<lambda>(c, q). sequence_to_pb c q) m') m = m @ m'"
proof (induction m' arbitrary: m)
  case (Cons p m')
  obtain c q where p: "p = (c, q)" by (cases p)
  have ok: "sm_ok ((m @ [(c, q)]) @ m')" using Cons.prems by (simp add: p)
  have "rec_add_pb (sequence_to_pb c q) m = m @ [(c, q)]"
    by (rule rec_add_pb_fresh [OF sm_ok_append1 [OF ok]])
  then show ?case using Cons.IH [OF ok] by (simp add: p)
qed simp

section \<open>Properties\<close>

text \<open>C14: \<open>ClientSequence::update\<close> implements insertion into the set of numbers seen: it keeps
  the representation well-formed, it returns true exactly for a number not seen before, and
  afterwards exactly that number has been added.\<close>

theorem seq_update_refines:
  assumes "seq_wf q" and "seq_update s q = (b, q')"
  shows "seq_wf q' \<and> seen q' = insert s (seen q) \<and> (b \<longleftrightarrow> s \<notin> seen q)"
proof -
  have q': "q' = snd (seq_update s q)" and b: "b = fst (seq_update s q)"
    using assms(2) by simp_all
  show ?thesis unfolding q' b
    using seq_update_wf [OF assms(1)] seen_update [OF assms(1)] seq_update_verdict [OF assms(1)]
    by (simp add: seen_def)
qed

theorem seq_update_refines_witness:
  "seq_wf \<lparr>lastSeq = 4, missedSeqs = {2}\<rparr> \<and>
   seq_update 2 \<lparr>lastSeq = 4, missedSeqs = {2}\<rparr> = (True, \<lparr>lastSeq = 4, missedSeqs = {}\<rparr>) \<and>
   2 \<notin> seen \<lparr>lastSeq = 4, missedSeqs = {2}\<rparr>"
proof -
  have h: "seq_wf \<lparr>lastSeq = 4, missedSeqs = {2}\<rparr>"
    "seq_update 2 \<lparr>lastSeq = 4, missedSeqs = {2}\<rparr> = (True, \<lparr>lastSeq = 4, missedSeqs = {}\<rparr>)"
    by (simp_all add: seq_wf_def seq_update_def)
  show ?thesis using h seq_update_refines [OF h] by simp
qed

text \<open>C13: over any history of updates a client record accepts each pair of client and
  non-zero sequence number exactly once: the accepted pairs are distinct and are precisely
  the requested ones that had not been seen before. Sequence number 0 is never accepted.\<close>

theorem rec_updates_exactly_once:
  assumes "rec_wf r" and "rec_updates xs r = (bs, r')"
  defines "acc \<equiv> map fst (filter snd (zip xs bs))"
  shows "rec_wf r' \<and> distinct acc \<and> set acc = {x \<in> set xs. snd x \<noteq> 0} - rec_seen r"
  using assms(1,2) unfolding acc_def
proof (induction xs arbitrary: r bs r')
  case (Cons x xs)
  obtain c s where x: "x = (c, s)" by (cases x)
  obtain b r1 where u: "rec_update c s r = (b, r1)" by fastforce
  obtain bs2 r2 where us: "rec_updates xs r1 = (bs2, r2)" by fastforce
  have res: "bs = b # bs2" "r' = r2" using Cons.prems(2) by (simp_all add: x u us)
  have r1: "r1 = snd (rec_update c s r)" and b: "b = fst (rec_update c s r)" by (simp_all add: u)
  have wf1: "rec_wf r1" unfolding r1 using Cons.prems(1) by (rule rec_update_wf)
  note IH = Cons.IH [OF wf1 us]
  have seen1: "rec_seen r1 = insert (c, s) (insert (c, 0) (rec_seen r))"
    unfolding r1 by (rule rec_seen_update [OF Cons.prems(1)])
  have verdict: "b \<longleftrightarrow> s \<noteq> 0 \<and> (c, s) \<notin> rec_seen r"
    unfolding b rec_update_verdict [OF Cons.prems(1)] by (simp add: rec_seen_def)
  show ?case
    using IH seen1 verdict by (auto simp: res x)
qed simp

theorem rec_updates_exactly_once_witness:
  "fst (rec_updates [(7, 2), (7, 1), (7, 2), (7, 0)] []) = [True, True, False, False] \<and>
   rec_wf (snd (rec_updates [(7, 2), (7, 1), (7, 2), (7, 0)] []))"
proof -
  let ?xs = "[(7, 2), (7, 1), (7, 2), (7, 0)] :: request_id list"
  obtain bs r' where eq: "rec_updates ?xs [] = (bs, r')" by fastforce
  have "fst (rec_updates ?xs []) = [True, True, False, False]"
    by (simp add: rec_update_def seq_update_def sm_at_def empty_sequence_def
        insert_range.simps)
  then show ?thesis unfolding eq using rec_updates_exactly_once [OF rec_wf_Nil eq] by simp
qed

text \<open>What \<open>ClientSequence::numMissing\<close> returns: the number of sequence numbers the
  reference has seen and this sequence has not, plus the number of the reference's own gaps
  above this sequence's last number, which the loop counts as if the reference had them.
  The 32-bit arithmetic does not wrap.\<close>

theorem seq_numMissing_value:
  assumes "seq_wf q" and "seq_wf r"
  shows "unat (seq_numMissing q r) =
     card (seen r - seen q) + card (missedSeqs r \<inter> {lastSeq q<..})"
  using assms by (rule seq_numMissing_count)

theorem seq_numMissing_value_witness:
  "unat (seq_numMissing \<lparr>lastSeq = 1, missedSeqs = {}\<rparr> \<lparr>lastSeq = 4, missedSeqs = {2, 3}\<rparr>) = 3 \<and>
   card (seen \<lparr>lastSeq = 4, missedSeqs = {2, 3}\<rparr> - seen \<lparr>lastSeq = 1, missedSeqs = {}\<rparr>) = 1"
proof -
  let ?q = "\<lparr>lastSeq = 1, missedSeqs = {}\<rparr> :: client_sequence"
  let ?r = "\<lparr>lastSeq = 4, missedSeqs = {2, 3}\<rparr> :: client_sequence"
  have wf: "seq_wf ?q" "seq_wf ?r" by (simp_all add: seq_wf_def)
  have n: "unat (seq_numMissing ?q ?r) = 3"
    by (simp add: seq_numMissing_def)
  have "{2, 3} \<inter> {(1::u32)<..} = {2, 3}" by auto
  then have "card (missedSeqs ?r \<inter> {lastSeq ?q<..}) = 2" by simp
  then show ?thesis using n seq_numMissing_value [OF wf] by simp
qed

text \<open>Serialising a client record to its message and building a record from the message
  gives the record back, for every record with its clients in map order.\<close>

theorem rec_proto_roundtrip:
  assumes "sm_ok r"
  shows "rec_of_pb (rec_toProto sha r) = r"
  using fold_rec_add_pb [of "[]" r] assms by (simp add: rec_of_pb_def rec_toProto_def)

theorem rec_proto_roundtrip_witness:
  "rec_of_pb (rec_toProto (\<lambda>b. b) [(1, \<lparr>lastSeq = 3, missedSeqs = {2}\<rparr>), (5, empty_sequence)])
     = [(1, \<lparr>lastSeq = 3, missedSeqs = {2}\<rparr>), (5, empty_sequence)]"
  by (rule rec_proto_roundtrip) (simp add: sm_ok_def)

text \<open>The digest of a client record does not determine the record, whatever the hash
  function: the hashed bytes carry no lengths, so one client with two skipped numbers and two
  clients with none give the same input. The two records differ in what they have seen.\<close>

theorem rec_digest_ambiguous:
  "\<exists>r1 r2. rec_wf r1 \<and> rec_wf r2 \<and> rec_seen r1 \<noteq> rec_seen r2 \<and>
     (\<forall>sha. rec_digest sha r1 = rec_digest sha r2)"
proof (intro exI conjI allI)
  let ?r1 = "[(1, \<lparr>lastSeq = 5, missedSeqs = {2, 3}\<rparr>)] :: client_record"
  let ?r2 = "[(1, \<lparr>lastSeq = 5, missedSeqs = {}\<rparr>), (2, \<lparr>lastSeq = 3, missedSeqs = {}\<rparr>)]
    :: client_record"
  show "rec_wf ?r1" "rec_wf ?r2" by (simp_all add: rec_wf_def sm_ok_def seq_wf_def)
  have "(1, 2) \<in> rec_seen ?r2" "(1, 2) \<notin> rec_seen ?r1"
    by (simp_all add: rec_seen_def rec_contains_def sm_has_def sm_at_def seq_contains_def)
  then show "rec_seen ?r1 \<noteq> rec_seen ?r2" by auto
  have "rec_bytes ?r1 = rec_bytes ?r2"
    by (simp add: rec_bytes_def sequence_bytes_def)
  then show "rec_digest sha ?r1 = rec_digest sha ?r2" for sha
    by (simp add: rec_digest_def)
qed

end
