(* ===== verification/LogTypes.thy ===== *)
theory LogTypes
  imports ClientRecord
begin

text \<open>
  The elements of the replica's log: \<open>LogEntry\<close> (\<open>lib/log_entry.cc\<close>), whose digest chains it to
  its predecessor, and \<open>LogCheckpoint\<close> (\<open>lib/log_checkpoint.cc\<close>), with its copy constructor
  and its translation to and from the wire message. The hash is a parameter.
\<close>

section \<open>Log entries\<close>

text \<open>\<open>struct LogEntry\<close>; the deadline is zero until the replica stores the request's.\<close>

record log_entry =
  le_seq :: u32
  le_client_id :: u32
  le_client_seq :: u32
  le_deadline :: u64
  le_request :: bytes
  le_result :: bytes
  le_digest :: bytes

text \<open>The bytes the constructor hashes.\<close>

definition entry_input :: "u32 \<Rightarrow> u32 \<Rightarrow> u32 \<Rightarrow> bytes \<Rightarrow> bytes \<Rightarrow> bytes" where
  "entry_input s c_id c_seq req prev = le32 s @ le32 c_id @ le32 c_seq @ prev @ req"

definition new_entry ::
  "(bytes \<Rightarrow> bytes) \<Rightarrow> u32 \<Rightarrow> u32 \<Rightarrow> u32 \<Rightarrow> bytes \<Rightarrow> bytes \<Rightarrow> log_entry" where
  "new_entry sha s c_id c_seq req prev =
     \<lparr>le_seq = s, le_client_id = c_id, le_client_seq = c_seq, le_deadline = 0,
      le_request = req, le_result = [],
      le_digest = sha (entry_input s c_id c_seq req prev)\<rparr>"

definition entry_toProto :: "(bytes \<Rightarrow> bytes) \<Rightarrow> bool \<Rightarrow> log_entry \<Rightarrow> log_entry_pb" where
  "entry_toProto sha includeFullRequest e =
     \<lparr>lep_seq = le_seq e, lep_client_id = le_client_id e, lep_client_seq = le_client_seq e,
      lep_digest = le_digest e,
      lep_request = (if includeFullRequest then Some (le_request e) else None),
      lep_request_digest = sha (le_request e)\<rparr>"

lemma new_entry_sel [simp]:
  "le_seq (new_entry sha s c q r p) = s" "le_client_id (new_entry sha s c q r p) = c"
  "le_client_seq (new_entry sha s c q r p) = q" "le_deadline (new_entry sha s c q r p) = 0" "le_request (new_entry sha s c q r p) = r"
  "le_digest (new_entry sha s c q r p) = sha (entry_input s c q r p)"
  by (simp_all add: new_entry_def)

lemma le32_inj [simp]: "le32 a = le32 b \<longleftrightarrow> a = b"
proof
  assume eq: "le32 a = le32 b"
  have "bit a n = bit b n" if "n < 32" for n
  proof -
    have "take_bit 8 (drop_bit (8 * k) a) = take_bit 8 (drop_bit (8 * k) b)" if "k < 4" for k
    proof -
      have "(ucast (drop_bit (8 * k) a) :: u8) = ucast (drop_bit (8 * k) b)"
        using eq that by (auto simp: le32_def less_Suc_eq numeral_eq_Suc)
      then have "bit (ucast (drop_bit (8 * k) a) :: u8) m = bit (ucast (drop_bit (8 * k) b) :: u8) m" for m
        by simp
      then show ?thesis by (intro bit_word_eqI) (auto simp: bit_simps)
    qed
    then have "bit (take_bit 8 (drop_bit (8 * (n div 8)) a)) (n mod 8) =
        bit (take_bit 8 (drop_bit (8 * (n div 8)) b)) (n mod 8)"
      using that by simp
    then show ?thesis by (simp add: bit_simps)
  qed
  then show "a = b" by (intro bit_word_eqI) simp
qed simp

lemma length_le32 [simp]: "length (le32 a) = 4"
  by (simp add: le32_def)

text \<open>The hashed bytes determine the entry when the two predecessor digests have one length;
  they carry no length, so otherwise they do not.\<close>

lemma entry_input_inj:
  assumes "entry_input s c q r p = entry_input s' c' q' r' p'" and "length p = length p'"
  shows "s = s' \<and> c = c' \<and> q = q' \<and> r = r' \<and> p = p'"
  using assms by (simp add: entry_input_def)

section \<open>Checkpoints\<close>

text \<open>\<open>struct LogCheckpoint\<close>; the snapshot pointer is null until a snapshot is attached.\<close>

record log_checkpoint =
  lc_seq :: u32
  lc_logDigest :: bytes
  lc_appDigest :: bytes
  lc_commits :: "(u32, commit_msg) smap"
  lc_commitSigs :: "(u32, bytes) smap"
  lc_repairCommits :: "(u32, pbft_commit) smap"
  lc_repairCommitSigs :: "(u32, bytes) smap"
  lc_clientRecord :: client_record
  lc_snapshot :: "bytes option"

definition initial_checkpoint :: log_checkpoint where
  "initial_checkpoint =
     \<lparr>lc_seq = 0, lc_logDigest = [], lc_appDigest = [], lc_commits = [], lc_commitSigs = [],
      lc_repairCommits = [], lc_repairCommitSigs = [], lc_clientRecord = [], lc_snapshot = None\<rparr>"

text \<open>The loops over the proofs of a checkpoint message: the signature with the index of the
  commit, which is an access out of range when there are fewer signatures.\<close>

definition fill_maps ::
  "('c \<Rightarrow> u32) \<Rightarrow> 'c list \<Rightarrow> bytes list \<Rightarrow> ((u32, 'c) smap \<times> (u32, bytes) smap) res" where
  "fill_maps replica_id cs sigs =
     foldE (\<lambda>i (m, sm).
         if i < length sigs
         then Inr (sm_put (replica_id (cs ! i)) (cs ! i) m, sm_put (replica_id (cs ! i)) (sigs ! i) sm)
         else Inl Undefined)
       [0..<length cs] ([], [])"

definition checkpoint_of_pb :: "log_checkpoint_pb \<Rightarrow> log_checkpoint res" where
  "checkpoint_of_pb p =
     bindE (fill_maps com_replica_id (lcp_commits p) (lcp_commit_sigs p)) (\<lambda>(cs, css).
     bindE (fill_maps pc_replica_id (lcp_repair_commits p) (lcp_repair_commit_sigs p)) (\<lambda>(rcs, rcss).
     Inr \<lparr>lc_seq = lcp_seq p, lc_logDigest = lcp_log_digest p,
          lc_appDigest = bytes_or_empty (lcp_app_digest p),
          lc_commits = cs, lc_commitSigs = css, lc_repairCommits = rcs, lc_repairCommitSigs = rcss,
          lc_clientRecord = rec_of_pb (lcp_client_record p), lc_snapshot = None\<rparr>))"

text \<open>The copy constructor lists seven members; the client record and the snapshot pointer of
  the copy are default-initialised. (The copy assignment is the implicit one and copies all.)\<close>

definition checkpoint_copy :: "log_checkpoint \<Rightarrow> log_checkpoint" where
  "checkpoint_copy c = c\<lparr>lc_clientRecord := [], lc_snapshot := None\<rparr>"

definition checkpoint_toProto :: "(bytes \<Rightarrow> bytes) \<Rightarrow> log_checkpoint \<Rightarrow> log_checkpoint_pb" where
  "checkpoint_toProto sha c =
     (let body = (if 0 < lc_seq c
        then (lc_seq c, lc_logDigest c, lc_appDigest c)
        else (0, [], []))
      in \<lparr>lcp_seq = fst body, lcp_log_digest = fst (snd body), lcp_app_digest = Some (snd (snd body)),
          lcp_commits = [], lcp_commit_sigs = [], lcp_repair_commits = [], lcp_repair_commit_sigs = [],
          lcp_client_record = rec_toProto sha (lc_clientRecord c)\<rparr>)"

lemma checkpoint_of_pb_basic:
  assumes "checkpoint_of_pb p = Inr c"
  shows "lc_seq c = lcp_seq p" "lc_logDigest c = lcp_log_digest p"
    "lc_appDigest c = bytes_or_empty (lcp_app_digest p)"
    "lc_clientRecord c = rec_of_pb (lcp_client_record p)" "lc_snapshot c = None"
  using assms by (auto simp: checkpoint_of_pb_def elim!: bindE_InrE)

lemma checkpoint_of_toProto:
  assumes "sm_ok (lc_clientRecord c)"
  shows "checkpoint_of_pb (checkpoint_toProto sha c) =
     Inr \<lparr>lc_seq = lc_seq c, lc_logDigest = (if lc_seq c = 0 then [] else lc_logDigest c),
          lc_appDigest = (if lc_seq c = 0 then [] else lc_appDigest c), lc_commits = [],
          lc_commitSigs = [], lc_repairCommits = [], lc_repairCommitSigs = [],
          lc_clientRecord = lc_clientRecord c, lc_snapshot = None\<rparr>"
  using fold_rec_add_pb [of "[]" "lc_clientRecord c"] assms
  by (simp add: checkpoint_of_pb_def checkpoint_toProto_def fill_maps_def rec_of_pb_def rec_toProto_def
      word_gt_0)

text \<open>A checkpoint survives the trip through its message in everything but the commit proofs
  and the snapshot, which are not sent; the digests of a checkpoint at sequence number zero
  are sent as empty.\<close>

theorem checkpoint_proto_roundtrip:
  assumes "sm_ok (lc_clientRecord c)"
  shows "\<exists>c'. checkpoint_of_pb (checkpoint_toProto sha c) = Inr c' \<and> lc_seq c' = lc_seq c \<and>
    lc_clientRecord c' = lc_clientRecord c \<and> lc_commits c' = [] \<and> lc_repairCommits c' = [] \<and>
    lc_logDigest c' = (if lc_seq c = 0 then [] else lc_logDigest c) \<and>
    lc_appDigest c' = (if lc_seq c = 0 then [] else lc_appDigest c)"
  using checkpoint_of_toProto [OF assms] by simp

theorem checkpoint_proto_roundtrip_witness:
  "\<exists>c'. checkpoint_of_pb (checkpoint_toProto (\<lambda>b. b)
      (initial_checkpoint\<lparr>lc_seq := 3, lc_logDigest := [1],
         lc_clientRecord := [(4, \<lparr>lastSeq = 2, missedSeqs = {1}\<rparr>)]\<rparr>)) = Inr c' \<and> lc_logDigest c' = [1]"
  using checkpoint_proto_roundtrip [of "initial_checkpoint\<lparr>lc_seq := 3, lc_logDigest := [1],
     lc_clientRecord := [(4, \<lparr>lastSeq = 2, missedSeqs = {1}\<rparr>)]\<rparr>" "\<lambda>b. b"]
  by (auto simp: sm_ok_def)

end
