(* ===== verification/Application.thy ===== *)
theory Application
  imports Messages
begin

text \<open>
  The replicated application (\<open>lib/application.h\<close>): the abstract class as a record of its
  virtual methods over an application state, and the contract that the log relies on as a
  locale. The contract speaks of the live contents (\<open>view\<close>), the committed contents
  (\<open>base\<close>) and the history of executed but uncommitted requests: for each index the contents
  after it. It is discharged for both applications of the repository.
\<close>

text \<open>\<open>struct AppSnapshot\<close>; the shared pointer is never null once a snapshot was taken.\<close>

record app_snapshot =
  snap_seq :: u32
  snap_data :: bytes
  snap_digest :: bytes

text \<open>\<open>class Application\<close>. \<open>takeSnapshot\<close> hands the snapshot to a callback: the method returns
  the snapshot that the callback receives.\<close>

record 's app_ops =
  app_execute :: "bytes \<Rightarrow> u32 \<Rightarrow> 's \<Rightarrow> (bytes \<times> 's) res"
  app_commit :: "u32 \<Rightarrow> 's \<Rightarrow> (bool \<times> 's) res"
  app_abort :: "u32 \<Rightarrow> 's \<Rightarrow> (bool \<times> 's) res"
  app_applySnapshot :: "bytes \<Rightarrow> bytes \<Rightarrow> u32 \<Rightarrow> 's \<Rightarrow> (bool \<times> 's) res"
  app_takeSnapshot :: "'s \<Rightarrow> app_snapshot \<times> 's"

text \<open>Executing a batch of requests at given indices, as the log does one by one.\<close>

fun exec_all :: "'s app_ops \<Rightarrow> (bytes \<times> u32) list \<Rightarrow> 's \<Rightarrow> 's res" where
  "exec_all ops [] s = Inr s"
| "exec_all ops ((r, i) # xs) s = bindE (app_execute ops r i s) (\<lambda>(_, s'). exec_all ops xs s')"

text \<open>Every request of a batch is answered with a non-empty result, in any state.\<close>

definition answered :: "'s app_ops \<Rightarrow> bytes set \<Rightarrow> bool" where
  "answered ops R \<longleftrightarrow>
     (\<forall>r i s res s'. r \<in> R \<longrightarrow> app_execute ops r i s = Inr (res, s') \<longrightarrow> res \<noteq> [])"

lemma answered_subset: "answered ops R \<Longrightarrow> Q \<subseteq> R \<Longrightarrow> answered ops Q"
  unfolding answered_def by blast

lemma answeredD:
  "answered ops R \<Longrightarrow> r \<in> R \<Longrightarrow> app_execute ops r i s = Inr (res, s') \<Longrightarrow> res \<noteq> []"
  unfolding answered_def by blast

text \<open>The contents reached after a history over a base.\<close>

definition last_contents :: "'v \<Rightarrow> (u32 \<times> 'v) list \<Rightarrow> 'v" where
  "last_contents b h = (if h = [] then b else snd (last h))"

text \<open>
  The contract. \<open>hist\<close> is ascending in the index; \<open>view\<close> is what the history leads to.
  Executing at a fresh index appends; aborting at an index above the committed one cuts the
  history there; committing an executed index moves the base to it.
\<close>

locale application =
  fixes ops :: "'s app_ops"
    and ok :: "'s \<Rightarrow> bool"
    and view :: "'s \<Rightarrow> 'v" and base :: "'s \<Rightarrow> 'v"
    and hist :: "'s \<Rightarrow> (u32 \<times> 'v) list"
    and committed :: "'s \<Rightarrow> u32"
  assumes hist_ascending: "ok s \<Longrightarrow> sorted_wrt (<) (committed s # map fst (hist s))"
    and view_hist: "ok s \<Longrightarrow> view s = last_contents (base s) (hist s)"
    and execute_law: "\<lbrakk>ok s; app_execute ops r i s = Inr (res, s'); res \<noteq> [];
        committed s < i; \<forall>j \<in> fst ` set (hist s). j < i\<rbrakk> \<Longrightarrow>
        ok s' \<and> hist s' = hist s @ [(i, view s')] \<and> base s' = base s \<and> committed s' = committed s"
    and abort_law: "\<lbrakk>ok s; committed s < i; \<exists>j \<in> fst ` set (hist s). i \<le> j\<rbrakk> \<Longrightarrow>
        \<exists>s'. app_abort ops i s = Inr (True, s') \<and> ok s' \<and>
          hist s' = filter (\<lambda>p. fst p < i) (hist s) \<and> base s' = base s \<and> committed s' = committed s"
    and commit_law: "\<lbrakk>ok s; (i, v) \<in> set (hist s)\<rbrakk> \<Longrightarrow>
        \<exists>s'. app_commit ops i s = Inr (True, s') \<and> ok s' \<and>
          hist s' = filter (\<lambda>p. i < fst p) (hist s) \<and> base s' = v \<and> committed s' = i"
begin

lemma commit_keeps_view:
  assumes "ok s" and "(i, v) \<in> set (hist s)" and "app_commit ops i s = Inr (b, s')"
  shows "view s' = view s"
proof -
  from commit_law [OF assms(1,2)] assms(3)
  have ok': "ok s'" and h: "hist s' = filter (\<lambda>p. i < fst p) (hist s)" and b: "base s' = v"
    by auto
  have asc: "sorted_wrt (<) (map fst (hist s))" using hist_ascending [OF assms(1)] by simp
  obtain h1 h2 where split: "hist s = h1 @ (i, v) # h2"
    using assms(2) by (meson split_list)
  have "\<forall>p \<in> set h1. fst p < i" "\<forall>p \<in> set h2. i < fst p"
    using asc by (auto simp: split sorted_wrt_append)
  then have "hist s' = h2"
    unfolding h split by (auto simp: filter_empty_conv filter_id_conv)
  then show ?thesis
    using view_hist [OF assms(1)] view_hist [OF ok'] b by (simp add: split last_contents_def)
qed

text \<open>Speculation followed by an abort at its first index leaves history, contents and
  base as they were before the speculation.\<close>

lemma exec_all_history:
  assumes "exec_all ops xs s = Inr t" and "ok s"
    and "sorted_wrt (<) (committed s # map fst (hist s) @ map snd xs)"
    and "answered ops (fst ` set xs)"
  shows "ok t \<and> base t = base s \<and> committed t = committed s \<and>
    (\<exists>h. hist t = hist s @ h \<and> map fst h = map snd xs)"
  using assms
proof (induction xs arbitrary: s)
  case (Cons x xs)
  obtain r i where x: "x = (r, i)" by (cases x)
  obtain res u where e: "app_execute ops r i s = Inr (res, u)" and rest: "exec_all ops xs u = Inr t"
    using Cons.prems(1) by (auto simp: x elim!: bindE_InrE)
  have asc: "sorted_wrt (<) (committed s # map fst (hist s) @ i # map snd xs)"
    using Cons.prems(3) by (simp add: x)
  have "res \<noteq> []" using answeredD [OF Cons.prems(4) _ e] by (simp add: x)
  then have law: "ok u \<and> hist u = hist s @ [(i, view u)] \<and> base u = base s \<and> committed u = committed s"
    by (rule execute_law [OF Cons.prems(2) e]) (use asc in \<open>auto simp: sorted_wrt_append\<close>)
  have "ok t \<and> base t = base u \<and> committed t = committed u \<and>
    (\<exists>h. hist t = hist u @ h \<and> map fst h = map snd xs)"
    by (rule Cons.IH [OF rest])
      (use law asc answered_subset [OF Cons.prems(4)] in \<open>auto simp: x\<close>)
  then show ?case using law by (auto simp: x)
qed auto

lemma abort_undoes_speculation:
  assumes "ok s" and "exec_all ops ((r, i) # xs) s = Inr t"
    and asc: "sorted_wrt (<) (committed s # map fst (hist s) @ i # map snd xs)"
    and total: "answered ops (fst ` set ((r, i) # xs))"
  shows "\<exists>t'. app_abort ops i t = Inr (True, t') \<and> ok t' \<and>
     hist t' = hist s \<and> view t' = view s \<and> base t' = base s"
proof -
  obtain h where t: "ok t" "base t = base s" "committed t = committed s"
    and ht: "hist t = hist s @ h" and h: "map fst h = i # map snd xs"
    using exec_all_history [OF assms(2,1) _ total] asc by force
  have "committed t < i" using asc t(3) by auto
  moreover have "\<exists>j \<in> fst ` set (hist t). i \<le> j"
    using h by (cases h) (auto simp: ht)
  ultimately obtain t' where t': "app_abort ops i t = Inr (True, t')" "ok t'"
      "hist t' = filter (\<lambda>p. fst p < i) (hist t)" "base t' = base t"
    using abort_law [OF t(1)] by blast
  have "\<forall>p \<in> set (hist s). fst p < i" using asc by (auto simp: sorted_wrt_append)
  moreover have "\<forall>p \<in> set h. \<not> fst p < i"
  proof
    fix p assume "p \<in> set h"
    then have "fst p \<in> set (i # map snd xs)" by (metis h image_eqI list.set_map)
    then show "\<not> fst p < i" using asc by (auto simp: sorted_wrt_append)
  qed
  ultimately have "hist t' = hist s"
    unfolding t'(3) ht by (simp add: filter_empty_conv filter_id_conv)
  then show ?thesis
    using t' t(2) view_hist [OF assms(1)] view_hist [OF t'(2)] by auto
qed

end

section \<open>Decimal text\<close>

text \<open>\<open>std::to_string\<close> of an unsigned value and of an \<open>int\<close>, and the digits that
  \<open>std::stoull\<close> and \<open>std::stoi\<close> read; the characters are ASCII bytes.\<close>

fun digits_of :: "nat \<Rightarrow> bytes" where
  "digits_of n = (if n < 10 then [of_nat (48 + n)] else digits_of (n div 10) @ [of_nat (48 + n mod 10)])"

declare digits_of.simps [simp del]

definition is_digit :: "u8 \<Rightarrow> bool" where
  "is_digit b = (48 \<le> b \<and> b \<le> 57)"

definition to_string_int :: "int \<Rightarrow> bytes" where
  "to_string_int z = (if z < 0 then 45 # digits_of (nat (- z)) else digits_of (nat z))"

definition digits_value :: "bytes \<Rightarrow> nat" where
  "digits_value ds = foldl (\<lambda>a b. 10 * a + (unat b - 48)) 0 ds"

definition is_space :: "u8 \<Rightarrow> bool" where
  "is_space b = (b = 32 \<or> (9 \<le> b \<and> b \<le> 13))"

text \<open>The number at the start of a string: white space, a sign, digits. \<open>None\<close> where the
  library throws \<open>invalid_argument\<close>.\<close>

definition parse_number :: "bytes \<Rightarrow> int option" where
  "parse_number s =
     (let t = dropWhile is_space s;
          neg = (t \<noteq> [] \<and> hd t = 45);
          u = (if t \<noteq> [] \<and> (hd t = 45 \<or> hd t = 43) then tl t else t);
          ds = takeWhile is_digit u
      in if ds = [] then None
         else Some (if neg then - int (digits_value ds) else int (digits_value ds)))"

text \<open>\<open>std::stoi\<close> and \<open>std::stoull\<close>: out of range is an exception as well; \<open>stoull\<close> negates
  modulo \<open>2^64\<close>.\<close>

definition stoi :: "bytes \<Rightarrow> u32 res" where
  "stoi s = (case parse_number s of
     None \<Rightarrow> Inl RuntimeError
   | Some z \<Rightarrow> if - (2 ^ 31) \<le> z \<and> z < 2 ^ 31 then Inr (of_int z) else Inl RuntimeError)"

definition stoull :: "bytes \<Rightarrow> u64 res" where
  "stoull s = (case parse_number s of
     None \<Rightarrow> Inl RuntimeError
   | Some z \<Rightarrow> if \<bar>z\<bar> < 2 ^ 64 then Inr (of_int z) else Inl RuntimeError)"

lemma unat_digit: "d < 10 \<Longrightarrow> unat (of_nat (48 + d) :: u8) = 48 + d"
  by (simp add: unat_of_nat del: of_nat_add)

lemma is_digit_of_nat: "d < 10 \<Longrightarrow> is_digit (of_nat (48 + d))"
  using unat_digit [of d] by (simp add: is_digit_def word_le_nat_alt del: of_nat_add)

lemma digits_of_digits: "\<forall>b \<in> set (digits_of n). is_digit b"
proof (induction n rule: digits_of.induct)
  case (1 n)
  then show ?case
    using is_digit_of_nat [of n] is_digit_of_nat [of "n mod 10"]
    by (subst digits_of.simps) (simp del: of_nat_add)
qed

lemma digits_of_nonempty: "digits_of n \<noteq> []"
  by (subst digits_of.simps) simp

lemma digits_value_digits_of: "digits_value (digits_of n) = n"
proof (induction n rule: digits_of.induct)
  case (1 n)
  show ?case
  proof (cases "n < 10")
    case True
    then show ?thesis
      using unat_digit [of n]
      by (subst digits_of.simps) (simp add: digits_value_def del: of_nat_add)
  next
    case False
    have "digits_value (digits_of n) =
        10 * digits_value (digits_of (n div 10)) + n mod 10"
      using False unat_digit [of "n mod 10"]
      by (subst digits_of.simps) (simp add: digits_value_def del: of_nat_add)
    then show ?thesis using 1 False by simp
  qed
qed

lemma digit_not_special: "is_digit b \<Longrightarrow> b \<noteq> 44 \<and> b \<noteq> 45 \<and> b \<noteq> 43 \<and> \<not> is_space b"
  by (auto simp: is_digit_def is_space_def word_le_nat_alt)

lemma parse_number_digits: "parse_number (digits_of n) = Some (int n)"
proof -
  obtain d ds where eq: "digits_of n = d # ds"
    using digits_of_nonempty [of n] by (cases "digits_of n") auto
  have d: "is_digit d" using digits_of_digits [of n] by (simp add: eq)
  have all: "takeWhile is_digit (d # ds) = d # ds"
    using digits_of_digits [of n] by (simp add: eq)
  show ?thesis
    using digit_not_special [OF d] all digits_value_digits_of [of n]
    by (simp add: parse_number_def eq)
qed

lemma stoi_digits: "n < 2 ^ 31 \<Longrightarrow> stoi (digits_of n) = Inr (of_nat n)"
  by (simp add: stoi_def parse_number_digits)

lemma stoi_digits_large: "2 ^ 31 \<le> n \<Longrightarrow> stoi (digits_of n) = Inl RuntimeError"
  by (simp add: stoi_def parse_number_digits)

lemma stoull_digits: "n < 2 ^ 64 \<Longrightarrow> stoull (digits_of n) = Inr (of_nat n)"
  by (simp add: stoull_def parse_number_digits)

lemma parse_number_to_string: "parse_number (to_string_int z) = Some z"
proof (cases "z < 0")
  case True
  have tw: "takeWhile is_digit (digits_of n) = digits_of n" for n
    using digits_of_digits by (simp add: takeWhile_eq_all_conv)
  show ?thesis
    using True
    by (simp add: parse_number_def to_string_int_def is_space_def Let_def tw
        digits_of_nonempty digits_value_digits_of)
next
  case False
  then show ?thesis by (simp add: to_string_int_def parse_number_digits)
qed

lemma stoi_to_string_sint: "stoi (to_string_int (sint (w :: u32))) = Inr w"
  using sint_less [of w] sint_ge [of w] by (simp add: stoi_def parse_number_to_string)

lemma comma_notin_digits: "44 \<notin> set (digits_of n)"
  using digits_of_digits digit_not_special by blast

lemma comma_notin_to_string: "44 \<notin> set (to_string_int z)"
  using comma_notin_digits by (simp add: to_string_int_def)

end
