(* ===== verification/ReplicaLog.thy ===== *)
theory ReplicaLog
  imports LogTypes Application
begin

text \<open>
  The replica's log (\<open>lib/log.h\<close> and \<open>.cc\<close>): the deque of entries above the stable
  checkpoint, the two checkpoints, the record of client requests, the application and the
  latest certificate. The application is an argument (its state is a field of the log); the
  hash and the parser of the padded request are parameters. A method that can throw, fail an
  assertion or access out of range returns a fault; one that returns \<open>false\<close> after changing
  the state returns the changed state with \<open>False\<close>.
\<close>

section \<open>State and operations\<close>

record 's log_env =
  env_sha :: "bytes \<Rightarrow> bytes"
  env_parse_padded :: "bytes \<Rightarrow> padded_request_data option"
  env_app :: "'s app_ops"

record 's log_state =
  lg_log :: "log_entry list"
  lg_nextSeq :: u32
  lg_committed :: log_checkpoint
  lg_stable :: log_checkpoint
  lg_clientRecord :: client_record
  lg_app :: 's
  lg_latestCert :: "cert option"
  lg_latestCertSeq :: u32

definition log_init :: "'s \<Rightarrow> 's log_state" where
  "log_init app =
     \<lparr>lg_log = [], lg_nextSeq = 1, lg_committed = initial_checkpoint, lg_stable = initial_checkpoint,
      lg_clientRecord = [], lg_app = app, lg_latestCert = None, lg_latestCertSeq = 0\<rparr>"

definition inRange :: "u32 \<Rightarrow> 's log_state \<Rightarrow> bool" where
  "inRange s l \<longleftrightarrow> lc_seq (lg_stable l) < s \<and> s < lg_nextSeq l \<and> lg_log l \<noteq> []"

text \<open>\<open>addEntry\<close> returns its verdict and the out-parameter \<open>res\<close> (unchanged on the failure
  paths). A request that does not parse is refused after its entry was appended.\<close>

definition addEntry ::
  "'s log_env \<Rightarrow> u32 \<Rightarrow> u32 \<Rightarrow> bytes \<Rightarrow> bytes \<Rightarrow> bool \<Rightarrow> 's log_state \<Rightarrow>
   ((bool \<times> bytes) \<times> 's log_state) res" where
  "addEntry env c_id c_seq req res0 checkDup l =
     (let (fresh, record') = (if checkDup then rec_update c_id c_seq (lg_clientRecord l)
                              else (True, lg_clientRecord l));
          l1 = l\<lparr>lg_clientRecord := record'\<rparr>
      in if \<not> fresh then Inr ((False, res0), l1)
         else
           bindE (if lg_nextSeq l1 - 1 = lc_seq (lg_stable l1) then Inr (lc_logDigest (lg_stable l1))
                  else if lg_log l1 = [] then Inl AssertFailed
                  else Inr (le_digest (last (lg_log l1)))) (\<lambda>prevDigest.
           let e = new_entry (env_sha env) (lg_nextSeq l1) c_id c_seq req prevDigest
           in case env_parse_padded env req of
                None \<Rightarrow> Inr ((False, res0), l1\<lparr>lg_log := lg_log l1 @ [e]\<rparr>)
              | Some reqData \<Rightarrow>
                  bindE (app_execute (env_app env) (prd_req_data reqData) (lg_nextSeq l1) (lg_app l1))
                    (\<lambda>(res, app'). Inr ((True, res),
                       l1\<lparr>lg_log := lg_log l1 @ [e\<lparr>le_result := res\<rparr>],
                          lg_app := app', lg_nextSeq := lg_nextSeq l1 + 1\<rparr>))))"

definition getEntry :: "u32 \<Rightarrow> 's log_state \<Rightarrow> log_entry res" where
  "getEntry s l =
     (if \<not> inRange s l then Inl RuntimeError
      else let i = unat (s - le_seq (hd (lg_log l)))
           in if length (lg_log l) \<le> i then Inl Undefined
              else if le_seq (lg_log l ! i) \<noteq> s then Inl AssertFailed
              else Inr (lg_log l ! i))"

definition addCert :: "u32 \<Rightarrow> cert \<Rightarrow> 's log_state \<Rightarrow> (bool \<times> 's log_state) res" where
  "addCert s c l =
     (case cert_replies c of [] \<Rightarrow> Inl Undefined
      | r # _ \<Rightarrow>
        if lg_nextSeq l \<le> s then Inr (False, l)
        else if s \<le> lc_seq (lg_committed l) then
          Inr (rec_contains (lc_clientRecord (lg_committed l)) (rep_client_id r) (rep_client_seq r), l)
        else bindE (getEntry s l) (\<lambda>entry.
          if rep_client_id r \<noteq> le_client_id entry \<or> rep_client_seq r \<noteq> le_client_seq entry
             \<or> rep_digest r \<noteq> le_digest entry
          then Inr (False, l)
          else Inr (True,
            (case lg_latestCert l of
               Some lc \<Rightarrow> if cert_seq lc < cert_seq c
                          then l\<lparr>lg_latestCert := Some c, lg_latestCertSeq := s\<rparr> else l
             | None \<Rightarrow> l\<lparr>lg_latestCert := Some c, lg_latestCertSeq := s\<rparr>))))"

text \<open>\<open>abort\<close>: the deque is cut at the distance of \<open>s\<close> from the first entry's number, in
  32-bit arithmetic; the verdict of the application is ignored.\<close>

definition log_abort :: "'s log_env \<Rightarrow> u32 \<Rightarrow> 's log_state \<Rightarrow> 's log_state res" where
  "log_abort env s l =
     (if lg_nextSeq l \<le> s then Inr (l\<lparr>lg_nextSeq := s\<rparr>)
      else if s \<le> lc_seq (lg_committed l) then Inl RuntimeError
      else bindE
        (if lg_log l = [] then Inr l
         else if le_seq (hd (lg_log l)) \<noteq> lc_seq (lg_stable l) + 1 then Inl AssertFailed
         else let i = unat (s - le_seq (hd (lg_log l)))
              in if length (lg_log l) < i then Inl Undefined
                 else Inr (l\<lparr>lg_log := take i (lg_log l)\<rparr>)) (\<lambda>l1.
        bindE (app_abort (env_app env) s (lg_app l1)) (\<lambda>(_, app').
        Inr (l1\<lparr>lg_app := app', lg_nextSeq := s\<rparr>))))"

text \<open>\<open>setCheckpoint\<close>: the second statement, which moves the stable checkpoint and truncates the
  log, and the whole method. The index of the truncation is a signed 32-bit integer; the
  assertion on the snapshot comes last.\<close>

definition setStableCheckpoint :: "log_checkpoint \<Rightarrow> 's log_state \<Rightarrow> 's log_state res" where
  "setStableCheckpoint cp l =
     (if lc_appDigest cp \<noteq> [] \<and> lc_seq (lg_stable l) < lc_seq cp
      then bindE
        (if lg_log l = [] then Inr (l\<lparr>lg_stable := cp\<rparr>)
         else let stableIdx = lc_seq cp - le_seq (hd (lg_log l)) + 1
              in if sint stableIdx < 0 then Inl AssertFailed
                 else if length (lg_log l) < unat stableIdx then Inl Undefined
                 else Inr (l\<lparr>lg_stable := cp, lg_log := drop (unat stableIdx) (lg_log l)\<rparr>)) (\<lambda>l2.
        if lc_snapshot cp = None then Inl AssertFailed else Inr l2)
      else Inr l)"

definition setCheckpoint :: "'s log_env \<Rightarrow> log_checkpoint \<Rightarrow> 's log_state \<Rightarrow> 's log_state res" where
  "setCheckpoint env cp l =
     bindE
       (if lc_seq (lg_committed l) < lc_seq cp
        then bindE (app_commit (env_app env) (lc_seq cp) (lg_app l)) (\<lambda>(_, app').
             Inr (l\<lparr>lg_committed := cp, lg_app := app'\<rparr>))
        else Inr l) (setStableCheckpoint cp)"

definition getDigest :: "'s log_state \<Rightarrow> bytes" where
  "getDigest l = (if lg_log l = [] then lc_logDigest (lg_stable l) else le_digest (last (lg_log l)))"

definition getDigestAt :: "u32 \<Rightarrow> 's log_state \<Rightarrow> bytes res" where
  "getDigestAt s l =
     (if s = lc_seq (lg_stable l) then Inr (lc_logDigest (lg_stable l))
      else if \<not> inRange s l then Inl RuntimeError
      else let i = unat (s - le_seq (hd (lg_log l)))
           in if length (lg_log l) \<le> i then Inl Undefined
              else if le_seq (lg_log l ! i) \<noteq> s then Inl AssertFailed
              else Inr (le_digest (lg_log l ! i)))"

text \<open>The loop of \<open>resetToSnapshot\<close> over the entries of the reply: entries below the start are
  skipped, and the first entry that cannot be added ends it with \<open>False\<close>.\<close>

fun addEntries :: "'s log_env \<Rightarrow> u32 \<Rightarrow> log_entry_pb list \<Rightarrow> 's log_state \<Rightarrow> (bool \<times> 's log_state) res" where
  "addEntries env start [] l = Inr (True, l)"
| "addEntries env start (e # es) l =
     (if lep_seq e < start then addEntries env start es l
      else bindE (addEntry env (lep_client_id e) (lep_client_seq e) (bytes_or_empty (lep_request e)) [] False l)
        (\<lambda>((added, _), l'). if added then addEntries env start es l' else Inr (False, l')))"

text \<open>\<open>resetToSnapshot\<close>: the first part, which establishes the base the entries are applied to
  (whether to proceed, the first sequence number to apply), and the whole method.\<close>

definition resetBase ::
  "'s log_env \<Rightarrow> snapshot_reply \<Rightarrow> log_checkpoint \<Rightarrow> 's log_state \<Rightarrow> (bool \<times> u32 \<times> 's log_state) res" where
  "resetBase env msg checkpoint l =
     (case srp_snapshot msg of
        Some snapshot \<Rightarrow>
          (case srp_snapshot_checkpoint msg of
             None \<Rightarrow> Inl AssertFailed
           | Some cpb \<Rightarrow>
               bindE (checkpoint_of_pb cpb) (\<lambda>snapshotCp.
               bindE (app_applySnapshot (env_app env) snapshot (lc_appDigest snapshotCp) (lc_seq snapshotCp)
                        (lg_app l)) (\<lambda>(applied, app').
               if \<not> applied then Inr (False, 0, l\<lparr>lg_app := app'\<rparr>)
               else Inr (True, lc_seq snapshotCp + 1,
                      l\<lparr>lg_app := app', lg_log := [], lg_nextSeq := lc_seq snapshotCp + 1,
                        lg_stable := snapshotCp, lg_committed := checkpoint\<rparr>))))
      | None \<Rightarrow>
          bindE (log_abort env (lc_seq (lg_committed l) + 1) l) (\<lambda>l'.
          Inr (True, lc_seq (lg_committed l') + 1, l'\<lparr>lg_committed := checkpoint\<rparr>)))"

definition resetToSnapshot ::
  "'s log_env \<Rightarrow> snapshot_reply \<Rightarrow> 's log_state \<Rightarrow> (bool \<times> 's log_state) res" where
  "resetToSnapshot env msg l =
     bindE (checkpoint_of_pb (srp_checkpoint msg)) (\<lambda>checkpoint.
     bindE (resetBase env msg checkpoint l) (\<lambda>(proceed, startSeq, l1).
     if \<not> proceed then Inr (False, l1)
     else bindE (addEntries env startSeq (srp_log_entries msg) l1) (\<lambda>(added, l2).
       if \<not> added then Inr (False, l2)
       else let l3 = l2\<lparr>lg_clientRecord := lc_clientRecord checkpoint\<rparr>
            in if getDigest l3 \<noteq> lc_logDigest checkpoint then Inl RuntimeError
               else Inr (True, l3\<lparr>lg_latestCertSeq := 0, lg_latestCert := None\<rparr>))))"

definition applySnapshotModifyLog ::
  "'s log_env \<Rightarrow> snapshot_reply \<Rightarrow> 's log_state \<Rightarrow> (bool \<times> 's log_state) res" where
  "applySnapshotModifyLog env msg l =
     bindE (checkpoint_of_pb (srp_checkpoint msg)) (\<lambda>checkpoint.
     let numMissing = rec_numMissing (lg_clientRecord l) (lc_clientRecord checkpoint);
         toReapply = filter (\<lambda>e. lc_seq checkpoint - numMissing < le_seq e) (lg_log l)
     in bindE (resetToSnapshot env msg l) (\<lambda>(ok, l1).
        if \<not> ok then Inr (False, l1)
        else bindE (foldE (\<lambda>e l'. bindE (addEntry env (le_client_id e) (le_client_seq e) (le_request e) [] True l')
                                    (\<lambda>(_, l''). Inr l'')) toReapply l1) (\<lambda>l2.
             Inr (True, l2))))"

definition log_toProto :: "'s log_env \<Rightarrow> bool \<Rightarrow> 's log_state \<Rightarrow> repair_log" where
  "log_toProto env includeFullRequests l =
     \<lparr>rl_entries = map (entry_toProto (env_sha env) includeFullRequests)
         (filter (\<lambda>e. \<not> le_seq e \<le> lc_seq (lg_committed l)) (lg_log l)),
      rl_checkpoint = checkpoint_toProto (env_sha env) (lg_committed l),
      rl_cert = lg_latestCert l\<rparr>"

section \<open>Invariant\<close>

text \<open>Consecutive numbers from \<open>s\<close> on, each digest computed from its predecessor's.\<close>

fun chain :: "(bytes \<Rightarrow> bytes) \<Rightarrow> u32 \<Rightarrow> bytes \<Rightarrow> log_entry list \<Rightarrow> bool" where
  "chain sha s prev [] = True"
| "chain sha s prev (e # es) =
     (le_seq e = s \<and>
      le_digest e = sha (entry_input s (le_client_id e) (le_client_seq e) (le_request e) prev) \<and>
      chain sha (s + 1) (le_digest e) es)"

definition last_digest :: "bytes \<Rightarrow> log_entry list \<Rightarrow> bytes" where
  "last_digest prev es = (if es = [] then prev else le_digest (last es))"

definition log_chain :: "(bytes \<Rightarrow> bytes) \<Rightarrow> 's log_state \<Rightarrow> bool" where
  "log_chain sha l \<longleftrightarrow>
     chain sha (lc_seq (lg_stable l) + 1) (lc_logDigest (lg_stable l)) (lg_log l) \<and>
     unat (lg_nextSeq l) = unat (lc_seq (lg_stable l)) + length (lg_log l) + 1"

definition log_wf :: "(bytes \<Rightarrow> bytes) \<Rightarrow> 's log_state \<Rightarrow> bool" where
  "log_wf sha l \<longleftrightarrow> log_chain sha l \<and>
     lc_seq (lg_stable l) \<le> lc_seq (lg_committed l) \<and> lc_seq (lg_committed l) < lg_nextSeq l"

lemma last_digest_simps [simp]:
  "last_digest p [] = p"
  "last_digest p (e # es) = last_digest (le_digest e) es"
  "last_digest p (es @ [e]) = le_digest e"
  by (simp_all add: last_digest_def)

lemma last_digest_append: "last_digest p (xs @ ys) = last_digest (last_digest p xs) ys"
  by (induction xs arbitrary: p) simp_all

lemma getDigest_last: "getDigest l = last_digest (lc_logDigest (lg_stable l)) (lg_log l)"
  by (simp add: getDigest_def last_digest_def)

lemma chain_append:
  "chain sha s p (xs @ ys) \<longleftrightarrow>
     chain sha s p xs \<and> chain sha (s + of_nat (length xs)) (last_digest p xs) ys"
  by (induction xs arbitrary: s p) (auto simp: algebra_simps)

lemma chain_take: "chain sha s p es \<Longrightarrow> chain sha s p (take n es)"
  by (metis append_take_drop_id chain_append)

lemma chain_drop:
  "chain sha s p es \<Longrightarrow> n \<le> length es \<Longrightarrow>
   chain sha (s + of_nat n) (last_digest p (take n es)) (drop n es)"
  using chain_append [of sha s p "take n es" "drop n es"] by simp

lemma chain_nth_seq:
  "chain sha s p es \<Longrightarrow> i < length es \<Longrightarrow> le_seq (es ! i) = s + of_nat i"
proof (induction es arbitrary: s p i)
  case (Cons e es)
  then show ?case by (cases i) (auto simp: algebra_simps)
qed simp

lemma chain_nth_digest:
  "chain sha s p es \<Longrightarrow> i < length es \<Longrightarrow> le_digest (es ! i) = last_digest p (take (Suc i) es)"
proof (induction es arbitrary: s p i)
  case (Cons e es)
  then show ?case by (cases i) auto
qed simp

lemma chain_hd_seq: "chain sha s p es \<Longrightarrow> es \<noteq> [] \<Longrightarrow> le_seq (hd es) = s"
  by (cases es) auto

lemma unat_add_nat:
  fixes s :: "'a::len word"
  assumes "unat s + k < 2 ^ LENGTH('a)"
  shows "unat (s + of_nat k) = unat s + k"
proof -
  have "k < 2 ^ LENGTH('a)" using assms by simp
  then have "unat (of_nat k :: 'a word) = k" by (simp add: unat_of_nat)
  then show ?thesis using assms by (simp add: unat_word_ariths)
qed

text \<open>In a chained log the number of an entry is its position above the stable checkpoint.\<close>

lemma log_chain_bound:
  "log_chain sha l \<Longrightarrow> unat (lc_seq (lg_stable l)) + length (lg_log l) + 1 < 2 ^ 32"
  using unsigned_less [of "lg_nextSeq l", where ?'a = nat] by (simp add: log_chain_def)

lemma log_chain_seq:
  assumes "log_chain sha l" and "i < length (lg_log l)"
  shows "unat (le_seq (lg_log l ! i)) = unat (lc_seq (lg_stable l)) + i + 1"
proof -
  have "le_seq (lg_log l ! i) = lc_seq (lg_stable l) + of_nat (Suc i)"
    using chain_nth_seq [of sha "lc_seq (lg_stable l) + 1" "lc_logDigest (lg_stable l)" "lg_log l" i] assms
    by (simp add: log_chain_def algebra_simps)
  then show ?thesis
    using unat_add_nat [of "lc_seq (lg_stable l)" "Suc i"] log_chain_bound [OF assms(1)] assms(2) by simp
qed

lemma log_chain_sorted:
  assumes "log_chain sha l"
  shows "sorted_wrt (<) (map le_seq (lg_log l))"
  unfolding sorted_wrt_iff_nth_less
  using log_chain_seq [OF assms] by (auto simp: word_less_nat_alt)

lemma log_chain_index:
  assumes "log_chain sha l" and "lc_seq (lg_stable l) < s" and "lg_log l \<noteq> []"
  shows "unat (s - le_seq (hd (lg_log l))) = unat s - unat (lc_seq (lg_stable l)) - 1"
proof -
  have "hd (lg_log l) = lg_log l ! 0" using assms(3) by (simp add: hd_conv_nth)
  then have hd: "unat (le_seq (hd (lg_log l))) = unat (lc_seq (lg_stable l)) + 1"
    using log_chain_seq [OF assms(1), of 0] assms(3) by simp
  then have "le_seq (hd (lg_log l)) \<le> s" using assms(2) by (simp add: word_le_nat_alt word_less_nat_alt)
  then show ?thesis using hd by (simp add: unat_sub)
qed

lemma log_chain_empty_iff:
  assumes "log_chain sha l"
  shows "lg_nextSeq l - 1 = lc_seq (lg_stable l) \<longleftrightarrow> lg_log l = []"
proof -
  have "lg_nextSeq l - 1 = lc_seq (lg_stable l) \<longleftrightarrow> lg_nextSeq l = lc_seq (lg_stable l) + 1"
    by (auto simp: algebra_simps)
  also have "\<dots> \<longleftrightarrow> unat (lg_nextSeq l) = unat (lc_seq (lg_stable l)) + 1"
    using unat_add_nat [of "lc_seq (lg_stable l)" 1] log_chain_bound [OF assms]
    by (simp add: word_unat_eq_iff)
  also have "\<dots> \<longleftrightarrow> lg_log l = []"
    using assms by (simp add: log_chain_def)
  finally show ?thesis .
qed

lemma log_wf_init [simp]: "log_wf sha (log_init app)"
  by (simp add: log_wf_def log_chain_def log_init_def initial_checkpoint_def)

lemma log_wf_chain: "log_wf sha l \<Longrightarrow> log_chain sha l"
  by (simp add: log_wf_def)

section \<open>Appending\<close>

lemma log_nextSeq_value:
  assumes "log_chain sha l"
  shows "lg_nextSeq l = lc_seq (lg_stable l) + 1 + of_nat (length (lg_log l))"
proof -
  have "unat (lc_seq (lg_stable l) + of_nat (Suc (length (lg_log l)))) =
      unat (lc_seq (lg_stable l)) + Suc (length (lg_log l))"
    using log_chain_bound [OF assms] by (intro unat_add_nat) simp
  then have "lg_nextSeq l = lc_seq (lg_stable l) + of_nat (Suc (length (lg_log l)))"
    using assms by (intro word_unat_eq_iff [THEN iffD2]) (simp add: log_chain_def)
  then show ?thesis by (simp add: ac_simps)
qed

lemma log_chain_append:
  assumes "log_chain sha l" and "lg_nextSeq l + 1 \<noteq> 0"
    and "le_seq e = lg_nextSeq l"
    and "le_digest e = sha (entry_input (lg_nextSeq l) (le_client_id e) (le_client_seq e) (le_request e) (getDigest l))"
    and "lg_log l' = lg_log l @ [e]" "lg_nextSeq l' = lg_nextSeq l + 1" "lg_stable l' = lg_stable l"
  shows "log_chain sha l'"
proof -
  have "unat (lg_nextSeq l + 1) = Suc (unat (lg_nextSeq l))"
    using assms(2) by (simp add: unatSuc add.commute)
  moreover have "chain sha (lc_seq (lg_stable l) + 1 + of_nat (length (lg_log l)))
      (last_digest (lc_logDigest (lg_stable l)) (lg_log l)) [e]"
    unfolding log_nextSeq_value [OF assms(1), symmetric] getDigest_last [symmetric] using assms(3,4) by simp
  ultimately show ?thesis
    using assms(1,5-7) by (simp add: log_chain_def chain_append)
qed

text \<open>\<open>addEntry\<close> on a chained log: the predecessor digest is the digest of the log.\<close>

definition appended ::
  "'s log_env \<Rightarrow> u32 \<Rightarrow> u32 \<Rightarrow> bytes \<Rightarrow> bytes \<Rightarrow> client_record \<Rightarrow> 's \<Rightarrow> 's log_state \<Rightarrow> 's log_state" where
  "appended env c q req res record' app' l =
     l\<lparr>lg_clientRecord := record',
       lg_log := lg_log l @ [(new_entry (env_sha env) (lg_nextSeq l) c q req (getDigest l))\<lparr>le_result := res\<rparr>],
       lg_app := app', lg_nextSeq := lg_nextSeq l + 1\<rparr>"

definition half_appended ::
  "'s log_env \<Rightarrow> u32 \<Rightarrow> u32 \<Rightarrow> bytes \<Rightarrow> client_record \<Rightarrow> 's log_state \<Rightarrow> 's log_state" where
  "half_appended env c q req record' l =
     l\<lparr>lg_clientRecord := record',
       lg_log := lg_log l @ [new_entry (env_sha env) (lg_nextSeq l) c q req (getDigest l)]\<rparr>"

definition dup_check :: "bool \<Rightarrow> u32 \<Rightarrow> u32 \<Rightarrow> client_record \<Rightarrow> bool \<times> client_record" where
  "dup_check chk c q r = (if chk then rec_update c q r else (True, r))"

lemma addEntry_chain:
  assumes "log_chain (env_sha env) l"
  shows "addEntry env c q req r0 chk l =
    (case dup_check chk c q (lg_clientRecord l) of
       (False, record') \<Rightarrow> Inr ((False, r0), l\<lparr>lg_clientRecord := record'\<rparr>)
     | (True, record') \<Rightarrow>
         (case env_parse_padded env req of
            None \<Rightarrow> Inr ((False, r0), half_appended env c q req record' l)
          | Some rd \<Rightarrow>
              bindE (app_execute (env_app env) (prd_req_data rd) (lg_nextSeq l) (lg_app l))
                (\<lambda>(res, app'). Inr ((True, res), appended env c q req res record' app' l))))"
proof -
  obtain fresh record' where u: "dup_check chk c q (lg_clientRecord l) = (fresh, record')"
    by fastforce
  show ?thesis
  proof (cases "lg_log l = []")
    case True
    then have "lg_nextSeq l - 1 = lc_seq (lg_stable l)" using log_chain_empty_iff [OF assms] by simp
    then show ?thesis
      using u True
      by (cases fresh) (simp_all add: addEntry_def Let_def appended_def half_appended_def
          dup_check_def getDigest_def split: option.split)
  next
    case False
    then have "lg_nextSeq l - 1 \<noteq> lc_seq (lg_stable l)" using log_chain_empty_iff [OF assms] by simp
    then show ?thesis
      using u False
      by (cases fresh) (simp_all add: addEntry_def Let_def appended_def half_appended_def
          dup_check_def getDigest_def split: option.split)
  qed
qed

lemma addEntry_TrueD:
  assumes "addEntry env c q req r0 chk l = Inr ((True, res), l')" and "log_chain (env_sha env) l"
  obtains rd app' record' where
    "env_parse_padded env req = Some rd"
    "app_execute (env_app env) (prd_req_data rd) (lg_nextSeq l) (lg_app l) = Inr (res, app')"
    "dup_check chk c q (lg_clientRecord l) = (True, record')"
    "l' = appended env c q req res record' app' l"
  using assms(1)
  by (auto simp: addEntry_chain [OF assms(2)] split: prod.splits bool.splits option.splits elim!: bindE_InrE)

lemma log_chain_appended:
  assumes "log_chain (env_sha env) l" and "lg_nextSeq l + 1 \<noteq> 0"
  shows "log_chain (env_sha env) (appended env c q req res record' app' l)"
  by (rule log_chain_append [OF assms]) (simp_all add: appended_def)

lemma addEntry_False_chk:
  assumes "addEntry env c q req r0 False l = Inr ((b, res), l')" and "log_chain (env_sha env) l"
    and "env_parse_padded env req = None"
  shows "b = False \<and> l' = half_appended env c q req (lg_clientRecord l) l"
  using assms(1) by (simp add: addEntry_chain [OF assms(2)] dup_check_def assms(3))

section \<open>Truncating\<close>

lemma log_takeWhile:
  assumes "log_chain sha l" and "lc_seq (lg_stable l) < s"
  shows "takeWhile (\<lambda>e. le_seq e < s) (lg_log l) =
    take (unat s - unat (lc_seq (lg_stable l)) - 1) (lg_log l)"
proof (rule takeWhile_eq_take_P_nth)
  let ?n = "unat s - unat (lc_seq (lg_stable l)) - 1"
  show "le_seq (lg_log l ! i) < s" if "i < ?n" "i < length (lg_log l)" for i
    using that log_chain_seq [OF assms(1)] by (simp add: word_less_nat_alt)
  show "\<not> le_seq (lg_log l ! ?n) < s" if "?n < length (lg_log l)"
    using that log_chain_seq [OF assms(1)] assms(2) by (simp add: word_less_nat_alt)
qed

text \<open>\<open>abort\<close> on a well-formed log.\<close>

lemma log_abort_chain:
  assumes "log_chain (env_sha env) l" and "lc_seq (lg_committed l) < s" and "s < lg_nextSeq l"
    and "lc_seq (lg_stable l) \<le> lc_seq (lg_committed l)"
  shows "log_abort env s l =
    bindE (app_abort (env_app env) s (lg_app l)) (\<lambda>(_, app').
      Inr (l\<lparr>lg_log := takeWhile (\<lambda>e. le_seq e < s) (lg_log l), lg_app := app', lg_nextSeq := s\<rparr>))"
proof -
  have stable: "lc_seq (lg_stable l) < s" using assms(2,4) by auto
  let ?n = "unat s - unat (lc_seq (lg_stable l)) - 1"
  have len: "?n \<le> length (lg_log l)" and ne: "lg_log l \<noteq> []"
    using assms(1,3) stable by (auto simp: log_chain_def word_less_nat_alt)
  have hd: "le_seq (hd (lg_log l)) = lc_seq (lg_stable l) + 1"
    using assms(1) ne by (auto simp: log_chain_def intro: chain_hd_seq)
  have idx: "unat (s - (lc_seq (lg_stable l) + 1)) = ?n"
    using log_chain_index [OF assms(1) stable ne] by (simp add: hd)
  note take = log_takeWhile [OF assms(1) stable]
  have "\<not> lg_nextSeq l \<le> s" "\<not> s \<le> lc_seq (lg_committed l)" using assms(2,3) by auto
  then show ?thesis
    using ne len by (simp add: log_abort_def hd idx take Let_def)
qed

lemma log_chain_take:
  assumes "log_chain sha l" and "lc_seq (lg_stable l) < s" and "s \<le> lg_nextSeq l"
    and "lg_log l' = takeWhile (\<lambda>e. le_seq e < s) (lg_log l)" "lg_nextSeq l' = s" "lg_stable l' = lg_stable l"
  shows "log_chain sha l'"
proof -
  let ?n = "unat s - unat (lc_seq (lg_stable l)) - 1"
  have log': "lg_log l' = take ?n (lg_log l)"
    unfolding assms(4) by (rule log_takeWhile [OF assms(1,2)])
  have "?n \<le> length (lg_log l)" and "unat (lc_seq (lg_stable l)) < unat s"
    using assms(1-3) by (simp_all add: log_chain_def word_le_nat_alt word_less_nat_alt)
  moreover have "chain sha (lc_seq (lg_stable l) + 1) (lc_logDigest (lg_stable l)) (take ?n (lg_log l))"
    using assms(1) unfolding log_chain_def by (intro chain_take) simp
  ultimately show ?thesis
    unfolding log_chain_def log' assms(5,6) by simp
qed

text \<open>\<open>setCheckpoint\<close> at a sequence number inside a well-formed log.\<close>

definition truncated :: "log_checkpoint \<Rightarrow> 's log_state \<Rightarrow> 's log_state" where
  "truncated cp l =
     (if lc_appDigest cp \<noteq> [] \<and> lc_seq (lg_stable l) < lc_seq cp
      then l\<lparr>lg_stable := cp, lg_log := dropWhile (\<lambda>e. le_seq e \<le> lc_seq cp) (lg_log l)\<rparr>
      else l)"

lemma log_dropWhile:
  assumes "log_chain sha l" and "lc_seq (lg_stable l) < s"
  shows "dropWhile (\<lambda>e. le_seq e \<le> s) (lg_log l) = drop (unat s - unat (lc_seq (lg_stable l))) (lg_log l)"
proof -
  have "length (takeWhile (\<lambda>e. le_seq e \<le> s) (lg_log l)) =
      length (take (unat s - unat (lc_seq (lg_stable l))) (lg_log l))"
  proof (rule arg_cong [of _ _ length], rule takeWhile_eq_take_P_nth)
    let ?n = "unat s - unat (lc_seq (lg_stable l))"
    show "le_seq (lg_log l ! i) \<le> s" if "i < ?n" "i < length (lg_log l)" for i
      using that log_chain_seq [OF assms(1)] by (simp add: word_le_nat_alt)
    show "\<not> le_seq (lg_log l ! ?n) \<le> s" if "?n < length (lg_log l)"
      using that log_chain_seq [OF assms(1)] assms(2) by (simp add: word_le_nat_alt word_less_nat_alt)
  qed
  then show ?thesis
    by (simp add: dropWhile_eq_drop min_def split: if_splits)
qed

lemma setCheckpoint_chain:
  assumes "log_chain (env_sha env) l" and "lc_seq cp < lg_nextSeq l" and "length (lg_log l) < 2 ^ 31"
    and "lc_appDigest cp \<noteq> [] \<longrightarrow> lc_snapshot cp \<noteq> None"
  shows "setCheckpoint env cp l =
    (if lc_seq (lg_committed l) < lc_seq cp
     then bindE (app_commit (env_app env) (lc_seq cp) (lg_app l))
       (\<lambda>(_, app'). Inr (truncated cp (l\<lparr>lg_committed := cp, lg_app := app'\<rparr>)))
     else Inr (truncated cp l))"
proof -
  have tail: "setStableCheckpoint cp m = Inr (truncated cp m)"
    if m: "lg_log m = lg_log l" "lg_stable m = lg_stable l" for m :: "'a log_state"
  proof (cases "lc_appDigest cp \<noteq> [] \<and> lc_seq (lg_stable m) < lc_seq cp \<and> lg_log m \<noteq> []")
    case True
    then have lt: "lc_seq (lg_stable l) < lc_seq cp" and ne: "lg_log l \<noteq> []" by (simp_all add: m)
    let ?n = "unat (lc_seq cp) - unat (lc_seq (lg_stable l))"
    have hd: "le_seq (hd (lg_log l)) = lc_seq (lg_stable l) + 1"
      using assms(1) ne by (auto simp: log_chain_def intro: chain_hd_seq)
    have idx: "unat (lc_seq cp - le_seq (hd (lg_log l)) + 1) = ?n"
      using lt by (simp add: hd unat_sub word_le_nat_alt word_less_nat_alt)
    have len: "?n \<le> length (lg_log l)"
      using assms(1,2) lt by (auto simp: log_chain_def word_less_nat_alt)
    then have nn: "0 \<le> sint (lc_seq cp - le_seq (hd (lg_log l)) + 1)"
      using idx assms(3) by (subst sint_unat) simp_all
    then show ?thesis
      using True idx len assms(4) log_dropWhile [OF assms(1) lt]
      by (simp add: setStableCheckpoint_def truncated_def m Let_def)
  next
    case False
    then show ?thesis using assms(4) by (auto simp: setStableCheckpoint_def truncated_def)
  qed
  show ?thesis
    unfolding setCheckpoint_def
    by (cases "lc_seq (lg_committed l) < lc_seq cp"; cases "app_commit (env_app env) (lc_seq cp) (lg_app l)")
      (auto simp: tail)
qed

lemma log_chain_truncated:
  assumes "log_chain sha l" and "lc_seq cp < lg_nextSeq l"
    and "lc_appDigest cp \<noteq> [] \<Longrightarrow> lc_seq (lg_stable l) < lc_seq cp \<Longrightarrow> getDigestAt (lc_seq cp) l = Inr (lc_logDigest cp)"
  shows "log_chain sha (truncated cp l) \<and> getDigest (truncated cp l) = getDigest l"
proof (cases "lc_appDigest cp \<noteq> [] \<and> lc_seq (lg_stable l) < lc_seq cp")
  case True
  then have lt: "lc_seq (lg_stable l) < lc_seq cp" by simp
  let ?n = "unat (lc_seq cp) - unat (lc_seq (lg_stable l))"
  have len: "?n \<le> length (lg_log l)" and pos: "0 < ?n" and cpn: "unat (lc_seq cp) = unat (lc_seq (lg_stable l)) + ?n"
    using assms(1,2) lt by (auto simp: log_chain_def word_less_nat_alt)
  have ne: "lg_log l \<noteq> []" using len pos by auto
  have chain: "chain sha (lc_seq (lg_stable l) + 1) (lc_logDigest (lg_stable l)) (lg_log l)"
    using assms(1) by (simp add: log_chain_def)
  have idx: "unat (lc_seq cp - le_seq (hd (lg_log l))) = ?n - 1"
    using log_chain_index [OF assms(1) lt ne] by simp
  have "getDigestAt (lc_seq cp) l = Inr (le_digest (lg_log l ! (?n - 1)))"
    using log_chain_seq [OF assms(1), of "?n - 1"] idx lt ne len pos assms(2) cpn
    by (auto simp: getDigestAt_def inRange_def Let_def word_unat_eq_iff)
  then have "lc_logDigest cp = le_digest (lg_log l ! (?n - 1))" using assms(3) True by simp
  also have "\<dots> = last_digest (lc_logDigest (lg_stable l)) (take (Suc (?n - 1)) (lg_log l))"
    using len pos by (intro chain_nth_digest [OF chain]) simp
  also have "Suc (?n - 1) = ?n" using pos by simp
  finally have dig: "lc_logDigest cp = last_digest (lc_logDigest (lg_stable l)) (take ?n (lg_log l))" .
  have seq: "lc_seq (lg_stable l) + of_nat ?n = lc_seq cp"
  proof (rule word_unat_eq_iff [THEN iffD2])
    have "unat (lc_seq (lg_stable l)) + ?n < 2 ^ LENGTH(32)"
      using unsigned_less [of "lc_seq cp", where ?'a = nat] cpn by linarith
    then show "unat (lc_seq (lg_stable l) + of_nat ?n) = unat (lc_seq cp)"
      using unat_add_nat cpn by metis
  qed
  have nxt: "lc_seq (lg_stable l) + 1 + of_nat ?n = lc_seq cp + 1"
    using seq by (metis add.assoc add.commute)
  have "chain sha (lc_seq cp + 1) (lc_logDigest cp) (drop ?n (lg_log l))"
    using chain_drop [OF chain len] unfolding dig nxt .
  moreover have "last_digest (lc_logDigest cp) (drop ?n (lg_log l)) = last_digest (lc_logDigest (lg_stable l)) (lg_log l)"
    unfolding dig by (simp add: last_digest_append [symmetric])
  ultimately show ?thesis
    using True log_dropWhile [OF assms(1) lt] assms(1) len cpn
    by (simp add: truncated_def log_chain_def getDigest_last)
qed (use assms(1) in \<open>auto simp: truncated_def\<close>)

section \<open>The hash chain determines the history\<close>

fun chain_inputs :: "bytes \<Rightarrow> log_entry list \<Rightarrow> bytes set" where
  "chain_inputs prev [] = {}"
| "chain_inputs prev (e # es) =
     insert (entry_input (le_seq e) (le_client_id e) (le_client_seq e) (le_request e) prev)
       (chain_inputs (le_digest e) es)"

lemma chain_inputs_append:
  "chain_inputs p (xs @ ys) = chain_inputs p xs \<union> chain_inputs (last_digest p xs) ys"
  by (induction xs arbitrary: p) simp_all

definition entry_id :: "log_entry \<Rightarrow> u32 \<times> u32 \<times> u32 \<times> bytes" where
  "entry_id e = (le_seq e, le_client_id e, le_client_seq e, le_request e)"

lemma chain_last_digest_length:
  "chain sha s p es \<Longrightarrow> (\<forall>b. length (sha b) = 32) \<Longrightarrow>
   length (last_digest p es) = (if es = [] then length p else 32)"
  by (cases es rule: rev_cases) (auto simp: chain_append)

lemma chain_determines:
  assumes "chain sha s p es" and "chain sha s' p' es'" and "length es = length es'"
    and "length p = length p'" and "\<forall>b. length (sha b) = 32"
    and "inj_on sha (chain_inputs p es \<union> chain_inputs p' es')"
    and "last_digest p es = last_digest p' es'"
  shows "map entry_id es = map entry_id es' \<and> p = p'"
  using assms
proof (induction es arbitrary: es' rule: rev_induct)
  case Nil
  then show ?case by simp
next
  case (snoc e es)
  obtain es1 e1 where es': "es' = es1 @ [e1]"
    using snoc.prems(3) by (cases es' rule: rev_cases) auto
  let ?i = "entry_input (le_seq e) (le_client_id e) (le_client_seq e) (le_request e) (last_digest p es)"
  let ?i' = "entry_input (le_seq e1) (le_client_id e1) (le_client_seq e1) (le_request e1) (last_digest p' es1)"
  have d: "le_digest e = sha ?i" "le_digest e1 = sha ?i'"
    using snoc.prems(1,2) by (simp_all add: es' chain_append)
  have "sha ?i = sha ?i'" using snoc.prems(7) d by (simp add: es')
  moreover have "?i \<in> chain_inputs p (es @ [e]) \<union> chain_inputs p' es'"
      "?i' \<in> chain_inputs p (es @ [e]) \<union> chain_inputs p' es'"
    by (simp_all add: es' chain_inputs_append)
  ultimately have "?i = ?i'" by (rule inj_onD [OF snoc.prems(6)])
  moreover have "length (last_digest p es) = length (last_digest p' es1)"
    using chain_last_digest_length [of sha s p es] chain_last_digest_length [of sha s' p' es1] snoc.prems(1-5)
    by (auto simp: es' chain_append)
  ultimately have "le_seq e = le_seq e1 \<and> le_client_id e = le_client_id e1 \<and>
      le_client_seq e = le_client_seq e1 \<and> le_request e = le_request e1 \<and> last_digest p es = last_digest p' es1"
    by (rule entry_input_inj)
  then have eq: "entry_id e = entry_id e1" "last_digest p es = last_digest p' es1"
    by (simp_all add: entry_id_def)
  have "inj_on sha (chain_inputs p es \<union> chain_inputs p' es1)"
    using snoc.prems(6) by (rule inj_on_subset) (auto simp: es' chain_inputs_append)
  then have "map entry_id es = map entry_id es1 \<and> p = p'"
    using snoc.prems(1-5) eq(2) by (intro snoc.IH) (simp_all add: es' chain_append)
  then show ?case using eq(1) by (simp add: es')
qed

section \<open>Loading a snapshot\<close>

lemma addEntries_chain:
  assumes "addEntries env start es l = Inr (b, l')" and "log_chain (env_sha env) l"
    and "unat (lg_nextSeq l) + length es < 2 ^ 32" and "b"
  shows "log_chain (env_sha env) l' \<and> lg_stable l' = lg_stable l \<and> lg_committed l' = lg_committed l \<and>
    (\<exists>fs. lg_log l' = lg_log l @ fs \<and> map (\<lambda>e. (le_client_id e, le_client_seq e, le_request e)) fs =
      map (\<lambda>e. (lep_client_id e, lep_client_seq e, bytes_or_empty (lep_request e))) (filter (\<lambda>e. start \<le> lep_seq e) es))"
  using assms
proof (induction es arbitrary: l)
  case (Cons e es)
  show ?case
  proof (cases "lep_seq e < start")
    case True
    then have "\<not> start \<le> lep_seq e" by auto
    with True show ?thesis using Cons.IH [of l] Cons.prems by simp
  next
    case False
    then obtain res m where m: "addEntry env (lep_client_id e) (lep_client_seq e)
        (bytes_or_empty (lep_request e)) [] False l = Inr ((True, res), m)"
      and rest: "addEntries env start es m = Inr (b, l')"
      using Cons.prems(1,4) by (auto elim!: bindE_InrE split: if_splits)
    have "unat (lg_nextSeq l) + 1 < 2 ^ 32" using Cons.prems(3) by simp
    note nxt = unat_Suc_no_wrap [OF this]
    obtain app' record' where m': "m = appended env (lep_client_id e) (lep_client_seq e)
        (bytes_or_empty (lep_request e)) res record' app' l"
      using addEntry_TrueD [OF m Cons.prems(2)] by metis
    have "log_chain (env_sha env) m"
      unfolding m' using Cons.prems(2) nxt(2) by (rule log_chain_appended)
    moreover have "unat (lg_nextSeq m) + length es < 2 ^ 32"
      using Cons.prems(3) nxt(1) by (simp add: m' appended_def)
    ultimately have IH: "log_chain (env_sha env) l' \<and> lg_stable l' = lg_stable m \<and> lg_committed l' = lg_committed m \<and>
      (\<exists>fs. lg_log l' = lg_log m @ fs \<and> map (\<lambda>e. (le_client_id e, le_client_seq e, le_request e)) fs =
        map (\<lambda>e. (lep_client_id e, lep_client_seq e, bytes_or_empty (lep_request e))) (filter (\<lambda>e. start \<le> lep_seq e) es))"
      using Cons.IH [OF rest] Cons.prems(4) by blast
    then show ?thesis using False by (auto simp: m' appended_def)
  qed
qed simp

text \<open>What \<open>resetToSnapshot\<close> has established whenever it returns \<open>true\<close>.\<close>

lemma resetToSnapshot_TrueD:
  assumes "resetToSnapshot env msg l = Inr (True, l')"
  obtains cp start l1 l2 where
    "checkpoint_of_pb (srp_checkpoint msg) = Inr cp"
    "resetBase env msg cp l = Inr (True, start, l1)"
    "addEntries env start (srp_log_entries msg) l1 = Inr (True, l2)"
    "l' = l2\<lparr>lg_clientRecord := lc_clientRecord cp, lg_latestCertSeq := 0, lg_latestCert := None\<rparr>"
    "getDigest l2 = lc_logDigest cp"
  using assms unfolding resetToSnapshot_def
  by (elim bindE_InrE)
    (auto simp: Let_def getDigest_def split: prod.splits if_splits elim!: bindE_InrE)

lemma resetBase_snapshotD:
  assumes "resetBase env msg cp l = Inr (True, start, l1)" and "srp_snapshot msg = Some snap"
  obtains cpb scp app' where "srp_snapshot_checkpoint msg = Some cpb" "checkpoint_of_pb cpb = Inr scp"
    "app_applySnapshot (env_app env) snap (lc_appDigest scp) (lc_seq scp) (lg_app l) = Inr (True, app')"
    "start = lc_seq scp + 1"
    "l1 = l\<lparr>lg_app := app', lg_log := [], lg_nextSeq := lc_seq scp + 1, lg_stable := scp, lg_committed := cp\<rparr>"
  using assms unfolding resetBase_def
  by (auto split: option.splits if_splits elim!: bindE_InrE)

lemma resetBase_committed:
  assumes "resetBase env msg cp l = Inr (True, start, l1)"
  shows "lg_committed l1 = cp"
  using assms unfolding resetBase_def
  by (auto split: option.splits if_splits elim!: bindE_InrE)

section \<open>The effect of the methods on a well-formed log\<close>

lemma addEntry_effect:
  assumes "log_wf (env_sha env) l" and "lg_nextSeq l + 1 \<noteq> 0"
    and "addEntry env c q req r0 chk l = Inr ((True, res), l')"
  shows "log_wf (env_sha env) l' \<and> lg_nextSeq l' = lg_nextSeq l + 1 \<and>
    lg_stable l' = lg_stable l \<and> lg_committed l' = lg_committed l \<and>
    (\<exists>e. lg_log l' = lg_log l @ [e] \<and> entry_id e = (lg_nextSeq l, c, q, req) \<and> le_result e = res \<and>
       le_digest e = env_sha env (entry_input (lg_nextSeq l) c q req (getDigest l)) \<and> getDigest l' = le_digest e)"
proof -
  have ch: "log_chain (env_sha env) l" using assms(1) by (rule log_wf_chain)
  obtain record' app' where l': "l' = appended env c q req res record' app' l"
    using addEntry_TrueD [OF assms(3) ch] by metis
  have "lc_seq (lg_committed l) < lg_nextSeq l + 1"
    using assms(1,2) by (simp add: log_wf_def less_Suc_no_wrap)
  then show ?thesis
    using log_chain_appended [OF ch assms(2)] assms(1)
    by (auto simp: l' log_wf_def appended_def entry_id_def getDigest_def)
qed

lemma log_abort_effect:
  assumes "log_wf (env_sha env) l" and "lc_seq (lg_committed l) < s" and "s \<le> lg_nextSeq l"
    and "log_abort env s l = Inr l'"
  shows "log_wf (env_sha env) l' \<and> lg_log l' = filter (\<lambda>e. le_seq e < s) (lg_log l) \<and>
    lg_nextSeq l' = s \<and> lg_stable l' = lg_stable l \<and> lg_committed l' = lg_committed l \<and>
    lg_clientRecord l' = lg_clientRecord l"
proof (cases "s = lg_nextSeq l")
  case True
  have ch: "log_chain (env_sha env) l" using assms(1) by (rule log_wf_chain)
  have "le_seq e < s" if e: "e \<in> set (lg_log l)" for e
  proof -
    obtain i where i: "i < length (lg_log l)" "e = lg_log l ! i" using e by (auto simp: in_set_conv_nth)
    then show ?thesis
      using log_chain_seq [OF ch i(1)] ch by (simp add: True log_chain_def word_less_nat_alt)
  qed
  then have "filter (\<lambda>e. le_seq e < s) (lg_log l) = lg_log l" by (simp add: filter_id_conv)
  moreover have "l' = l" using assms(4) True by (simp add: log_abort_def)
  ultimately show ?thesis using assms(1) True by simp
next
  case False
  then have lt: "s < lg_nextSeq l" using assms(3) by auto
  have ch: "log_chain (env_sha env) l" and st: "lc_seq (lg_stable l) \<le> lc_seq (lg_committed l)"
    using assms(1) by (simp_all add: log_wf_def)
  have stable: "lc_seq (lg_stable l) < s" using st assms(2) by auto
  obtain app' where l': "l' = l\<lparr>lg_log := takeWhile (\<lambda>e. le_seq e < s) (lg_log l), lg_app := app', lg_nextSeq := s\<rparr>"
    using assms(4) log_abort_chain [OF ch assms(2) lt st] by (auto elim!: bindE_InrE)
  have "log_chain (env_sha env) l'"
    using ch stable assms(3) by (rule log_chain_take) (simp_all add: l')
  moreover have "takeWhile (\<lambda>e. le_seq e < s) (lg_log l) = filter (\<lambda>e. le_seq e < s) (lg_log l)"
    using log_chain_sorted [OF ch] by (rule takeWhile_filter_sorted)
  ultimately show ?thesis using assms(2) st by (simp add: log_wf_def l')
qed

lemma setCheckpoint_effect:
  assumes "log_wf (env_sha env) l" and "lc_seq cp < lg_nextSeq l" and "length (lg_log l) < 2 ^ 31"
    and "getDigestAt (lc_seq cp) l = Inr (lc_logDigest cp)"
    and "lc_appDigest cp \<noteq> [] \<longrightarrow> lc_snapshot cp \<noteq> None"
    and "setCheckpoint env cp l = Inr l'"
  shows "log_wf (env_sha env) l' \<and> getDigest l' = getDigest l \<and> lg_nextSeq l' = lg_nextSeq l \<and>
    lg_committed l' = (if lc_seq (lg_committed l) < lc_seq cp then cp else lg_committed l) \<and>
    (lc_appDigest cp \<noteq> [] \<and> lc_seq (lg_stable l) < lc_seq cp \<longrightarrow>
      lg_stable l' = cp \<and> lg_log l' = filter (\<lambda>e. lc_seq cp < le_seq e) (lg_log l))"
proof -
  have ch: "log_chain (env_sha env) l" using assms(1) by (rule log_wf_chain)
  obtain app' where l': "l' = truncated cp
      (if lc_seq (lg_committed l) < lc_seq cp then l\<lparr>lg_committed := cp, lg_app := app'\<rparr> else l)"
    using assms(6) unfolding setCheckpoint_chain [OF ch assms(2,3) assms(5)]
    by (auto split: if_splits elim!: bindE_InrE)
  define m where "m = (if lc_seq (lg_committed l) < lc_seq cp then l\<lparr>lg_committed := cp, lg_app := app'\<rparr> else l)"
  have m: "lg_log m = lg_log l" "lg_nextSeq m = lg_nextSeq l" "lg_stable m = lg_stable l"
    "lg_committed m = (if lc_seq (lg_committed l) < lc_seq cp then cp else lg_committed l)"
    by (simp_all add: m_def)
  have "log_chain (env_sha env) m" "getDigestAt (lc_seq cp) m = getDigestAt (lc_seq cp) l" "getDigest m = getDigest l"
    using ch m by (simp_all add: log_chain_def getDigestAt_def inRange_def getDigest_def Let_def)
  then have t: "log_chain (env_sha env) (truncated cp m) \<and> getDigest (truncated cp m) = getDigest l"
    using log_chain_truncated [of "env_sha env" m cp] assms(2,4) m(2) by simp
  have "dropWhile (\<lambda>e. le_seq e \<le> lc_seq cp) (lg_log l) = filter (\<lambda>e. lc_seq cp < le_seq e) (lg_log l)"
    using log_chain_sorted [OF ch] by (rule dropWhile_filter_sorted)
  then show ?thesis
    unfolding l' m_def [symmetric]
    using t assms(1,2) m by (auto simp: log_wf_def truncated_def)
qed

section \<open>Properties\<close>

text \<open>A concrete log of two entries over a trivial application, for the witnesses; the parser
  refuses the empty request.\<close>

definition demo_env :: "unit log_env" where
  "demo_env = \<lparr>env_sha = (\<lambda>b. b),
     env_parse_padded = (\<lambda>b. if b = [] then None else Some \<lparr>prd_req_data = b, prd_padding = []\<rparr>),
     env_app = \<lparr>app_execute = (\<lambda>r i s. Inr ([1], s)), app_commit = (\<lambda>i s. Inr (True, s)),
       app_abort = (\<lambda>i s. Inr (True, s)), app_applySnapshot = (\<lambda>a b i s. Inr (True, s)),
       app_takeSnapshot = (\<lambda>s. (\<lparr>snap_seq = 0, snap_data = [], snap_digest = []\<rparr>, s))\<rparr>\<rparr>"

definition demo_entries :: "(bytes \<Rightarrow> bytes) \<Rightarrow> log_entry list" where
  "demo_entries sha =
     (let e1 = new_entry sha 1 7 1 [5] [] in [e1, new_entry sha 2 7 2 [6] (le_digest e1)])"

definition demo_log :: "unit log_state" where
  "demo_log = (log_init ())\<lparr>lg_log := demo_entries (\<lambda>b. b), lg_nextSeq := 3\<rparr>"

lemma demo_log_wf: "log_wf (env_sha demo_env) demo_log"
  by (simp add: log_wf_def log_chain_def demo_log_def demo_entries_def demo_env_def log_init_def
      initial_checkpoint_def Let_def)


text \<open>A successful \<open>addEntry\<close> on a well-formed log (below the last sequence number) appends
  exactly one entry at the next number, chained to the digest of the log before it, keeps the
  log well formed and both checkpoints as they are.\<close>

theorem log_addEntry_appends:
  assumes "log_wf (env_sha env) l" and "lg_nextSeq l + 1 \<noteq> 0"
    and "addEntry env c q req r0 chk l = Inr ((True, res), l')"
  shows "log_wf (env_sha env) l' \<and> lg_nextSeq l' = lg_nextSeq l + 1 \<and>
    lg_stable l' = lg_stable l \<and> lg_committed l' = lg_committed l \<and>
    (\<exists>e. lg_log l' = lg_log l @ [e] \<and> entry_id e = (lg_nextSeq l, c, q, req) \<and> le_result e = res \<and>
       le_digest e = env_sha env (entry_input (lg_nextSeq l) c q req (getDigest l)) \<and> getDigest l' = le_digest e)"
  using assms by (rule addEntry_effect)

theorem log_addEntry_appends_witness:
  "\<exists>l'. addEntry demo_env 7 3 [8] [] True demo_log = Inr ((True, [1]), l') \<and>
     log_wf (env_sha demo_env) l' \<and> lg_nextSeq l' = 4"
proof -
  have add: "\<exists>l'. addEntry demo_env 7 3 [8] [] True demo_log = Inr ((True, [1]), l')"
    by (simp add: addEntry_chain [OF log_wf_chain [OF demo_log_wf]] dup_check_def rec_update_def
        seq_update_def sm_at_def empty_sequence_def)
      (simp add: demo_log_def log_init_def demo_env_def)
  have "lg_nextSeq demo_log = 3" by (simp add: demo_log_def)
  then show ?thesis using add log_addEntry_appends [OF demo_log_wf, of 7 3 "[8]" "[]" True "[1]"] by auto
qed

text \<open>A request whose bytes do not parse is refused, but only after its entry was appended
  and, when duplicates are checked, its id was recorded; the next number is not advanced, so
  the log that was well formed no longer is.\<close>

theorem log_parse_failure_breaks:
  assumes "log_wf (env_sha env) l" and "env_parse_padded env req = None"
    and "chk \<longrightarrow> fst (rec_update c q (lg_clientRecord l))"
  shows "\<exists>l' e. addEntry env c q req r0 chk l = Inr ((False, r0), l') \<and>
    lg_log l' = lg_log l @ [e] \<and> le_request e = req \<and> lg_nextSeq l' = lg_nextSeq l \<and>
    lg_clientRecord l' = (if chk then snd (rec_update c q (lg_clientRecord l)) else lg_clientRecord l) \<and>
    \<not> log_wf (env_sha env) l'"
proof -
  have ch: "log_chain (env_sha env) l" using assms(1) by (rule log_wf_chain)
  have d: "dup_check chk c q (lg_clientRecord l) = (True, snd (dup_check chk c q (lg_clientRecord l)))"
    using assms(3) by (auto simp: dup_check_def prod_eq_iff)
  show ?thesis
    using ch d
    by (auto simp: addEntry_chain [OF ch] assms(2) half_appended_def log_wf_def log_chain_def dup_check_def
        split: prod.splits bool.splits)
qed

theorem log_parse_failure_breaks_witness:
  "\<exists>l'. addEntry demo_env 7 3 [] [] False demo_log = Inr ((False, []), l') \<and> lg_nextSeq l' = 3 \<and>
     \<not> log_wf (env_sha demo_env) l'"
  using log_parse_failure_breaks [OF demo_log_wf, of "[]" False 7 3 "[]"]
  by (auto simp: demo_env_def demo_log_def)

text \<open>\<open>abort\<close> at a number above the committed checkpoint and not above the end removes
  exactly the entries from that number on, keeps the log well formed, its checkpoints and the
  client record as they are, and makes that number the next one.\<close>

theorem log_abort_truncates:
  assumes "log_wf (env_sha env) l" and "lc_seq (lg_committed l) < s" and "s \<le> lg_nextSeq l"
    and "log_abort env s l = Inr l'"
  shows "log_wf (env_sha env) l' \<and> lg_log l' = filter (\<lambda>e. le_seq e < s) (lg_log l) \<and>
    lg_nextSeq l' = s \<and> lg_stable l' = lg_stable l \<and> lg_committed l' = lg_committed l \<and>
    lg_clientRecord l' = lg_clientRecord l"
  using assms by (rule log_abort_effect)

theorem log_abort_truncates_witness:
  "\<exists>l'. log_abort demo_env 2 demo_log = Inr l' \<and> log_wf (env_sha demo_env) l' \<and> map le_seq (lg_log l') = [1]"
proof -
  have c: "lc_seq (lg_committed demo_log) < 2" "2 \<le> lg_nextSeq demo_log"
    by (simp_all add: demo_log_def log_init_def initial_checkpoint_def)
  have "\<exists>l'. log_abort demo_env 2 demo_log = Inr l'"
    by (simp add: log_abort_def demo_log_def log_init_def initial_checkpoint_def demo_entries_def
        demo_env_def Let_def)
  then show ?thesis
    using log_abort_truncates [OF demo_log_wf c]
    by (auto simp: demo_log_def demo_entries_def Let_def)
qed

text \<open>\<open>abort\<close> at a number beyond the end of the log does not fail: it only raises the next
  number, which leaves a gap, so the log is no longer well formed.\<close>

theorem log_abort_past_end_breaks:
  assumes "log_wf (env_sha env) l" and "lg_nextSeq l < s"
  shows "\<exists>l'. log_abort env s l = Inr l' \<and> lg_log l' = lg_log l \<and> lg_nextSeq l' = s \<and>
    \<not> log_wf (env_sha env) l'"
proof -
  have "lg_nextSeq l \<le> s" "unat (lg_nextSeq l) < unat s"
    using assms(2) by (simp_all add: word_less_nat_alt word_le_nat_alt)
  then show ?thesis using assms(1) by (auto simp: log_abort_def log_wf_def log_chain_def)
qed

theorem log_abort_past_end_breaks_witness:
  "\<exists>l'. log_abort demo_env 9 demo_log = Inr l' \<and> \<not> log_wf (env_sha demo_env) l'"
  using log_abort_past_end_breaks [OF demo_log_wf, of 9] by (auto simp: demo_log_def)

text \<open>C12: for a collision-free hash the digest of a log determines its history: two well-formed
  logs above stable checkpoints with equal sequence numbers that have the same length and
  the same digest hold the same requests at the same numbers, and their stable checkpoints
  have the same digest.\<close>

theorem log_digest_determines_history:
  assumes "log_wf sha l" and "log_wf sha l'" and "\<forall>b. length (sha b) = 32"
    and "inj_on sha (chain_inputs (lc_logDigest (lg_stable l)) (lg_log l) \<union>
                     chain_inputs (lc_logDigest (lg_stable l')) (lg_log l'))"
    and "length (lc_logDigest (lg_stable l)) = length (lc_logDigest (lg_stable l'))"
    and "lc_seq (lg_stable l) = lc_seq (lg_stable l')" and "lg_nextSeq l = lg_nextSeq l'"
    and "getDigest l = getDigest l'"
  shows "map entry_id (lg_log l) = map entry_id (lg_log l') \<and>
    lc_logDigest (lg_stable l) = lc_logDigest (lg_stable l')"
proof -
  have "length (lg_log l) = length (lg_log l')"
    using assms(1,2,6,7) by (simp add: log_wf_def log_chain_def)
  then show ?thesis
    using assms by (intro chain_determines) (auto simp: log_wf_def log_chain_def getDigest_last)
qed

theorem log_digest_determines_history_witness:
  "\<exists>(sha :: bytes \<Rightarrow> bytes) l l'. \<not> l = (l' :: unit log_state) \<and> getDigest l = getDigest l' \<and>
     map entry_id (lg_log l) = map entry_id (lg_log l') \<and> length (lg_log l) = 1 \<and>
     (\<forall>b. length (sha b :: bytes) = 32)"
proof -
  let ?sha = "\<lambda>b :: bytes. take 32 (b @ replicate 32 0) :: bytes"
  let ?e = "new_entry ?sha 1 7 1 [5] []"
  let ?l = "(log_init ())\<lparr>lg_log := [?e], lg_nextSeq := 2\<rparr>"
  let ?l' = "(log_init ())\<lparr>lg_log := [?e\<lparr>le_result := [1]\<rparr>], lg_nextSeq := 2\<rparr>"
  have wf: "log_wf ?sha ?l" "log_wf ?sha ?l'"
    by (simp_all add: log_wf_def log_chain_def log_init_def initial_checkpoint_def)
  have len: "\<forall>b. length (?sha b) = 32" by (auto simp: min_def)
  have "map entry_id (lg_log ?l) = map entry_id (lg_log ?l')"
    using log_digest_determines_history [OF wf len]
    by (simp add: log_init_def initial_checkpoint_def getDigest_def)
  moreover have "?l \<noteq> ?l'" by (simp add: new_entry_def log_init_def)
  ultimately show ?thesis
    using len by (intro exI [of _ ?sha] exI [of _ ?l] exI [of _ ?l']) (simp add: getDigest_def)
qed

text \<open>Committing a checkpoint whose sequence number lies in the log, and whose digest is the
  log's digest there, keeps the log well formed and its digest and next number unchanged; a
  checkpoint with an application digest also becomes the stable one, and the log is then
  cut to the entries above it.\<close>

theorem log_setCheckpoint_preserves:
  assumes "log_wf (env_sha env) l" and "lc_seq cp < lg_nextSeq l" and "length (lg_log l) < 2 ^ 31"
    and "getDigestAt (lc_seq cp) l = Inr (lc_logDigest cp)"
    and "lc_appDigest cp \<noteq> [] \<longrightarrow> lc_snapshot cp \<noteq> None"
    and "setCheckpoint env cp l = Inr l'"
  shows "log_wf (env_sha env) l' \<and> getDigest l' = getDigest l \<and> lg_nextSeq l' = lg_nextSeq l \<and>
    lg_committed l' = (if lc_seq (lg_committed l) < lc_seq cp then cp else lg_committed l) \<and>
    (lc_appDigest cp \<noteq> [] \<and> lc_seq (lg_stable l) < lc_seq cp \<longrightarrow>
      lg_stable l' = cp \<and> lg_log l' = filter (\<lambda>e. lc_seq cp < le_seq e) (lg_log l))"
  using assms by (rule setCheckpoint_effect)

theorem log_setCheckpoint_preserves_witness:
  "\<exists>cp l'. setCheckpoint demo_env cp demo_log = Inr l' \<and> lc_seq cp = 1 \<and> log_wf (env_sha demo_env) l' \<and>
     map le_seq (lg_log l') = [2]"
proof -
  let ?cp = "initial_checkpoint\<lparr>lc_seq := 1, lc_logDigest := le_digest (hd (demo_entries (\<lambda>b. b))),
     lc_appDigest := [9], lc_snapshot := Some []\<rparr>"
  note ds = demo_log_def log_init_def initial_checkpoint_def demo_entries_def demo_env_def Let_def
  have h: "lc_seq ?cp < lg_nextSeq demo_log" "length (lg_log demo_log) < 2 ^ 31"
    "getDigestAt (lc_seq ?cp) demo_log = Inr (lc_logDigest ?cp)"
    "lc_appDigest ?cp \<noteq> [] \<longrightarrow> lc_snapshot ?cp \<noteq> None"
    by (simp_all add: ds getDigestAt_def inRange_def)
  have "\<exists>l'. setCheckpoint demo_env ?cp demo_log = Inr l'"
    by (simp add: ds setCheckpoint_def setStableCheckpoint_def)
  then obtain l' where l': "setCheckpoint demo_env ?cp demo_log = Inr l'" ..
  from log_setCheckpoint_preserves [OF demo_log_wf h l'] l'
  show ?thesis by (intro exI [of _ ?cp] exI [of _ l']) (auto simp: ds)
qed

text \<open>When \<open>resetToSnapshot\<close> accepts a reply with an application snapshot, the log is a chain
  from the snapshot's checkpoint through the entries of the reply above it, its digest is that
  of the reply's checkpoint, the client record is the checkpoint's, and no certificate is left.\<close>

theorem log_reset_establishes:
  assumes "resetToSnapshot env msg l = Inr (True, l')" and "srp_snapshot msg = Some snap"
    and "srp_snapshot_checkpoint msg = Some cpb"
    and "unat (lcp_seq cpb) + length (srp_log_entries msg) + 1 < 2 ^ 32"
  shows "log_chain (env_sha env) l' \<and> lc_seq (lg_stable l') = lcp_seq cpb \<and>
    lc_logDigest (lg_stable l') = lcp_log_digest cpb \<and>
    getDigest l' = lcp_log_digest (srp_checkpoint msg) \<and>
    lc_seq (lg_committed l') = lcp_seq (srp_checkpoint msg) \<and>
    lg_clientRecord l' = rec_of_pb (lcp_client_record (srp_checkpoint msg)) \<and> lg_latestCert l' = None \<and>
    map (\<lambda>e. (le_client_id e, le_client_seq e, le_request e)) (lg_log l') =
      map (\<lambda>e. (lep_client_id e, lep_client_seq e, bytes_or_empty (lep_request e)))
        (filter (\<lambda>e. lcp_seq cpb + 1 \<le> lep_seq e) (srp_log_entries msg))"
proof -
  obtain cp start l1 l2 where cp: "checkpoint_of_pb (srp_checkpoint msg) = Inr cp"
    and base: "resetBase env msg cp l = Inr (True, start, l1)"
    and adds: "addEntries env start (srp_log_entries msg) l1 = Inr (True, l2)"
    and l': "l' = l2\<lparr>lg_clientRecord := lc_clientRecord cp, lg_latestCertSeq := 0, lg_latestCert := None\<rparr>"
    and dig: "getDigest l2 = lc_logDigest cp"
    using resetToSnapshot_TrueD [OF assms(1)] by metis
  obtain scp app' where scp: "checkpoint_of_pb cpb = Inr scp" and start: "start = lc_seq scp + 1"
    and l1: "l1 = l\<lparr>lg_app := app', lg_log := [], lg_nextSeq := lc_seq scp + 1, lg_stable := scp, lg_committed := cp\<rparr>"
    using resetBase_snapshotD [OF base assms(2)] assms(3) by auto metis
  note cps = checkpoint_of_pb_basic [OF cp] and scps = checkpoint_of_pb_basic [OF scp]
  have nw: "unat (lc_seq scp + 1) = Suc (unat (lc_seq scp))"
    using assms(4) by (intro unat_Suc_no_wrap) (simp add: scps)
  have "log_chain (env_sha env) l1" by (simp add: l1 log_chain_def nw)
  moreover have "unat (lg_nextSeq l1) + length (srp_log_entries msg) < 2 ^ 32"
    using assms(4) nw by (simp add: l1 scps)
  ultimately have l2: "log_chain (env_sha env) l2" "lg_stable l2 = scp" "lg_committed l2 = cp"
    "map (\<lambda>e. (le_client_id e, le_client_seq e, le_request e)) (lg_log l2) =
      map (\<lambda>e. (lep_client_id e, lep_client_seq e, bytes_or_empty (lep_request e)))
        (filter (\<lambda>e. start \<le> lep_seq e) (srp_log_entries msg))"
    using addEntries_chain [OF adds] by (auto simp: l1)
  have "log_chain (env_sha env) l'" "getDigest l' = getDigest l2"
    using l2(1) by (simp_all add: l' log_chain_def getDigest_def)
  then show ?thesis
    using dig l2(2-4) by (simp add: l' cps scps start)
qed

theorem log_reset_establishes_witness:
  "\<exists>msg l'. resetToSnapshot demo_env msg demo_log = Inr (True, l') \<and> log_chain (env_sha demo_env) l' \<and>
     getDigest l' = entry_input 6 1 1 [5] [3] \<and> lc_seq (lg_stable l') = 5"
proof -
  let ?scp = "empty_checkpoint_pb\<lparr>lcp_seq := 5, lcp_log_digest := [3]\<rparr>"
  let ?cp = "empty_checkpoint_pb\<lparr>lcp_seq := 6, lcp_log_digest := entry_input 6 1 1 [5] [3]\<rparr>"
  let ?msg = "\<lparr>srp_round = 0, srp_seq = 6, srp_replica_id = 0, srp_checkpoint = ?cp,
     srp_log_entries = [\<lparr>lep_seq = 6, lep_client_id = 1, lep_client_seq = 1, lep_digest = [],
        lep_request = Some [5], lep_request_digest = []\<rparr>],
     srp_snapshot_checkpoint = Some ?scp, srp_snapshot = Some []\<rparr>"
  note ds = demo_log_def log_init_def demo_env_def empty_checkpoint_pb_def empty_client_record_pb_def
  have "\<exists>l'. resetToSnapshot demo_env ?msg demo_log = Inr (True, l')"
    by (simp add: ds resetToSnapshot_def resetBase_def checkpoint_of_pb_def fill_maps_def
        addEntry_def getDigest_def Let_def)
  then obtain l' where l': "resetToSnapshot demo_env ?msg demo_log = Inr (True, l')" ..
  from log_reset_establishes [OF l', of "[]" ?scp] l'
  show ?thesis by (intro exI [of _ ?msg] exI [of _ l']) (simp add: ds)
qed

end
