(* ===== verification/RepairUtils.thy ===== *)
theory RepairUtils
  imports Config ReplicaLog "HOL-Library.Product_Lexorder"
begin

text \<open>
  \<open>lib/repair_utils.h\<close> and \<open>.cc\<close>: what a repair makes of the logs in a proposal. A pointer to an
  entry or checkpoint inside the proposal is the value it points to; the checkpoint pointer is
  uninitialised (\<open>None\<close>) until a message is seen. The hash is a parameter.
\<close>

section \<open>Data\<close>

record log_suffix =
  ls_replicaId :: u32
  ls_round :: u32
  ls_checkpointReplica :: u32
  ls_checkpoint :: "log_checkpoint_pb option"
  ls_entries :: "log_entry_pb list"
  ls_logDigest :: bytes

definition new_suffix :: "u32 \<Rightarrow> u32 \<Rightarrow> log_suffix" where
  "new_suffix replicaId round =
     \<lparr>ls_replicaId = replicaId, ls_round = round, ls_checkpointReplica = 0, ls_checkpoint = None,
      ls_entries = [], ls_logDigest = []\<rparr>"

record prepared_state =
  ps_round :: u32
  ps_pbftView :: u32
  ps_proposal :: repair_proposal
  ps_proposalDigest :: bytes
  ps_prepares :: "(u32, pbft_prepare) smap"
  ps_prepareSigs :: "(u32, bytes) smap"

text \<open>\<open>struct ClientRequest\<close>.\<close>

record req_record =
  rq_clientId :: u32
  rq_clientSeq :: u32
  rq_requestData :: bytes
  rq_padding :: bytes
  rq_deadline :: u64

text \<open>The request bytes of an entry: \<open>entry.request()\<close>, empty when the field is absent.\<close>

definition entry_request :: "log_entry_pb \<Rightarrow> bytes" where
  "entry_request e = bytes_or_empty (lep_request e)"

definition entry_key :: "log_entry_pb \<Rightarrow> request_id" where
  "entry_key e = (lep_client_id e, lep_client_seq e)"

section \<open>The log suffix of a proposal\<close>

text \<open>\<open>getValidClientRequests\<close>: counts per request id and request bytes; an id is mapped to the
  entry with which its count reaches \<open>f + 1\<close>, or a later one with those bytes.\<close>

definition gvr_step ::
  "u32 \<Rightarrow> u32 \<Rightarrow> log_entry_pb \<Rightarrow>
   (request_id \<Rightarrow> bytes \<Rightarrow> u32) \<times> (request_id, log_entry_pb) smap \<Rightarrow>
   (request_id \<Rightarrow> bytes \<Rightarrow> u32) \<times> (request_id, log_entry_pb) smap" where
  "gvr_step f checkpointSeq entry st =
     (let (counts, ret) = st; key = entry_key entry; c = counts key (entry_request entry) + 1
      in if lep_seq entry \<le> checkpointSeq then (counts, ret)
         else (counts(key := (counts key)(entry_request entry := c)),
               if f + 1 \<le> c then sm_put key entry ret else ret))"

definition getValidClientRequests ::
  "config_manager \<Rightarrow> repair_proposal \<Rightarrow> u32 \<Rightarrow> (request_id, log_entry_pb) smap" where
  "getValidClientRequests m p checkpointSeq =
     snd (fold (gvr_step (cfg_f (cm_config m)) checkpointSeq)
            (concat (map (\<lambda>msg. rl_entries (rs_log_of msg)) (rpr_start_msgs p))) (\<lambda>_ _. 0, []))"

text \<open>The highest checkpoint, the last of equals; \<open>assert(startMsg.has_log())\<close>.\<close>

definition pick_checkpoint :: "repair_start list \<Rightarrow> ((u32 \<times> log_checkpoint_pb) option \<times> u32) res" where
  "pick_checkpoint msgs =
     foldE (\<lambda>msg (best, maxSeq).
        case rs_log msg of None \<Rightarrow> Inl AssertFailed
        | Some log \<Rightarrow>
            if maxSeq \<le> lcp_seq (rl_checkpoint log)
            then Inr (Some (rs_replica_id msg, rl_checkpoint log), lcp_seq (rl_checkpoint log))
            else Inr (best, maxSeq)) msgs (None, 0)"

text \<open>The number of logs of other replicas whose digest at the checkpoint's number matches.\<close>

definition count_checkpoint_matches :: "u32 \<Rightarrow> log_checkpoint_pb \<Rightarrow> repair_start list \<Rightarrow> u32 res" where
  "count_checkpoint_matches cpReplica cp msgs =
     foldE (\<lambda>msg numMatches.
        let log = rs_log_of msg; own = rl_checkpoint log;
            hit = (\<lambda>digest. if digest = lcp_log_digest cp then numMatches + 1 else numMatches)
        in if rs_replica_id msg = cpReplica then Inr numMatches
           else if lcp_seq own = lcp_seq cp then Inr (hit (lcp_log_digest own))
           else if lcp_seq cp \<le> lcp_seq own + of_nat (length (rl_entries log)) then
             (let i = unat (lcp_seq cp - lcp_seq own - 1)
              in if i < length (rl_entries log) then Inr (hit (lep_digest (rl_entries log ! i)))
                 else Inl Undefined)
           else Inr numMatches) msgs 0"

text \<open>The highest certificate above the checkpoint and the index of its log.\<close>

definition max_cert :: "u32 \<Rightarrow> repair_start list \<Rightarrow> nat \<times> u32 \<times> cert option" where
  "max_cert cpSeq msgs =
     fold (\<lambda>i (idx, maxCertSeq, best).
        case rl_cert (rs_log_of (msgs ! i)) of None \<Rightarrow> (idx, maxCertSeq, best)
        | Some c \<Rightarrow>
            if cert_seq c \<le> cpSeq then (idx, maxCertSeq, best)
            else if maxCertSeq < cert_seq c then (i, cert_seq c, Some c) else (idx, maxCertSeq, best))
       [0..<length msgs] (0, 0, None)"

text \<open>A loop over the entries of one log that skips those up to \<open>lo\<close> and stops at the first one
  above \<open>hi\<close>.\<close>

fun take_entries :: "(log_entry_pb \<Rightarrow> bool) \<Rightarrow> u32 \<Rightarrow> log_entry_pb list \<Rightarrow> log_entry_pb list" where
  "take_entries skip hi [] = []"
| "take_entries skip hi (e # es) =
     (if skip e then take_entries skip hi es
      else if hi < lep_seq e then []
      else e # take_entries skip hi es)"

text \<open>The index and number of the last entry with which \<open>f + e + 1\<close> logs agree on a digest; the
  counts are per number and digest.\<close>

definition match_step ::
  "u32 \<Rightarrow> u32 \<Rightarrow> u32 \<Rightarrow> nat \<times> log_entry_pb \<Rightarrow>
   (u32 \<Rightarrow> bytes \<Rightarrow> u32) \<times> nat \<times> u32 \<Rightarrow> (u32 \<Rightarrow> bytes \<Rightarrow> u32) \<times> nat \<times> u32" where
  "match_step threshold cpSeq maxCertSeq x st =
     (let (i, entry) = x; (counts, idx, useSeq) = st;
          c = counts (lep_seq entry) (lep_digest entry) + 1
      in if lep_seq entry \<le> maxCertSeq \<or> lep_seq entry \<le> cpSeq then (counts, idx, useSeq)
         else (counts(lep_seq entry := (counts (lep_seq entry))(lep_digest entry := c)),
               if c = threshold then i else idx,
               if c = threshold then lep_seq entry else useSeq))"

definition indexed_entries :: "repair_start list \<Rightarrow> (nat \<times> log_entry_pb) list" where
  "indexed_entries msgs =
     concat (map (\<lambda>i. map (Pair i) (rl_entries (rs_log_of (msgs ! i)))) [0..<length msgs])"

definition find_common ::
  "u32 \<Rightarrow> u32 \<Rightarrow> u32 \<Rightarrow> nat \<Rightarrow> repair_start list \<Rightarrow> nat \<times> u32" where
  "find_common threshold cpSeq maxCertSeq idx0 msgs =
     snd (fold (match_step threshold cpSeq maxCertSeq) (indexed_entries msgs) (\<lambda>_ _. 0, idx0, 0))"

text \<open>The digest of the entries from a checkpoint on.\<close>

fun suffix_digest :: "(bytes \<Rightarrow> bytes) \<Rightarrow> u32 \<Rightarrow> bytes \<Rightarrow> log_entry_pb list \<Rightarrow> bytes" where
  "suffix_digest sha s prev [] = prev"
| "suffix_digest sha s prev (e # es) =
     suffix_digest sha (s + 1)
       (le_digest (new_entry sha s (lep_client_id e) (lep_client_seq e) (entry_request e) prev)) es"

definition suffix_entries ::
  "config_manager \<Rightarrow> repair_proposal \<Rightarrow> log_checkpoint_pb \<Rightarrow> log_entry_pb list" where
  "suffix_entries m p cp =
     (let msgs = rpr_start_msgs p; cpSeq = lcp_seq cp;
          (certIdx, maxCertSeq, best) = max_cert cpSeq msgs;
          upToCert = take_entries (\<lambda>e. lep_seq e \<le> cpSeq) maxCertSeq
                       (rl_entries (rs_log_of (msgs ! certIdx)));
          (useIdx, useSeq) = find_common (cfg_f (cm_config m) + cfg_e (cm_config m) + 1) cpSeq maxCertSeq certIdx msgs;
          common = take_entries (\<lambda>e. lep_seq e \<le> maxCertSeq \<or> lep_seq e \<le> cpSeq) useSeq
                     (rl_entries (rs_log_of (msgs ! useIdx)));
          remaining = fold (\<lambda>e r. sm_del (entry_key e) r) (upToCert @ common) (getValidClientRequests m p cpSeq)
      in upToCert @ common @ map snd remaining)"

definition getLogSuffixFromProposal ::
  "(bytes \<Rightarrow> bytes) \<Rightarrow> config_manager \<Rightarrow> repair_proposal \<Rightarrow> log_suffix \<Rightarrow> log_suffix res" where
  "getLogSuffixFromProposal sha m p suffix =
     bindE (pick_checkpoint (rpr_start_msgs p)) (\<lambda>(best, _).
     case best of None \<Rightarrow> Inl Undefined
     | Some (cpReplica, cp) \<Rightarrow>
         bindE (count_checkpoint_matches cpReplica cp (rpr_start_msgs p)) (\<lambda>numMatches.
         if numMatches < cfg_f (cm_config m) + cfg_e (cm_config m) + 1 then Inl ExitProcess
         else
           let entries = ls_entries suffix @ suffix_entries m p cp
           in Inr (suffix\<lparr>ls_checkpointReplica := cpReplica, ls_checkpoint := Some cp, ls_entries := entries,
                     ls_logDigest := suffix_digest sha (lcp_seq cp + 1) (lcp_log_digest cp) entries\<rparr>)))"

section \<open>Aborted entries\<close>

text \<open>The sequence numbers of a loop \<open>for (seq = a; seq < b; seq++)\<close>.\<close>

definition seqs_between :: "u32 \<Rightarrow> u32 \<Rightarrow> u32 list" where
  "seqs_between a b = map (\<lambda>k. a + of_nat k) [0..<unat b - unat a]"

definition getAbortedEntries :: "log_suffix \<Rightarrow> u32 \<Rightarrow> 's log_state \<Rightarrow> req_record list res" where
  "getAbortedEntries suffix startSeq l =
     foldE (\<lambda>s ret. bindE (getEntry s l) (\<lambda>e.
         if (le_client_id e, le_client_seq e) \<in> set (map entry_key (ls_entries suffix)) then Inr ret
         else Inr (ret @ [\<lparr>rq_clientId = le_client_id e, rq_clientSeq = le_client_seq e,
                           rq_requestData = le_request e, rq_padding = [], rq_deadline = le_deadline e\<rparr>])))
       (seqs_between (max startSeq (lc_seq (lg_committed l) + 1)) (lg_nextSeq l)) []"

section \<open>Applying a suffix\<close>

type_synonym available = "(request_id, bytes) smap"

text \<open>Step 2: the entries the log already has; returns the rest, the next number and the log.\<close>

fun skip_consistent ::
  "u32 \<Rightarrow> log_entry_pb list \<Rightarrow> 's log_state \<Rightarrow> (log_entry_pb list \<times> u32 \<times> 's log_state) res" where
  "skip_consistent s [] l = Inr ([], s, l)"
| "skip_consistent s (e # es) l =
     (if \<not> s < lg_nextSeq l then Inr (e # es, s, l)
      else
        let keep = l\<lparr>lg_clientRecord := snd (rec_update (lep_client_id e) (lep_client_seq e) (lg_clientRecord l))\<rparr>
        in if s \<le> lc_seq (lg_committed l) then skip_consistent (s + 1) es keep
           else bindE (getDigestAt s l) (\<lambda>d.
                if d \<noteq> lep_digest e then Inr (e # es, s, l) else skip_consistent (s + 1) es keep))"

definition save_aborted :: "u32 \<Rightarrow> 's log_state \<Rightarrow> available \<Rightarrow> available res" where
  "save_aborted s l avail =
     foldE (\<lambda>i av. bindE (getEntry i l) (\<lambda>e. Inr (sm_put (le_client_id e, le_client_seq e) (le_request e) av)))
       (seqs_between s (lg_nextSeq l)) avail"

text \<open>Step 2.5: full requests from the proposal, or the ids of those to fetch.\<close>

definition collect_missing ::
  "log_entry_pb list \<Rightarrow> available \<Rightarrow> request_id list \<Rightarrow> available \<times> request_id list" where
  "collect_missing es avail missing =
     fold (\<lambda>e (av, ms).
        case lep_request e of
          Some r \<Rightarrow> (sm_put (entry_key e) r av, ms)
        | None \<Rightarrow> if sm_has (entry_key e) av then (av, ms) else (av, ms @ [entry_key e])) es (avail, missing)"

text \<open>Step 3: an entry the log refuses is skipped without advancing.\<close>

fun apply_entries ::
  "'s log_env \<Rightarrow> u32 \<Rightarrow> log_entry_pb list \<Rightarrow> available \<Rightarrow> 's log_state \<Rightarrow> 's log_state res" where
  "apply_entries env s [] avail l = Inr l"
| "apply_entries env s (e # es) avail l =
     (if s \<noteq> lg_nextSeq l then Inl AssertFailed
      else case map_of avail (entry_key e) of None \<Rightarrow> Inl AssertFailed
      | Some req \<Rightarrow>
          if env_sha env req \<noteq> lep_request_digest e then Inl RuntimeError
          else bindE (addEntry env (lep_client_id e) (lep_client_seq e) req [] True l) (\<lambda>((added, _), l').
               apply_entries env (if added then s + 1 else s) es avail l'))"

definition applySuffix ::
  "'s log_env \<Rightarrow> log_suffix \<Rightarrow> available \<Rightarrow> request_id list \<Rightarrow> 's log_state \<Rightarrow>
   (bool \<times> available \<times> request_id list \<times> 's log_state) res" where
  "applySuffix env suffix avail missing l =
     (case ls_checkpoint suffix of None \<Rightarrow> Inl Undefined
      | Some cp \<Rightarrow>
        bindE (if lcp_seq cp \<le> lc_seq (lg_committed l) then Inr ()
               else bindE (getDigestAt (lcp_seq cp) l) (\<lambda>d.
                    if d = lcp_log_digest cp then Inr () else Inl AssertFailed)) (\<lambda>_.
        if unat (lcp_seq cp) + length (ls_entries suffix) \<le> unat (lc_seq (lg_committed l))
        then Inr (True, avail, missing, l)
        else
          bindE (skip_consistent (lcp_seq cp + 1) (ls_entries suffix)
                   (l\<lparr>lg_clientRecord := rec_of_pb (lcp_client_record cp)\<rparr>)) (\<lambda>(rest, s, l1).
          bindE (save_aborted s l1 avail) (\<lambda>avail1.
          bindE (log_abort env s l1) (\<lambda>l2.
          let (avail2, missing') = collect_missing rest avail1 missing
          in if missing' \<noteq> [] then Inr (False, avail2, missing', l2)
             else bindE (apply_entries env s rest avail2 l2) (\<lambda>l3.
                  Inr (True, avail2, missing', l3)))))))"

end
