(* ===== verification/CheckpointCollector.thy ===== *)
theory CheckpointCollector
  imports Config LogTypes Application "HOL-Library.Product_Lexorder"
begin

text \<open>
  The replica's collectors of checkpoint messages (\<open>lib/checkpoint_collector.h\<close> and \<open>.cc\<close>):
  \<open>ReplyCollector\<close> (replies of the peers, the certificate, the proof of conflict),
  \<open>CommitCollector\<close> (commit messages, the checkpoint), \<open>CheckpointCollector\<close> (both, the own state
  and the repair timeouts) and \<open>CheckpointCollectorStore\<close> (collectors by round and sequence
  number). The configuration, the hash and the current time are arguments.
\<close>

section \<open>ReplyCollector\<close>

record reply_collector =
  rc_replicaId :: u32
  rc_round :: u32
  rc_seq :: u32
  rc_hasOwnReply :: bool
  rc_replies :: "(u32, reply) smap"
  rc_replySigs :: "(u32, bytes) smap"
  rc_cert :: "cert option"
  rc_repairReplyProof :: "repair_reply_proof option"

definition rc_new :: "u32 \<Rightarrow> u32 \<Rightarrow> u32 \<Rightarrow> reply_collector" where
  "rc_new replicaId round seq =
     \<lparr>rc_replicaId = replicaId, rc_round = round, rc_seq = seq, rc_hasOwnReply = False, rc_replies = [],
      rc_replySigs = [], rc_cert = None, rc_repairReplyProof = None\<rparr>"

type_synonym reply_key_tuple = "bytes \<times> u32 \<times> u32"

definition rc_key :: "reply \<Rightarrow> reply_key_tuple" where
  "rc_key r = (rep_digest r, rep_round r, rep_seq r)"

text \<open>The state of the loop over the replies: the groups so far, the size of the largest, whether a
  certificate was made, and the certificate. Its round is never set and stays zero.\<close>

record rc_loop =
  rlp_matching :: "reply_key_tuple \<Rightarrow> u32 set"
  rlp_maxMatch :: int
  rlp_ret :: bool
  rlp_cert :: "cert option"

definition rc_step :: "nat \<Rightarrow> reply_collector \<Rightarrow> u32 \<times> reply \<Rightarrow> rc_loop \<Rightarrow> rc_loop" where
  "rc_step quorum c x st =
     (let (i, r) = x; k = rc_key r; S = insert i (rlp_matching st k);
          st1 = st\<lparr>rlp_matching := (rlp_matching st)(k := S), rlp_maxMatch := max (rlp_maxMatch st) (int (card S))\<rparr>
      in if quorum \<le> card S \<and> rc_replicaId c \<in> S
         then st1\<lparr>rlp_ret := True,
                  rlp_cert := Some \<lparr>cert_seq = rep_seq r, cert_round = 0,
                    cert_replies = map (\<lambda>j. sm_at r (rc_replies c) j) (sorted_list_of_set S),
                    cert_signatures = map (\<lambda>j. sm_at [] (rc_replySigs c) j) (sorted_list_of_set S)\<rparr>\<rparr>
         else st1)"

definition rc_conflict_proof :: "reply_collector \<Rightarrow> repair_reply_proof" where
  "rc_conflict_proof c =
     \<lparr>rrp_replica_id = 0,
      rrp_round = (if rc_replies c = [] then 0 else rep_round (snd (last (rc_replies c)))),
      rrp_view = 0, rrp_replies = map snd (rc_replies c),
      rrp_signatures = map (\<lambda>p. sm_at [] (rc_replySigs c) (fst p)) (rc_replies c)\<rparr>"

definition rc_store :: "reply \<Rightarrow> bytes \<Rightarrow> reply_collector \<Rightarrow> reply_collector" where
  "rc_store r sig c =
     c\<lparr>rc_replies := sm_put (rep_replica_id r) r (rc_replies c),
       rc_replySigs := sm_put (rep_replica_id r) sig (rc_replySigs c),
       rc_hasOwnReply := (rc_hasOwnReply c \<or> rep_replica_id r = rc_replicaId c)\<rparr>"

definition rc_addAndCheckReply :: "config_manager \<Rightarrow> reply \<Rightarrow> bytes \<Rightarrow> reply_collector \<Rightarrow> bool \<times> reply_collector" where
  "rc_addAndCheckReply m r sig c =
     (let c1 = rc_store r sig c
      in if length (rc_replies c1) = length (rc_replies c) then (False, c1)
         else if \<not> rc_hasOwnReply c1 then (False, c1)
         else if rc_cert c1 \<noteq> None then (False, c1)
         else
           let st = fold (rc_step (getSuperQuorumSize m) c1) (rc_replies c1)
                      \<lparr>rlp_matching = (\<lambda>_. {}), rlp_maxMatch = 0, rlp_ret = False, rlp_cert = None\<rparr>;
               c2 = c1\<lparr>rc_cert := rlp_cert st\<rparr>;
               fastQuorumSize = sint (cm_superQuorumSize m); n = sint (cm_numReplicas m);
               nr = int (length (rc_replies c2))
           in (rlp_ret st,
               if n - nr < fastQuorumSize - rlp_maxMatch st
               then c2\<lparr>rc_repairReplyProof := Some (rc_conflict_proof c2)\<rparr> else c2))"

section \<open>CommitCollector\<close>

record commit_collector =
  ccl_round :: u32
  ccl_seq :: u32
  ccl_commitToUse :: "commit_msg option"
  ccl_commits :: "(u32, commit_msg) smap"
  ccl_sigs :: "(u32, bytes) smap"
  ccl_matchedReplicas :: "u32 set"

definition ccl_new :: "u32 \<Rightarrow> u32 \<Rightarrow> commit_collector" where
  "ccl_new round seq =
     \<lparr>ccl_round = round, ccl_seq = seq, ccl_commitToUse = None, ccl_commits = [], ccl_sigs = [],
      ccl_matchedReplicas = {}\<rparr>"

type_synonym commit_key = "u32 \<times> u32 \<times> bytes \<times> bytes \<times> bytes"

definition commit_key :: "commit_msg \<Rightarrow> commit_key" where
  "commit_key c = (com_round c, com_seq c, com_log_digest c, bytes_or_empty (com_app_digest c),
     crpb_digest (com_client_record c))"

text \<open>The loop returns at the first commit whose group reaches \<open>f + 1\<close>.\<close>

fun ccl_find :: "nat \<Rightarrow> (commit_key \<Rightarrow> u32 set) \<Rightarrow> (u32 \<times> commit_msg) list \<Rightarrow> (commit_msg \<times> u32 set) option" where
  "ccl_find f matching [] = None"
| "ccl_find f matching ((i, cm) # xs) =
     (let S = insert i (matching (commit_key cm))
      in if f + 1 \<le> card S then Some (cm, S)
         else ccl_find f (matching(commit_key cm := S)) xs)"

definition ccl_addAndCheckCommit ::
  "(bytes \<Rightarrow> bytes) \<Rightarrow> config_manager \<Rightarrow> commit_msg \<Rightarrow> bytes \<Rightarrow> commit_collector \<Rightarrow> bool \<times> commit_collector" where
  "ccl_addAndCheckCommit sha m cm sig c =
     (if rec_digest sha (rec_of_pb (com_client_record cm)) \<noteq> crpb_digest (com_client_record cm) then (False, c)
      else
        let c1 = c\<lparr>ccl_commits := sm_put (com_replica_id cm) cm (ccl_commits c),
                   ccl_sigs := sm_put (com_replica_id cm) sig (ccl_sigs c)\<rparr>
        in case ccl_find (getF m) (\<lambda>_. {}) (ccl_commits c1) of
             None \<Rightarrow> (False, c1)
           | Some (cmt, S) \<Rightarrow> (True, c1\<lparr>ccl_matchedReplicas := S, ccl_commitToUse := Some cmt\<rparr>))"

definition ccl_getCheckpoint :: "commit_collector \<Rightarrow> log_checkpoint \<Rightarrow> log_checkpoint res" where
  "ccl_getCheckpoint c cp =
     (case ccl_commitToUse c of None \<Rightarrow> Inl AssertFailed
      | Some cm \<Rightarrow>
          foldE (\<lambda>i cp.
              case map_of (ccl_commits c) i of None \<Rightarrow> Inl RuntimeError
              | Some ci \<Rightarrow>
                  if com_log_digest ci \<noteq> lc_logDigest cp then Inl AssertFailed
                  else (case map_of (ccl_sigs c) i of None \<Rightarrow> Inl RuntimeError
                        | Some s \<Rightarrow> Inr (cp\<lparr>lc_commits := sm_put i ci (lc_commits cp),
                                           lc_commitSigs := sm_put i s (lc_commitSigs cp)\<rparr>)))
            (sorted_list_of_set (ccl_matchedReplicas c))
            (cp\<lparr>lc_seq := ccl_seq c, lc_logDigest := com_log_digest cm,
                lc_appDigest := bytes_or_empty (com_app_digest cm),
                lc_clientRecord := rec_of_pb (com_client_record cm)\<rparr>))"

section \<open>CheckpointCollector\<close>

record checkpoint_collector =
  cpc_replicaId :: u32
  cpc_round :: u32
  cpc_seq :: u32
  cpc_timeout :: bool
  cpc_timeoutStart :: u64
  cpc_needsSnapshot :: bool
  cpc_snapshot :: "app_snapshot option"
  cpc_clientRecord :: "client_record option"
  cpc_logDigest :: "bytes option"
  cpc_repairTimeoutProof :: "repair_timeout_proof option"
  cpc_replyCollector :: reply_collector
  cpc_commitCollector :: commit_collector
  cpc_repairTimeouts :: "(u32, repair_timeout) smap"
  cpc_repairTimeoutSigs :: "(u32, bytes) smap"

definition cpc_new :: "u32 \<Rightarrow> u32 \<Rightarrow> u32 \<Rightarrow> bool \<Rightarrow> checkpoint_collector" where
  "cpc_new replicaId round seq needsSnapshot =
     \<lparr>cpc_replicaId = replicaId, cpc_round = round, cpc_seq = seq, cpc_timeout = False,
      cpc_timeoutStart = 0, cpc_needsSnapshot = needsSnapshot, cpc_snapshot = None,
      cpc_clientRecord = None, cpc_logDigest = None, cpc_repairTimeoutProof = None,
      cpc_replyCollector = rc_new replicaId round seq, cpc_commitCollector = ccl_new round seq,
      cpc_repairTimeouts = [], cpc_repairTimeoutSigs = []\<rparr>"

definition cpc_addAndCheckReply ::
  "config_manager \<Rightarrow> u64 \<Rightarrow> reply \<Rightarrow> bytes \<Rightarrow> checkpoint_collector \<Rightarrow> bool \<times> checkpoint_collector" where
  "cpc_addAndCheckReply m now r sig c =
     (let (ret, rc) = rc_addAndCheckReply m r sig (cpc_replyCollector c);
          c1 = c\<lparr>cpc_replyCollector := rc\<rparr>
      in (ret, if unat (cm_numReplicas m - cfg_f (cm_config m)) \<le> length (rc_replies rc) \<and> cpc_timeoutStart c1 = 0
               then c1\<lparr>cpc_timeoutStart := now\<rparr> else c1))"

definition cpc_hasConflictProof :: "checkpoint_collector \<Rightarrow> bool" where
  "cpc_hasConflictProof c = (rc_repairReplyProof (cpc_replyCollector c) \<noteq> None)"

definition cpc_getConflictProof :: "checkpoint_collector \<Rightarrow> repair_reply_proof res" where
  "cpc_getConflictProof c = (case rc_repairReplyProof (cpc_replyCollector c) of None \<Rightarrow> Inl RuntimeError | Some p \<Rightarrow> Inr p)"

definition cpc_hasCert :: "checkpoint_collector \<Rightarrow> bool" where
  "cpc_hasCert c = (rc_cert (cpc_replyCollector c) \<noteq> None)"

definition cpc_getCert :: "checkpoint_collector \<Rightarrow> cert res" where
  "cpc_getCert c = (case rc_cert (cpc_replyCollector c) of None \<Rightarrow> Inl RuntimeError | Some ct \<Rightarrow> Inr ct)"

definition cpc_addOwnSnapshot :: "app_snapshot \<Rightarrow> checkpoint_collector \<Rightarrow> checkpoint_collector" where
  "cpc_addOwnSnapshot snap c = c\<lparr>cpc_snapshot := Some snap\<rparr>"

definition cpc_addOwnState :: "bytes \<Rightarrow> client_record \<Rightarrow> checkpoint_collector \<Rightarrow> checkpoint_collector" where
  "cpc_addOwnState logDigest record c = c\<lparr>cpc_clientRecord := Some record, cpc_logDigest := Some logDigest\<rparr>"

definition cpc_hasOwnState :: "checkpoint_collector \<Rightarrow> bool" where
  "cpc_hasOwnState c = (cpc_clientRecord c \<noteq> None \<and> cpc_logDigest c \<noteq> None)"

definition cpc_hasOwnSnapshot :: "checkpoint_collector \<Rightarrow> bool" where
  "cpc_hasOwnSnapshot c = (cpc_snapshot c \<noteq> None)"

definition cpc_commitReady :: "checkpoint_collector \<Rightarrow> bool" where
  "cpc_commitReady c =
     (rc_cert (cpc_replyCollector c) \<noteq> None \<and> (\<not> cpc_needsSnapshot c \<or> cpc_snapshot c \<noteq> None) \<and>
      cpc_clientRecord c \<noteq> None \<and> cpc_logDigest c \<noteq> None)"

definition cpc_getOwnCommit :: "(bytes \<Rightarrow> bytes) \<Rightarrow> checkpoint_collector \<Rightarrow> commit_msg res" where
  "cpc_getOwnCommit sha c =
     (case cpc_logDigest c of None \<Rightarrow> Inl RuntimeError
      | Some d \<Rightarrow>
        (case cpc_clientRecord c of None \<Rightarrow> Inl RuntimeError
         | Some rcd \<Rightarrow>
           bindE (if cpc_needsSnapshot c
                  then (case cpc_snapshot c of None \<Rightarrow> Inl Undefined | Some s \<Rightarrow> Inr (Some (snap_digest s)))
                  else Inr None) (\<lambda>app.
           Inr \<lparr>com_replica_id = cpc_replicaId c, com_round = cpc_round c, com_seq = cpc_seq c,
                com_log_digest = d, com_app_digest = app, com_client_record = rec_toProto sha rcd\<rparr>)))"

definition cpc_addAndCheckCommit ::
  "(bytes \<Rightarrow> bytes) \<Rightarrow> config_manager \<Rightarrow> commit_msg \<Rightarrow> bytes \<Rightarrow> checkpoint_collector \<Rightarrow> bool \<times> checkpoint_collector" where
  "cpc_addAndCheckCommit sha m cm sig c =
     (let (ret, cc) = ccl_addAndCheckCommit sha m cm sig (cpc_commitCollector c)
      in (ret, c\<lparr>cpc_commitCollector := cc\<rparr>))"

definition cpc_getCheckpoint :: "checkpoint_collector \<Rightarrow> log_checkpoint \<Rightarrow> log_checkpoint res" where
  "cpc_getCheckpoint c cp =
     bindE (ccl_getCheckpoint (cpc_commitCollector c) cp) (\<lambda>cp'.
     Inr (if cpc_needsSnapshot c
          then cp'\<lparr>lc_snapshot := (case cpc_snapshot c of None \<Rightarrow> None | Some s \<Rightarrow> Some (snap_data s))\<rparr>
          else cp'))"

text \<open>The threshold counts every timeout stored; the proof takes those of the collector's round.\<close>

definition cpc_addAndCheckTimeout ::
  "config_manager \<Rightarrow> repair_timeout \<Rightarrow> bytes \<Rightarrow> checkpoint_collector \<Rightarrow> bool \<times> checkpoint_collector" where
  "cpc_addAndCheckTimeout m msg sig c =
     (let c1 = c\<lparr>cpc_repairTimeouts := sm_put (rt_replica_id msg) msg (cpc_repairTimeouts c),
                 cpc_repairTimeoutSigs := sm_put (rt_replica_id msg) sig (cpc_repairTimeoutSigs c)\<rparr>
      in if length (cpc_repairTimeouts c1) = getF m + 1
         then (True, c1\<lparr>cpc_repairTimeoutProof := Some
                \<lparr>rtp_replica_id = 0, rtp_round = 0, rtp_view = 0,
                 rtp_timeouts = map snd (filter (\<lambda>p. rt_round (snd p) = cpc_round c1) (cpc_repairTimeouts c1)),
                 rtp_signatures = map (\<lambda>p. sm_at [] (cpc_repairTimeoutSigs c1) (fst p))
                   (filter (\<lambda>p. rt_round (snd p) = cpc_round c1) (cpc_repairTimeouts c1))\<rparr>\<rparr>)
         else (False, c1))"

definition cpc_checkSelfTimeout :: "u64 \<Rightarrow> u64 \<Rightarrow> checkpoint_collector \<Rightarrow> bool \<times> checkpoint_collector" where
  "cpc_checkSelfTimeout now timeoutMs c =
     (if cpc_timeout c \<or> cpc_timeoutStart c = 0 then (False, c)
      else if timeoutMs \<le> now - cpc_timeoutStart c then (True, c\<lparr>cpc_timeout := True\<rparr>)
      else (False, c))"

definition cpc_hasRepairProof :: "checkpoint_collector \<Rightarrow> bool" where
  "cpc_hasRepairProof c = (cpc_repairTimeoutProof c \<noteq> None)"

definition cpc_getRepairTimeoutProof :: "checkpoint_collector \<Rightarrow> repair_timeout_proof res" where
  "cpc_getRepairTimeoutProof c = (case cpc_repairTimeoutProof c of None \<Rightarrow> Inl AssertFailed | Some p \<Rightarrow> Inr p)"

section \<open>CheckpointCollectorStore\<close>

record collector_store =
  cst_stableSeq :: u32
  cst_committedSeq :: u32
  cst_replicaId :: u32
  cst_collectors :: "(u32 \<times> u32, checkpoint_collector) smap"

definition cst_new :: "u32 \<Rightarrow> collector_store" where
  "cst_new replicaId = \<lparr>cst_stableSeq = 0, cst_committedSeq = 0, cst_replicaId = replicaId, cst_collectors = []\<rparr>"

definition cst_initCollector :: "u32 \<Rightarrow> u32 \<Rightarrow> bool \<Rightarrow> collector_store \<Rightarrow> (bool \<times> collector_store) res" where
  "cst_initCollector round seq needsSnapshot st =
     (if (if needsSnapshot then seq \<le> cst_stableSeq st else seq \<le> cst_committedSeq st) then Inr (False, st)
      else if sm_has (round, seq) (cst_collectors st) then Inl AssertFailed
      else Inr (True, st\<lparr>cst_collectors := sm_put (round, seq)
                  (cpc_new (cst_replicaId st) round seq needsSnapshot) (cst_collectors st)\<rparr>))"

definition cst_hasCollector :: "u32 \<Rightarrow> u32 \<Rightarrow> collector_store \<Rightarrow> bool" where
  "cst_hasCollector round seq st = sm_has (round, seq) (cst_collectors st)"

definition cst_at :: "u32 \<Rightarrow> u32 \<Rightarrow> collector_store \<Rightarrow> checkpoint_collector res" where
  "cst_at round seq st = (case map_of (cst_collectors st) (round, seq) of None \<Rightarrow> Inl RuntimeError | Some c \<Rightarrow> Inr c)"

text \<open>Writing through the reference that \<open>at\<close> returns.\<close>

definition cst_set :: "u32 \<Rightarrow> u32 \<Rightarrow> checkpoint_collector \<Rightarrow> collector_store \<Rightarrow> collector_store" where
  "cst_set round seq c st = st\<lparr>cst_collectors := sm_put (round, seq) c (cst_collectors st)\<rparr>"

definition cst_stale :: "u32 \<Rightarrow> u32 \<Rightarrow> (u32 \<times> u32) \<times> checkpoint_collector \<Rightarrow> bool" where
  "cst_stale stableSeq committedSeq p =
     (if cpc_needsSnapshot (snd p) then snd (fst p) \<le> stableSeq else snd (fst p) \<le> committedSeq)"

definition cst_cleanStaleCollectors :: "u32 \<Rightarrow> u32 \<Rightarrow> collector_store \<Rightarrow> collector_store res" where
  "cst_cleanStaleCollectors stableSeq committedSeq st =
     (if \<not> stableSeq \<le> committedSeq then Inl AssertFailed
      else Inr (st\<lparr>cst_stableSeq := max (cst_stableSeq st) stableSeq,
                   cst_committedSeq := max (cst_committedSeq st) committedSeq,
                   cst_collectors := filter (\<lambda>p. \<not> cst_stale stableSeq committedSeq p)
                     (cst_collectors st)\<rparr>))"

section \<open>Grouping\<close>

text \<open>The members of a list of stored messages whose key is \<open>k\<close>.\<close>

definition group_ids :: "('m \<Rightarrow> 'k) \<Rightarrow> (u32 \<times> 'm) list \<Rightarrow> 'k \<Rightarrow> u32 set" where
  "group_ids key xs k = {i. \<exists>r. (i, r) \<in> set xs \<and> key r = k}"

lemma group_ids_simps:
  "group_ids key [] k = {}"
  "group_ids key ((i, r) # xs) k = (if key r = k then insert i (group_ids key xs k) else group_ids key xs k)"
  "group_ids key (xs @ [(i, r)]) k = (if key r = k then insert i (group_ids key xs k) else group_ids key xs k)"
  by (auto simp: group_ids_def)

lemma group_ids_finite [simp]: "finite (group_ids key xs k)"
  by (rule finite_subset [of _ "fst ` set xs"]) (auto simp: group_ids_def intro: rev_image_eqI)

lemma group_ids_mono: "set xs \<subseteq> set ys \<Longrightarrow> group_ids key xs k \<subseteq> group_ids key ys k"
  by (auto simp: group_ids_def)

section \<open>The reply collector\<close>

definition rc_stored :: "reply_collector \<Rightarrow> bool" where
  "rc_stored c \<longleftrightarrow> sm_ok (rc_replies c) \<and> (\<forall>(i, r) \<in> set (rc_replies c). rep_replica_id r = i)"

text \<open>A fast-path certificate: a super quorum of different replicas, the own one among them, with
  the same digest, round and sequence number, and a signature for each.\<close>

definition fast_cert_sound :: "nat \<Rightarrow> u32 \<Rightarrow> cert \<Rightarrow> bool" where
  "fast_cert_sound q own ct \<longleftrightarrow>
     q \<le> length (cert_replies ct) \<and> length (cert_signatures ct) = length (cert_replies ct) \<and>
     distinct (map rep_replica_id (cert_replies ct)) \<and> own \<in> rep_replica_id ` set (cert_replies ct) \<and>
     (\<forall>r \<in> set (cert_replies ct). \<forall>r' \<in> set (cert_replies ct). rc_key r = rc_key r') \<and>
     (\<forall>r \<in> set (cert_replies ct). rep_seq r = cert_seq ct)"

definition rc_loop_inv :: "nat \<Rightarrow> reply_collector \<Rightarrow> (u32 \<times> reply) list \<Rightarrow> rc_loop \<Rightarrow> bool" where
  "rc_loop_inv q c xs st \<longleftrightarrow>
     rlp_matching st = group_ids rc_key xs \<and>
     (\<forall>k. int (card (group_ids rc_key xs k)) \<le> rlp_maxMatch st) \<and>
     (rlp_ret st \<longleftrightarrow> rlp_cert st \<noteq> None) \<and>
     (\<forall>ct. rlp_cert st = Some ct \<longrightarrow> fast_cert_sound q (rc_replicaId c) ct)"

lemma rc_new_replicaId [simp]: "rc_replicaId (rc_new i rd s) = i"
  by (simp add: rc_new_def)

lemma rc_stored_new [simp]: "rc_stored (rc_new i rd s)"
  by (simp add: rc_stored_def rc_new_def)

lemma rc_stored_store: "rc_stored c \<Longrightarrow> rc_stored (rc_store r sig c)"
  by (auto simp: rc_stored_def rc_store_def sm_put_set)

lemma rc_cert_sound:
  assumes "rc_stored c" and "S \<subseteq> group_ids rc_key (rc_replies c) (rc_key r)" and "q \<le> card S"
    and "rc_replicaId c \<in> S"
  shows "fast_cert_sound q (rc_replicaId c)
     \<lparr>cert_seq = rep_seq r, cert_round = rd,
      cert_replies = map (\<lambda>j. sm_at r (rc_replies c) j) (sorted_list_of_set S),
      cert_signatures = map (\<lambda>j. sm_at [] (rc_replySigs c) j) (sorted_list_of_set S)\<rparr>"
proof -
  have ok: "sm_ok (rc_replies c)" using assms(1) by (simp add: rc_stored_def)
  let ?f = "\<lambda>i. sm_at r (rc_replies c) i"
  have f: "rc_key (?f i) = rc_key r \<and> rep_replica_id (?f i) = i" if i: "i \<in> S" for i
  proof -
    obtain r' where r': "(i, r') \<in> set (rc_replies c)" "rc_key r' = rc_key r"
      using i assms(2) unfolding group_ids_def by blast
    then have "map_of (rc_replies c) i = Some r'" using sm_get_in_set [OF ok] by simp
    then show ?thesis using r' assms(1) by (auto simp: sm_at_def rc_stored_def)
  qed
  have fin: "finite S" by (rule finite_subset [OF assms(2)]) simp
  have "inj_on (\<lambda>i. rep_replica_id (?f i)) S" by (rule inj_onI) (metis f)
  moreover have "rep_seq (?f i) = rep_seq r" if "i \<in> S" for i
    using f [OF that] by (simp add: rc_key_def)
  moreover have "rc_replicaId c \<in> (\<lambda>i. rep_replica_id (?f i)) ` S"
    using f [OF assms(4)] assms(4) by (metis imageI)
  ultimately show ?thesis
    using assms(3) f fin by (simp add: fast_cert_sound_def comp_def distinct_map image_image)
qed

lemma rc_step_inv:
  assumes inv: "rc_loop_inv q c xs st" and stored: "rc_stored c"
    and sub: "set (xs @ [(i, r)]) \<subseteq> set (rc_replies c)"
  shows "rc_loop_inv q c (xs @ [(i, r)]) (rc_step q c (i, r) st)"
proof -
  let ?k = "rc_key r"
  let ?S = "insert i (group_ids rc_key xs ?k)"
  have ids: "group_ids rc_key (xs @ [(i, r)]) = (group_ids rc_key xs)(?k := ?S)"
    by (auto simp: group_ids_simps fun_eq_iff)
  have m: "rlp_matching st = group_ids rc_key xs" using inv by (simp add: rc_loop_inv_def)
  have "?S = group_ids rc_key (xs @ [(i, r)]) ?k" by (simp add: ids)
  then have S: "?S \<subseteq> group_ids rc_key (rc_replies c) ?k"
    using group_ids_mono [OF sub] by metis
  have step: "rc_step q c (i, r) st = st\<lparr>rlp_matching := (group_ids rc_key xs)(?k := ?S),
      rlp_maxMatch := max (rlp_maxMatch st) (int (card ?S)),
      rlp_ret := (rlp_ret st \<or> (q \<le> card ?S \<and> rc_replicaId c \<in> ?S)),
      rlp_cert := (if q \<le> card ?S \<and> rc_replicaId c \<in> ?S
        then Some \<lparr>cert_seq = rep_seq r, cert_round = 0,
          cert_replies = map (\<lambda>j. sm_at r (rc_replies c) j) (sorted_list_of_set ?S),
          cert_signatures = map (\<lambda>j. sm_at [] (rc_replySigs c) j) (sorted_list_of_set ?S)\<rparr> else rlp_cert st)\<rparr>"
    unfolding rc_step_def Let_def prod.case m by (cases st) auto
  have "card (group_ids rc_key xs ?k) \<le> card ?S" by (rule card_mono) auto
  then have "\<forall>k. int (card (group_ids rc_key (xs @ [(i, r)]) k)) \<le> rlp_maxMatch (rc_step q c (i, r) st)"
    using inv unfolding step ids rc_loop_inv_def by (auto simp: le_max_iff_disj simp del: split_paired_All)
  then show ?thesis
    using inv rc_cert_sound [OF stored S, of q] unfolding rc_loop_inv_def step ids
    by (cases "q \<le> card ?S \<and> rc_replicaId c \<in> ?S") (auto simp del: split_paired_All split_paired_Ex insert_iff)
qed

lemma rc_loop:
  assumes "rc_stored c" and "set xs \<subseteq> set (rc_replies c)"
  shows "rc_loop_inv q c xs (fold (rc_step q c) xs
    \<lparr>rlp_matching = (\<lambda>_. {}), rlp_maxMatch = 0, rlp_ret = False, rlp_cert = None\<rparr>)"
  using assms(2)
proof (induction xs rule: rev_induct)
  case Nil
  show ?case by (simp add: rc_loop_inv_def group_ids_simps fun_eq_iff)
next
  case (snoc x xs)
  then show ?case by (cases x) (simp add: rc_step_inv assms(1))
qed

definition rc_ok :: "nat \<Rightarrow> reply_collector \<Rightarrow> bool" where
  "rc_ok q c \<longleftrightarrow> rc_stored c \<and> (\<forall>ct. rc_cert c = Some ct \<longrightarrow> fast_cert_sound q (rc_replicaId c) ct)"

lemma rc_store_sel [simp]:
  "rc_replicaId (rc_store r sig c) = rc_replicaId c" "rc_cert (rc_store r sig c) = rc_cert c"
  "rc_repairReplyProof (rc_store r sig c) = rc_repairReplyProof c"
  by (simp_all add: rc_store_def)

text \<open>The three early returns leave the collector with the reply stored; otherwise the loop has run
  over all stored replies.\<close>

lemma rc_add_cases:
  assumes "rc_addAndCheckReply m r sig c = (b, c')" and "rc_stored c"
  shows "(b = False \<and> c' = rc_store r sig c) \<or>
    (\<exists>st. rc_loop_inv (getSuperQuorumSize m) (rc_store r sig c) (rc_replies (rc_store r sig c)) st \<and>
       b = rlp_ret st \<and> rc_cert c' = rlp_cert st \<and> rc_replies c' = rc_replies (rc_store r sig c) \<and>
       rc_replicaId c' = rc_replicaId c \<and>
       rc_repairReplyProof c' =
         (if sint (cm_numReplicas m) - int (length (rc_replies c')) < sint (cm_superQuorumSize m) - rlp_maxMatch st
          then Some (rc_conflict_proof (rc_store r sig c\<lparr>rc_cert := rlp_cert st\<rparr>))
          else rc_repairReplyProof c))"
proof -
  note inv = rc_loop [OF rc_stored_store [OF assms(2), of r sig] subset_refl, of "getSuperQuorumSize m"]
  show ?thesis
    using assms(1) inv by (auto simp: rc_addAndCheckReply_def Let_def split: if_splits)
qed

lemma rc_ok_add:
  assumes "rc_ok (getSuperQuorumSize m) c"
  shows "rc_ok (getSuperQuorumSize m) (snd (rc_addAndCheckReply m r sig c)) \<and>
    rc_replicaId (snd (rc_addAndCheckReply m r sig c)) = rc_replicaId c"
proof -
  obtain b c' where a: "rc_addAndCheckReply m r sig c = (b, c')" by fastforce
  have st: "rc_stored c" "rc_stored (rc_store r sig c)"
    using assms rc_stored_store by (simp_all add: rc_ok_def)
  show ?thesis
    using rc_add_cases [OF a st(1)] st assms
    by (auto simp: a rc_ok_def rc_loop_inv_def rc_stored_def)
qed

fun rc_adds :: "config_manager \<Rightarrow> (reply \<times> bytes) list \<Rightarrow> reply_collector \<Rightarrow> reply_collector" where
  "rc_adds m [] c = c"
| "rc_adds m ((r, sig) # xs) c = rc_adds m xs (snd (rc_addAndCheckReply m r sig c))"

lemma rc_ok_adds:
  "rc_ok (getSuperQuorumSize m) c \<Longrightarrow>
   rc_ok (getSuperQuorumSize m) (rc_adds m xs c) \<and> rc_replicaId (rc_adds m xs c) = rc_replicaId c"
proof (induction m xs c rule: rc_adds.induct)
  case (2 m r sig xs c)
  then show ?case using rc_ok_add [OF 2(2), of r sig] by simp
qed simp

lemma rc_ok_new [simp]: "rc_ok q (rc_new i rd s)"
  by (simp add: rc_ok_def rc_new_def rc_stored_def)

section \<open>The commit collector\<close>

lemma ccl_find_SomeD:
  assumes "ccl_find f M xs = Some (cm, S)"
    and "M = group_ids commit_key ys"
  shows "f + 1 \<le> card S \<and> S \<subseteq> group_ids commit_key (ys @ xs) (commit_key cm) \<and> cm \<in> snd ` set xs"
  using assms
proof (induction xs arbitrary: M ys)
  case (Cons x xs)
  obtain i c where x: "x = (i, c)" by (cases x)
  let ?S = "insert i (M (commit_key c))"
  show ?case
  proof (cases "f + 1 \<le> card ?S")
    case True
    then have "cm = c" "S = ?S" using Cons.prems(1) by (auto simp: x Let_def)
    then show ?thesis using True Cons.prems(2) by (auto simp: x group_ids_def)
  next
    case False
    have "M(commit_key c := ?S) = group_ids commit_key (ys @ [x])"
      by (auto simp: Cons.prems(2) x group_ids_simps fun_eq_iff)
    then have "f + 1 \<le> card S \<and> S \<subseteq> group_ids commit_key ((ys @ [x]) @ xs) (commit_key cm) \<and> cm \<in> snd ` set xs"
      using Cons.prems(1) False by (intro Cons.IH) (simp_all add: x Let_def)
    then show ?thesis by auto
  qed
qed simp

text \<open>Every stored commit carries a record whose digest it names, with a signature.\<close>

definition ccl_ok :: "(bytes \<Rightarrow> bytes) \<Rightarrow> commit_collector \<Rightarrow> bool" where
  "ccl_ok sha c \<longleftrightarrow> sm_ok (ccl_commits c) \<and> dom (map_of (ccl_commits c)) = dom (map_of (ccl_sigs c)) \<and>
     (\<forall>(i, cm) \<in> set (ccl_commits c). com_replica_id cm = i \<and>
        rec_digest sha (rec_of_pb (com_client_record cm)) = crpb_digest (com_client_record cm))"

lemma ccl_ok_new [simp]: "ccl_ok sha (ccl_new rd s)"
  by (simp add: ccl_ok_def ccl_new_def)

lemma ccl_ok_add:
  "ccl_ok sha c \<Longrightarrow> ccl_ok sha (snd (ccl_addAndCheckCommit sha m cm sig c))"
  by (auto simp: ccl_addAndCheckCommit_def ccl_ok_def Let_def sm_put_set split: option.splits)

lemma ccl_checkpoint_loop:
  assumes "finite S" and "\<forall>i \<in> S. \<exists>ci s. map_of (ccl_commits c) i = Some ci \<and> map_of (ccl_sigs c) i = Some s \<and>
      com_log_digest ci = d"
    and "set js \<subseteq> S" and "lc_logDigest cp = d"
  shows "\<exists>cp'. foldE (\<lambda>i cp.
      case map_of (ccl_commits c) i of None \<Rightarrow> Inl RuntimeError
      | Some ci \<Rightarrow>
          if com_log_digest ci \<noteq> lc_logDigest cp then Inl AssertFailed
          else (case map_of (ccl_sigs c) i of None \<Rightarrow> Inl RuntimeError
                | Some s \<Rightarrow> Inr (cp\<lparr>lc_commits := sm_put i ci (lc_commits cp),
                                   lc_commitSigs := sm_put i s (lc_commitSigs cp)\<rparr>))) js cp = Inr cp' \<and>
     lc_seq cp' = lc_seq cp \<and> lc_logDigest cp' = d \<and> lc_appDigest cp' = lc_appDigest cp \<and>
     lc_clientRecord cp' = lc_clientRecord cp \<and> lc_snapshot cp' = lc_snapshot cp"
  using assms(3,4)
proof (induction js arbitrary: cp)
  case (Cons i js)
  then obtain ci s where "map_of (ccl_commits c) i = Some ci" "map_of (ccl_sigs c) i = Some s" "com_log_digest ci = d"
    using assms(2) by auto
  then show ?case
    using Cons.IH [of "cp\<lparr>lc_commits := sm_put i ci (lc_commits cp), lc_commitSigs := sm_put i s (lc_commitSigs cp)\<rparr>"]
      Cons.prems by simp
qed simp

lemma ccl_add_TrueD:
  assumes "ccl_addAndCheckCommit sha m cm sig c = (True, c')" and "ccl_ok sha c"
  shows "\<exists>cmt. ccl_commitToUse c' = Some cmt \<and> getF m + 1 \<le> card (ccl_matchedReplicas c') \<and>
    ccl_matchedReplicas c' \<subseteq> group_ids commit_key (ccl_commits c') (commit_key cmt) \<and>
    rec_digest sha (rec_of_pb (com_client_record cmt)) = crpb_digest (com_client_record cmt) \<and>
    ccl_seq c' = ccl_seq c"
proof -
  have ok': "ccl_ok sha c'" using ccl_ok_add [OF assms(2), of m cm sig] by (simp add: assms(1))
  obtain cmt S where f: "ccl_find (getF m) (\<lambda>_. {}) (ccl_commits c') = Some (cmt, S)"
    and c': "ccl_commitToUse c' = Some cmt" "ccl_matchedReplicas c' = S" "ccl_seq c' = ccl_seq c"
    using assms(1) by (auto simp: ccl_addAndCheckCommit_def Let_def split: if_splits option.splits)
  have "(\<lambda>_. {}) = group_ids commit_key []" by (simp add: fun_eq_iff group_ids_simps)
  from ccl_find_SomeD [OF f this] have "getF m + 1 \<le> card S"
    "S \<subseteq> group_ids commit_key (ccl_commits c') (commit_key cmt)" "cmt \<in> snd ` set (ccl_commits c')"
    by simp_all
  then show ?thesis using ok' c' by (auto simp: ccl_ok_def)
qed

section \<open>The store\<close>

definition cst_ok :: "collector_store \<Rightarrow> bool" where
  "cst_ok st \<longleftrightarrow> sm_ok (cst_collectors st) \<and>
     (\<forall>((rd, s), c) \<in> set (cst_collectors st). cpc_round c = rd \<and> cpc_seq c = s)"

section \<open>Properties\<close>

lemmas rc_compute = rc_new_def rc_addAndCheckReply_def rc_store_def rc_step_def rc_key_def demo_reply_def
  Let_def sm_at_def

lemma demo_fast_cert:
  "\<exists>ct. rc_cert (rc_adds demo_config [(demo_reply 1 0, [1]), (demo_reply 2 0, [2]), (demo_reply 3 0, [3]),
      (demo_reply 0 0, [0])] (rc_new 0 0 5)) = Some ct"
  by (simp add: rc_compute)


text \<open>C37: a certificate of the fast path, after any sequence of replies in any order, has replies
  from a super quorum of different replicas, the own replica among them, that agree on digest,
  round and sequence number.\<close>

theorem rc_certificate_sound:
  assumes "rc_cert (rc_adds m xs (rc_new i rd s)) = Some ct"
  shows "fast_cert_sound (getSuperQuorumSize m) i ct"
  using rc_ok_adds [OF rc_ok_new, of m xs i rd s] assms by (auto simp: rc_ok_def)

theorem rc_certificate_sound_witness:
  "\<exists>ct. rc_cert (rc_adds demo_config [(demo_reply 1 0, [1]), (demo_reply 2 0, [2]), (demo_reply 3 0, [3]),
      (demo_reply 0 0, [0])] (rc_new 0 0 5)) = Some ct \<and> fast_cert_sound 4 0 ct"
proof -
  obtain ct where ct: "rc_cert (rc_adds demo_config [(demo_reply 1 0, [1]), (demo_reply 2 0, [2]),
      (demo_reply 3 0, [3]), (demo_reply 0 0, [0])] (rc_new 0 0 5)) = Some ct"
    using demo_fast_cert by (rule exE)
  show ?thesis
    by (rule exI, rule conjI [OF ct rc_certificate_sound [OF ct, unfolded demo_config_sizes]])
qed

text \<open>The collector claims a conflict only when the fast path is impossible: when it makes the
  proof, no group of replies that agree can reach a super quorum even if every replica not yet
  heard from joins it. The proof contains every reply received.\<close>

theorem rc_conflict_proof_sound:
  assumes "rc_stored c" and "rc_repairReplyProof c = None"
    and "rc_addAndCheckReply m r sig c = (b, c')" and "rc_repairReplyProof c' = Some p"
    and "getNumReplicas m < 2 ^ 31" and "getSuperQuorumSize m < 2 ^ 31"
  shows "int (card (group_ids rc_key (rc_replies c') k)) + (int (getNumReplicas m) - int (length (rc_replies c')))
      < int (getSuperQuorumSize m) \<and> rrp_replies p = map snd (rc_replies c')"
proof -
  obtain st where inv: "rc_loop_inv (getSuperQuorumSize m) (rc_store r sig c) (rc_replies c') st"
    and lt: "sint (cm_numReplicas m) - int (length (rc_replies c')) < sint (cm_superQuorumSize m) - rlp_maxMatch st"
    and p: "p = rc_conflict_proof (rc_store r sig c\<lparr>rc_cert := rlp_cert st\<rparr>)"
    and rep: "rc_replies c' = rc_replies (rc_store r sig c)"
    using rc_add_cases [OF assms(3,1)] assms(2,4) by (auto split: if_splits)
  have "int (card (group_ids rc_key (rc_replies c') k)) \<le> rlp_maxMatch st"
    using inv unfolding rc_loop_inv_def by blast
  moreover have "sint (cm_numReplicas m) = int (getNumReplicas m)"
    "sint (cm_superQuorumSize m) = int (getSuperQuorumSize m)"
    using sint_unat assms(5,6) by (simp_all only: getNumReplicas_def getSuperQuorumSize_def)
  ultimately show ?thesis
    using lt p rep by (simp add: rc_conflict_proof_def)
qed

theorem rc_conflict_proof_sound_witness:
  "\<exists>c' p. snd (rc_addAndCheckReply demo_config (demo_reply 0 1) [0]
       (snd (rc_addAndCheckReply demo_config (demo_reply 1 0) [1] (rc_new 0 0 5)))) = c' \<and>
     rc_repairReplyProof c' = Some p \<and> rrp_replies p = [demo_reply 0 1, demo_reply 1 0]"
proof -
  let ?c = "snd (rc_addAndCheckReply demo_config (demo_reply 1 0) [1] (rc_new 0 0 5))"
  have c: "?c = rc_store (demo_reply 1 0) [1] (rc_new 0 0 5)"
    by (simp add: rc_compute)
  have st: "rc_stored ?c" "rc_repairReplyProof ?c = None"
    unfolding c by (simp_all add: rc_stored_store) (simp add: rc_new_def)
  obtain b c' where a: "rc_addAndCheckReply demo_config (demo_reply 0 1) [0] ?c = (b, c')" by fastforce
  have "rc_repairReplyProof c' \<noteq> None \<and> rc_replies c' = [(0, demo_reply 0 1), (1, demo_reply 1 0)]"
    using a unfolding c by (auto simp: rc_compute demo_config_def getSuperQuorumSize_def)
  then obtain p where p: "rc_repairReplyProof c' = Some p" and r: "rc_replies c' = [(0, demo_reply 0 1), (1, demo_reply 1 0)]"
    by blast
  have "rrp_replies p = map snd (rc_replies c')"
    by (rule rc_conflict_proof_sound [OF st a p, THEN conjunct2]) simp_all
  then show ?thesis using a p r by (intro exI [of _ c'] exI [of _ p]) simp
qed

text \<open>When the commit collector reports that it has enough commits, \<open>f + 1\<close> different replicas
  sent the same round, sequence number, digests and client record digest; the checkpoint can be
  built, and it has their log digest and a client record that matches its digest.\<close>

theorem ccl_checkpoint_backed:
  assumes "ccl_ok sha c" and "ccl_addAndCheckCommit sha m cm sig c = (True, c')"
  shows "\<exists>cmt cp'. getF m + 1 \<le> card (group_ids commit_key (ccl_commits c') (commit_key cmt)) \<and>
    ccl_getCheckpoint c' initial_checkpoint = Inr cp' \<and> lc_seq cp' = ccl_seq c \<and>
    lc_logDigest cp' = com_log_digest cmt \<and> lc_appDigest cp' = bytes_or_empty (com_app_digest cmt) \<and>
    rec_digest sha (lc_clientRecord cp') = crpb_digest (com_client_record cmt)"
proof -
  obtain cmt where cmt: "ccl_commitToUse c' = Some cmt" "getF m + 1 \<le> card (ccl_matchedReplicas c')"
      "ccl_matchedReplicas c' \<subseteq> group_ids commit_key (ccl_commits c') (commit_key cmt)"
      "rec_digest sha (rec_of_pb (com_client_record cmt)) = crpb_digest (com_client_record cmt)"
      "ccl_seq c' = ccl_seq c"
    using ccl_add_TrueD [OF assms(2,1)] by blast
  have ok': "ccl_ok sha c'" using ccl_ok_add [OF assms(1), of m cm sig] by (simp add: assms(2))
  have fin: "finite (ccl_matchedReplicas c')" by (rule finite_subset [OF cmt(3)]) simp
  have "\<exists>ci s. map_of (ccl_commits c') i = Some ci \<and> map_of (ccl_sigs c') i = Some s \<and>
      com_log_digest ci = com_log_digest cmt" if i: "i \<in> ccl_matchedReplicas c'" for i
  proof -
    obtain ci where ci: "(i, ci) \<in> set (ccl_commits c')" "commit_key ci = commit_key cmt"
      using i cmt(3) unfolding group_ids_def by blast
    moreover have "sm_ok (ccl_commits c')" using ok' by (simp add: ccl_ok_def)
    ultimately have "map_of (ccl_commits c') i = Some ci" by (simp add: sm_get_in_set)
    moreover have "i \<in> dom (map_of (ccl_sigs c'))" using ok' calculation by (auto simp: ccl_ok_def)
    ultimately show ?thesis using ci(2) by (auto simp: commit_key_def)
  qed
  then have "\<exists>cp'. ccl_getCheckpoint c' initial_checkpoint = Inr cp' \<and> lc_seq cp' = ccl_seq c' \<and>
     lc_logDigest cp' = com_log_digest cmt \<and> lc_appDigest cp' = bytes_or_empty (com_app_digest cmt) \<and>
     lc_clientRecord cp' = rec_of_pb (com_client_record cmt)"
    using ccl_checkpoint_loop [OF fin, of c' "com_log_digest cmt" "sorted_list_of_set (ccl_matchedReplicas c')"
      "initial_checkpoint\<lparr>lc_seq := ccl_seq c', lc_logDigest := com_log_digest cmt,
         lc_appDigest := bytes_or_empty (com_app_digest cmt), lc_clientRecord := rec_of_pb (com_client_record cmt)\<rparr>"]
      fin by (simp add: ccl_getCheckpoint_def cmt(1)) blast
  moreover have "card (ccl_matchedReplicas c') \<le> card (group_ids commit_key (ccl_commits c') (commit_key cmt))"
    by (rule card_mono [OF group_ids_finite cmt(3)])
  ultimately show ?thesis using cmt by (intro exI [of _ cmt]) auto
qed

theorem ccl_checkpoint_backed_witness:
  "\<exists>cm c1 c' cp'. c1 = snd (ccl_addAndCheckCommit (\<lambda>b. b) demo_config cm [1] (ccl_new 0 5)) \<and>
     ccl_addAndCheckCommit (\<lambda>b. b) demo_config (cm\<lparr>com_replica_id := 2\<rparr>) [2] c1 = (True, c') \<and>
     ccl_getCheckpoint c' initial_checkpoint = Inr cp' \<and> lc_seq cp' = 5"
proof -
  let ?cm = "\<lparr>com_replica_id = 1, com_round = 0, com_seq = 5, com_log_digest = [3], com_app_digest = None,
     com_client_record = empty_client_record_pb\<rparr>"
  let ?c1 = "snd (ccl_addAndCheckCommit (\<lambda>b. b) demo_config ?cm [1] (ccl_new 0 5))"
  have ok: "ccl_ok (\<lambda>b. b) ?c1" by (rule ccl_ok_add) simp
  have "fst (ccl_addAndCheckCommit (\<lambda>b. b) demo_config (?cm\<lparr>com_replica_id := 2\<rparr>) [2] ?c1)" "ccl_seq ?c1 = 5"
    by (simp_all add: ccl_addAndCheckCommit_def ccl_new_def empty_client_record_pb_def rec_of_pb_def
        rec_digest_def rec_bytes_def commit_key_def Let_def)
  then obtain c' where a: "ccl_addAndCheckCommit (\<lambda>b. b) demo_config (?cm\<lparr>com_replica_id := 2\<rparr>) [2] ?c1 = (True, c')"
    by (metis prod.collapse)
  show ?thesis
    using ccl_checkpoint_backed [OF ok a] a \<open>ccl_seq ?c1 = 5\<close> by metis
qed

text \<open>Cleaning the store removes exactly the stale collectors: one waiting for a snapshot up to
  the stable sequence number, any other up to the committed one; after it a collector at a
  committed number is not created again.\<close>

theorem cst_clean_exact:
  assumes "cst_ok st" and "cst_cleanStaleCollectors stableSeq committedSeq st = Inr st'"
  shows "cst_ok st' \<and>
    (\<forall>rd s c. map_of (cst_collectors st') (rd, s) = Some c \<longleftrightarrow>
       map_of (cst_collectors st) (rd, s) = Some c \<and> (if cpc_needsSnapshot c then stableSeq < s else committedSeq < s)) \<and>
    (\<forall>rd s. s \<le> committedSeq \<longrightarrow> cst_initCollector rd s False st' = Inr (False, st'))"
proof -
  let ?P = "\<lambda>p. \<not> cst_stale stableSeq committedSeq p"
  have st': "st' = st\<lparr>cst_stableSeq := max (cst_stableSeq st) stableSeq,
      cst_committedSeq := max (cst_committedSeq st) committedSeq,
      cst_collectors := filter ?P (cst_collectors st)\<rparr>"
    using assms(2) by (auto simp: cst_cleanStaleCollectors_def split: if_splits)
  have ok: "sm_ok (cst_collectors st)" "sm_ok (filter ?P (cst_collectors st))"
    using assms(1) by (simp_all add: cst_ok_def)
  have get: "map_of (cst_collectors st') (rd, s) = Some c \<longleftrightarrow> ((rd, s), c) \<in> set (filter ?P (cst_collectors st))"
    for rd s c
    using sm_get_in_set [OF ok(2)] by (simp add: st')
  have "map_of (cst_collectors st') (rd, s) = Some c \<longleftrightarrow>
       map_of (cst_collectors st) (rd, s) = Some c \<and> (if cpc_needsSnapshot c then stableSeq < s else committedSeq < s)"
    for rd s c
    unfolding get sm_get_in_set [OF ok(1)] by (auto simp: cst_stale_def not_le)
  moreover have "cst_ok st'" using assms(1) by (auto simp: st' cst_ok_def)
  ultimately show ?thesis by (auto simp: st' cst_initCollector_def le_max_iff_disj)
qed

theorem cst_clean_exact_witness:
  "\<exists>st'. cst_cleanStaleCollectors 0 5 ((cst_new 0)\<lparr>cst_collectors :=
       [((0, 5), cpc_new 0 0 5 False), ((0, 6), cpc_new 0 0 6 False)]\<rparr>) = Inr st' \<and>
     map_of (cst_collectors st') (0, 5) = None \<and> cst_initCollector 0 5 False st' = Inr (False, st')"
proof -
  let ?st = "(cst_new 0)\<lparr>cst_collectors := [((0, 5), cpc_new 0 0 5 False), ((0, 6), cpc_new 0 0 6 False)]\<rparr>"
  have ok: "cst_ok ?st" by (simp add: cst_ok_def sm_ok_def cpc_new_def)
  obtain st' where cl: "cst_cleanStaleCollectors 0 5 ?st = Inr st'"
    by (simp add: cst_cleanStaleCollectors_def)
  note clean = cst_clean_exact [OF ok cl]
  have "map_of (cst_collectors st') (0, 5) = None"
  proof (cases "map_of (cst_collectors st') (0, 5)")
    case (Some c)
    then show ?thesis using clean by (auto simp: cpc_new_def)
  qed simp
  moreover have "cst_initCollector 0 5 False st' = Inr (False, st')" using clean by simp
  ultimately show ?thesis using cl by blast
qed

text \<open>The threshold of repair timeouts counts every timeout the collector holds, but the proof
  it then makes contains only those of the collector's round: there is a history in which it
  reports success with a proof of a single timeout, fewer than the \<open>f + 1\<close> a receiver demands.\<close>

theorem cpc_timeout_proof_too_small:
  "\<exists>t1 t2 c1 c2 p. cpc_addAndCheckTimeout demo_config t1 [1] (cpc_new 0 4 5 False) = (False, c1) \<and>
     cpc_addAndCheckTimeout demo_config t2 [2] c1 = (True, c2) \<and>
     cpc_getRepairTimeoutProof c2 = Inr p \<and> length (rtp_timeouts p) < getF demo_config + 1"
  by (rule exI [of _ "\<lparr>rt_replica_id = 1, rt_round = 3, rt_view = 0, rt_seq = 5\<rparr>"],
      rule exI [of _ "\<lparr>rt_replica_id = 2, rt_round = 4, rt_view = 0, rt_seq = 5\<rparr>"])
    (simp add: cpc_addAndCheckTimeout_def cpc_new_def cpc_getRepairTimeoutProof_def Let_def)

end
