(* ===== verification/Wire.thy ===== *)
theory Wire
  imports Messages ClientRecord
begin

text \<open>
  What travels between processes: the message types and the header of \<open>lib/common.h\<close>, the frames
  that \<open>Endpoint\<close> prepares (\<open>lib/transport/endpoint.cc\<close>) and the two providers that sign and
  check them (\<open>lib/crypto/sig_provider.cc\<close>, \<open>hmac_provider.cc\<close>). Parsing and serialising a
  protobuf message, ed25519 and the keyed hash are third-party code: parameters. The build
  flag \<open>SKIP_CRYPTO\<close> is 0.
\<close>

unbundle bit_operations_syntax

section \<open>Types and headers\<close>

datatype node_type = CLIENT | REPLICA

type_synonym node_id = "node_type \<times> u32"

datatype message_type =
    CLIENT_REQUEST | DOM_REQUEST | DOM_BATCH_REQUEST | MEASUREMENT_REPLY
  | FAST_REPLY | REPLY | CERT | CERT_REPLY | COMMITTED_REPLY | COMMIT
  | REPAIR_CLIENT_TIMEOUT | REPAIR_TIMEOUT | REPAIR_REPLY_PROOF | REPAIR_TIMEOUT_PROOF
  | REPAIR_START | REPAIR_PROPOSAL | REPAIR_DONE | REPAIR_SUMMARY
  | PBFT_PREPREPARE | PBFT_PREPARE | PBFT_COMMIT | VIEW_UPDATE
  | SNAPSHOT_REQUEST | SNAPSHOT_REPLY | DUMMY_PROTO
  | MISSING_REQUEST_FETCH | MISSING_REQUEST_REPLY
  | PS_CLIENT | PS_LEADER_FORWARD | PS_LEADER_ORDER
  | FLUTTER_REPLICA_MSG | FLUTTER_CLIENT_REQUEST | FLUTTER_REPLY

definition message_codes :: "(message_type \<times> u8) list" where
  "message_codes =
     [(CLIENT_REQUEST, 1), (DOM_REQUEST, 2), (DOM_BATCH_REQUEST, 3), (MEASUREMENT_REPLY, 4),
      (FAST_REPLY, 5), (REPLY, 6), (CERT, 7), (CERT_REPLY, 8), (COMMITTED_REPLY, 9), (COMMIT, 10),
      (REPAIR_CLIENT_TIMEOUT, 11), (REPAIR_TIMEOUT, 12), (REPAIR_REPLY_PROOF, 13),
      (REPAIR_TIMEOUT_PROOF, 14), (REPAIR_START, 15), (REPAIR_PROPOSAL, 16), (REPAIR_DONE, 17),
      (REPAIR_SUMMARY, 18), (PBFT_PREPREPARE, 19), (PBFT_PREPARE, 20), (PBFT_COMMIT, 21),
      (VIEW_UPDATE, 22), (SNAPSHOT_REQUEST, 24), (SNAPSHOT_REPLY, 25), (DUMMY_PROTO, 26),
      (MISSING_REQUEST_FETCH, 28), (MISSING_REQUEST_REPLY, 29), (PS_CLIENT, 30),
      (PS_LEADER_FORWARD, 31), (PS_LEADER_ORDER, 32), (FLUTTER_REPLICA_MSG, 100),
      (FLUTTER_CLIENT_REQUEST, 101), (FLUTTER_REPLY, 102)]"

text \<open>The type a code stands for; the \<open>if\<close> chains that compare \<open>hdr->msgType\<close> reach their
  \<open>else\<close> with \<open>None\<close>.\<close>

definition type_of_code :: "u8 \<Rightarrow> message_type option" where
  "type_of_code c = map_of (map (\<lambda>(t, k). (k, t)) message_codes) c"

definition code_of_type :: "message_type \<Rightarrow> u8" where
  "code_of_type t = the (map_of message_codes t)"

lemma type_of_code_of_type [simp]: "type_of_code (code_of_type t) = Some t"
  by (cases t) (simp_all add: type_of_code_def code_of_type_def message_codes_def)

text \<open>\<open>struct MessageHeader\<close>: one byte, three of padding, two 32-bit lengths; a buffer shorter
  than that, or than the lengths say, is read out of bounds.\<close>

record message_header =
  mh_msgType :: u8
  mh_msgLen :: u32
  mh_sigLen :: u32

text \<open>A message in a buffer: the type, the body of \<open>msgLen\<close> bytes and the \<open>sigLen\<close> bytes after it.\<close>

record frame =
  fr_type :: u8
  fr_body :: bytes
  fr_sig :: bytes

definition header_size :: nat where
  "header_size = 12"

definition of_le32 :: "bytes \<Rightarrow> u32" where
  "of_le32 b = foldr (\<lambda>x acc. ucast x OR push_bit 8 acc) b 0"

definition header_bytes :: "message_header \<Rightarrow> bytes" where
  "header_bytes h = [mh_msgType h, 0, 0, 0] @ le32 (mh_msgLen h) @ le32 (mh_sigLen h)"

definition read_header :: "bytes \<Rightarrow> message_header res" where
  "read_header buf =
     (if length buf < header_size then Inl Undefined
      else Inr \<lparr>mh_msgType = buf ! 0, mh_msgLen = of_le32 (take 4 (drop 4 buf)),
                mh_sigLen = of_le32 (take 4 (drop 8 buf))\<rparr>)"

definition read_body :: "bytes \<Rightarrow> bytes res" where
  "read_body buf =
     bindE (read_header buf) (\<lambda>h.
     if length (drop header_size buf) < unat (mh_msgLen h) then Inl Undefined
     else Inr (take (unat (mh_msgLen h)) (drop header_size buf)))"

definition read_frame :: "bytes \<Rightarrow> frame res" where
  "read_frame buf =
     bindE (read_header buf) (\<lambda>h.
     let body = drop header_size buf
     in if length body < unat (mh_msgLen h) + unat (mh_sigLen h) then Inl Undefined
        else Inr \<lparr>fr_type = mh_msgType h, fr_body = take (unat (mh_msgLen h)) body,
                  fr_sig = take (unat (mh_sigLen h)) (drop (unat (mh_msgLen h)) body)\<rparr>)"

definition frame_bytes :: "frame \<Rightarrow> bytes" where
  "frame_bytes fr =
     header_bytes \<lparr>mh_msgType = fr_type fr, mh_msgLen = of_nat (length (fr_body fr)),
                   mh_sigLen = of_nat (length (fr_sig fr))\<rparr> @ fr_body fr @ fr_sig fr"

section \<open>Preparing messages\<close>

definition SEND_BUFFER_SIZE :: nat where
  "SEND_BUFFER_SIZE = 200000000"

text \<open>\<open>PrepareMsg\<close> compares with the size of the own buffer whatever buffer it was given;
  \<open>PrepareProtoMsg\<close> compares with the size of the given one. The result is null when the message is too large.\<close>

definition PrepareMsg :: "bytes \<Rightarrow> u8 \<Rightarrow> nat \<Rightarrow> frame option res" where
  "PrepareMsg msg msgType bufSize =
     (if SEND_BUFFER_SIZE < length msg + header_size then Inr None
      else if bufSize < length msg + header_size then Inl Undefined
      else Inr (Some \<lparr>fr_type = msgType, fr_body = msg, fr_sig = []\<rparr>))"

definition PrepareProtoMsg :: "('m \<Rightarrow> bytes) \<Rightarrow> 'm \<Rightarrow> u8 \<Rightarrow> nat \<Rightarrow> frame option" where
  "PrepareProtoMsg ser msg msgType bufSize =
     (let body = ser msg
      in if bufSize < length body + header_size then None
         else Some \<lparr>fr_type = msgType, fr_body = body, fr_sig = []\<rparr>)"

section \<open>Signatures\<close>

text \<open>\<open>SignatureProvider\<close>: \<open>pubKeys_\<close> by node, and the library's verifier and signer (with the
  longest signature it makes).\<close>

record 'k sig_provider =
  sp_pubKeys :: "node_id \<Rightarrow> 'k option"
  sp_verifier :: "'k \<Rightarrow> bytes \<Rightarrow> bytes \<Rightarrow> bool"
  sp_sign :: "bytes \<Rightarrow> bytes"
  sp_maxSigLen :: nat

definition sig_verify :: "'k sig_provider \<Rightarrow> bytes \<Rightarrow> bytes \<Rightarrow> node_id \<Rightarrow> bool" where
  "sig_verify p dat sig signer =
     (case sp_pubKeys p signer of None \<Rightarrow> False | Some key \<Rightarrow> sp_verifier p key dat sig)"

definition sig_verify_frame :: "'k sig_provider \<Rightarrow> frame \<Rightarrow> node_id \<Rightarrow> bool" where
  "sig_verify_frame p fr signer = sig_verify p (fr_body fr) (fr_sig fr) signer"

definition appendSignature :: "'k sig_provider \<Rightarrow> nat \<Rightarrow> frame \<Rightarrow> bool \<times> frame" where
  "appendSignature p bufLen fr =
     (if bufLen < length (fr_body fr) + header_size then (False, fr)
      else if bufLen < header_size + length (fr_body fr) + sp_maxSigLen p then (False, fr)
      else (True, fr\<lparr>fr_sig := sp_sign p (fr_body fr)\<rparr>))"

text \<open>\<open>getSignature\<close> builds the vector from \<open>data + msgLen\<close> to \<open>data + sigLen\<close>: with a body
  longer than the signature the range is reversed.\<close>

definition getSignature :: "frame \<Rightarrow> bytes res" where
  "getSignature fr =
     (if length (fr_sig fr) < length (fr_body fr) then Inl Undefined
      else Inr (take (length (fr_sig fr) - length (fr_body fr)) (fr_sig fr)))"

text \<open>\<open>HMACProvider\<close>: \<open>keys_\<close> by node; \<open>keys_[signer]\<close> is the empty key for an unknown node.
  The check reads the 32 bytes after the body whatever \<open>sigLen\<close> says.\<close>

type_synonym hmac_keys = "node_id \<Rightarrow> bytes option"

definition hmac_digest_size :: nat where
  "hmac_digest_size = 32"

definition ascii :: "nat list \<Rightarrow> bytes" where
  "ascii cs = map of_nat cs"

definition client_key :: "bytes \<Rightarrow> bytes" where
  "client_key id_text = ascii [99, 108, 105, 101, 110, 116] @ id_text @ ascii [95, 114, 101, 112, 108, 105, 99, 97]"

definition replica_key :: bytes where
  "replica_key = ascii [114, 101, 112, 108, 105, 99, 97, 95, 114, 101, 112, 108, 105, 99, 97]"

definition loadClientKeysDev :: "(u32 \<Rightarrow> bytes) \<Rightarrow> node_id \<Rightarrow> u32 \<Rightarrow> hmac_keys \<Rightarrow> hmac_keys res" where
  "loadClientKeysDev to_string self nReplicas keys =
     (if fst self \<noteq> CLIENT then Inl AssertFailed
      else Inr (\<lambda>n. if fst n = REPLICA \<and> snd n < nReplicas then Some (client_key (to_string (snd self))) else keys n))"

definition loadReplicaKeysDev ::
  "(u32 \<Rightarrow> bytes) \<Rightarrow> node_id \<Rightarrow> u32 \<Rightarrow> u32 \<Rightarrow> hmac_keys \<Rightarrow> hmac_keys res" where
  "loadReplicaKeysDev to_string self nClients nReplicas keys =
     (if fst self \<noteq> REPLICA then Inl AssertFailed
      else Inr (\<lambda>n. if fst n = REPLICA then (if snd n < nReplicas then Some replica_key else keys n)
                    else (if snd n < nClients then Some (client_key (to_string (snd n))) else keys n)))"

definition appendMAC :: "(bytes \<Rightarrow> bytes \<Rightarrow> bytes) \<Rightarrow> hmac_keys \<Rightarrow> nat \<Rightarrow> node_id \<Rightarrow> frame \<Rightarrow> bool \<times> frame" where
  "appendMAC hmac keys bufLen dst fr =
     (if bufLen < header_size + length (fr_body fr) + hmac_digest_size then (False, fr)
      else (True, fr\<lparr>fr_sig := hmac (bytes_or_empty (keys dst)) (fr_body fr)\<rparr>))"

definition hmac_verify :: "(bytes \<Rightarrow> bytes \<Rightarrow> bytes) \<Rightarrow> hmac_keys \<Rightarrow> frame \<Rightarrow> node_id \<Rightarrow> bool res" where
  "hmac_verify hmac keys fr signer =
     (if length (fr_sig fr) < hmac_digest_size then Inl Undefined
      else Inr (hmac (bytes_or_empty (keys signer)) (fr_body fr) = take hmac_digest_size (fr_sig fr)))"

section \<open>Parsed messages\<close>

text \<open>A parsed message; \<open>ParseFromArray\<close> for a type and \<open>SerializeAsString\<close> are the parameters
  \<open>wp_parse\<close> and \<open>wp_ser\<close>.\<close>

datatype proto_msg =
    M_ClientRequest client_request | M_DOMRequest dom_request | M_DOMBatchRequest dom_batch_request
  | M_MeasurementReply measurement_reply | M_Reply reply | M_Cert cert | M_CertReply cert_reply
  | M_CommittedReply committed_reply | M_Commit commit_msg
  | M_RepairTimeout repair_timeout | M_RepairReplyProof repair_reply_proof
  | M_RepairTimeoutProof repair_timeout_proof | M_RepairStart repair_start
  | M_RepairSummary repair_summary | M_PrePrepare pbft_preprepare | M_Prepare pbft_prepare
  | M_PBFTCommit pbft_commit | M_ViewUpdate view_update
  | M_SnapshotRequest snapshot_request | M_SnapshotReply snapshot_reply
  | M_MissingFetch missing_request_fetch | M_MissingReply missing_request_reply
  | M_PSForward ps_leader_forward | M_PSOrder ps_leader_order

record 'k wire_params =
  wp_sha :: "bytes \<Rightarrow> bytes"
  wp_parse :: "message_type \<Rightarrow> bytes \<Rightarrow> proto_msg option"
  wp_ser :: "proto_msg \<Rightarrow> bytes"
  wp_sig :: "'k sig_provider"
  wp_hmac :: "bytes \<Rightarrow> bytes \<Rightarrow> bytes"
  wp_hmacKeys :: hmac_keys

section \<open>Lemmas\<close>

lemma length_header_bytes [simp]: "length (header_bytes h) = header_size"
  by (simp add: header_bytes_def header_size_def le32_def)

lemma of_le32_le32 [simp]: "of_le32 (le32 w) = w"
proof (rule bit_word_eqI)
  fix n assume n: "n < LENGTH(32)"
  consider "n < 8" | "8 \<le> n" "n < 16" | "16 \<le> n" "n < 24" | "24 \<le> n" "n < 32"
    using n by fastforce
  then show "bit (of_le32 (le32 w)) n \<longleftrightarrow> bit w n"
    by cases (auto simp: of_le32_def le32_def bit_simps)
qed

lemma read_header_bytes [simp]: "read_header (header_bytes h @ rest) = Inr h"
  by (simp add: read_header_def header_bytes_def header_size_def) (simp add: le32_def [abs_def] of_le32_le32 [unfolded le32_def])

lemma frame_roundtrip:
  assumes "length (fr_body fr) < 2 ^ 32" and "length (fr_sig fr) < 2 ^ 32"
  shows "read_frame (frame_bytes fr @ rest) = Inr fr"
proof -
  have "unat (of_nat (length (fr_body fr)) :: u32) = length (fr_body fr)"
    and "unat (of_nat (length (fr_sig fr)) :: u32) = length (fr_sig fr)"
    using assms by (simp_all add: unat_of_nat)
  then show ?thesis by (simp add: read_frame_def frame_bytes_def Let_def)
qed

section \<open>Properties\<close>

text \<open>A frame survives the buffer: reading back its bytes, whatever follows them, gives the type, the
  body and the signature, as long as the lengths fit the header.\<close>

theorem wire_frame_roundtrip:
  assumes "length (fr_body fr) < 2 ^ 32" and "length (fr_sig fr) < 2 ^ 32"
  shows "read_frame (frame_bytes fr @ rest) = Inr fr"
  using assms by (rule frame_roundtrip)

theorem wire_frame_roundtrip_witness:
  "read_frame (frame_bytes \<lparr>fr_type = 6, fr_body = [1, 2], fr_sig = [9]\<rparr> @ [0]) =
     Inr \<lparr>fr_type = 6, fr_body = [1, 2], fr_sig = [9]\<rparr>"
  by (rule wire_frame_roundtrip) simp_all

text \<open>The message authentication code of a node without a key is checked under the empty key, which
  everyone knows: for a client number beyond the configured clients a replica accepts the code
  that anybody can compute.\<close>

theorem hmac_unknown_client_forgeable:
  assumes "loadReplicaKeysDev to_string (REPLICA, r) nClients nReplicas (\<lambda>_. None) = Inr keys"
    and "nClients \<le> c" and "\<And>k d. length (hmac k d) = hmac_digest_size"
  shows "hmac_verify hmac keys \<lparr>fr_type = t, fr_body = body, fr_sig = hmac [] body\<rparr> (CLIENT, c) = Inr True"
  using assms by (auto simp: loadReplicaKeysDev_def hmac_verify_def)

theorem hmac_unknown_client_forgeable_witness:
  "hmac_verify (\<lambda>k d. replicate 32 0) (\<lambda>n. if fst n = REPLICA then (if snd n < 4 then Some replica_key else None)
      else (if snd n < 2 then Some (client_key []) else None))
     \<lparr>fr_type = 1, fr_body = [7], fr_sig = replicate 32 0\<rparr> (CLIENT, 2) = Inr True"
  by (rule hmac_unknown_client_forgeable [of "\<lambda>_. []" 0 2 4])
    (simp_all add: loadReplicaKeysDev_def hmac_digest_size_def)

end
