(* ===== verification/CertCollector.thy ===== *)
theory CertCollector
  imports Config Messages
begin

text \<open>
  The client's collector of replies (\<open>lib/cert_collector.h\<close> and \<open>.cc\<close>): the latest reply of each
  replica, the round it works in, and the certificate once a quorum of replies of that round
  match. The map is keyed by a C++ \<open>int\<close>; the set of matching replicas is a set of them. The
  logging at the end of \<open>insertReply\<close> is left out.
\<close>

section \<open>State and operations\<close>

type_synonym reply_key = "u32 \<times> u32 \<times> u32 \<times> u32 \<times> bytes \<times> bytes"

definition reply_key :: "reply \<Rightarrow> reply_key" where
  "reply_key r = (rep_seq r, rep_round r, rep_client_id r, rep_client_seq r, rep_digest r, rep_result r)"

record cert_collector =
  cc_f :: u32
  cc_quorumSize :: u32
  cc_maxMatchSize :: nat
  cc_round :: u32
  cc_replies :: "(int, reply) smap"
  cc_signatures :: "(int, bytes) smap"
  cc_cert :: "cert option"

definition cc_init :: "config_manager \<Rightarrow> cert_collector" where
  "cc_init m =
     \<lparr>cc_f = cfg_f (cm_config m), cc_quorumSize = cm_quorumSize m, cc_maxMatchSize = 0, cc_round = 0,
      cc_replies = [], cc_signatures = [], cc_cert = None\<rparr>"

text \<open>The body of the loop that counts the rounds of the stored replies.\<close>

definition cc_round_step ::
  "int \<times> reply \<Rightarrow> (int \<Rightarrow> u32) \<times> cert_collector \<Rightarrow> (int \<Rightarrow> u32) \<times> cert_collector" where
  "cc_round_step x st =
     (let (counts, c) = st; r = snd x; k = sint (rep_round r); counts' = counts(k := counts k + 1)
      in (counts', if cc_f c + 1 \<le> counts' k \<and> cc_round c < rep_round r
                   then c\<lparr>cc_round := rep_round r, cc_cert := None\<rparr> else c))"

text \<open>The certificate made of the matching replicas, in ascending order.\<close>

definition make_cert :: "(int, reply) smap \<Rightarrow> (int, bytes) smap \<Rightarrow> reply \<Rightarrow> int set \<Rightarrow> cert" where
  "make_cert replies sigs r S =
     \<lparr>cert_seq = rep_seq r, cert_round = rep_round r,
      cert_replies = map (\<lambda>i. sm_at r replies i) (sorted_list_of_set S),
      cert_signatures = map (\<lambda>i. sm_at [] sigs i) (sorted_list_of_set S)\<rparr>"

text \<open>The body of the loop that groups the replies of the current round.\<close>

definition cc_match_step ::
  "int \<times> reply \<Rightarrow> (reply_key \<Rightarrow> int set) \<times> cert_collector \<Rightarrow> (reply_key \<Rightarrow> int set) \<times> cert_collector" where
  "cc_match_step x st =
     (let (matching, c) = st; (i, r) = x
      in if rep_round r \<noteq> cc_round c then (matching, c)
         else
           let k = reply_key r; S = insert i (matching k); matching' = matching(k := S);
               c1 = c\<lparr>cc_maxMatchSize := max (cc_maxMatchSize c) (card S)\<rparr>
           in (matching',
               if unat (cc_quorumSize c) \<le> card S
               then (case cc_cert c1 of
                       Some ct \<Rightarrow> if rep_round r \<le> cert_round ct then c1
                                  else c1\<lparr>cc_cert := Some (make_cert (cc_replies c) (cc_signatures c) r S)\<rparr>
                     | None \<Rightarrow> c1\<lparr>cc_cert := Some (make_cert (cc_replies c) (cc_signatures c) r S)\<rparr>)
               else c1))"

definition cc_store :: "reply \<Rightarrow> bytes \<Rightarrow> cert_collector \<Rightarrow> cert_collector" where
  "cc_store r sig c =
     c\<lparr>cc_replies := sm_put (sint (rep_replica_id r)) r (cc_replies c),
       cc_signatures := sm_put (sint (rep_replica_id r)) sig (cc_signatures c)\<rparr>"

definition cc_insertReply :: "reply \<Rightarrow> bytes \<Rightarrow> cert_collector \<Rightarrow> nat \<times> cert_collector" where
  "cc_insertReply r sig c =
     (let c1 = cc_store r sig c;
          c2 = snd (fold cc_round_step (cc_replies c1) (\<lambda>_. 0, c1));
          c3 = snd (fold cc_match_step (cc_replies c2) (\<lambda>_. {}, c2))
      in (cc_maxMatchSize c3, c3))"

definition cc_hasCert :: "cert_collector \<Rightarrow> bool" where
  "cc_hasCert c = (cc_cert c \<noteq> None)"

definition cc_getCert :: "cert_collector \<Rightarrow> cert res" where
  "cc_getCert c = (case cc_cert c of None \<Rightarrow> Inl RuntimeError | Some ct \<Rightarrow> Inr ct)"

definition cc_numReceived :: "cert_collector \<Rightarrow> u32" where
  "cc_numReceived c = of_nat (length (filter (\<lambda>p. rep_round (snd p) = cc_round c) (cc_replies c)))"

text \<open>A history of insertions.\<close>

fun cc_inserts :: "(reply \<times> bytes) list \<Rightarrow> cert_collector \<Rightarrow> cert_collector" where
  "cc_inserts [] c = c"
| "cc_inserts ((r, sig) # xs) c = cc_inserts xs (snd (cc_insertReply r sig c))"

section \<open>Invariant\<close>

text \<open>A certificate is sound for a quorum size: enough replies, from different replicas, all for
  the same request with the same result and digest, at the certificate's number and round,
  each with a signature.\<close>

definition cert_sound :: "u32 \<Rightarrow> cert \<Rightarrow> bool" where
  "cert_sound q ct \<longleftrightarrow>
     unat q \<le> length (cert_replies ct) \<and> length (cert_signatures ct) = length (cert_replies ct) \<and>
     distinct (map rep_replica_id (cert_replies ct)) \<and>
     (\<forall>r \<in> set (cert_replies ct). \<forall>r' \<in> set (cert_replies ct). reply_key r = reply_key r') \<and>
     (\<forall>r \<in> set (cert_replies ct). rep_seq r = cert_seq ct \<and> rep_round r = cert_round ct)"

definition cc_stored :: "cert_collector \<Rightarrow> bool" where
  "cc_stored c \<longleftrightarrow> sm_ok (cc_replies c) \<and> (\<forall>(i, r) \<in> set (cc_replies c). sint (rep_replica_id r) = i)"

definition cc_ok :: "cert_collector \<Rightarrow> bool" where
  "cc_ok c \<longleftrightarrow> cc_stored c \<and>
     (\<forall>ct. cc_cert c = Some ct \<longrightarrow> cert_sound (cc_quorumSize c) ct \<and> cert_round ct = cc_round c)"

text \<open>The replicas among stored replies that match a key.\<close>

definition matching_ids :: "u32 \<Rightarrow> reply_key \<Rightarrow> (int \<times> reply) list \<Rightarrow> int set" where
  "matching_ids rd k xs = {i. \<exists>r. (i, r) \<in> set xs \<and> rep_round r = rd \<and> reply_key r = k}"

lemma matching_ids_finite [simp]: "finite (matching_ids rd k xs)"
  by (rule finite_subset [of _ "fst ` set xs"]) (auto simp: matching_ids_def intro: rev_image_eqI)

lemma matching_ids_rec:
  "matching_ids rd k [] = {}"
  "matching_ids rd k ((i, r) # xs) =
     (if rep_round r = rd \<and> reply_key r = k then insert i (matching_ids rd k xs) else matching_ids rd k xs)"
  by (auto simp: matching_ids_def)

lemma matching_ids_snoc:
  "matching_ids rd k (xs @ [(i, r)]) =
     (if rep_round r = rd \<and> reply_key r = k then insert i (matching_ids rd k xs) else matching_ids rd k xs)"
  by (auto simp: matching_ids_def)

lemma cc_ok_init [simp]: "cc_ok (cc_init m)"
  by (simp add: cc_ok_def cc_stored_def cc_init_def)

lemma cc_stored_store:
  assumes "cc_stored c"
  shows "cc_stored (cc_store r sig c)"
  using assms by (auto simp: cc_stored_def cc_store_def sm_put_set)

lemma round_loop_keeps:
  "(\<lambda>c'. cc_replies c' = cc_replies c \<and> cc_signatures c' = cc_signatures c \<and>
     cc_quorumSize c' = cc_quorumSize c \<and> cc_f c' = cc_f c \<and> cc_maxMatchSize c' = cc_maxMatchSize c \<and>
     cc_round c \<le> cc_round c' \<and>
     (cc_cert c' = None \<or> (cc_cert c' = cc_cert c \<and> cc_round c' = cc_round c)))
   (snd (fold cc_round_step xs (n, c)))"
proof (induction xs arbitrary: n c)
  case (Cons x xs)
  obtain n1 c1 where st: "cc_round_step x (n, c) = (n1, c1)" by fastforce
  then have "cc_replies c1 = cc_replies c \<and> cc_signatures c1 = cc_signatures c \<and>
     cc_quorumSize c1 = cc_quorumSize c \<and> cc_f c1 = cc_f c \<and> cc_maxMatchSize c1 = cc_maxMatchSize c \<and>
     cc_round c \<le> cc_round c1 \<and>
     (cc_cert c1 = None \<or> (cc_cert c1 = cc_cert c \<and> cc_round c1 = cc_round c))"
    by (auto simp: cc_round_step_def Let_def split: if_splits)
  then show ?case using Cons.IH [of n1 c1] by (auto simp: st intro: order_trans)
qed simp

lemma make_cert_sound:
  assumes "cc_stored c" and "S = matching_ids (rep_round r) (reply_key r) xs" and "set xs \<subseteq> set (cc_replies c)"
    and "unat (cc_quorumSize c) \<le> card S"
  shows "cert_sound (cc_quorumSize c) (make_cert (cc_replies c) (cc_signatures c) r S)"
proof -
  have ok: "sm_ok (cc_replies c)" using assms(1) by (simp add: cc_stored_def)
  have get: "\<exists>r'. map_of (cc_replies c) i = Some r' \<and> reply_key r' = reply_key r \<and> sint (rep_replica_id r') = i"
    if i: "i \<in> S" for i
  proof -
    obtain r' where r': "(i, r') \<in> set (cc_replies c)" "reply_key r' = reply_key r"
      using i assms(2,3) unfolding matching_ids_def by blast
    then show ?thesis using sm_get_in_set [OF ok] assms(1) by (fastforce simp: cc_stored_def)
  qed
  let ?f = "\<lambda>i. sm_at r (cc_replies c) i"
  have f: "reply_key (?f i) = reply_key r \<and> sint (rep_replica_id (?f i)) = i" if "i \<in> S" for i
    using get [OF that] by (auto simp: sm_at_def)
  have fin: "finite S" by (simp add: assms(2))
  have "inj_on (\<lambda>i. rep_replica_id (?f i)) S"
    by (rule inj_onI) (metis f)
  then have "distinct (map (\<lambda>i. rep_replica_id (?f i)) (sorted_list_of_set S))"
    using fin by (simp add: distinct_map)
  moreover have "rep_seq (?f i) = rep_seq r \<and> rep_round (?f i) = rep_round r" if "i \<in> S" for i
    using f [OF that] by (simp add: reply_key_def)
  ultimately show ?thesis
    using assms(4) f fin by (auto simp: cert_sound_def make_cert_def comp_def)
qed

text \<open>The matching loop over a prefix of the stored replies: it groups exactly the replies of the
  current round, keeps the certificate sound, and has one as soon as a group is a quorum.\<close>

definition match_inv ::
  "cert_collector \<Rightarrow> (int \<times> reply) list \<Rightarrow> (reply_key \<Rightarrow> int set) \<Rightarrow> cert_collector \<Rightarrow> bool" where
  "match_inv c xs m c' \<longleftrightarrow>
     m = (\<lambda>k. matching_ids (cc_round c) k xs) \<and>
     cc_replies c' = cc_replies c \<and> cc_signatures c' = cc_signatures c \<and>
     cc_quorumSize c' = cc_quorumSize c \<and> cc_f c' = cc_f c \<and> cc_round c' = cc_round c \<and> cc_ok c' \<and>
     (cc_cert c \<noteq> None \<longrightarrow> cc_cert c' = cc_cert c) \<and>
     cc_maxMatchSize c \<le> cc_maxMatchSize c' \<and>
     (\<forall>k. card (matching_ids (cc_round c) k xs) \<le> cc_maxMatchSize c') \<and>
     (\<forall>k. matching_ids (cc_round c) k xs \<noteq> {} \<longrightarrow>
          unat (cc_quorumSize c) \<le> card (matching_ids (cc_round c) k xs) \<longrightarrow> cc_cert c' \<noteq> None)"

lemma match_inv_quorum:
  "match_inv c xs m c' \<Longrightarrow> matching_ids (cc_round c) k xs \<noteq> {} \<Longrightarrow>
   unat (cc_quorumSize c) \<le> card (matching_ids (cc_round c) k xs) \<Longrightarrow> cc_cert c' \<noteq> None"
  unfolding match_inv_def by blast

lemma match_inv_same:
  "match_inv c xs m c' \<Longrightarrow> cc_replies c' = cc_replies c \<and> cc_round c' = cc_round c"
  unfolding match_inv_def by blast

lemma match_step_skip: "rep_round r \<noteq> cc_round c \<Longrightarrow> cc_match_step (i, r) (m, c) = (m, c)"
  by (simp add: cc_match_step_def)

lemma match_step_hit:
  assumes "rep_round r = cc_round c" and "\<forall>ct. cc_cert c = Some ct \<longrightarrow> cert_round ct = cc_round c"
  shows "cc_match_step (i, r) (m, c) =
    (m(reply_key r := insert i (m (reply_key r))),
     c\<lparr>cc_maxMatchSize := max (cc_maxMatchSize c) (card (insert i (m (reply_key r)))),
       cc_cert := (if unat (cc_quorumSize c) \<le> card (insert i (m (reply_key r))) \<and> cc_cert c = None
          then Some (make_cert (cc_replies c) (cc_signatures c) r (insert i (m (reply_key r))))
          else cc_cert c)\<rparr>)"
  using assms by (auto simp: cc_match_step_def Let_def split: option.split)

lemma match_step_inv:
  assumes inv: "match_inv c xs m c1" and sub: "set (xs @ [(i, r)]) \<subseteq> set (cc_replies c)"
    and st: "cc_match_step (i, r) (m, c1) = (m', c')"
  shows "match_inv c (xs @ [(i, r)]) m' c'"
proof (cases "rep_round r = cc_round c")
  case False
  then have "matching_ids (cc_round c) k (xs @ [(i, r)]) = matching_ids (cc_round c) k xs" for k
    by (simp add: matching_ids_snoc)
  moreover have "m' = m" "c' = c1"
    using st False inv by (simp_all add: match_step_skip match_inv_def)
  ultimately show ?thesis using inv by (simp add: match_inv_def del: split_paired_All)
next
  case True
  let ?k = "reply_key r"
  let ?S = "insert i (matching_ids (cc_round c) ?k xs)"
  have ids: "matching_ids (cc_round c) k (xs @ [(i, r)]) = (if k = ?k then ?S else matching_ids (cc_round c) k xs)" for k
    using True by (simp add: matching_ids_snoc)
  have same: "cc_replies c1 = cc_replies c" "cc_signatures c1 = cc_signatures c" "cc_round c1 = cc_round c"
    "cc_quorumSize c1 = cc_quorumSize c" "cc_f c1 = cc_f c" and ok: "cc_ok c1"
    and m: "m = (\<lambda>k. matching_ids (cc_round c) k xs)"
    using inv by (simp_all add: match_inv_def)
  have cr: "\<forall>ct. cc_cert c1 = Some ct \<longrightarrow> cert_round ct = cc_round c1"
    using ok by (simp add: cc_ok_def)
  have step: "m' = m(?k := ?S)"
    "c' = c1\<lparr>cc_maxMatchSize := max (cc_maxMatchSize c1) (card ?S),
       cc_cert := (if unat (cc_quorumSize c) \<le> card ?S \<and> cc_cert c1 = None
         then Some (make_cert (cc_replies c) (cc_signatures c) r ?S) else cc_cert c1)\<rparr>"
    using st match_step_hit [of r c1 i m] True cr by (simp_all add: same m)
  have stored: "cc_stored c1" using ok by (simp add: cc_ok_def)
  have "cert_sound (cc_quorumSize c) (make_cert (cc_replies c) (cc_signatures c) r ?S)"
    if "unat (cc_quorumSize c) \<le> card ?S"
    using make_cert_sound [OF stored, of ?S r "xs @ [(i, r)]"] that sub ids [of ?k] True by (simp add: same)
  then have "cc_ok c'"
    using ok True by (auto simp: step cc_ok_def cc_stored_def same make_cert_def)
  moreover have "card (matching_ids (cc_round c) ?k xs) \<le> card ?S" by (rule card_mono) auto
  then have "\<forall>k. card (matching_ids (cc_round c) k (xs @ [(i, r)])) \<le> cc_maxMatchSize c'"
    using inv by (simp add: match_inv_def ids step le_max_iff_disj del: split_paired_All)
  moreover have "m' = (\<lambda>k. matching_ids (cc_round c) k (xs @ [(i, r)]))"
    by (rule ext) (simp add: ids step m)
  moreover have "\<forall>k. matching_ids (cc_round c) k (xs @ [(i, r)]) \<noteq> {} \<longrightarrow>
      unat (cc_quorumSize c) \<le> card (matching_ids (cc_round c) k (xs @ [(i, r)])) \<longrightarrow> cc_cert c' \<noteq> None"
    using inv by (simp add: match_inv_def ids step del: split_paired_All not_None_eq)
  moreover have "cc_cert c \<noteq> None \<longrightarrow> cc_cert c' = cc_cert c"
    using inv by (auto simp: match_inv_def step)
  moreover have "cc_maxMatchSize c \<le> cc_maxMatchSize c'"
    using inv by (simp add: match_inv_def step le_max_iff_disj)
  ultimately show ?thesis
    by (simp only: match_inv_def) (simp add: step same)
qed

lemma match_loop:
  assumes "cc_ok c" and "set xs \<subseteq> set (cc_replies c)" and "fold cc_match_step xs (\<lambda>_. {}, c) = (m, c')"
  shows "match_inv c xs m c'"
  using assms(2,3)
proof (induction xs arbitrary: m c' rule: rev_induct)
  case Nil
  then show ?case using assms(1) by (auto simp: match_inv_def matching_ids_def)
next
  case (snoc x xs)
  obtain m1 c1 where f: "fold cc_match_step xs (\<lambda>_. {}, c) = (m1, c1)" by fastforce
  obtain i r where x: "x = (i, r)" by (cases x)
  have "match_inv c xs m1 c1" using snoc.IH [OF _ f] snoc.prems(1) by simp
  then show ?case
    unfolding x by (rule match_step_inv) (use snoc.prems f in \<open>simp_all add: x\<close>)
qed

section \<open>One insertion\<close>

lemma cc_insert_parts:
  assumes "cc_insertReply r sig c = (n, c')" and "cc_ok c"
  obtains c2 m where "c2 = snd (fold cc_round_step (cc_replies (cc_store r sig c)) (\<lambda>_. 0, cc_store r sig c))"
    "match_inv c2 (cc_replies c2) m c'" "cc_ok c2" "n = cc_maxMatchSize c'"
    "cc_replies c2 = cc_replies (cc_store r sig c)" "cc_quorumSize c2 = cc_quorumSize c"
    "cc_cert c2 = None \<or> cc_cert c2 = cc_cert c"
proof -
  let ?c1 = "cc_store r sig c"
  define c2 where "c2 = snd (fold cc_round_step (cc_replies ?c1) (\<lambda>_. 0, ?c1))"
  obtain m c3 where f: "fold cc_match_step (cc_replies c2) (\<lambda>_. {}, c2) = (m, c3)" by fastforce
  have c': "c' = c3" "n = cc_maxMatchSize c3"
    using assms(1) f by (auto simp: cc_insertReply_def Let_def c2_def)
  note keep = round_loop_keeps [where c = ?c1 and xs = "cc_replies ?c1" and n = "\<lambda>_. 0", folded c2_def]
  have s1: "cc_stored ?c1" "cc_cert ?c1 = cc_cert c" "cc_round ?c1 = cc_round c" "cc_quorumSize ?c1 = cc_quorumSize c"
    using assms(2) cc_stored_store by (simp_all add: cc_ok_def cc_store_def)
  have ok2: "cc_ok c2"
    using keep s1 assms(2) by (auto simp: cc_ok_def cc_stored_def)
  have inv: "match_inv c2 (cc_replies c2) m c3" by (rule match_loop [OF ok2 _ f]) simp
  show thesis
    by (rule that [OF c2_def]) (use inv ok2 c' keep s1 in auto)
qed

lemma cc_ok_insert [inv_intros]:
  assumes "cc_ok c"
  shows "cc_ok (snd (cc_insertReply r sig c)) \<and> cc_quorumSize (snd (cc_insertReply r sig c)) = cc_quorumSize c"
proof -
  obtain n c' where i: "cc_insertReply r sig c = (n, c')" by fastforce
  show ?thesis
    by (rule cc_insert_parts [OF i assms]) (simp add: i match_inv_def)
qed

lemma cc_ok_inserts:
  "cc_ok c \<Longrightarrow> cc_ok (cc_inserts xs c) \<and> cc_quorumSize (cc_inserts xs c) = cc_quorumSize c"
proof (induction xs c rule: cc_inserts.induct)
  case (2 r sig xs c)
  then show ?case using cc_ok_insert [OF 2(2), of r sig] by simp
qed simp

text \<open>The round loop advances only to a round that \<open>f + 1\<close> stored replies carry.\<close>

lemma round_step_count:
  "fst (cc_round_step x (n, c)) = n(sint (rep_round (snd x)) := n (sint (rep_round (snd x))) + 1)"
  by (simp add: cc_round_step_def Let_def)

lemma round_count:
  assumes "length xs < 2 ^ 32"
  shows "unat (fst (fold cc_round_step xs (\<lambda>_. 0, c)) (sint rd)) =
     length (filter (\<lambda>p. rep_round (snd p) = rd) xs)"
  using assms
proof (induction xs rule: rev_induct)
  case (snoc x xs)
  obtain n c1 where f: "fold cc_round_step xs (\<lambda>_. 0, c) = (n, c1)" by fastforce
  have IH: "unat (n (sint rd)) = length (filter (\<lambda>p. rep_round (snd p) = rd) xs)"
    using snoc by (simp add: f)
  have "unat (n (sint rd)) \<le> length xs" unfolding IH by (rule length_filter_le)
  then have "unat (n (sint rd)) + 1 < 2 ^ 32" using snoc.prems by simp
  note nxt = unat_Suc_no_wrap(1) [OF this]
  have eq: "sint (rep_round (snd x)) = sint rd \<longleftrightarrow> rep_round (snd x) = rd"
    using word_eq_iff_signed by blast
  have "fst (fold cc_round_step (xs @ [x]) (\<lambda>_. 0, c)) =
      n(sint (rep_round (snd x)) := n (sint (rep_round (snd x))) + 1)"
    using round_step_count [of x n c1] by (simp add: f)
  then show ?case
    using IH nxt eq by (cases "rep_round (snd x) = rd") simp_all
qed simp

lemma round_loop_quorum:
  assumes "length xs < 2 ^ 32" and "unat (cc_f c) + 1 < 2 ^ 32"
    and "cc_round (snd (fold cc_round_step xs (\<lambda>_. 0, c))) \<noteq> cc_round c"
  shows "unat (cc_f c) + 1 \<le>
    length (filter (\<lambda>p. rep_round (snd p) = cc_round (snd (fold cc_round_step xs (\<lambda>_. 0, c)))) xs)"
  using assms
proof (induction xs rule: rev_induct)
  case (snoc x xs)
  obtain n c1 where f: "fold cc_round_step xs (\<lambda>_. 0, c) = (n, c1)" by fastforce
  obtain n' c' where st: "cc_round_step x (n, c1) = (n', c')" by fastforce
  have keep: "cc_f c1 = cc_f c" using round_loop_keeps [where c = c and xs = xs and n = "\<lambda>_. 0"] by (simp add: f)
  have cnt: "unat (n' (sint rd)) = length (filter (\<lambda>p. rep_round (snd p) = rd) (xs @ [x]))" for rd
    using round_count [OF snoc.prems(1), of c rd] by (simp add: f st)
  have f1: "unat (cc_f c + 1) = unat (cc_f c) + 1"
    using unat_Suc_no_wrap(1) [OF snoc.prems(2)] by simp
  show ?case
  proof (cases "cc_round c' = cc_round c1")
    case True
    then have "unat (cc_f c) + 1 \<le> length (filter (\<lambda>p. rep_round (snd p) = cc_round c') xs)"
      using snoc by (simp add: f st)
    then show ?thesis by (simp add: f st)
  next
    case False
    then have "cc_round c' = rep_round (snd x)" "cc_f c + 1 \<le> n' (sint (rep_round (snd x)))"
      using st keep by (auto simp: cc_round_step_def Let_def split: if_splits)
    then show ?thesis
      using cnt [of "cc_round c'"] f1 by (simp add: f st word_le_nat_alt)
  qed
qed simp

section \<open>Properties\<close>

lemma cc_inserts_append: "cc_inserts (xs @ ys) c = cc_inserts ys (cc_inserts xs c)"
  by (induction xs c rule: cc_inserts.induct) simp_all

lemmas cc_compute = cc_init_def cc_insertReply_def cc_store_def cc_round_step_def cc_match_step_def
  make_cert_def demo_config_def demo_reply_def reply_key_def Let_def

lemma demo_three_replies:
  "cc_inserts [(demo_reply 0 0, [0]), (demo_reply 1 0, [1]), (demo_reply 2 0, [2])] (cc_init demo_config) =
     \<lparr>cc_f = 1, cc_quorumSize = 3, cc_maxMatchSize = 3, cc_round = 0,
      cc_replies = [(0, demo_reply 0 0), (1, demo_reply 1 0), (2, demo_reply 2 0)],
      cc_signatures = [(0, [0]), (1, [1]), (2, [2])],
      cc_cert = Some \<lparr>cert_seq = 5, cert_round = 0, cert_replies = [demo_reply 0 0, demo_reply 1 0, demo_reply 2 0],
         cert_signatures = [[0], [1], [2]]\<rparr>\<rparr>"
  by (simp add: cc_compute sm_at_def)

lemma demo_advance:
  "cc_inserts [(demo_reply 0 1, [0]), (demo_reply 1 1, [1])]
     (cc_inserts [(demo_reply 0 0, [0]), (demo_reply 1 0, [1]), (demo_reply 2 0, [2])] (cc_init demo_config)) =
     \<lparr>cc_f = 1, cc_quorumSize = 3, cc_maxMatchSize = 3, cc_round = 1,
      cc_replies = [(0, demo_reply 0 1), (1, demo_reply 1 1), (2, demo_reply 2 0)],
      cc_signatures = [(0, [0]), (1, [1]), (2, [2])], cc_cert = None\<rparr>"
  unfolding demo_three_replies by (simp add: cc_compute sm_at_def)


text \<open>C9: whatever replies are inserted, in whatever order and number, a certificate the collector
  holds is sound: it has a reply from each of a quorum of different replicas, all of them for
  the same request with the same result, digest, sequence number and round, and as many
  signatures; its round is the collector's.\<close>

theorem cc_certificate_sound:
  assumes "cc_getCert (cc_inserts xs (cc_init m)) = Inr ct"
  shows "cert_sound (cm_quorumSize m) ct \<and> cert_round ct = cc_round (cc_inserts xs (cc_init m))"
proof -
  have "cc_quorumSize (cc_init m) = cm_quorumSize m" by (simp add: cc_init_def)
  then show ?thesis
    using cc_ok_inserts [OF cc_ok_init, of xs m] assms
    by (auto simp: cc_getCert_def cc_ok_def split: option.splits)
qed

theorem cc_certificate_sound_witness:
  "\<exists>ct. cc_getCert (cc_inserts [(demo_reply 0 0, [0]), (demo_reply 1 0, [1]), (demo_reply 2 0, [2])]
       (cc_init demo_config)) = Inr ct \<and> cert_sound 3 ct"
proof -
  let ?xs = "[(demo_reply 0 0, [0]), (demo_reply 1 0, [1]), (demo_reply 2 0, [2])] :: (reply \<times> bytes) list"
  let ?ct = "\<lparr>cert_seq = 5, cert_round = 0, cert_replies = [demo_reply 0 0, demo_reply 1 0, demo_reply 2 0],
         cert_signatures = [[0], [1], [2]]\<rparr>"
  have ct: "cc_getCert (cc_inserts ?xs (cc_init demo_config)) = Inr ?ct"
    unfolding demo_three_replies by (simp only: cc_getCert_def cert_collector.select_convs option.case)
  have q: "cm_quorumSize demo_config = 3" by (simp add: demo_config_def)
  show ?thesis
    by (rule exI, rule conjI [OF ct cc_certificate_sound [OF ct, THEN conjunct1, unfolded q]])
qed

text \<open>C10: the collector misses no certificate: when, after an insertion, the stored replies of its
  round contain a quorum that match, it has a certificate.\<close>

theorem cc_certificate_complete:
  assumes "c = cc_inserts xs (cc_init m)" and "cc_insertReply r sig c = (n, c')"
    and "matching_ids (cc_round c') k (cc_replies c') \<noteq> {}"
    and "unat (cm_quorumSize m) \<le> card (matching_ids (cc_round c') k (cc_replies c'))"
  shows "cc_hasCert c'"
proof -
  have ok: "cc_ok c" "cc_quorumSize c = cm_quorumSize m"
    using cc_ok_inserts [OF cc_ok_init, of xs m] by (simp_all add: assms(1) cc_init_def)
  obtain c2 mm where inv: "match_inv c2 (cc_replies c2) mm c'" and q: "cc_quorumSize c2 = cc_quorumSize c"
    by (rule cc_insert_parts [OF assms(2) ok(1)])
  show ?thesis
    using match_inv_quorum [OF inv, of k] match_inv_same [OF inv] assms(3,4) ok(2) q by (simp add: cc_hasCert_def)
qed

theorem cc_certificate_complete_witness:
  "cc_hasCert (snd (cc_insertReply (demo_reply 2 0) [2]
     (cc_inserts [(demo_reply 0 0, [0]), (demo_reply 1 0, [1])] (cc_init demo_config))))"
proof -
  let ?xs = "[(demo_reply 0 0, [0]), (demo_reply 1 0, [1])] :: (reply \<times> bytes) list"
  let ?k = "(5, 0, 7, 1, [2], [1]) :: reply_key"
  obtain n c' where i: "cc_insertReply (demo_reply 2 0) [2] (cc_inserts ?xs (cc_init demo_config)) = (n, c')"
    by fastforce
  have "c' = cc_inserts [(demo_reply 0 0, [0]), (demo_reply 1 0, [1]), (demo_reply 2 0, [2])] (cc_init demo_config)"
    using arg_cong [OF i, of snd] by (simp only: cc_inserts.simps snd_conv)
  then have c': "cc_round c' = 0"
    "cc_replies c' = [(0, demo_reply 0 0), (1, demo_reply 1 0), (2, demo_reply 2 0)]"
    unfolding demo_three_replies by simp_all
  have ids: "matching_ids (cc_round c') ?k (cc_replies c') = {0, 1, 2}"
    unfolding c' by (simp add: matching_ids_rec demo_reply_def reply_key_def)
  have ne: "matching_ids (cc_round c') ?k (cc_replies c') \<noteq> {}"
    unfolding ids by (rule insert_not_empty)
  have q: "unat (cm_quorumSize demo_config) \<le> card (matching_ids (cc_round c') ?k (cc_replies c'))"
    unfolding ids by (simp add: demo_config_def)
  have "cc_hasCert c'" by (rule cc_certificate_complete [OF refl i ne q])
  then show ?thesis unfolding i by (simp only: snd_conv)
qed

text \<open>An insertion moves the collector to another round only when \<open>f + 1\<close> replicas' latest
  replies are in that round, and then the certificate of the old round is dropped.\<close>

theorem cc_round_needs_correct_replica:
  assumes "cc_insertReply r sig c = (n, c')" and "cc_ok c" and "cc_round c' \<noteq> cc_round c"
    and "unat (cc_f c) + 1 < 2 ^ 32" and "length (cc_replies c') < 2 ^ 32"
  shows "unat (cc_f c) + 1 \<le> card {i. \<exists>q. map_of (cc_replies c') i = Some q \<and> rep_round q = cc_round c'} \<and>
    (\<forall>ct. cc_cert c' = Some ct \<longrightarrow> cert_round ct = cc_round c')"
proof -
  obtain c2 mm where c2: "c2 = snd (fold cc_round_step (cc_replies (cc_store r sig c)) (\<lambda>_. 0, cc_store r sig c))"
    and inv: "match_inv c2 (cc_replies c2) mm c'"
    and rep: "cc_replies c2 = cc_replies (cc_store r sig c)"
    by (rule cc_insert_parts [OF assms(1,2)])
  have eq: "cc_round c' = cc_round c2" "cc_replies c' = cc_replies (cc_store r sig c)" and ok: "cc_ok c'"
    using inv rep by (simp_all add: match_inv_def)
  have "unat (cc_f c) + 1 \<le> length (filter (\<lambda>p. rep_round (snd p) = cc_round c') (cc_replies c'))"
    using round_loop_quorum [of "cc_replies (cc_store r sig c)" "cc_store r sig c"] assms(3-5) eq c2
    by (simp add: cc_store_def)
  also have "\<dots> = card {i. \<exists>q. map_of (cc_replies c') i = Some q \<and> rep_round q = cc_round c'}"
    using smap.count_entries [of "cc_replies c'" "\<lambda>i q. rep_round q = cc_round c'"] ok
    by (simp add: cc_ok_def cc_stored_def)
  finally show ?thesis using ok by (simp add: cc_ok_def)
qed

theorem cc_round_needs_correct_replica_witness:
  "2 \<le> card {i. \<exists>q. map_of (cc_replies (cc_inserts [(demo_reply 0 1, [0]), (demo_reply 1 1, [1])]
      (cc_inserts [(demo_reply 0 0, [0]), (demo_reply 1 0, [1]), (demo_reply 2 0, [2])] (cc_init demo_config)))) i
        = Some q \<and> rep_round q = 1}"
proof -
  let ?c = "cc_inserts [(demo_reply 0 1, [0])] (cc_inserts [(demo_reply 0 0, [0]), (demo_reply 1 0, [1]),
      (demo_reply 2 0, [2])] (cc_init demo_config))"
  obtain n c' where i: "cc_insertReply (demo_reply 1 1) [1] ?c = (n, c')" by fastforce
  have c': "c' = cc_inserts [(demo_reply 0 1, [0]), (demo_reply 1 1, [1])] (cc_inserts [(demo_reply 0 0, [0]),
      (demo_reply 1 0, [1]), (demo_reply 2 0, [2])] (cc_init demo_config))"
    using i by simp
  have ok: "cc_ok ?c" using cc_ok_inserts cc_ok_init by blast
  have c: "cc_round ?c = 0" "cc_f ?c = 1"
    unfolding demo_three_replies by (simp_all add: cc_compute word_le_nat_alt)
  have "cc_round c' = 1" "length (cc_replies c') < 2 ^ 32"
    unfolding c' demo_advance by simp_all
  then show ?thesis
    using cc_round_needs_correct_replica [OF i ok] c unfolding c' by simp
qed

text \<open>The size of the largest group of matching replies is not reset when the round advances:
  there is a history after which it exceeds the number of replies received in the current
  round, although there is no certificate.\<close>

theorem cc_stale_match_size:
  "\<exists>xs. \<not> cc_hasCert (cc_inserts xs (cc_init demo_config)) \<and>
     unat (cc_numReceived (cc_inserts xs (cc_init demo_config))) < cc_maxMatchSize (cc_inserts xs (cc_init demo_config))"
proof -
  let ?xs = "[(demo_reply 0 0, [0]), (demo_reply 1 0, [1]), (demo_reply 2 0, [2])] @
    [(demo_reply 0 1, [0]), (demo_reply 1 1, [1])]"
  show ?thesis
    by (intro exI [of _ ?xs], unfold cc_inserts_append demo_advance)
      (simp add: cc_hasCert_def cc_numReceived_def demo_reply_def)
qed

end
