(* ===== verification/Verify.thy ===== *)
theory Verify
  imports Wire CertCollector
begin

text \<open>
  What the replica's verification threads accept (\<open>processes/replica/replica.cc\<close>): the checks of
  certificates, proofs and repair messages, and \<open>verifyMessagesThd\<close>, the verdict on one message.
  The loops have no effect but their verdict, so a loop that returns \<open>false\<close> at the first
  failing element is the conjunction over the elements.
\<close>

section \<open>Certificates and proofs\<close>

text \<open>The signatures of a list of messages, index by index; the lists have the same length.\<close>

definition all_signed ::
  "'k wire_params \<Rightarrow> ('m \<Rightarrow> proto_msg) \<Rightarrow> ('m \<Rightarrow> u32) \<Rightarrow> 'm list \<Rightarrow> bytes list \<Rightarrow> bool" where
  "all_signed w mk sender msgs sigs =
     (\<forall>(x, sig) \<in> set (zip msgs sigs).
        sig_verify (wp_sig w) (wp_ser w (mk x)) sig (REPLICA, sender x))"

text \<open>\<open>matchingReplies\<close>: the keys of the replies, and the replicas of one key.\<close>

definition reply_keys :: "reply list \<Rightarrow> reply_key set" where
  "reply_keys rs = reply_key ` set rs"

definition key_replicas :: "reply list \<Rightarrow> reply_key \<Rightarrow> u32 set" where
  "key_replicas rs k = rep_replica_id ` {r \<in> set rs. reply_key r = k}"

definition verifyCert :: "'k wire_params \<Rightarrow> config_manager \<Rightarrow> cert \<Rightarrow> bool res" where
  "verifyCert w m c =
     (let rs = cert_replies c
      in if length rs < unat (min (cm_superQuorumSize m) (cm_quorumSize m)) then Inr False
         else if length rs \<noteq> length (cert_signatures c) then Inr False
         else if \<not> all_signed w M_Reply rep_replica_id rs (cert_signatures c) then Inr False
         else if 1 < card (reply_keys rs) then Inr False
         else case rs of [] \<Rightarrow> Inl Undefined
              | r # _ \<Rightarrow> Inr (\<not> card (key_replicas rs (reply_key r)) < length rs))"

definition verifyRepairReplyProof :: "'k wire_params \<Rightarrow> config_manager \<Rightarrow> repair_reply_proof \<Rightarrow> bool" where
  "verifyRepairReplyProof w m p =
     (let rs = rrp_replies p
      in if length rs < unat (cfg_f (cm_config m) + 1) then False
         else if length rs \<noteq> length (rrp_signatures p) then False
         else if \<not> (\<forall>r \<in> set rs. rep_round r = rrp_round p) then False
         else if \<not> all_signed w M_Reply rep_replica_id rs (rrp_signatures p) then False
         else if card (reply_keys rs) = 1 then False
         else \<not> (\<Sum>k \<in> reply_keys rs. card (key_replicas rs k)) < length rs)"

text \<open>The loop over the timeouts, with the replicas seen so far.\<close>

fun timeouts_ok :: "'k wire_params \<Rightarrow> u32 \<Rightarrow> u32 set \<Rightarrow> (repair_timeout \<times> bytes) list \<Rightarrow> bool" where
  "timeouts_ok w rd ids [] = True"
| "timeouts_ok w rd ids ((t, sig) # ts) =
     (if rt_replica_id t \<in> ids then False
      else if rd \<noteq> rt_round t then False
      else if \<not> sig_verify (wp_sig w) (wp_ser w (M_RepairTimeout t)) sig (REPLICA, rt_replica_id t) then False
      else timeouts_ok w rd (insert (rt_replica_id t) ids) ts)"

definition verifyRepairTimeoutProof :: "'k wire_params \<Rightarrow> config_manager \<Rightarrow> repair_timeout_proof \<Rightarrow> bool" where
  "verifyRepairTimeoutProof w m p =
     (if length (rtp_timeouts p) < unat (cfg_f (cm_config m) + 1) then False
      else if length (rtp_timeouts p) \<noteq> length (rtp_signatures p) then False
      else timeouts_ok w (rtp_round p) {} (zip (rtp_timeouts p) (rtp_signatures p)))"

text \<open>\<open>verifyCheckpoint\<close> returns \<open>true\<close> in its first statement; what follows is never reached.\<close>

definition verifyCheckpoint :: "log_checkpoint_pb \<Rightarrow> bool" where
  "verifyCheckpoint cp = True"

definition verifyRepairStart :: "'k wire_params \<Rightarrow> config_manager \<Rightarrow> repair_start \<Rightarrow> bool res" where
  "verifyRepairStart w m msg =
     bindE (case rl_cert (rs_log_of msg) of None \<Rightarrow> Inr True | Some c \<Rightarrow> verifyCert w m c) (\<lambda>certOk.
     if \<not> certOk then
       (if cfg_clientNormalPathEnabled (cm_config m) then Inr False else Inl AssertFailed)
     else if \<not> verifyCheckpoint (rl_checkpoint (rs_log_of msg)) then Inr False
     else case rs_prepared_history msg of None \<Rightarrow> Inr True
       | Some h \<Rightarrow>
           if length (ph_prepares h) < getQuorumSize m then Inr False
           else if length (ph_prepares h) \<noteq> length (ph_prepare_sigs h) then Inr False
           else Inr (all_signed w M_Prepare prep_replica_id (ph_prepares h) (ph_prepare_sigs h)))"

text \<open>\<open>verifyRepairProposal\<close>: the signature with the index of the message, which may not exist.\<close>

fun start_msgs_ok ::
  "'k wire_params \<Rightarrow> config_manager \<Rightarrow> repair_start list \<Rightarrow> bytes list \<Rightarrow> bool res" where
  "start_msgs_ok w m [] sigs = Inr True"
| "start_msgs_ok w m (s # ss) [] = Inl Undefined"
| "start_msgs_ok w m (s # ss) (sig # sigs) =
     (if \<not> sig_verify (wp_sig w) (wp_ser w (M_RepairStart s)) sig (REPLICA, rs_replica_id s) then Inr False
      else bindE (verifyRepairStart w m s) (\<lambda>ok. if \<not> ok then Inr False else start_msgs_ok w m ss sigs))"

definition verifyRepairProposal :: "'k wire_params \<Rightarrow> config_manager \<Rightarrow> repair_proposal \<Rightarrow> bool res" where
  "verifyRepairProposal w m p = start_msgs_ok w m (rpr_start_msgs p) (rpr_signatures p)"

definition getProposalDigest :: "(bytes \<Rightarrow> bytes) \<Rightarrow> repair_proposal \<Rightarrow> bytes" where
  "getProposalDigest sha p = sha (concat (rpr_signatures p))"

section \<open>The verdict on a message\<close>

text \<open>What \<open>verifyMessagesThd\<close> does with one message: hand it to the process thread, drop it, or
  return, which ends the thread.\<close>

datatype verdict = Enqueue | DropMsg | ExitThread

definition verdict_of :: "bool \<Rightarrow> verdict" where
  "verdict_of b = (if b then Enqueue else DropMsg)"

definition signed_by :: "'k wire_params \<Rightarrow> frame \<Rightarrow> node_type \<Rightarrow> u32 \<Rightarrow> bool" where
  "signed_by w fr nt i = sig_verify_frame (wp_sig w) fr (nt, i)"

text \<open>Messages of the normal and checkpoint paths.\<close>

definition verify_checkpoint_msg ::
  "'k wire_params \<Rightarrow> config_manager \<Rightarrow> message_type \<Rightarrow> frame \<Rightarrow> verdict res" where
  "verify_checkpoint_msg w m t fr =
     (case (t, wp_parse w t (fr_body fr)) of
        (CERT, Some (M_Cert c)) \<Rightarrow> bindE (verifyCert w m c) (\<lambda>ok. Inr (verdict_of ok))
      | (REPLY, Some (M_Reply r)) \<Rightarrow> Inr (verdict_of (signed_by w fr REPLICA (rep_replica_id r)))
      | (COMMIT, Some (M_Commit c)) \<Rightarrow> Inr (verdict_of (signed_by w fr REPLICA (com_replica_id c)))
      | (SNAPSHOT_REQUEST, Some (M_SnapshotRequest r)) \<Rightarrow>
          Inr (verdict_of (signed_by w fr REPLICA (srq_replica_id r)))
      | (SNAPSHOT_REPLY, Some (M_SnapshotReply r)) \<Rightarrow>
          Inr (verdict_of (signed_by w fr REPLICA (srp_replica_id r) \<and> verifyCheckpoint (srp_checkpoint r) \<and>
            (case srp_snapshot_checkpoint r of None \<Rightarrow> True | Some cp \<Rightarrow> verifyCheckpoint cp)))
      | (MISSING_REQUEST_FETCH, Some (M_MissingFetch r)) \<Rightarrow>
          Inr (verdict_of (signed_by w fr REPLICA (mrf_replica_id r)))
      | (MISSING_REQUEST_REPLY, Some (M_MissingReply r)) \<Rightarrow>
          Inr (verdict_of (signed_by w fr REPLICA (mrr_replica_id r)))
      | _ \<Rightarrow> Inr DropMsg)"

text \<open>Messages of clients, and of the leader in the preserialisation experiment.\<close>

definition verify_client_msg ::
  "'k wire_params \<Rightarrow> message_type \<Rightarrow> frame \<Rightarrow> verdict res" where
  "verify_client_msg w t fr =
     (case (t, wp_parse w t (fr_body fr)) of
        (CLIENT_REQUEST, Some (M_ClientRequest r)) \<Rightarrow> Inr (verdict_of (signed_by w fr CLIENT (crq_client_id r)))
      | (PS_CLIENT, Some (M_ClientRequest r)) \<Rightarrow> Inr (verdict_of (signed_by w fr CLIENT (crq_client_id r)))
      | (PS_LEADER_FORWARD, Some (M_PSForward f)) \<Rightarrow>
          Inr (verdict_of (sig_verify (wp_sig w) (wp_ser w (M_ClientRequest (psf_request f)))
                 (psf_client_signature f) (CLIENT, crq_client_id (psf_request f))))
      | (PS_LEADER_ORDER, Some (M_PSOrder p)) \<Rightarrow> Inr Enqueue
      | _ \<Rightarrow> Inr DropMsg)"

text \<open>Messages of the repair. Three branches \<open>return\<close> when the message does not parse.\<close>

definition verify_repair_msg ::
  "'k wire_params \<Rightarrow> config_manager \<Rightarrow> message_type \<Rightarrow> frame \<Rightarrow> verdict res" where
  "verify_repair_msg w m t fr =
     (case (t, wp_parse w t (fr_body fr)) of
        (REPAIR_TIMEOUT, Some (M_RepairTimeout r)) \<Rightarrow> Inr (verdict_of (signed_by w fr REPLICA (rt_replica_id r)))
      | (REPAIR_TIMEOUT, _) \<Rightarrow> Inr ExitThread
      | (REPAIR_REPLY_PROOF, Some (M_RepairReplyProof p)) \<Rightarrow> Inr (verdict_of (verifyRepairReplyProof w m p))
      | (REPAIR_REPLY_PROOF, _) \<Rightarrow> Inr ExitThread
      | (REPAIR_TIMEOUT_PROOF, Some (M_RepairTimeoutProof p)) \<Rightarrow> Inr (verdict_of (verifyRepairTimeoutProof w m p))
      | (REPAIR_TIMEOUT_PROOF, _) \<Rightarrow> Inr ExitThread
      | (REPAIR_START, Some (M_RepairStart s)) \<Rightarrow> Inr (verdict_of (signed_by w fr REPLICA (rs_replica_id s)))
      | (PBFT_PREPREPARE, Some (M_PrePrepare p)) \<Rightarrow>
          if \<not> signed_by w fr REPLICA (pp_primary_id p) then Inr DropMsg
          else if getProposalDigest (wp_sha w) (pp_proposal p) \<noteq> pp_proposal_digest p then Inr DropMsg
          else bindE (verifyRepairProposal w m (pp_proposal p)) (\<lambda>ok. if ok then Inr Enqueue else Inl AssertFailed)
      | (PBFT_PREPARE, Some (M_Prepare p)) \<Rightarrow> Inr (verdict_of (signed_by w fr REPLICA (prep_replica_id p)))
      | (PBFT_COMMIT, Some (M_PBFTCommit c)) \<Rightarrow> Inr (verdict_of (signed_by w fr REPLICA (pc_replica_id c)))
      | (VIEW_UPDATE, Some (M_ViewUpdate v)) \<Rightarrow> Inr (verdict_of (signed_by w fr REPLICA (vu_replica_id v)))
      | _ \<Rightarrow> Inr DropMsg)"

definition client_types :: "message_type list" where
  "client_types = [CLIENT_REQUEST, PS_CLIENT, PS_LEADER_FORWARD, PS_LEADER_ORDER]"

definition repair_types :: "message_type list" where
  "repair_types =
     [REPAIR_TIMEOUT, REPAIR_REPLY_PROOF, REPAIR_TIMEOUT_PROOF, REPAIR_START, PBFT_PREPREPARE,
      PBFT_PREPARE, PBFT_COMMIT, VIEW_UPDATE]"

definition verify_message :: "'k wire_params \<Rightarrow> config_manager \<Rightarrow> frame \<Rightarrow> verdict res" where
  "verify_message w m fr =
     (case type_of_code (fr_type fr) of None \<Rightarrow> Inr DropMsg
      | Some t \<Rightarrow>
          if t \<in> set client_types then verify_client_msg w t fr
          else if t \<in> set repair_types then verify_repair_msg w m t fr
          else verify_checkpoint_msg w m t fr)"

section \<open>Lemmas\<close>

text \<open>The node a message names as its sender.\<close>

definition claimed_sender :: "proto_msg \<Rightarrow> node_id option" where
  "claimed_sender msg =
     (case msg of M_ClientRequest r \<Rightarrow> Some (CLIENT, crq_client_id r)
      | M_Reply r \<Rightarrow> Some (REPLICA, rep_replica_id r) | M_Commit c \<Rightarrow> Some (REPLICA, com_replica_id c)
      | M_RepairTimeout t \<Rightarrow> Some (REPLICA, rt_replica_id t) | M_RepairStart s \<Rightarrow> Some (REPLICA, rs_replica_id s)
      | M_PrePrepare p \<Rightarrow> Some (REPLICA, pp_primary_id p) | M_Prepare p \<Rightarrow> Some (REPLICA, prep_replica_id p)
      | M_PBFTCommit c \<Rightarrow> Some (REPLICA, pc_replica_id c) | M_ViewUpdate v \<Rightarrow> Some (REPLICA, vu_replica_id v)
      | M_SnapshotRequest r \<Rightarrow> Some (REPLICA, srq_replica_id r)
      | M_SnapshotReply r \<Rightarrow> Some (REPLICA, srp_replica_id r)
      | M_MissingFetch r \<Rightarrow> Some (REPLICA, mrf_replica_id r)
      | M_MissingReply r \<Rightarrow> Some (REPLICA, mrr_replica_id r)
      | M_CertReply r \<Rightarrow> Some (REPLICA, crp_replica_id r) | M_CommittedReply r \<Rightarrow> Some (REPLICA, cr_replica_id r)
      | M_RepairSummary r \<Rightarrow> Some (REPLICA, sum_replica_id r)
      | _ \<Rightarrow> None)"

text \<open>The types whose messages carry their evidence inside, or none.\<close>

definition unsigned_types :: "message_type list" where
  "unsigned_types = [CERT, REPAIR_REPLY_PROOF, REPAIR_TIMEOUT_PROOF, PS_LEADER_FORWARD, PS_LEADER_ORDER]"

lemma verdict_of_iff [simp]:
  "verdict_of b = Enqueue \<longleftrightarrow> b" "verdict_of b \<noteq> ExitThread" "verdict_of b = DropMsg \<longleftrightarrow> \<not> b"
  by (simp_all add: verdict_of_def)

lemma enqueue_checkpoint:
  assumes "verify_checkpoint_msg w m t fr = Inr Enqueue" and "t \<notin> set unsigned_types"
  shows "\<exists>msg i. wp_parse w t (fr_body fr) = Some msg \<and> claimed_sender msg = Some i \<and> sig_verify_frame (wp_sig w) fr i"
proof -
  obtain msg where msg: "wp_parse w t (fr_body fr) = Some msg"
    using assms by (cases "wp_parse w t (fr_body fr)"; cases t) (simp_all add: verify_checkpoint_msg_def)
  have "\<exists>i. claimed_sender msg = Some i \<and> sig_verify_frame (wp_sig w) fr i"
    using assms unfolding verify_checkpoint_msg_def msg
    by (cases t; cases msg) (simp_all add: unsigned_types_def claimed_sender_def signed_by_def split: if_splits)
  then show ?thesis using msg by blast
qed

lemma enqueue_client:
  assumes "verify_client_msg w t fr = Inr Enqueue" and "t \<notin> set unsigned_types"
  shows "\<exists>msg i. wp_parse w t (fr_body fr) = Some msg \<and> claimed_sender msg = Some i \<and> sig_verify_frame (wp_sig w) fr i"
proof -
  obtain msg where msg: "wp_parse w t (fr_body fr) = Some msg"
    using assms by (cases "wp_parse w t (fr_body fr)"; cases t) (simp_all add: verify_client_msg_def)
  have "\<exists>i. claimed_sender msg = Some i \<and> sig_verify_frame (wp_sig w) fr i"
    using assms unfolding verify_client_msg_def msg
    by (cases t; cases msg) (simp_all add: unsigned_types_def claimed_sender_def signed_by_def split: if_splits)
  then show ?thesis using msg by blast
qed

lemma enqueue_repair:
  assumes "verify_repair_msg w m t fr = Inr Enqueue" and "t \<notin> set unsigned_types"
  shows "\<exists>msg i. wp_parse w t (fr_body fr) = Some msg \<and> claimed_sender msg = Some i \<and> sig_verify_frame (wp_sig w) fr i"
proof -
  obtain msg where msg: "wp_parse w t (fr_body fr) = Some msg"
    using assms by (cases "wp_parse w t (fr_body fr)"; cases t) (simp_all add: verify_repair_msg_def)
  have "\<exists>i. claimed_sender msg = Some i \<and> sig_verify_frame (wp_sig w) fr i"
    using assms unfolding verify_repair_msg_def msg
    by (cases t; cases msg) (simp_all add: unsigned_types_def claimed_sender_def signed_by_def split: if_splits)
  then show ?thesis using msg by blast
qed

lemma exit_thread_cases:
  "verify_checkpoint_msg w m t fr \<noteq> Inr ExitThread"
  "verify_client_msg w t fr \<noteq> Inr ExitThread"
proof -
  show "verify_checkpoint_msg w m t fr \<noteq> Inr ExitThread"
    by (cases t; cases "wp_parse w t (fr_body fr)"; (cases "the (wp_parse w t (fr_body fr))")?)
      (simp_all add: verify_checkpoint_msg_def bindE_eq_Inr)
  show "verify_client_msg w t fr \<noteq> Inr ExitThread"
    by (cases t; cases "wp_parse w t (fr_body fr)"; (cases "the (wp_parse w t (fr_body fr))")?)
      (simp_all add: verify_client_msg_def)
qed

lemma exit_thread_repair:
  "verify_repair_msg w m t fr = Inr ExitThread \<longleftrightarrow>
     (t = REPAIR_TIMEOUT \<and> (\<forall>r. wp_parse w t (fr_body fr) \<noteq> Some (M_RepairTimeout r))) \<or>
     (t = REPAIR_REPLY_PROOF \<and> (\<forall>r. wp_parse w t (fr_body fr) \<noteq> Some (M_RepairReplyProof r))) \<or>
     (t = REPAIR_TIMEOUT_PROOF \<and> (\<forall>r. wp_parse w t (fr_body fr) \<noteq> Some (M_RepairTimeoutProof r)))"
proof (cases "wp_parse w t (fr_body fr)")
  case None
  then show ?thesis by (cases t) (simp_all add: verify_repair_msg_def)
next
  case (Some msg)
  show ?thesis unfolding verify_repair_msg_def Some
    by (cases t; cases msg) (simp_all add: bindE_eq_Inr)
qed

lemma key_replicas_finite [simp]: "finite (key_replicas rs k)"
  by (simp add: key_replicas_def)

lemma reply_keys_finite [simp]: "finite (reply_keys rs)"
  by (simp add: reply_keys_def)

lemma verifyCert_effect:
  assumes "verifyCert w m c = Inr True"
  shows "unat (min (cm_superQuorumSize m) (cm_quorumSize m)) \<le> length (cert_replies c) \<and>
    length (cert_signatures c) = length (cert_replies c) \<and> cert_replies c \<noteq> [] \<and>
    distinct (map rep_replica_id (cert_replies c)) \<and>
    (\<forall>r \<in> set (cert_replies c). \<forall>r' \<in> set (cert_replies c). reply_key r = reply_key r') \<and>
    all_signed w M_Reply rep_replica_id (cert_replies c) (cert_signatures c)"
proof -
  let ?rs = "cert_replies c"
  obtain r rest where rs: "?rs = r # rest"
    and one: "\<not> 1 < card (reply_keys ?rs)"
    and many: "\<not> card (key_replicas ?rs (reply_key r)) < length ?rs"
    and others: "\<not> length ?rs < unat (min (cm_superQuorumSize m) (cm_quorumSize m))"
      "length ?rs = length (cert_signatures c)" "all_signed w M_Reply rep_replica_id ?rs (cert_signatures c)"
    using assms by (auto simp: verifyCert_def Let_def split: if_splits list.splits)
  have same: "reply_key a = reply_key b" if ab: "a \<in> set ?rs" "b \<in> set ?rs" for a b
  proof (rule ccontr)
    assume "reply_key a \<noteq> reply_key b"
    then have "card {reply_key a, reply_key b} = 2" by simp
    moreover have "{reply_key a, reply_key b} \<subseteq> reply_keys ?rs" using ab by (auto simp: reply_keys_def)
    ultimately have "2 \<le> card (reply_keys ?rs)" by (metis card_mono reply_keys_finite)
    then show False using one by simp
  qed
  have "key_replicas ?rs (reply_key r) \<subseteq> set (map rep_replica_id ?rs)" by (auto simp: key_replicas_def)
  then have "card (key_replicas ?rs (reply_key r)) \<le> card (set (map rep_replica_id ?rs))"
    by (intro card_mono) auto
  then have "length (map rep_replica_id ?rs) \<le> card (set (map rep_replica_id ?rs))" using many by simp
  then have "distinct (map rep_replica_id ?rs)"
    using card_length [of "map rep_replica_id ?rs"] by (intro card_distinct) linarith
  moreover have "\<forall>a \<in> set ?rs. \<forall>b \<in> set ?rs. reply_key a = reply_key b" using same by blast
  moreover have "?rs \<noteq> []" using rs by simp
  ultimately show ?thesis using others by (metis not_le)
qed

lemma timeouts_ok_effect:
  assumes "timeouts_ok w rd ids ts"
  shows "distinct (map (rt_replica_id \<circ> fst) ts) \<and> ids \<inter> set (map (rt_replica_id \<circ> fst) ts) = {} \<and>
    (\<forall>(t, sig) \<in> set ts. rt_round t = rd \<and>
       sig_verify (wp_sig w) (wp_ser w (M_RepairTimeout t)) sig (REPLICA, rt_replica_id t))"
  using assms
proof (induction w rd ids ts rule: timeouts_ok.induct)
  case (2 w rd ids t sig ts)
  then show ?case by (auto split: if_splits)
qed simp

text \<open>Parameters for the witnesses: a signature is the sender's number, every type but the triggers
  parses to one reply or prepare.\<close>

definition demo_wire :: "unit wire_params" where
  "demo_wire =
     \<lparr>wp_sha = (\<lambda>b. b),
      wp_parse = (\<lambda>t b. if t = REPLY then Some (M_Reply (demo_reply 2 1)) else None),
      wp_ser = (\<lambda>x. []),
      wp_sig = \<lparr>sp_pubKeys = (\<lambda>n. Some ()), sp_verifier = (\<lambda>_ d sig. sig = [1]), sp_sign = (\<lambda>d. [1]), sp_maxSigLen = 1\<rparr>,
      wp_hmac = (\<lambda>k d. d), wp_hmacKeys = (\<lambda>n. None)\<rparr>"

definition demo_prepare :: "u32 \<Rightarrow> pbft_prepare" where
  "demo_prepare i = \<lparr>prep_round = 1, prep_replica_id = i, prep_pbft_view = 0, prep_proposal_digest = [], prep_log_digest = []\<rparr>"

lemmas demo_wire_simps = demo_wire_def sig_verify_frame_def sig_verify_def all_signed_def demo_reply_def demo_prepare_def

section \<open>Properties\<close>

text \<open>C19: a message is handed to the process thread only with a valid signature of the node it names as
  its sender; the exceptions are certificates, the two proofs, which carry signatures of their
  own, and the messages of the preserialisation experiment.\<close>

theorem verify_enqueue_authentic:
  assumes "verify_message w m fr = Inr Enqueue" and "type_of_code (fr_type fr) = Some t"
    and "t \<notin> set unsigned_types"
  shows "\<exists>msg i. wp_parse w t (fr_body fr) = Some msg \<and> claimed_sender msg = Some i \<and> sig_verify_frame (wp_sig w) fr i"
proof -
  consider "verify_client_msg w t fr = Inr Enqueue" | "verify_repair_msg w m t fr = Inr Enqueue"
    | "verify_checkpoint_msg w m t fr = Inr Enqueue"
    using assms(1,2) by (auto simp: verify_message_def simp del: not_None_eq split: if_splits)
  then show ?thesis
    by cases (use assms(3) enqueue_checkpoint enqueue_client enqueue_repair in blast)+
qed

theorem verify_enqueue_authentic_witness:
  "\<exists>msg i. wp_parse demo_wire REPLY [2] = Some msg \<and> claimed_sender msg = Some i \<and>
     sig_verify_frame (wp_sig demo_wire) \<lparr>fr_type = 6, fr_body = [2], fr_sig = [1]\<rparr> i"
  using verify_enqueue_authentic [of demo_wire demo_config "\<lparr>fr_type = 6, fr_body = [2], fr_sig = [1]\<rparr>" REPLY]
  by (simp add: verify_message_def type_of_code_def message_codes_def client_types_def repair_types_def
      verify_checkpoint_msg_def demo_wire_simps unsigned_types_def signed_by_def)

text \<open>C8: a certificate that passes has at least the smaller of the two quorums of replies, from different
  replicas, for one request with one result, digest, number and round, each signed.\<close>

theorem verifyCert_sound:
  assumes "verifyCert w m c = Inr True"
  shows "unat (min (cm_superQuorumSize m) (cm_quorumSize m)) \<le> length (cert_replies c) \<and>
    length (cert_signatures c) = length (cert_replies c) \<and> cert_replies c \<noteq> [] \<and>
    distinct (map rep_replica_id (cert_replies c)) \<and>
    (\<forall>r \<in> set (cert_replies c). \<forall>r' \<in> set (cert_replies c). reply_key r = reply_key r') \<and>
    all_signed w M_Reply rep_replica_id (cert_replies c) (cert_signatures c)"
  using assms by (rule verifyCert_effect)

theorem verifyCert_sound_witness:
  "distinct (map rep_replica_id [demo_reply 0 1, demo_reply 1 1, demo_reply 3 1])"
  using verifyCert_sound [of demo_wire demo_config "\<lparr>cert_seq = 5, cert_round = 1,
      cert_replies = [demo_reply 0 1, demo_reply 1 1, demo_reply 3 1], cert_signatures = [[1], [1], [1]]\<rparr>"]
  by (simp add: verifyCert_def demo_config_def demo_wire_simps reply_keys_def key_replicas_def reply_key_def
      Let_def min_def word_le_nat_alt image_iff conj_disj_distribL Collect_disj_eq Collect_conv_if2 card_insert_if)

text \<open>A timeout proof that passes shows that \<open>f + 1\<close> different replicas signed a timeout of the
  proof's round, so at least one correct replica did.\<close>

theorem verifyRepairTimeoutProof_sound:
  assumes "verifyRepairTimeoutProof w m p" and "getF m + 1 < 2 ^ 32"
  shows "getF m + 1 \<le> card (rt_replica_id ` set (rtp_timeouts p)) \<and>
    (\<forall>t \<in> set (rtp_timeouts p). rt_round t = rtp_round p \<and>
       (\<exists>sig. sig_verify (wp_sig w) (wp_ser w (M_RepairTimeout t)) sig (REPLICA, rt_replica_id t)))"
proof -
  let ?ts = "rtp_timeouts p" and ?z = "zip (rtp_timeouts p) (rtp_signatures p)"
  have len: "unat (cfg_f (cm_config m) + 1) \<le> length ?ts" "length ?ts = length (rtp_signatures p)"
    and ok: "timeouts_ok w (rtp_round p) {} ?z"
    using assms(1) by (auto simp: verifyRepairTimeoutProof_def split: if_splits)
  have f: "unat (cfg_f (cm_config m) + 1) = getF m + 1"
    using assms(2) unat_Suc_no_wrap [of "cfg_f (cm_config m)"] by (simp add: getF_def)
  have "map (rt_replica_id \<circ> fst) ?z = map rt_replica_id (map fst ?z)" by simp
  then have "map (rt_replica_id \<circ> fst) ?z = map rt_replica_id ?ts"
    using len(2) by (simp only: map_fst_zip)
  then have "distinct (map rt_replica_id ?ts)" using timeouts_ok_effect [OF ok] by simp
  then have "card (rt_replica_id ` set ?ts) = length ?ts"
    using distinct_card by (metis length_map list.set_map)
  moreover have "rt_round t = rtp_round p \<and>
      (\<exists>sig. sig_verify (wp_sig w) (wp_ser w (M_RepairTimeout t)) sig (REPLICA, rt_replica_id t))"
    if t: "t \<in> set ?ts" for t
  proof -
    obtain sig where "(t, sig) \<in> set ?z" using t len(2) by (metis in_set_impl_in_set_zip1)
    then show ?thesis using timeouts_ok_effect [OF ok] by blast
  qed
  ultimately show ?thesis using len(1) f by auto
qed

theorem verifyRepairTimeoutProof_sound_witness:
  "2 \<le> card (rt_replica_id ` set [\<lparr>rt_replica_id = 0, rt_round = 1, rt_view = 0, rt_seq = 3\<rparr>,
     \<lparr>rt_replica_id = 2, rt_round = 1, rt_view = 0, rt_seq = 4\<rparr>])"
  using verifyRepairTimeoutProof_sound [of demo_wire demo_config "\<lparr>rtp_replica_id = 0, rtp_round = 1, rtp_view = 0,
      rtp_timeouts = [\<lparr>rt_replica_id = 0, rt_round = 1, rt_view = 0, rt_seq = 3\<rparr>,
        \<lparr>rt_replica_id = 2, rt_round = 1, rt_view = 0, rt_seq = 4\<rparr>], rtp_signatures = [[1], [1]]\<rparr>"]
  by (simp add: verifyRepairTimeoutProof_def demo_wire_simps)

text \<open>One faulty replica can produce a conflict proof on its own: \<open>f + 1\<close> replies that it signed for
  one round and that differ from each other pass the check, because the sizes are added up per
  distinct reply.\<close>

theorem reply_proof_from_one_replica:
  assumes "length rs = unat (cfg_f (cm_config m) + 1)" and "2 \<le> length rs" and "distinct (map reply_key rs)"
    and "\<forall>r \<in> set rs. rep_replica_id r = i \<and> rep_round r = rd"
    and "length sigs = length rs" and "all_signed w M_Reply rep_replica_id rs sigs"
  shows "verifyRepairReplyProof w m \<lparr>rrp_replica_id = j, rrp_round = rd, rrp_view = v, rrp_replies = rs, rrp_signatures = sigs\<rparr>"
proof -
  have keys: "card (reply_keys rs) = length rs"
    using assms(3) by (simp add: reply_keys_def) (metis distinct_card length_map list.set_map)
  have one: "card (key_replicas rs k) = 1" if k: "k \<in> reply_keys rs" for k
  proof -
    have "key_replicas rs k = {i}"
      using k assms(4) by (auto simp: key_replicas_def reply_keys_def image_iff)
    then show ?thesis by simp
  qed
  then have "(\<Sum>k \<in> reply_keys rs. card (key_replicas rs k)) = length rs" using keys by simp
  then show ?thesis using assms keys by (simp add: verifyRepairReplyProof_def Let_def)
qed

theorem reply_proof_from_one_replica_witness:
  "verifyRepairReplyProof demo_wire demo_config \<lparr>rrp_replica_id = 0, rrp_round = 1, rrp_view = 0,
     rrp_replies = [demo_reply 2 1, (demo_reply 2 1)\<lparr>rep_digest := [9]\<rparr>], rrp_signatures = [[1], [1]]\<rparr>"
  by (rule reply_proof_from_one_replica [where i = 2]) (simp_all add: demo_wire_simps demo_config_def reply_key_def)

text \<open>The history of prepares in a repair start is not checked for different senders: as many copies of
  one signed prepare as the quorum has members pass.\<close>

theorem prepared_history_copies_pass:
  assumes "sig_verify (wp_sig w) (wp_ser w (M_Prepare p)) sig (REPLICA, prep_replica_id p)"
    and "rs_log s = None" and "rs_prepared_history s =
       Some \<lparr>ph_prepares = replicate (getQuorumSize m) p, ph_prepare_sigs = replicate (getQuorumSize m) sig\<rparr>"
  shows "verifyRepairStart w m s = Inr True"
  using assms
  by (simp add: verifyRepairStart_def rs_log_of_def empty_repair_log_def verifyCheckpoint_def all_signed_def
      set_zip)

theorem prepared_history_copies_pass_witness:
  "verifyRepairStart demo_wire demo_config \<lparr>rs_pbft_view = 1, rs_round = 1, rs_replica_id = 2, rs_log = None,
     rs_prepared_history = Some \<lparr>ph_prepares = [demo_prepare 2, demo_prepare 2, demo_prepare 2],
       ph_prepare_sigs = [[1], [1], [1]]\<rparr>\<rparr> = Inr True"
  by (rule prepared_history_copies_pass [of _ "demo_prepare 2" "[1]"]) (simp_all add: demo_wire_simps numeral_eq_Suc)

text \<open>Exactly the three kinds of trigger messages whose body does not parse end the verification thread
  that takes them from the queue; anyone who can reach the port can send one.\<close>

theorem verify_malformed_ends_thread:
  "verify_message w m fr = Inr ExitThread \<longleftrightarrow>
     (type_of_code (fr_type fr) = Some REPAIR_TIMEOUT \<and>
        (\<forall>r. wp_parse w REPAIR_TIMEOUT (fr_body fr) \<noteq> Some (M_RepairTimeout r))) \<or>
     (type_of_code (fr_type fr) = Some REPAIR_REPLY_PROOF \<and>
        (\<forall>r. wp_parse w REPAIR_REPLY_PROOF (fr_body fr) \<noteq> Some (M_RepairReplyProof r))) \<or>
     (type_of_code (fr_type fr) = Some REPAIR_TIMEOUT_PROOF \<and>
        (\<forall>r. wp_parse w REPAIR_TIMEOUT_PROOF (fr_body fr) \<noteq> Some (M_RepairTimeoutProof r)))"
  by (auto simp: verify_message_def exit_thread_cases exit_thread_repair client_types_def repair_types_def
      split: option.splits)

end
