(* ===== verification/Replica.thy ===== *)
theory Replica
  imports RepairUtils CheckpointCollector Verify
begin

text \<open>
  The replica (\<open>processes/replica/replica.h\<close> and \<open>.cc\<close>): its state and the handlers of the normal
  path, of checkpoints and of state transfer. A handler is a function from the state to the
  state or a fault; what it reads and never writes (configuration, identity, keys, the
  parameters of the experiment) and the time of the step are the environment. The messages it
  sends are appended to \<open>rp_out\<close> in order; signing them and handing them to the network is
  not modelled, and a snapshot is delivered to its callback when it is asked for. The fields
  \<open>repairTimeoutSent_\<close> and \<open>nextPreserializedSeq_\<close> are never used.
\<close>

section \<open>State\<close>

datatype dest = To_Client u32 | To_Replica u32 | To_Replicas | To_Others

record ('s, 'k) replica_env =
  re_log :: "'s log_env"
  re_cm :: config_manager
  re_wire :: "'k wire_params"
  re_id :: u32
  re_now :: u64
  re_crashed :: bool
  re_swapFreq :: u32
  re_checkpointDropFreq :: u32
  re_viewChangeFreq :: u32
  re_viewChangeNum :: u32
  re_commitLocalInViewChange :: bool

record 's replica =
  rp_round :: u32
  rp_log :: "'s log_state"
  rp_collectors :: collector_store
  rp_checkpointSnapshotRequested :: bool
  rp_checkpointTimeoutStart :: u64
  rp_checkpointTimeoutSeqs :: "(u32, u32 \<times> u32) smap"
  rp_repair :: bool
  rp_repairSnapshotRequested :: bool
  rp_repairTimeoutStart :: u64
  rp_repairViewStart :: u64
  rp_pendingRepair :: bool
  rp_curRoundStartSeq :: u64
  rp_repairQueuedReqs :: "(u64 \<times> u32, client_request) smap"
  rp_repairStart :: "repair_start option"
  rp_repairProposal :: "repair_proposal option"
  rp_proposalDigest :: bytes
  rp_repairStartMsgs :: "(u32, repair_start) smap"
  rp_repairHistorySigs :: "(u32, bytes) smap"
  rp_repairProposalLogSuffix :: "log_suffix option"
  rp_missingRequestFetchSent :: bool
  rp_pendingMissingRequests :: "request_id list"
  rp_pbftView :: u32
  rp_preparedRound :: u32
  rp_viewPrepared :: bool
  rp_numConsecutiveViewChanges :: u32
  rp_lastPreparedState :: prepared_state
  rp_replicaViews :: "(u32, u32 \<times> u32) smap"
  rp_repairPrepares :: "(u32, pbft_prepare) smap"
  rp_repairPrepareSigs :: "(u32, bytes) smap"
  rp_repairPBFTCommits :: "(u32, pbft_commit) smap"
  rp_repairCommitSigs :: "(u32, bytes) smap"
  rp_heldRequest :: "client_request option"
  rp_viewChangeRound :: u32
  rp_viewChangeCounter :: u32
  rp_holdPrepareOrCommit :: bool
  rp_psForwardBuffer :: "(u32, client_request) smap"
  rp_psOrderRequests :: "(request_id, client_request) smap"
  rp_psOrderSeqs :: "(u32, request_id) smap"
  rp_snapshotQueue :: "(u32 \<times> app_snapshot) list"
  rp_out :: "(dest \<times> message_type \<times> proto_msg) list"

definition empty_prepared_state :: prepared_state where
  "empty_prepared_state =
     \<lparr>ps_round = 0, ps_pbftView = 0, ps_proposal = empty_proposal, ps_proposalDigest = [],
      ps_prepares = [], ps_prepareSigs = []\<rparr>"

text \<open>The member initialisers and the constructor, for an application in its initial state.\<close>

definition replica_init :: "('s, 'k) replica_env \<Rightarrow> 's \<Rightarrow> 's replica" where
  "replica_init env app =
     \<lparr>rp_round = 1, rp_log = log_init app, rp_collectors = cst_new (re_id env),
      rp_checkpointSnapshotRequested = False, rp_checkpointTimeoutStart = 0, rp_checkpointTimeoutSeqs = [],
      rp_repair = False, rp_repairSnapshotRequested = False, rp_repairTimeoutStart = 0, rp_repairViewStart = 0,
      rp_pendingRepair = False, rp_curRoundStartSeq = 0, rp_repairQueuedReqs = [], rp_repairStart = None,
      rp_repairProposal = None, rp_proposalDigest = [], rp_repairStartMsgs = [], rp_repairHistorySigs = [],
      rp_repairProposalLogSuffix = None, rp_missingRequestFetchSent = False, rp_pendingMissingRequests = [],
      rp_pbftView = 0, rp_preparedRound = 0, rp_viewPrepared = True, rp_numConsecutiveViewChanges = 0,
      rp_lastPreparedState = empty_prepared_state, rp_replicaViews = [], rp_repairPrepares = [],
      rp_repairPrepareSigs = [], rp_repairPBFTCommits = [], rp_repairCommitSigs = [], rp_heldRequest = None,
      rp_viewChangeRound = re_viewChangeFreq env, rp_viewChangeCounter = 0, rp_holdPrepareOrCommit = False,
      rp_psForwardBuffer = [], rp_psOrderRequests = [], rp_psOrderSeqs = [], rp_snapshotQueue = [], rp_out = []\<rparr>"

section \<open>Helpers\<close>

abbreviation re_config :: "('s, 'k) replica_env \<Rightarrow> process_config" where
  "re_config env \<equiv> cm_config (re_cm env)"

abbreviation re_sha :: "('s, 'k) replica_env \<Rightarrow> bytes \<Rightarrow> bytes" where
  "re_sha env \<equiv> env_sha (re_log env)"

text \<open>\<open>clientAddrs_[i]\<close> and \<open>replicaAddrs_[i]\<close>: one address per configured client and replica.\<close>

definition client_addr :: "('s, 'k) replica_env \<Rightarrow> u32 \<Rightarrow> dest res" where
  "client_addr env i = (if unat i < cfg_clientIps_size (re_config env) then Inr (To_Client i) else Inl Undefined)"

definition replica_addr :: "('s, 'k) replica_env \<Rightarrow> u32 \<Rightarrow> dest res" where
  "replica_addr env i = (if unat i < cfg_replicaIps_size (re_config env) then Inr (To_Replica i) else Inl Undefined)"

text \<open>A crashed replica sends nothing.\<close>

definition sendMsgToDst ::
  "('s, 'k) replica_env \<Rightarrow> proto_msg \<Rightarrow> message_type \<Rightarrow> dest \<Rightarrow> 's replica \<Rightarrow> 's replica" where
  "sendMsgToDst env msg t dst s = (if re_crashed env then s else s\<lparr>rp_out := rp_out s @ [(dst, t, msg)]\<rparr>)"

definition broadcastToReplicas ::
  "('s, 'k) replica_env \<Rightarrow> proto_msg \<Rightarrow> message_type \<Rightarrow> 's replica \<Rightarrow> 's replica" where
  "broadcastToReplicas env msg t s = (if re_crashed env then s else s\<lparr>rp_out := rp_out s @ [(To_Replicas, t, msg)]\<rparr>)"

text \<open>\<open>a % n == 0\<close>, a fault for a zero interval.\<close>

definition divides :: "u32 \<Rightarrow> u32 \<Rightarrow> bool res" where
  "divides n a = (if n = 0 then Inl Undefined else Inr (a mod n = 0))"

definition quotient :: "u32 \<Rightarrow> u32 \<Rightarrow> u32 res" where
  "quotient a n = (if n = 0 then Inl Undefined else Inr (a div n))"

text \<open>\<open>log_->getEntry(seq).deadline = d\<close>\<close>

definition set_deadline :: "u32 \<Rightarrow> u64 \<Rightarrow> 's log_state \<Rightarrow> 's log_state res" where
  "set_deadline sq d l =
     bindE (getEntry sq l) (\<lambda>e.
     let i = unat (sq - le_seq (hd (lg_log l)))
     in Inr (l\<lparr>lg_log := (lg_log l)[i := e\<lparr>le_deadline := d\<rparr>]\<rparr>))"

definition empty_reply :: reply where
  "empty_reply =
     \<lparr>rep_client_id = 0, rep_client_seq = 0, rep_round = 0, rep_seq = 0, rep_replica_id = 0, rep_result = [],
      rep_digest = [], rep_queued = False\<rparr>"

definition empty_request :: client_request where
  "empty_request =
     \<lparr>crq_client_id = 0, crq_client_seq = 0, crq_send_time = 0, crq_deadline = 0, crq_is_write = False,
      crq_req_data = []\<rparr>"

section \<open>Client requests\<close>

definition startCheckpoint :: "('s, 'k) replica_env \<Rightarrow> bool \<Rightarrow> 's replica \<Rightarrow> 's replica res" where
  "startCheckpoint env createSnapshot s =
     (let sq = lg_nextSeq (rp_log s) - 1; rd = rp_round s;
          s1 = (if createSnapshot
                then let (snap, app') = app_takeSnapshot (env_app (re_log env)) (lg_app (rp_log s))
                     in s\<lparr>rp_log := (rp_log s)\<lparr>lg_app := app'\<rparr>, rp_snapshotQueue := rp_snapshotQueue s @ [(rd, snap)]\<rparr>
                else s);
          log = rp_log s1
      in bindE (if cst_hasCollector rd sq (rp_collectors s1) then Inr (True, rp_collectors s1)
                else cst_initCollector rd sq createSnapshot (rp_collectors s1)) (\<lambda>(ok, cs).
         if \<not> ok then Inr (s1\<lparr>rp_collectors := cs\<rparr>)
         else
           bindE (cst_at rd sq cs) (\<lambda>coll.
           bindE (getDigestAt sq log) (\<lambda>d.
           bindE (getEntry sq log) (\<lambda>entry.
           Inr (broadcastToReplicas env
             (M_Reply (empty_reply\<lparr>rep_client_id := le_client_id entry, rep_client_seq := le_client_seq entry,
                rep_replica_id := re_id env, rep_round := rd, rep_seq := le_seq entry, rep_digest := le_digest entry\<rparr>))
             REPLY (s1\<lparr>rp_collectors := cst_set rd sq (cpc_addOwnState d (lg_clientRecord log) coll) cs\<rparr>)))))))"

definition processClientRequest ::
  "('s, 'k) replica_env \<Rightarrow> client_request \<Rightarrow> bool \<Rightarrow> 's replica \<Rightarrow> 's replica res" where
  "processClientRequest env request queued s =
     (let c = crq_client_id request; q = crq_client_seq request
      in if cfg_clientIps_size (re_config env) < unat c then Inr s
         else if rec_contains (lc_clientRecord (lg_committed (rp_log s))) c q then
           bindE (client_addr env c) (\<lambda>dst.
           Inr (sendMsgToDst env
             (M_CommittedReply \<lparr>cr_replica_id = re_id env, cr_client_id = c, cr_client_seq = q, cr_seq = 0,
                cr_result = [], cr_is_repair = False\<rparr>) COMMITTED_REPLY dst s))
         else
           bindE (addEntry (re_log env) c q (crq_req_data request) [] True (rp_log s)) (\<lambda>((added, result), log1).
           if \<not> added then Inr (s\<lparr>rp_log := log1\<rparr>)
           else
             let sq = lg_nextSeq log1 - 1
             in bindE (set_deadline sq (crq_deadline request) log1) (\<lambda>log2.
                bindE (client_addr env c) (\<lambda>dst.
                let s1 = sendMsgToDst env
                      (M_Reply \<lparr>rep_client_id = c, rep_client_seq = q, rep_round = rp_round s, rep_seq = sq,
                         rep_replica_id = re_id env, rep_result = result, rep_digest = getDigest log2, rep_queued = queued\<rparr>)
                      REPLY dst (s\<lparr>rp_log := log2\<rparr>)
                in bindE (divides (cfg_replicaCheckpointInterval (re_config env)) sq) (\<lambda>checkpoint.
                   bindE (if \<not> checkpoint then Inr s1
                          else bindE (divides (cfg_replicaSnapshotInterval (re_config env)) sq) (\<lambda>snapshot.
                               bindE (startCheckpoint env snapshot s1) (\<lambda>s2.
                               Inr (s2\<lparr>rp_checkpointTimeoutStart := re_now env\<rparr>)))) (\<lambda>s3.
                   Inr (if sq = 1 then s3\<lparr>rp_checkpointTimeoutStart := re_now env\<rparr> else s3)))))))"

definition holdAndSwapCliReq :: "('s, 'k) replica_env \<Rightarrow> client_request \<Rightarrow> 's replica \<Rightarrow> 's replica res" where
  "holdAndSwapCliReq env request s =
     (case rp_heldRequest s of
        None \<Rightarrow> Inr (s\<lparr>rp_heldRequest := Some request\<rparr>)
      | Some held \<Rightarrow>
          bindE (processClientRequest env request False s) (\<lambda>s1.
          bindE (processClientRequest env held False s1) (\<lambda>s2.
          Inr (s2\<lparr>rp_heldRequest := None\<rparr>))))"

definition processCert :: "('s, 'k) replica_env \<Rightarrow> cert \<Rightarrow> 's replica \<Rightarrow> 's replica res" where
  "processCert env c s =
     (case cert_replies c of [] \<Rightarrow> Inl Undefined
      | r # _ \<Rightarrow>
          if cert_round c < rp_round s then Inr s
          else if rp_repair s then Inr s
          else bindE (addCert (cert_seq c) c (rp_log s)) (\<lambda>(added, log').
               if \<not> added then Inr (s\<lparr>rp_log := log'\<rparr>)
               else bindE (client_addr env (rep_client_id r)) (\<lambda>dst.
                    Inr (sendMsgToDst env
                      (M_CertReply \<lparr>crp_replica_id = re_id env, crp_client_id = rep_client_id r,
                         crp_client_seq = rep_client_seq r, crp_round = rp_round s, crp_seq = rep_seq r\<rparr>)
                      CERT_REPLY dst (s\<lparr>rp_log := log'\<rparr>)))))"

section \<open>Starting a repair\<close>

definition getPrimary :: "('s, 'k) replica_env \<Rightarrow> 's replica \<Rightarrow> u32" where
  "getPrimary env s = of_nat (unat (rp_pbftView s) mod cfg_replicaIps_size (re_config env))"

definition isPrimary :: "('s, 'k) replica_env \<Rightarrow> 's replica \<Rightarrow> bool" where
  "isPrimary env s = (unat (rp_pbftView s) mod cfg_replicaIps_size (re_config env) = unat (re_id env))"

definition startRepair :: "('s, 'k) replica_env \<Rightarrow> 's replica \<Rightarrow> 's replica res" where
  "startRepair env s =
     (if rp_repair s then Inl AssertFailed
      else
        let msg = \<lparr>rs_pbft_view = rp_pbftView s, rs_round = rp_round s, rs_replica_id = re_id env,
              rs_log = Some (log_toProto (re_log env) (cfg_replicaIncludeFullRequests (re_config env)) (rp_log s)),
              rs_prepared_history = None\<rparr>
        in bindE (replica_addr env (getPrimary env s)) (\<lambda>dst.
           Inr (sendMsgToDst env (M_RepairStart msg) REPAIR_START dst
                  (s\<lparr>rp_repair := True, rp_repairStart := Some msg\<rparr>))))"

section \<open>Checkpoints\<close>

text \<open>\<open>processReply\<close>: first a reply for a number between two checkpoints, which may start one here;
  then the collector of the reply's number.\<close>

definition processTimeoutReply :: "('s, 'k) replica_env \<Rightarrow> reply \<Rightarrow> 's replica \<Rightarrow> 's replica res" where
  "processTimeoutReply env r s =
     (let rSeq = rep_seq r; i = rep_replica_id r; interval = cfg_replicaCheckpointInterval (re_config env);
          alreadyStarted = cst_hasCollector (rp_round s) rSeq (rp_collectors s);
          alreadyCommitted = rSeq \<le> lc_seq (lg_committed (rp_log s));
          (rd, sq) = sm_at (0, 0) (rp_checkpointTimeoutSeqs s) i;
          alreadyTried = (sq \<noteq> 0 \<and> rd = rp_round s \<and> rSeq div interval = sq div interval);
          s1 = s\<lparr>rp_checkpointTimeoutSeqs := sm_insert i (0, 0) (rp_checkpointTimeoutSeqs s)\<rparr>
      in if \<not> alreadyStarted \<and> \<not> alreadyCommitted \<and> \<not> alreadyTried
         then startCheckpoint env False
                (s1\<lparr>rp_checkpointTimeoutSeqs := sm_put i (rp_round s, rSeq) (rp_checkpointTimeoutSeqs s1)\<rparr>)
         else Inr s1)"

definition sendOwnCommit :: "('s, 'k) replica_env \<Rightarrow> checkpoint_collector \<Rightarrow> 's replica \<Rightarrow> 's replica res" where
  "sendOwnCommit env coll s =
     (if cpc_commitReady coll
      then bindE (cpc_getOwnCommit (re_sha env) coll) (\<lambda>commit. Inr (broadcastToReplicas env (M_Commit commit) COMMIT s))
      else Inr s)"

definition processCollectedReply :: "('s, 'k) replica_env \<Rightarrow> reply \<Rightarrow> bytes \<Rightarrow> 's replica \<Rightarrow> 's replica res" where
  "processCollectedReply env r sig s =
     (let rSeq = rep_seq r; rd = rp_round s
      in if rSeq \<le> lc_seq (lg_committed (rp_log s)) then Inr s
         else
           bindE (if cst_hasCollector rd rSeq (rp_collectors s) then Inr (True, rp_collectors s)
                  else bindE (divides (cfg_replicaSnapshotInterval (re_config env)) rSeq) (\<lambda>needs.
                       cst_initCollector rd rSeq needs (rp_collectors s))) (\<lambda>(ok, cs).
           if \<not> ok then Inr (s\<lparr>rp_collectors := cs\<rparr>)
           else
             bindE (cst_at rd rSeq cs) (\<lambda>coll.
             if cpc_commitReady coll then Inr (s\<lparr>rp_collectors := cs\<rparr>)
             else
               let (certified, coll') = cpc_addAndCheckReply (re_cm env) (re_now env) r sig coll;
                   s1 = s\<lparr>rp_collectors := cst_set rd rSeq coll' cs\<rparr>
               in if certified then
                    (if rep_round r \<noteq> rd then Inl AssertFailed
                     else
                       bindE (if cfg_clientNormalPathEnabled (re_config env)
                              then bindE (cpc_getCert coll') (\<lambda>ct. addCert rSeq ct (rp_log s1))
                              else Inr (True, rp_log s1)) (\<lambda>(added, log').
                       if \<not> added then Inr (s1\<lparr>rp_log := log'\<rparr>)
                       else sendOwnCommit env coll' (s1\<lparr>rp_log := log'\<rparr>)))
                  else if cpc_hasConflictProof coll' then
                    bindE (cpc_getConflictProof coll') (\<lambda>proof.
                    startRepair env (broadcastToReplicas env
                      (M_RepairReplyProof (proof\<lparr>rrp_replica_id := re_id env, rrp_round := rd, rrp_view := rp_pbftView s\<rparr>))
                      REPAIR_REPLY_PROOF s1))
                  else Inr s1)))"

definition processReply :: "('s, 'k) replica_env \<Rightarrow> reply \<Rightarrow> bytes \<Rightarrow> 's replica \<Rightarrow> 's replica res" where
  "processReply env r sig s =
     (if rp_repair s then Inr s
      else if rep_round r < rp_round s then Inr s
      else
        bindE (divides (cfg_replicaCheckpointInterval (re_config env)) (rep_seq r)) (\<lambda>on_interval.
        bindE (if on_interval then Inr s else processTimeoutReply env r s) (processCollectedReply env r sig)))"

definition processSnapshot :: "('s, 'k) replica_env \<Rightarrow> app_snapshot \<Rightarrow> u32 \<Rightarrow> 's replica \<Rightarrow> 's replica res" where
  "processSnapshot env snapshot rd s =
     (if \<not> cst_hasCollector rd (snap_seq snapshot) (rp_collectors s) then Inr s
      else
        bindE (cst_at rd (snap_seq snapshot) (rp_collectors s)) (\<lambda>coll.
        let coll' = cpc_addOwnSnapshot snapshot coll
        in sendOwnCommit env coll' (s\<lparr>rp_collectors := cst_set rd (snap_seq snapshot) coll' (rp_collectors s)\<rparr>)))"

definition sendSnapshotRequest :: "('s, 'k) replica_env \<Rightarrow> u32 \<Rightarrow> u32 \<Rightarrow> 's replica \<Rightarrow> 's replica res" where
  "sendSnapshotRequest env replicaId targetSeq s =
     bindE (replica_addr env replicaId) (\<lambda>dst.
     Inr (sendMsgToDst env
       (M_SnapshotRequest \<lparr>srq_round = rp_round s, srq_seq = targetSeq, srq_replica_id = re_id env,
          srq_last_checkpoint_seq = lc_seq (lg_committed (rp_log s)), srq_for_repair = False\<rparr>)
       SNAPSHOT_REQUEST dst s))"

text \<open>\<open>log_->setCheckpoint\<close> and the removal of the collectors it makes stale.\<close>

definition installCheckpoint :: "('s, 'k) replica_env \<Rightarrow> log_checkpoint \<Rightarrow> 's replica \<Rightarrow> 's replica res" where
  "installCheckpoint env cp s =
     bindE (setCheckpoint (re_log env) cp (rp_log s)) (\<lambda>log'.
     bindE (cst_cleanStaleCollectors (lc_seq (lg_stable log')) (lc_seq (lg_committed log')) (rp_collectors s)) (\<lambda>cs.
     Inr (s\<lparr>rp_log := log', rp_collectors := cs\<rparr>)))"

text \<open>What \<open>processCommit\<close> does with a checkpoint that \<open>f + 1\<close> replicas agree on.\<close>

definition useCheckpoint ::
  "('s, 'k) replica_env \<Rightarrow> bool \<Rightarrow> log_checkpoint \<Rightarrow> 's replica \<Rightarrow> 's replica res" where
  "useCheckpoint env needsSnapshot cp s =
     (let sq = lc_seq cp; log = rp_log s
      in bindE (if lg_nextSeq log \<le> sq then Inr True
                else bindE (getDigestAt sq log) (\<lambda>d. Inr (d \<noteq> lc_logDigest cp))) (\<lambda>differs.
         if differs then
           (if lc_commits cp = [] then Inl AssertFailed
            else if cfg_replicaSkipAlignment (re_config env) then Inr s
            else
              let from = com_replica_id (snd (lc_commits cp ! (unat (re_now env) mod length (lc_commits cp))))
              in bindE (if \<not> rp_checkpointSnapshotRequested s \<or>
                           lg_nextSeq log + 5 * cfg_replicaCheckpointInterval (re_config env) \<le> sq
                        then sendSnapshotRequest env from sq s else Inr s) (\<lambda>s1.
                 Inr (s1\<lparr>rp_checkpointSnapshotRequested := True\<rparr>)))
         else if \<not> needsSnapshot then installCheckpoint env cp s
         else if lc_snapshot cp \<noteq> None then installCheckpoint env cp s
         else Inr s))"

definition dropCheckpoint :: "('s, 'k) replica_env \<Rightarrow> u32 \<Rightarrow> bool res" where
  "dropCheckpoint env sq =
     (if re_checkpointDropFreq env = 0 then Inr False
      else bindE (quotient sq (cfg_replicaCheckpointInterval (re_config env))) (\<lambda>q.
           Inr (q mod re_checkpointDropFreq env = 0)))"

definition processCommit :: "('s, 'k) replica_env \<Rightarrow> commit_msg \<Rightarrow> bytes \<Rightarrow> 's replica \<Rightarrow> 's replica res" where
  "processCommit env commit sig s =
     (let sq = com_seq commit; rd = com_round commit
      in bindE (if cst_hasCollector rd sq (rp_collectors s) then Inr (True, rp_collectors s)
                else bindE (divides (cfg_replicaSnapshotInterval (re_config env)) sq) (\<lambda>on_interval.
                     cst_initCollector rd sq (on_interval \<or> com_app_digest commit \<noteq> None) (rp_collectors s))) (\<lambda>(ok, cs).
         if \<not> ok then Inr (s\<lparr>rp_collectors := cs\<rparr>)
         else
           bindE (cst_at rd sq cs) (\<lambda>coll.
           let (agreed, coll') = cpc_addAndCheckCommit (re_sha env) (re_cm env) commit sig coll;
               s1 = s\<lparr>rp_collectors := cst_set rd sq coll' cs\<rparr>
           in if \<not> agreed then Inr s1
              else
                bindE (cpc_getCheckpoint coll' initial_checkpoint) (\<lambda>cp.
                bindE (dropCheckpoint env (lc_seq cp)) (\<lambda>dropped.
                if dropped then Inr s1
                else bindE (useCheckpoint env (cpc_needsSnapshot coll') cp s1) (\<lambda>s2.
                     Inr (s2\<lparr>rp_repairTimeoutStart := 0\<rparr>)))))))"

section \<open>State transfer\<close>

text \<open>The entries of a loop \<open>for (seq = a; seq <= b; seq++)\<close> over the log.\<close>

definition log_entries_between :: "u32 \<Rightarrow> u32 \<Rightarrow> 's log_state \<Rightarrow> log_entry list res" where
  "log_entries_between a b l =
     foldE (\<lambda>k es. bindE (getEntry (a + of_nat k) l) (\<lambda>e. Inr (es @ [e]))) [0..<Suc (unat b) - unat a] []"

definition processSnapshotRequest :: "('s, 'k) replica_env \<Rightarrow> snapshot_request \<Rightarrow> 's replica \<Rightarrow> 's replica res" where
  "processSnapshotRequest env req s =
     (let committed = lg_committed (rp_log s); stable = lg_stable (rp_log s);
          far = srq_last_checkpoint_seq req < lc_seq stable
      in if lc_seq committed < srq_seq req then Inr s
         else if far \<and> lc_snapshot stable = None then Inl AssertFailed
         else
           bindE (log_entries_between (max (srq_last_checkpoint_seq req) (lc_seq stable) + 1) (lc_seq committed) (rp_log s)) (\<lambda>es.
           bindE (replica_addr env (srq_replica_id req)) (\<lambda>dst.
           Inr (sendMsgToDst env
             (M_SnapshotReply \<lparr>srp_round = rp_round s, srp_seq = lc_seq committed, srp_replica_id = re_id env,
                srp_checkpoint = checkpoint_toProto (re_sha env) committed,
                srp_log_entries = map (entry_toProto (re_sha env) True) es,
                srp_snapshot_checkpoint = (if far then Some (checkpoint_toProto (re_sha env) stable) else None),
                srp_snapshot = (if far then lc_snapshot stable else None)\<rparr>)
             SNAPSHOT_REPLY dst s))))"

text \<open>The search of \<open>processMissingRequestFetch\<close> for one request in the log above the checkpoint.\<close>

fun find_request :: "request_id \<Rightarrow> 's log_state \<Rightarrow> u32 list \<Rightarrow> bytes option res" where
  "find_request key l [] = Inr None"
| "find_request key l (sq # sqs) =
     bindE (getEntry sq l) (\<lambda>e.
     if (le_client_id e, le_client_seq e) = key then Inr (Some (le_request e)) else find_request key l sqs)"

definition processMissingRequestFetch ::
  "('s, 'k) replica_env \<Rightarrow> missing_request_fetch \<Rightarrow> 's replica \<Rightarrow> 's replica res" where
  "processMissingRequestFetch env fetch s =
     bindE (foldE (\<lambda>key rs.
         bindE (find_request key (rp_log s)
                  (seqs_between (lc_seq (lg_committed (rp_log s)) + 1) (lg_nextSeq (rp_log s)))) (\<lambda>r.
         Inr (case r of None \<Rightarrow> rs
              | Some b \<Rightarrow> rs @ [\<lparr>rd_client_id = fst key, rd_client_seq = snd key, rd_request = b\<rparr>])))
       (mrf_request_ids fetch) []) (\<lambda>rs.
     if rs = [] then Inr s
     else bindE (replica_addr env (mrf_replica_id fetch)) (\<lambda>dst.
          Inr (sendMsgToDst env
            (M_MissingReply \<lparr>mrr_round = mrf_round fetch, mrr_replica_id = re_id env, mrr_requests = rs\<rparr>)
            MISSING_REQUEST_REPLY dst s)))"

definition sendMissingRequestFetch ::
  "('s, 'k) replica_env \<Rightarrow> request_id list \<Rightarrow> 's replica \<Rightarrow> 's replica" where
  "sendMissingRequestFetch env missing s =
     (if missing = [] then s
      else broadcastToReplicas env
        (M_MissingFetch \<lparr>mrf_round = rp_round s, mrf_replica_id = re_id env, mrf_request_ids = missing\<rparr>)
        MISSING_REQUEST_FETCH
        (s\<lparr>rp_pendingMissingRequests := missing, rp_missingRequestFetchSent := True\<rparr>))"

end
