(* ===== verification/Repair.thy ===== *)
theory Repair
  imports Replica
begin

text \<open>
  The repair of the replica (\<open>processes/replica/replica.cc\<close>): agreement on a proposal by the
  three phases of PBFT, view changes, applying the agreed log and starting the next round;
  the handlers of the messages that trigger it, state transfer and missing requests during it,
  and the timeouts.
\<close>

section \<open>The agreed log\<close>

text \<open>\<open>getRepairLogSuffix\<close>: the cached suffix, or a new one when there is none or it is of another
  round. \<open>value()\<close> throws without a proposal.\<close>

definition getRepairLogSuffix :: "('s, 'k) replica_env \<Rightarrow> 's replica \<Rightarrow> (log_suffix \<times> 's replica) res" where
  "getRepairLogSuffix env s =
     (case rp_repairProposalLogSuffix s of
        Some suffix \<Rightarrow>
          if ls_round suffix = rp_round s then Inr (suffix, s)
          else (case rp_repairProposal s of None \<Rightarrow> Inl RuntimeError
            | Some p \<Rightarrow> bindE (getLogSuffixFromProposal (re_sha env) (re_cm env) p (new_suffix (re_id env) (rp_round s)))
                (\<lambda>suffix'. Inr (suffix', s\<lparr>rp_repairProposalLogSuffix := Some suffix'\<rparr>)))
      | None \<Rightarrow>
          (case rp_repairProposal s of None \<Rightarrow> Inl RuntimeError
            | Some p \<Rightarrow> bindE (getLogSuffixFromProposal (re_sha env) (re_cm env) p (new_suffix (re_id env) (rp_round s)))
                (\<lambda>suffix'. Inr (suffix', s\<lparr>rp_repairProposalLogSuffix := Some suffix'\<rparr>))))"

text \<open>The checkpoint of a suffix: an uninitialised pointer before the suffix was computed.\<close>

definition suffix_checkpoint :: "log_suffix \<Rightarrow> log_checkpoint_pb res" where
  "suffix_checkpoint suffix = (case ls_checkpoint suffix of None \<Rightarrow> Inl Undefined | Some cp \<Rightarrow> Inr cp)"

text \<open>The summary of one client: the round of the replica, the numbers of the client in the
  checkpoint, and the replies of its entries in the log.\<close>

definition summary_step ::
  "('s, 'k) replica_env \<Rightarrow> 's replica \<Rightarrow> log_entry \<Rightarrow> (u32, repair_summary) smap \<Rightarrow> (u32, repair_summary) smap" where
  "summary_step env s e ms =
     (let c = le_client_id e;
          fresh = \<lparr>sum_round = rp_round s, sum_replica_id = re_id env, sum_replies = [], sum_pbft_view = rp_pbftView s,
             sum_committed_seqs = rec_toProtoSingleClient (lc_clientRecord (lg_committed (rp_log s))) c
               \<lparr>csp_client_id = 0, csp_last_seq = 0, csp_missed_seqs = []\<rparr>\<rparr>;
          summary = sm_at fresh ms c;
          reply = \<lparr>cr_replica_id = re_id env, cr_client_id = c, cr_client_seq = le_client_seq e, cr_seq = le_seq e,
             cr_result = le_result e, cr_is_repair = True\<rparr>
      in sm_put c (summary\<lparr>sum_replies := sum_replies summary @ [reply]\<rparr>) ms)"

definition sendRepairSummaryToClients :: "('s, 'k) replica_env \<Rightarrow> 's replica \<Rightarrow> 's replica res" where
  "sendRepairSummaryToClients env s =
     bindE (foldE (\<lambda>sq ms. bindE (getEntry sq (rp_log s)) (\<lambda>e. Inr (summary_step env s e ms)))
              (seqs_between (lc_seq (lg_committed (rp_log s)) + 1) (lg_nextSeq (rp_log s))) []) (\<lambda>ms.
     foldE (\<lambda>(c, summary) s'. bindE (client_addr env c) (\<lambda>dst.
              Inr (sendMsgToDst env (M_RepairSummary summary) REPAIR_SUMMARY dst s'))) ms s)"

text \<open>\<open>finishRepair\<close>: the checkpoint at its end, by a new round of commits when the repair crosses
  a snapshot interval, otherwise directly with the commits of the repair as its proof.\<close>

definition repairSnapshotCommit :: "('s, 'k) replica_env \<Rightarrow> u32 \<Rightarrow> 's replica \<Rightarrow> 's replica res" where
  "repairSnapshotCommit env sq s =
     bindE (getDigestAt sq (rp_log s)) (\<lambda>d.
     let rd = rp_round s;
         commit = \<lparr>com_replica_id = re_id env, com_round = rd, com_seq = sq, com_log_digest = d, com_app_digest = None,
            com_client_record = rec_toProto (re_sha env) (lg_clientRecord (rp_log s))\<rparr>
     in bindE (if cst_hasCollector rd sq (rp_collectors s) then Inr (True, rp_collectors s)
               else cst_initCollector rd sq True (rp_collectors s)) (\<lambda>(_, cs).
        let (snap, app') = app_takeSnapshot (env_app (re_log env)) (lg_app (rp_log s));
            s1 = s\<lparr>rp_collectors := cs, rp_log := (rp_log s)\<lparr>lg_app := app'\<rparr>,
                   rp_snapshotQueue := rp_snapshotQueue s @ [(rd, snap)]\<rparr>
        in Inr (broadcastToReplicas env (M_Commit (commit\<lparr>com_app_digest := Some (snap_digest snap)\<rparr>)) COMMIT s1)))"

definition repairDirectCheckpoint :: "('s, 'k) replica_env \<Rightarrow> u32 \<Rightarrow> 's replica \<Rightarrow> 's replica res" where
  "repairDirectCheckpoint env sq s =
     bindE (getDigestAt sq (rp_log s)) (\<lambda>d.
     let cp = initial_checkpoint\<lparr>lc_seq := sq, lc_logDigest := d, lc_repairCommits := rp_repairPBFTCommits s,
           lc_repairCommitSigs := map (\<lambda>(i, _). (i, sm_at [] (rp_repairCommitSigs s) i)) (rp_repairPBFTCommits s),
           lc_clientRecord := lg_clientRecord (rp_log s)\<rparr>
     in case rp_repairPBFTCommits s of [] \<Rightarrow> Inl Undefined
        | (_, c) # _ \<Rightarrow>
            if d = pc_log_digest c
            then bindE (setCheckpoint (re_log env) cp (rp_log s)) (\<lambda>log'. Inr (s\<lparr>rp_log := log'\<rparr>))
            else Inr s)"

definition repairCheckpoint :: "('s, 'k) replica_env \<Rightarrow> 's replica \<Rightarrow> 's replica res" where
  "repairCheckpoint env s =
     bindE (getRepairLogSuffix env s) (\<lambda>(suffix, s1).
     bindE (suffix_checkpoint suffix) (\<lambda>cp.
     let sq = lg_nextSeq (rp_log s1) - 1; interval = cfg_replicaSnapshotInterval (re_config env)
     in if sq \<le> lc_seq (lg_committed (rp_log s1)) then Inr s1
        else bindE (quotient sq interval) (\<lambda>a. bindE (quotient (lcp_seq cp) interval) (\<lambda>b.
             if b < a then repairSnapshotCommit env sq s1 else repairDirectCheckpoint env sq s1))))"

text \<open>The aborted requests are inserted under deadline and client: a key that is taken keeps its request.\<close>

definition requeueAborted ::
  "req_record list \<Rightarrow> (u64 \<times> u32, client_request) smap \<Rightarrow> (u64 \<times> u32, client_request) smap" where
  "requeueAborted reqs m =
     fold (\<lambda>req. sm_insert (rq_deadline req, rq_clientId req)
       (empty_request\<lparr>crq_client_id := rq_clientId req, crq_client_seq := rq_clientSeq req,
          crq_req_data := rq_requestData req\<rparr>)) reqs m"

text \<open>The end of \<open>finishRepair\<close>: the state of the repair is reset, the aborted and the queued requests are
  executed in the new round, and a pending repair is started.\<close>

definition clearRepair :: "req_record list \<Rightarrow> 's replica \<Rightarrow> 's replica" where
  "clearRepair abortedReqs s =
     s\<lparr>rp_repair := False, rp_repairProposal := None, rp_repairPrepares := [], rp_repairPBFTCommits := [],
       rp_repairProposalLogSuffix := None, rp_missingRequestFetchSent := False,
       rp_repairQueuedReqs := requeueAborted abortedReqs (rp_repairQueuedReqs s),
       rp_curRoundStartSeq := ucast (lg_nextSeq (rp_log s))\<rparr>"

definition resumeRound :: "('s, 'k) replica_env \<Rightarrow> req_record list \<Rightarrow> 's replica \<Rightarrow> 's replica res" where
  "resumeRound env abortedReqs s =
     (let s1 = clearRepair abortedReqs s
      in bindE (foldE (\<lambda>(_, req). processClientRequest env req True) (rp_repairQueuedReqs s1) s1) (\<lambda>s2.
         let s3 = s2\<lparr>rp_repairQueuedReqs := [], rp_checkpointTimeoutStart := re_now env\<rparr>
         in if rp_pendingRepair s3 then startRepair env (s3\<lparr>rp_pendingRepair := False\<rparr>) else Inr s3))"

definition nextRound :: "'s replica \<Rightarrow> 's replica" where
  "nextRound s =
     (let s1 = s\<lparr>rp_round := rp_round s + 1\<rparr>
      in if 0 < rp_numConsecutiveViewChanges s1
         then s1\<lparr>rp_viewChangeCounter := rp_viewChangeCounter s1 + 1, rp_numConsecutiveViewChanges := 0\<rparr> else s1)"

definition finishRepair :: "('s, 'k) replica_env \<Rightarrow> req_record list \<Rightarrow> 's replica \<Rightarrow> 's replica res" where
  "finishRepair env abortedReqs s =
     bindE (sendRepairSummaryToClients env (nextRound s)) (\<lambda>s1.
     bindE (repairCheckpoint env s1) (resumeRound env abortedReqs))"

text \<open>\<open>availableReqs\<close> from the queued requests.\<close>

definition queued_requests :: "'s replica \<Rightarrow> available \<Rightarrow> available" where
  "queued_requests s av =
     fold (\<lambda>(_, req). sm_put (crq_client_id req, crq_client_seq req) (crq_req_data req)) (rp_repairQueuedReqs s) av"

text \<open>Applying the suffix and finishing, or asking for the requests that are missing; with the
  aborted requests collected before.\<close>

definition applyRepair ::
  "('s, 'k) replica_env \<Rightarrow> log_suffix \<Rightarrow> available \<Rightarrow> req_record list \<Rightarrow> 's replica \<Rightarrow> (bool \<times> 's replica) res" where
  "applyRepair env suffix avail aborted s =
     bindE (applySuffix (re_log env) suffix avail [] (rp_log s)) (\<lambda>(ok, _, missing, log').
     let s1 = s\<lparr>rp_log := log'\<rparr>
     in if \<not> ok then Inr (False, sendMissingRequestFetch env missing s1)
        else bindE (finishRepair env aborted s1) (\<lambda>s2. Inr (True, s2)))"

definition tryFinishRepair :: "('s, 'k) replica_env \<Rightarrow> 's replica \<Rightarrow> 's replica res" where
  "tryFinishRepair env s =
     bindE (getRepairLogSuffix env s) (\<lambda>(suffix, s1).
     case rp_repairProposal s1 of None \<Rightarrow> Inl AssertFailed
     | Some proposal \<Rightarrow>
         if rpr_round proposal = rp_round s1 - 1 then
           bindE (getAbortedEntries suffix (ucast (rp_curRoundStartSeq s1)) (rp_log s1)) (\<lambda>aborted.
           finishRepair env aborted s1)
         else
           let s2 = s1\<lparr>rp_round := rpr_round proposal, rp_repairViewStart := 0\<rparr>
           in bindE (suffix_checkpoint suffix) (\<lambda>cp.
              bindE (if \<not> lc_seq (lg_committed (rp_log s2)) < lcp_seq cp then Inr True
                     else if lcp_seq cp < lg_nextSeq (rp_log s2)
                     then bindE (getDigestAt (lcp_seq cp) (rp_log s2)) (\<lambda>d. Inr (lcp_log_digest cp = d))
                     else Inr False) (\<lambda>consistent.
              if consistent then
                bindE (getAbortedEntries suffix (ucast (rp_curRoundStartSeq s2)) (rp_log s2)) (\<lambda>aborted.
                bindE (applyRepair env suffix (queued_requests s2 []) aborted s2) (\<lambda>(_, s3). Inr s3))
              else
                bindE (if rp_repairSnapshotRequested s2 then Inr s2
                       else sendSnapshotRequest env (ls_checkpointReplica suffix) (lcp_seq cp) s2) (\<lambda>s3.
                Inr (s3\<lparr>rp_repairSnapshotRequested := True\<rparr>)))))"

section \<open>Agreement on the proposal\<close>

definition ifTriggerViewChange :: "('s, 'k) replica_env \<Rightarrow> 's replica \<Rightarrow> bool" where
  "ifTriggerViewChange env s =
     (rp_round s \<noteq> 0 \<and> rp_round s = rp_viewChangeRound s \<and>
      (re_viewChangeNum env = 0 \<or> rp_viewChangeCounter s < re_viewChangeNum env))"

definition viewChangeByPrepare :: "('s, 'k) replica_env \<Rightarrow> 's replica \<Rightarrow> bool" where
  "viewChangeByPrepare env s = (ifTriggerViewChange env s \<and> \<not> rp_holdPrepareOrCommit s)"

definition viewChangeByCommit :: "('s, 'k) replica_env \<Rightarrow> 's replica \<Rightarrow> bool" where
  "viewChangeByCommit env s = (ifTriggerViewChange env s \<and> rp_holdPrepareOrCommit s)"

text \<open>The start messages of a proposal: a message is left out only when both its round and its
  view differ.\<close>

definition usable_start :: "u32 \<Rightarrow> 's replica \<Rightarrow> u32 \<times> repair_start \<Rightarrow> bool" where
  "usable_start rd s p = (\<not> (rs_round (snd p) \<noteq> rd \<and> rs_pbft_view (snd p) \<noteq> rp_pbftView s))"

definition doPrePreparePhase :: "('s, 'k) replica_env \<Rightarrow> u32 \<Rightarrow> 's replica \<Rightarrow> 's replica" where
  "doPrePreparePhase env rd s =
     (if \<not> isPrimary env s then s
      else
        let starts = filter (usable_start rd s) (rp_repairStartMsgs s);
            pp = (\<lambda>proposal digest. M_PrePrepare \<lparr>pp_round = rd, pp_primary_id = re_id env, pp_pbft_view = rp_pbftView s,
                    pp_proposal = proposal, pp_proposal_digest = digest\<rparr>)
        in if \<exists>p \<in> set starts. rs_prepared_history (snd p) \<noteq> None
           then broadcastToReplicas env (pp (ps_proposal (rp_lastPreparedState s)) (ps_proposalDigest (rp_lastPreparedState s)))
                  PBFT_PREPREPARE s
           else
             let proposal = \<lparr>rpr_round = rd, rpr_view = 0, rpr_replica_id = re_id env, rpr_start_msgs = map snd starts,
                    rpr_signatures = map (\<lambda>p. sm_at [] (rp_repairHistorySigs s) (fst p)) starts\<rparr>;
                 digest = getProposalDigest (re_sha env) proposal
             in broadcastToReplicas env (pp proposal digest) PBFT_PREPREPARE (s\<lparr>rp_proposalDigest := digest\<rparr>))"

definition doPreparePhase :: "('s, 'k) replica_env \<Rightarrow> 's replica \<Rightarrow> 's replica res" where
  "doPreparePhase env s =
     (case rp_repairProposal s of None \<Rightarrow> Inl Undefined
      | Some proposal \<Rightarrow>
          bindE (getRepairLogSuffix env s) (\<lambda>(suffix, s1).
          Inr (broadcastToReplicas env
            (M_Prepare \<lparr>prep_round = rpr_round proposal, prep_replica_id = re_id env, prep_pbft_view = rp_pbftView s,
               prep_proposal_digest = rp_proposalDigest s, prep_log_digest = ls_logDigest suffix\<rparr>) PBFT_PREPARE s1)))"

definition doCommitPhase :: "('s, 'k) replica_env \<Rightarrow> 's replica \<Rightarrow> 's replica res" where
  "doCommitPhase env s =
     (case rp_repairProposal s of None \<Rightarrow> Inl RuntimeError
      | Some proposal \<Rightarrow>
          bindE (getRepairLogSuffix env s) (\<lambda>(suffix, s1).
          let msg = M_PBFTCommit \<lparr>pc_round = rpr_round proposal, pc_replica_id = re_id env, pc_pbft_view = rp_pbftView s,
                pc_proposal_digest = rp_proposalDigest s, pc_log_digest = ls_logDigest suffix\<rparr>
          in if viewChangeByCommit env s1
             then bindE (if re_commitLocalInViewChange env
                         then bindE (replica_addr env (re_id env)) (\<lambda>dst. Inr (sendMsgToDst env msg PBFT_COMMIT dst s1))
                         else Inr s1) (\<lambda>s2.
                  Inr (s2\<lparr>rp_holdPrepareOrCommit := \<not> rp_holdPrepareOrCommit s2\<rparr>))
             else Inr (broadcastToReplicas env msg PBFT_COMMIT s1)))"

definition processPrePrepare :: "('s, 'k) replica_env \<Rightarrow> pbft_preprepare \<Rightarrow> 's replica \<Rightarrow> 's replica res" where
  "processPrePrepare env msg s =
     (if pp_round msg < rp_round s then Inr s
      else if rp_round s < pp_round msg then Inr s
      else if pp_pbft_view msg \<noteq> rp_pbftView s then Inr s
      else if getPrimary env s \<noteq> pp_primary_id msg then Inr s
      else
        let s1 = s\<lparr>rp_repairProposal := Some (pp_proposal msg), rp_repairProposalLogSuffix := None,
                   rp_proposalDigest := pp_proposal_digest msg\<rparr>
        in if viewChangeByPrepare env s1
           then Inr (s1\<lparr>rp_holdPrepareOrCommit := \<not> rp_holdPrepareOrCommit s1,
                        rp_viewChangeRound := rp_viewChangeRound s1 + re_viewChangeFreq env\<rparr>)
           else doPreparePhase env s1)"

text \<open>\<open>processPrepare\<close>: the votes for the proposal at hand, and what is kept of them for a view change.\<close>

definition matching_prepare :: "repair_proposal \<Rightarrow> 's replica \<Rightarrow> u32 \<times> pbft_prepare \<Rightarrow> bool" where
  "matching_prepare proposal s p =
     (prep_round (snd p) = rpr_round proposal \<and> prep_proposal_digest (snd p) = rp_proposalDigest s \<and>
      prep_pbft_view (snd p) = rp_pbftView s)"

definition record_prepared :: "repair_proposal \<Rightarrow> 's replica \<Rightarrow> 's replica" where
  "record_prepared proposal s =
     (let rd = rpr_round proposal; kept = filter (\<lambda>p. prep_round (snd p) = rd) (rp_repairPrepares s)
      in s\<lparr>rp_preparedRound := rd, rp_viewPrepared := True,
           rp_lastPreparedState := \<lparr>ps_round = rd, ps_pbftView = rp_pbftView s, ps_proposal = proposal,
             ps_proposalDigest = rp_proposalDigest s, ps_prepares = kept,
             ps_prepareSigs = fold (\<lambda>p m. sm_put (fst p) (sm_at [] (rp_repairPrepareSigs s) (fst p)) m) kept
                                (ps_prepareSigs (rp_lastPreparedState s))\<rparr>\<rparr>)"

definition prepareDone :: "('s, 'k) replica_env \<Rightarrow> 's replica \<Rightarrow> 's replica res" where
  "prepareDone env s =
     (if viewChangeByCommit env s
      then bindE (if re_commitLocalInViewChange env then doCommitPhase env s else Inr s) (\<lambda>s1.
           Inr (s1\<lparr>rp_viewChangeRound := rp_viewChangeRound s1 + re_viewChangeFreq env\<rparr>))
      else doCommitPhase env s)"

definition storePrepare :: "pbft_prepare \<Rightarrow> bytes \<Rightarrow> 's replica \<Rightarrow> 's replica" where
  "storePrepare msg sig s =
     s\<lparr>rp_repairPrepares := sm_put (prep_replica_id msg) msg (rp_repairPrepares s),
       rp_repairPrepareSigs := sm_put (prep_replica_id msg) sig (rp_repairPrepareSigs s)\<rparr>"

text \<open>A stored vote of the same view and a later round.\<close>

definition laterPrepare :: "pbft_prepare \<Rightarrow> 's replica \<Rightarrow> bool" where
  "laterPrepare msg s =
     (case map_of (rp_repairPrepares s) (prep_replica_id msg) of None \<Rightarrow> False
      | Some old \<Rightarrow> prep_round msg < prep_round old \<and> prep_pbft_view old = prep_pbft_view msg)"

text \<open>After the vote is stored: nothing more without the proposal or the quorum.\<close>

definition countPrepares :: "('s, 'k) replica_env \<Rightarrow> u32 \<Rightarrow> 's replica \<Rightarrow> 's replica res" where
  "countPrepares env inRound s =
     (if rp_viewPrepared s \<and> rp_preparedRound s = inRound then Inr s
      else case rp_repairProposal s of None \<Rightarrow> Inr s
      | Some proposal \<Rightarrow>
          if rpr_round proposal < inRound then Inr s
          else if length (filter (matching_prepare proposal s) (rp_repairPrepares s)) < getQuorumSize (re_cm env)
          then Inr s
          else prepareDone env (record_prepared proposal s))"

definition processPrepare :: "('s, 'k) replica_env \<Rightarrow> pbft_prepare \<Rightarrow> bytes \<Rightarrow> 's replica \<Rightarrow> 's replica res" where
  "processPrepare env msg sig s =
     (if prep_pbft_view msg \<noteq> rp_pbftView s then Inr s
      else if prep_round msg < rp_round s \<and> rp_viewPrepared s then Inr s
      else if rp_round s < prep_round msg then Inr s
      else if laterPrepare msg s then Inr s
      else countPrepares env (prep_round msg) (storePrepare msg sig s))"

definition matching_commit :: "'s replica \<Rightarrow> u32 \<times> pbft_commit \<Rightarrow> bool" where
  "matching_commit s p =
     (pc_round (snd p) = rp_preparedRound s \<and> pc_proposal_digest (snd p) = rp_proposalDigest s \<and>
      pc_pbft_view (snd p) = rp_pbftView s)"

definition storeCommit :: "pbft_commit \<Rightarrow> bytes \<Rightarrow> 's replica \<Rightarrow> 's replica" where
  "storeCommit msg sig s =
     s\<lparr>rp_repairPBFTCommits := sm_put (pc_replica_id msg) msg (rp_repairPBFTCommits s),
       rp_repairCommitSigs := sm_put (pc_replica_id msg) sig (rp_repairCommitSigs s)\<rparr>"

definition laterCommit :: "pbft_commit \<Rightarrow> 's replica \<Rightarrow> bool" where
  "laterCommit msg s =
     (case map_of (rp_repairPBFTCommits s) (pc_replica_id msg) of None \<Rightarrow> False
      | Some old \<Rightarrow> pc_round msg < pc_round old \<and> pc_pbft_view old = pc_pbft_view msg)"

definition countCommits :: "('s, 'k) replica_env \<Rightarrow> u32 \<Rightarrow> 's replica \<Rightarrow> 's replica res" where
  "countCommits env inRound s =
     (case rp_repairProposal s of None \<Rightarrow> Inr s
      | Some proposal \<Rightarrow>
          if rpr_round proposal < inRound then Inr s
          else if rp_preparedRound s = - 1 \<or> rp_preparedRound s \<noteq> inRound \<or> \<not> rp_viewPrepared s then Inr s
          else if length (filter (matching_commit s) (rp_repairPBFTCommits s)) < getQuorumSize (re_cm env) then Inr s
          else tryFinishRepair env s)"

definition processPBFTCommit :: "('s, 'k) replica_env \<Rightarrow> pbft_commit \<Rightarrow> bytes \<Rightarrow> 's replica \<Rightarrow> 's replica res" where
  "processPBFTCommit env msg sig s =
     (if pc_pbft_view msg \<noteq> rp_pbftView s then Inr s
      else if pc_round msg < rp_round s then Inr s
      else if rp_round s < pc_round msg then Inr s
      else if laterCommit msg s then Inr s
      else countCommits env (pc_round msg) (storeCommit msg sig s))"

section \<open>View changes\<close>

text \<open>Without prepared history for the round the message sent before is sent again: a null
  dereference when there is none, and an assertion that it is of this round.\<close>

definition viewChangeStart :: "('s, 'k) replica_env \<Rightarrow> 's replica \<Rightarrow> repair_start res" where
  "viewChangeStart env s =
     (let last = rp_lastPreparedState s
      in if ps_round last = rp_round s
         then Inr \<lparr>rs_pbft_view = rp_pbftView s, rs_round = rp_round s, rs_replica_id = re_id env, rs_log = None,
                rs_prepared_history = Some \<lparr>ph_prepares = map snd (ps_prepares last),
                  ph_prepare_sigs = map (\<lambda>p. sm_at [] (ps_prepareSigs last) (fst p)) (ps_prepares last)\<rparr>\<rparr>
         else case rp_repairStart s of None \<Rightarrow> Inl Undefined
           | Some msg \<Rightarrow>
               if rs_round msg \<noteq> rp_round s then Inl AssertFailed
               else Inr (msg\<lparr>rs_prepared_history := None, rs_pbft_view := rp_pbftView s\<rparr>))"

definition startViewChange :: "('s, 'k) replica_env \<Rightarrow> u32 \<Rightarrow> 's replica \<Rightarrow> 's replica res" where
  "startViewChange env newView s =
     (let s1 = s\<lparr>rp_pbftView := newView, rp_repair := True, rp_viewPrepared := False, rp_repairViewStart := 0\<rparr>
      in bindE (viewChangeStart env s1) (\<lambda>msg.
         bindE (replica_addr env (getPrimary env s1)) (\<lambda>dst.
         let s2 = sendMsgToDst env (M_RepairStart msg) REPAIR_START dst (s1\<lparr>rp_repairStart := Some msg\<rparr>);
             num = length (filter (\<lambda>p. rs_round (snd p) = rp_round s2 \<and> rs_pbft_view (snd p) = rp_pbftView s2)
                             (rp_repairStartMsgs s2));
             s3 = (if isPrimary env s2 \<and> getQuorumSize (re_cm env) \<le> num then doPrePreparePhase env (rp_round s2) s2 else s2)
         in Inr (broadcastToReplicas env
              (M_ViewUpdate \<lparr>vu_round = rp_round s3, vu_replica_id = re_id env, vu_view = rp_pbftView s3\<rparr>) VIEW_UPDATE s3))))"

definition updateReplicaView ::
  "('s, 'k) replica_env \<Rightarrow> u32 \<Rightarrow> u32 \<Rightarrow> u32 \<Rightarrow> 's replica \<Rightarrow> 's replica res" where
  "updateReplicaView env i view rd s =
     (if map_of (rp_replicaViews s) i = Some (view, rd) then Inr s
      else
        let s1 = s\<lparr>rp_replicaViews := sm_put i (view, rd) (rp_replicaViews s)\<rparr>;
            same = length (filter (\<lambda>p. snd p = (rp_pbftView s1, rp_round s1)) (rp_replicaViews s1));
            s2 = (if getQuorumSize (re_cm env) \<le> same then s1\<lparr>rp_repairViewStart := re_now env\<rparr> else s1);
            higher = filter (\<lambda>v. rp_pbftView s2 < v) (map (fst \<circ> snd) (rp_replicaViews s2));
            minHigherView = fold min higher (- 1)
        in if higher \<noteq> [] \<and> \<not> (rp_pbftView s2 < minHigherView \<and> minHigherView \<noteq> - 1) then Inl AssertFailed
           else if unat (cm_numReplicas (re_cm env) - cm_quorumSize (re_cm env) + 1) \<le> length higher
           then startViewChange env minHigherView s2
           else Inr s2)"

section \<open>Triggers\<close>

definition processRepairTimeout :: "('s, 'k) replica_env \<Rightarrow> repair_timeout \<Rightarrow> bytes \<Rightarrow> 's replica \<Rightarrow> 's replica res" where
  "processRepairTimeout env msg sig s =
     (let sq = rt_seq msg
      in if rp_repair s then Inr s
         else if rt_round msg < rp_round s then Inr s
         else if rt_view msg < rp_pbftView s then Inr s
         else if \<not> cst_hasCollector (rp_round s) sq (rp_collectors s) then Inr s
         else
           bindE (cst_at (rp_round s) sq (rp_collectors s)) (\<lambda>coll.
           let (gathered, coll') = cpc_addAndCheckTimeout (re_cm env) msg sig coll;
               s1 = s\<lparr>rp_collectors := cst_set (rp_round s) sq coll' (rp_collectors s)\<rparr>
           in if \<not> gathered then Inr s1
              else bindE (cpc_getRepairTimeoutProof coll') (\<lambda>proof.
                   startRepair env (broadcastToReplicas env
                     (M_RepairTimeoutProof (proof\<lparr>rtp_replica_id := re_id env, rtp_view := rp_pbftView s, rtp_round := rp_round s\<rparr>))
                     REPAIR_TIMEOUT_PROOF s1))))"

definition processRepairReplyProof :: "('s, 'k) replica_env \<Rightarrow> repair_reply_proof \<Rightarrow> 's replica \<Rightarrow> 's replica res" where
  "processRepairReplyProof env msg s =
     bindE (updateReplicaView env (rrp_replica_id msg) (rrp_view msg) (rrp_round msg) s) (\<lambda>s1.
     if rp_round s1 < rrp_round msg then Inr (s1\<lparr>rp_pendingRepair := True\<rparr>)
     else if rp_repair s1 then Inr s1
     else if rrp_round msg < rp_round s1 then Inr s1
     else if rrp_view msg < rp_pbftView s1 then Inr s1
     else startRepair env (broadcastToReplicas env
            (M_RepairReplyProof (msg\<lparr>rrp_replica_id := re_id env, rrp_view := rp_pbftView s1\<rparr>)) REPAIR_REPLY_PROOF s1))"

definition processRepairTimeoutProof :: "('s, 'k) replica_env \<Rightarrow> repair_timeout_proof \<Rightarrow> 's replica \<Rightarrow> 's replica res" where
  "processRepairTimeoutProof env msg s =
     bindE (updateReplicaView env (rtp_replica_id msg) (rtp_view msg) (rtp_round msg) s) (\<lambda>s1.
     if rp_round s1 < rtp_round msg then Inr (s1\<lparr>rp_pendingRepair := True\<rparr>)
     else if rp_repair s1 then Inr s1
     else if rtp_round msg < rp_round s1 then Inr s1
     else startRepair env (broadcastToReplicas env (M_RepairTimeoutProof msg) REPAIR_TIMEOUT_PROOF s1))"

definition processRepairStart :: "('s, 'k) replica_env \<Rightarrow> repair_start \<Rightarrow> bytes \<Rightarrow> 's replica \<Rightarrow> 's replica" where
  "processRepairStart env msg sig s =
     (let i = rs_replica_id msg; rd = rs_round msg
      in if unat (rs_pbft_view msg) mod cfg_replicaIps_size (re_config env) \<noteq> unat (re_id env) then s
         else if rd < rp_round s then s
         else if (case map_of (rp_repairStartMsgs s) i of None \<Rightarrow> False | Some old \<Rightarrow> rd \<le> rs_round old) then s
         else
           let s1 = s\<lparr>rp_repairStartMsgs := sm_put i msg (rp_repairStartMsgs s),
                      rp_repairHistorySigs := sm_put i sig (rp_repairHistorySigs s)\<rparr>
           in if \<not> isPrimary env s1 then s1
              else if length (filter (\<lambda>p. rs_round (snd p) = rd) (rp_repairStartMsgs s1)) = getQuorumSize (re_cm env)
              then doPrePreparePhase env rd s1
              else s1)"

section \<open>State transfer and missing requests\<close>

text \<open>\<open>processSnapshotReply\<close> during a repair and outside one; in the first the flag says whether
  the end of the handler is reached.\<close>

definition snapshotDuringRepair :: "('s, 'k) replica_env \<Rightarrow> snapshot_reply \<Rightarrow> 's replica \<Rightarrow> (bool \<times> 's replica) res" where
  "snapshotDuringRepair env msg s =
     (if \<not> rp_repairSnapshotRequested s \<and> srp_round msg \<le> rp_round s then Inr (False, s)
      else if rp_repairProposal s = None then Inr (False, s)
      else
        bindE (getRepairLogSuffix env s) (\<lambda>(suffix, s1).
        bindE (suffix_checkpoint suffix) (\<lambda>cp.
        if srp_seq msg < lcp_seq cp then Inr (False, s1)
        else
          bindE (getAbortedEntries suffix (ucast (rp_curRoundStartSeq s1)) (rp_log s1)) (\<lambda>aborted.
          bindE (foldE (\<lambda>sq av. bindE (getEntry sq (rp_log s1)) (\<lambda>e.
                     Inr (sm_put (le_client_id e, le_client_seq e) (le_request e) av)))
                   (seqs_between (lc_seq (lg_committed (rp_log s1)) + 1) (lg_nextSeq (rp_log s1))) []) (\<lambda>av.
          bindE (resetToSnapshot (re_log env) msg (rp_log s1)) (\<lambda>(ok, log').
          if \<not> ok then Inl RuntimeError
          else
            bindE (cst_cleanStaleCollectors (lc_seq (lg_stable log')) (lc_seq (lg_committed log')) (rp_collectors s1)) (\<lambda>cs.
            bindE (applyRepair env suffix (queued_requests s1 av) aborted
                     (s1\<lparr>rp_log := log', rp_collectors := cs\<rparr>)) (\<lambda>(finished, s2).
            Inr (if finished then (True, s2\<lparr>rp_round := max (rp_round s2) (srp_round msg)\<rparr>) else (False, s2))))))))))"

definition resendReply :: "('s, 'k) replica_env \<Rightarrow> u32 \<Rightarrow> 's replica \<Rightarrow> 's replica res" where
  "resendReply env sq s =
     bindE (getEntry sq (rp_log s)) (\<lambda>e.
     bindE (client_addr env (le_client_id e)) (\<lambda>dst.
     Inr (sendMsgToDst env
       (M_Reply \<lparr>rep_client_id = le_client_id e, rep_client_seq = le_client_seq e, rep_round = rp_round s, rep_seq = sq,
          rep_replica_id = re_id env, rep_result = le_result e, rep_digest = le_digest e, rep_queued = False\<rparr>)
       REPLY dst s)))"

definition snapshotAlignment :: "('s, 'k) replica_env \<Rightarrow> snapshot_reply \<Rightarrow> 's replica \<Rightarrow> 's replica res" where
  "snapshotAlignment env msg s =
     bindE (applySnapshotModifyLog (re_log env) msg (rp_log s)) (\<lambda>(ok, log').
     if \<not> ok then Inl RuntimeError
     else
       bindE (cst_cleanStaleCollectors (lc_seq (lg_stable log')) (lc_seq (lg_committed log')) (rp_collectors s)) (\<lambda>cs.
       foldE (resendReply env) (seqs_between (lc_seq (lg_committed log') + 1) (lg_nextSeq log'))
         (s\<lparr>rp_log := log', rp_round := max (rp_round s) (srp_round msg), rp_collectors := cs\<rparr>)))"

definition processSnapshotReply :: "('s, 'k) replica_env \<Rightarrow> snapshot_reply \<Rightarrow> 's replica \<Rightarrow> 's replica res" where
  "processSnapshotReply env msg s =
     (let clear = (\<lambda>s'. s'\<lparr>rp_repairSnapshotRequested := False, rp_checkpointSnapshotRequested := False\<rparr>)
      in if srp_round msg < rp_round s then Inr (clear s)
         else if srp_seq msg \<le> lc_seq (lg_committed (rp_log s)) then Inr (clear s)
         else if rp_repair s
         then bindE (snapshotDuringRepair env msg s) (\<lambda>(done, s1). Inr (if done then clear s1 else s1))
         else if cfg_replicaSkipAlignment (re_config env) then Inr (clear s)
         else bindE (snapshotAlignment env msg s) (\<lambda>s1. Inr (clear s1)))"

text \<open>The request that arrives is queued under the pair of client id and number, although the
  queue is keyed by deadline and client id.\<close>

definition missing_reply_step :: "request_data \<Rightarrow> 's replica \<Rightarrow> 's replica" where
  "missing_reply_step d s =
     (let key = (rd_client_id d, rd_client_seq d)
      in if key \<in> set (rp_pendingMissingRequests s)
         then s\<lparr>rp_repairQueuedReqs := sm_put (ucast (rd_client_id d), rd_client_seq d)
                   (empty_request\<lparr>crq_client_id := rd_client_id d, crq_client_seq := rd_client_seq d,
                      crq_req_data := rd_request d\<rparr>) (rp_repairQueuedReqs s),
                rp_pendingMissingRequests := remove1 key (rp_pendingMissingRequests s)\<rparr>
         else s)"

definition processMissingRequestReply ::
  "('s, 'k) replica_env \<Rightarrow> missing_request_reply \<Rightarrow> 's replica \<Rightarrow> 's replica res" where
  "processMissingRequestReply env msg s =
     (if mrr_round msg < rp_round s then Inr s
      else
        let s1 = fold missing_reply_step (mrr_requests msg) s
        in if rp_pendingMissingRequests s1 = [] \<and> rp_missingRequestFetchSent s1
           then tryFinishRepair env (s1\<lparr>rp_missingRequestFetchSent := False\<rparr>)
           else Inr s1)"

text \<open>The branch of \<open>processMessagesThd\<close> for a request that arrives during a repair.\<close>

definition queueDuringRepair :: "('s, 'k) replica_env \<Rightarrow> u64 \<Rightarrow> client_request \<Rightarrow> 's replica \<Rightarrow> 's replica res" where
  "queueDuringRepair env deadline request s =
     (let s1 = s\<lparr>rp_repairQueuedReqs := sm_insert (deadline, crq_client_id request) request (rp_repairQueuedReqs s)\<rparr>;
          key = (crq_client_id request, crq_client_seq request)
      in if rp_missingRequestFetchSent s1 \<and> key \<in> set (rp_pendingMissingRequests s1)
         then
           let s2 = s1\<lparr>rp_pendingMissingRequests := remove1 key (rp_pendingMissingRequests s1)\<rparr>
           in if rp_pendingMissingRequests s2 = []
              then tryFinishRepair env (s2\<lparr>rp_missingRequestFetchSent := False\<rparr>)
              else Inr s2
         else Inr s1)"

section \<open>Timeouts\<close>

text \<open>The collectors' own timeouts, then the checkpoint timeout, then the view timeout; the
  shift of the last is of a 32-bit \<open>int\<close>.\<close>

definition collector_timeouts :: "('s, 'k) replica_env \<Rightarrow> 's replica \<Rightarrow> 's replica" where
  "collector_timeouts env s =
     fold (\<lambda>(k, coll) s'.
         let (fired, coll') = cpc_checkSelfTimeout (re_now env) (cfg_replicaCheckpointTimeout (re_config env)) coll;
             s1 = s'\<lparr>rp_collectors := cst_set (fst k) (snd k) coll' (rp_collectors s')\<rparr>
         in if fired
            then broadcastToReplicas env
                   (M_RepairTimeout \<lparr>rt_replica_id = re_id env, rt_round = rp_round s', rt_view = rp_pbftView s', rt_seq = snd k\<rparr>)
                   REPAIR_TIMEOUT s1
            else s1)
       (cst_collectors (rp_collectors s)) s"

definition viewTimeout :: "('s, 'k) replica_env \<Rightarrow> 's replica \<Rightarrow> u64 res" where
  "viewTimeout env s =
     (if 32 \<le> unat (rp_numConsecutiveViewChanges s) then Inl Undefined
      else Inr (cfg_replicaRepairViewTimeout (re_config env) *
                scast (push_bit (unat (rp_numConsecutiveViewChanges s)) (1 :: u32))))"

definition checkTimeouts :: "('s, 'k) replica_env \<Rightarrow> 's replica \<Rightarrow> 's replica res" where
  "checkTimeouts env s =
     (let s1 = collector_timeouts env s; now = re_now env
      in bindE (if rp_checkpointTimeoutStart s1 \<noteq> 0 \<and>
                   cfg_replicaCheckpointTimeout (re_config env) < now - rp_checkpointTimeoutStart s1 \<and>
                   \<not> cst_hasCollector (rp_round s1) (lg_nextSeq (rp_log s1) - 1) (rp_collectors s1)
                then bindE (startCheckpoint env False s1) (\<lambda>s2. Inr (s2\<lparr>rp_checkpointTimeoutStart := 0\<rparr>))
                else Inr s1) (\<lambda>s3.
         if rp_repairViewStart s3 = 0 then Inr s3
         else bindE (viewTimeout env s3) (\<lambda>limit.
              if limit < now - rp_repairViewStart s3
              then startViewChange env (rp_pbftView s3 + 1)
                     (s3\<lparr>rp_repairViewStart := now, rp_numConsecutiveViewChanges := rp_numConsecutiveViewChanges s3 + 1\<rparr>)
              else Inr s3)))"

end
