(* ===== verification/Receiver.thy ===== *)
theory Receiver
  imports Config Wire "HOL-Library.Product_Lexorder"
begin

text \<open>
  The receiver half of the replica process (\<open>processes/replica/replica.cc\<close>, the functions from
  \<open>receiveRequest\<close> to \<open>receiverVerifyThd\<close>): requests from the proxies wait in a queue ordered by
  deadline until their client signature is verified and their deadline has passed. A
  \<open>shared_ptr<ReceiverRequest>\<close> is an index into a store of objects: the deadline queue and the
  verification queue share them. Time stamps are 64-bit values; the current time is an argument.
\<close>

section \<open>State\<close>

record receiver_request =
  rr_request :: dom_request
  rr_deadline :: u64
  rr_clientId :: u32
  rr_verified :: bool

text \<open>A proxy by its configured index, or the port of the proxies at an address.\<close>

datatype proxy_dst = To_Proxy u32 | To_Ip bytes

record receiver =
  rv_objs :: "receiver_request list"
  rv_deadlineQueue :: "(u64 \<times> u32, nat) smap"
  rv_verifyQueue :: "nat list"
  rv_lastMeasurementTimes :: "(u32, u64) smap"
  rv_numForwarded :: u32
  rv_lastFwdDeadline :: u64
  rv_processQueue :: "frame list"
  rv_sent :: "(proxy_dst \<times> measurement_reply) list"

record 'k receiver_env =
  rx_wire :: "'k wire_params"
  rx_replicaId :: u32
  rx_numProxies :: nat
  rx_ignoreDeadlines :: bool
  rx_useHMAC :: bool

definition receiver_init :: receiver where
  "receiver_init =
     \<lparr>rv_objs = [], rv_deadlineQueue = [], rv_verifyQueue = [], rv_lastMeasurementTimes = [],
      rv_numForwarded = 0, rv_lastFwdDeadline = 0, rv_processQueue = [], rv_sent = []\<rparr>"

section \<open>Operations\<close>

text \<open>The interval test reads \<open>lastMeasurementTimes_[id]\<close>, which creates the entry. The delay is
  cut to the 32 bits of the message field.\<close>

definition measure_due :: "u64 \<Rightarrow> u32 \<Rightarrow> receiver \<Rightarrow> bool" where
  "measure_due recv_time proxy s = (5000 < recv_time - sm_at 0 (rv_lastMeasurementTimes s) proxy)"

definition measure_owd ::
  "'k receiver_env \<Rightarrow> u64 \<Rightarrow> u32 \<Rightarrow> u64 \<Rightarrow> proxy_dst \<Rightarrow> receiver \<Rightarrow> receiver" where
  "measure_owd rx recv_time proxy send_time dst s =
     (if measure_due recv_time proxy s
      then s\<lparr>rv_lastMeasurementTimes := sm_put proxy recv_time (rv_lastMeasurementTimes s),
             rv_sent := rv_sent s @ [(dst, \<lparr>mr_receiver_id = rx_replicaId rx, mr_owd = ucast (recv_time - send_time),
                                           mr_send_time = send_time\<rparr>)]\<rparr>
      else s\<lparr>rv_lastMeasurementTimes := sm_insert proxy 0 (rv_lastMeasurementTimes s)\<rparr>)"

definition enqueueReceiverRequest ::
  "'k receiver_env \<Rightarrow> u64 \<Rightarrow> dom_request \<Rightarrow> receiver \<Rightarrow> receiver res" where
  "enqueueReceiverRequest rx recv_time request s =
     (let request = (if dom_deadline request < recv_time then request\<lparr>dom_late := True\<rparr> else request);
          deadline = (if rx_ignoreDeadlines rx then recv_time else dom_deadline request);
          r = \<lparr>rr_request = request, rr_deadline = dom_deadline request, rr_clientId = dom_client_id request,
               rr_verified = False\<rparr>;
          p = length (rv_objs s);
          s1 = s\<lparr>rv_objs := rv_objs s @ [r],
                 rv_deadlineQueue := sm_put (deadline, dom_client_id request) p (rv_deadlineQueue s),
                 rv_verifyQueue := rv_verifyQueue s @ [p]\<rparr>
      in if measure_due recv_time (dom_proxy_id request) s1 \<and> rx_numProxies rx \<le> unat (dom_proxy_id request)
         then Inl Undefined
         else Inr (measure_owd rx recv_time (dom_proxy_id request) (dom_send_time request)
                     (To_Proxy (dom_proxy_id request)) s1))"

definition receiveRequest ::
  "'k receiver_env \<Rightarrow> u64 \<Rightarrow> bytes \<Rightarrow> bytes \<Rightarrow> receiver \<Rightarrow> receiver res" where
  "receiveRequest rx now sender body s =
     (case wp_parse (rx_wire rx) DOM_REQUEST body of
        Some (M_DOMRequest request) \<Rightarrow>
          bindE (enqueueReceiverRequest rx now request s) (\<lambda>s1.
          Inr (measure_owd rx now (dom_proxy_id request) (dom_send_time request) (To_Ip sender) s1))
      | _ \<Rightarrow> Inr s)"

definition receiveBatchedRequests ::
  "'k receiver_env \<Rightarrow> u64 \<Rightarrow> bytes \<Rightarrow> bytes \<Rightarrow> receiver \<Rightarrow> receiver res" where
  "receiveBatchedRequests rx now sender body s =
     (case wp_parse (rx_wire rx) DOM_BATCH_REQUEST body of
        Some (M_DOMBatchRequest b) \<Rightarrow>
          bindE (foldE (enqueueReceiverRequest rx now) (dbr_requests b) s) (\<lambda>s1.
          Inr (measure_owd rx now (dbr_proxy_id b) (dbr_send_time b) (To_Ip sender) s1))
      | _ \<Rightarrow> Inr s)"

definition forwardRequest :: "'k receiver_env \<Rightarrow> dom_request \<Rightarrow> receiver \<Rightarrow> receiver" where
  "forwardRequest rx request s =
     s\<lparr>rv_numForwarded := rv_numForwarded s + 1, rv_lastFwdDeadline := dom_deadline request,
       rv_processQueue := rv_processQueue s @
         [\<lparr>fr_type = code_of_type DOM_REQUEST, fr_body = wp_ser (rx_wire rx) (M_DOMRequest request), fr_sig = []\<rparr>]\<rparr>"

text \<open>\<open>checkDeadlines\<close>: the loop over the queue from its beginning, which stops at the first
  entry that is not due or not verified; then the time of the next check, cut to 32 bits.\<close>

fun deadline_loop :: "'k receiver_env \<Rightarrow> u64 \<Rightarrow> (u64 \<times> u32, nat) smap \<Rightarrow> receiver \<Rightarrow> receiver" where
  "deadline_loop rx now [] s = s\<lparr>rv_deadlineQueue := []\<rparr>"
| "deadline_loop rx now ((k, p) # q) s =
     (if fst k \<le> now \<and> rr_verified (rv_objs s ! p)
      then deadline_loop rx now q (forwardRequest rx (rr_request (rv_objs s ! p)) s)
      else s\<lparr>rv_deadlineQueue := (k, p) # q\<rparr>)"

definition checkDeadlines :: "'k receiver_env \<Rightarrow> u64 \<Rightarrow> receiver \<Rightarrow> u32 \<times> receiver" where
  "checkDeadlines rx now s =
     (let s1 = deadline_loop rx now (rv_deadlineQueue s) s;
          nextCheck = (case rv_deadlineQueue s1 of [] \<Rightarrow> 1000 | (k, p) # _ \<Rightarrow> sint (fst k - now))
      in (of_int (max 1000 nextCheck), s1))"

text \<open>One turn of \<open>receiverVerifyThd\<close> with a dequeued request: the client's message is embedded
  with its header in \<open>client_req\<close>. An embedded message that does not parse is skipped.\<close>

definition client_verified :: "'k receiver_env \<Rightarrow> frame \<Rightarrow> u32 \<Rightarrow> bool res" where
  "client_verified rx fr c =
     (if rx_useHMAC rx then hmac_verify (wp_hmac (rx_wire rx)) (wp_hmacKeys (rx_wire rx)) fr (CLIENT, c)
      else Inr (sig_verify_frame (wp_sig (rx_wire rx)) fr (CLIENT, c)))"

definition receiverVerify :: "'k receiver_env \<Rightarrow> receiver \<Rightarrow> receiver res" where
  "receiverVerify rx s =
     (case rv_verifyQueue s of [] \<Rightarrow> Inr s
      | p # q \<Rightarrow>
          let s1 = s\<lparr>rv_verifyQueue := q\<rparr>; r = rv_objs s ! p
          in bindE (read_frame (dom_client_req (rr_request r))) (\<lambda>fr.
             case wp_parse (rx_wire rx) CLIENT_REQUEST (fr_body fr) of
               Some (M_ClientRequest _) \<Rightarrow>
                 bindE (client_verified rx fr (rr_clientId r)) (\<lambda>ok.
                 Inr (if ok then s1\<lparr>rv_objs := (rv_objs s)[p := r\<lparr>rr_verified := True\<rparr>]\<rparr>
                      else s1\<lparr>rv_deadlineQueue := sm_del (rr_deadline r, rr_clientId r) (rv_deadlineQueue s)\<rparr>))
             | _ \<Rightarrow> Inr s1))"

section \<open>Reachable states\<close>

inductive rcv_reach :: "'k receiver_env \<Rightarrow> receiver \<Rightarrow> bool" for rx where
  init: "rcv_reach rx receiver_init"
| request: "rcv_reach rx s \<Longrightarrow> receiveRequest rx now sender body s = Inr s' \<Longrightarrow> rcv_reach rx s'"
| batch: "rcv_reach rx s \<Longrightarrow> receiveBatchedRequests rx now sender body s = Inr s' \<Longrightarrow> rcv_reach rx s'"
| deadlines: "rcv_reach rx s \<Longrightarrow> checkDeadlines rx now s = (t, s') \<Longrightarrow> rcv_reach rx s'"
| verify: "rcv_reach rx s \<Longrightarrow> receiverVerify rx s = Inr s' \<Longrightarrow> rcv_reach rx s'"

text \<open>A request whose embedded client message is well formed and authentic.\<close>

definition authentic :: "'k receiver_env \<Rightarrow> u32 \<Rightarrow> dom_request \<Rightarrow> bool" where
  "authentic rx c r \<longleftrightarrow>
     (\<exists>fr q. read_frame (dom_client_req r) = Inr fr \<and>
        wp_parse (rx_wire rx) CLIENT_REQUEST (fr_body fr) = Some (M_ClientRequest q) \<and>
        client_verified rx fr c = Inr True)"

definition dom_frame :: "'k receiver_env \<Rightarrow> dom_request \<Rightarrow> frame" where
  "dom_frame rx r = \<lparr>fr_type = code_of_type DOM_REQUEST, fr_body = wp_ser (rx_wire rx) (M_DOMRequest r), fr_sig = []\<rparr>"

text \<open>The queue is ordered and its pointers are valid; the objects agree with their keys; a verified object is
  authentic; every message of the process queue satisfies \<open>Q\<close>, which holds of the authentic requests.\<close>

definition rcv_ok :: "'k receiver_env \<Rightarrow> (frame \<Rightarrow> bool) \<Rightarrow> receiver \<Rightarrow> bool" where
  "rcv_ok rx Q s \<longleftrightarrow> sm_ok (rv_deadlineQueue s) \<and>
     (\<forall>(k, p) \<in> set (rv_deadlineQueue s). p < length (rv_objs s) \<and> rr_clientId (rv_objs s ! p) = snd k) \<and>
     (\<forall>p \<in> set (rv_verifyQueue s). p < length (rv_objs s)) \<and>
     (\<forall>r \<in> set (rv_objs s). rr_clientId r = dom_client_id (rr_request r) \<and> rr_deadline r = dom_deadline (rr_request r) \<and>
        (rr_verified r \<longrightarrow> authentic rx (rr_clientId r) (rr_request r))) \<and>
     (\<forall>fr \<in> set (rv_processQueue s). Q fr) \<and> (\<forall>r. authentic rx (dom_client_id r) r \<longrightarrow> Q (dom_frame rx r))"

definition forwarded_ok :: "'k receiver_env \<Rightarrow> frame \<Rightarrow> bool" where
  "forwarded_ok rx fr \<longleftrightarrow> (\<exists>r. fr = dom_frame rx r \<and> authentic rx (dom_client_id r) r)"

lemma rcv_ok_init: "(\<And>r. authentic rx (dom_client_id r) r \<Longrightarrow> Q (dom_frame rx r)) \<Longrightarrow> rcv_ok rx Q receiver_init"
  by (simp add: rcv_ok_def receiver_init_def)

lemma measure_sel [simp]:
  "rv_objs (measure_owd rx t p st d s) = rv_objs s"
  "rv_deadlineQueue (measure_owd rx t p st d s) = rv_deadlineQueue s"
  "rv_verifyQueue (measure_owd rx t p st d s) = rv_verifyQueue s"
  "rv_processQueue (measure_owd rx t p st d s) = rv_processQueue s"
  by (simp_all add: measure_owd_def)

lemma rcv_ok_measure [simp]: "rcv_ok rx Q (measure_owd rx t p st d s) = rcv_ok rx Q s"
  by (simp add: rcv_ok_def)

lemma rcv_ok_enqueue:
  assumes "rcv_ok rx Q s" and "enqueueReceiverRequest rx now r s = Inr s'"
  shows "rcv_ok rx Q s'"
proof -
  let ?r = "if dom_deadline r < now then r\<lparr>dom_late := True\<rparr> else r"
  let ?k = "(if rx_ignoreDeadlines rx then now else dom_deadline r, dom_client_id r)"
  let ?o = "\<lparr>rr_request = ?r, rr_deadline = dom_deadline r, rr_clientId = dom_client_id r, rr_verified = False\<rparr>"
  let ?s = "s\<lparr>rv_objs := rv_objs s @ [?o], rv_deadlineQueue := sm_put ?k (length (rv_objs s)) (rv_deadlineQueue s),
    rv_verifyQueue := rv_verifyQueue s @ [length (rv_objs s)]\<rparr>"
  have s': "\<exists>a b c. s' = measure_owd rx a b c (To_Proxy b) ?s"
    using assms(2) by (auto simp: enqueueReceiverRequest_def Let_def split: if_splits)
  have "rcv_ok rx Q ?s"
    using assms(1) by (auto simp: rcv_ok_def sm_put_set nth_append)
  then show ?thesis using s' by auto
qed

lemma rcv_ok_forward:
  assumes "rcv_ok rx Q s" and "authentic rx (dom_client_id r) r"
  shows "rcv_ok rx Q (forwardRequest rx r s)"
  using assms by (auto simp: rcv_ok_def forwardRequest_def dom_frame_def)

lemma forward_sel [simp]:
  "rv_objs (forwardRequest rx r s) = rv_objs s" "rv_deadlineQueue (forwardRequest rx r s) = rv_deadlineQueue s"
  "rv_verifyQueue (forwardRequest rx r s) = rv_verifyQueue s"
  "rv_processQueue (forwardRequest rx r s) = rv_processQueue s @
     [\<lparr>fr_type = code_of_type DOM_REQUEST, fr_body = wp_ser (rx_wire rx) (M_DOMRequest r), fr_sig = []\<rparr>]"
  by (simp_all add: forwardRequest_def)

lemma rcv_ok_suffix:
  "rcv_ok rx Q s \<Longrightarrow> rv_deadlineQueue s = a @ b \<Longrightarrow> rcv_ok rx Q (s\<lparr>rv_deadlineQueue := b\<rparr>)"
  by (auto simp: rcv_ok_def sm_ok_append)

lemma rcv_ok_loop:
  assumes "rcv_ok rx Q (s\<lparr>rv_deadlineQueue := q\<rparr>)"
  shows "rcv_ok rx Q (deadline_loop rx now q s)"
  using assms
proof (induction rx now q s rule: deadline_loop.induct)
  case (2 rx now k p q s)
  show ?case
  proof (cases "fst k \<le> now \<and> rr_verified (rv_objs s ! p)")
    case True
    let ?r = "rr_request (rv_objs s ! p)"
    have p: "p < length (rv_objs s)" using "2.prems" by (auto simp: rcv_ok_def)
    then have "authentic rx (dom_client_id ?r) ?r"
      using "2.prems" True nth_mem [OF p] by (auto simp: rcv_ok_def)
    moreover have "rcv_ok rx Q (s\<lparr>rv_deadlineQueue := q\<rparr>)"
      using rcv_ok_suffix [OF "2.prems", of "[(k, p)]" q] by simp
    ultimately have "rcv_ok rx Q (forwardRequest rx ?r (s\<lparr>rv_deadlineQueue := q\<rparr>))"
      by (intro rcv_ok_forward)
    moreover have "(forwardRequest rx ?r s)\<lparr>rv_deadlineQueue := q\<rparr> = forwardRequest rx ?r (s\<lparr>rv_deadlineQueue := q\<rparr>)"
      by (simp add: forwardRequest_def receiver.equality)
    ultimately have "rcv_ok rx Q ((forwardRequest rx ?r s)\<lparr>rv_deadlineQueue := q\<rparr>)" by simp
    then show ?thesis using "2.IH" True by simp
  qed (use "2.prems" in auto)
qed simp

lemma rcv_ok_verify:
  assumes "rcv_ok rx Q s" and "receiverVerify rx s = Inr s'"
  shows "rcv_ok rx Q s'"
proof (cases "rv_verifyQueue s")
  case (Cons p q)
  let ?r = "rv_objs s ! p" and ?s = "s\<lparr>rv_verifyQueue := q\<rparr>"
  have p: "p < length (rv_objs s)" using assms(1) Cons by (simp add: rcv_ok_def)
  have base: "rcv_ok rx Q ?s" using assms(1) Cons by (auto simp: rcv_ok_def)
  have r: "rr_clientId ?r = dom_client_id (rr_request ?r)" "rr_deadline ?r = dom_deadline (rr_request ?r)"
    using assms(1) nth_mem [OF p] by (auto simp: rcv_ok_def)
  obtain fr where fr: "read_frame (dom_client_req (rr_request ?r)) = Inr fr"
    using assms(2) Cons by (auto simp: receiverVerify_def Let_def elim!: bindE_InrE)
  consider "s' = ?s" | "s' = ?s\<lparr>rv_deadlineQueue := sm_del (rr_deadline ?r, rr_clientId ?r) (rv_deadlineQueue s)\<rparr>"
    | "authentic rx (rr_clientId ?r) (rr_request ?r)" "s' = ?s\<lparr>rv_objs := (rv_objs s)[p := ?r\<lparr>rr_verified := True\<rparr>]\<rparr>"
    using assms(2) Cons fr
    by (auto simp: receiverVerify_def Let_def bindE_eq_Inr authentic_def split: option.splits proto_msg.splits if_splits)
  then show ?thesis
  proof cases
    case 2
    then show ?thesis using base by (auto simp: rcv_ok_def sm_del_def)
  next
    case 3
    have "rcv_ok rx Q (?s\<lparr>rv_objs := (rv_objs s)[p := ?r\<lparr>rr_verified := True\<rparr>]\<rparr>)"
      using base r 3(1) p by (auto simp: rcv_ok_def nth_list_update dest!: set_update_subset_insert [THEN subsetD])
    then show ?thesis using 3 by simp
  qed (use base in simp)
qed (use assms in \<open>simp add: receiverVerify_def\<close>)

lemma rcv_ok_receive:
  assumes "rcv_ok rx Q s"
  shows "receiveRequest rx now sender body s = Inr s' \<Longrightarrow> rcv_ok rx Q s'"
    and "receiveBatchedRequests rx now sender body s = Inr s' \<Longrightarrow> rcv_ok rx Q s'"
    and "rcv_ok rx Q (snd (checkDeadlines rx now s))"
proof -
  show "rcv_ok rx Q s'" if "receiveRequest rx now sender body s = Inr s'"
    using that assms
    by (auto simp: receiveRequest_def split: option.splits proto_msg.splits elim!: bindE_InrE intro: rcv_ok_enqueue)
  have "rcv_ok rx Q t" if "foldE (enqueueReceiverRequest rx now) rs s = Inr t" for rs t
    using foldE_invariant [where P = "rcv_ok rx Q", OF that assms] rcv_ok_enqueue by blast
  then show "rcv_ok rx Q s'" if "receiveBatchedRequests rx now sender body s = Inr s'"
    using that assms
    by (auto simp: receiveBatchedRequests_def split: option.splits proto_msg.splits elim!: bindE_InrE)
  show "rcv_ok rx Q (snd (checkDeadlines rx now s))"
    using assms rcv_ok_loop [where rx = rx and Q = Q and s = s and q = "rv_deadlineQueue s" and now = now]
    by (simp add: checkDeadlines_def Let_def)
qed

lemma rcv_reach_ok:
  assumes "rcv_reach rx s"
  shows "rcv_ok rx (forwarded_ok rx) s"
  using assms
proof (induction rule: rcv_reach.induct)
  case (deadlines s now t s')
  then show ?case using rcv_ok_receive(3) by (metis snd_conv)
qed (auto simp: forwarded_ok_def intro: rcv_ok_init rcv_ok_verify rcv_ok_receive)

text \<open>The entries a check forwards: the longest beginning of the queue that is due and verified.\<close>

definition ready :: "u64 \<Rightarrow> receiver \<Rightarrow> (u64 \<times> u32) \<times> nat \<Rightarrow> bool" where
  "ready now s e \<longleftrightarrow> fst (fst e) \<le> now \<and> rr_verified (rv_objs s ! snd e)"

lemma deadline_loop_effect:
  "rv_deadlineQueue (deadline_loop rx now q s) = dropWhile (ready now s) q \<and>
   rv_objs (deadline_loop rx now q s) = rv_objs s \<and>
   rv_verifyQueue (deadline_loop rx now q s) = rv_verifyQueue s \<and>
   rv_processQueue (deadline_loop rx now q s) =
     rv_processQueue s @ map (\<lambda>e. dom_frame rx (rr_request (rv_objs s ! snd e))) (takeWhile (ready now s) q)"
  by (induction rx now q s rule: deadline_loop.induct) (simp_all add: ready_def dom_frame_def)

section \<open>Properties\<close>

text \<open>C20: in every reachable state of the receiver, each message it put into the process queue is a proxy's
  request whose embedded client message parses and carries a valid signature of that client.\<close>

theorem receiver_forwards_authentic:
  assumes "rcv_reach rx s" and "fr \<in> set (rv_processQueue s)"
  shows "\<exists>r. fr = dom_frame rx r \<and> authentic rx (dom_client_id r) r"
  using rcv_reach_ok [OF assms(1)] assms(2) by (auto simp: rcv_ok_def forwarded_ok_def)

text \<open>C28: in reachable states a check of the deadlines forwards exactly the longest beginning of the queue whose requests are
  due and verified, in ascending order of deadline and client, and leaves the rest.\<close>

theorem checkDeadlines_prefix:
  assumes "rcv_reach rx s" and "checkDeadlines rx now s = (t, s')"
  shows "rv_processQueue s' = rv_processQueue s @
      map (\<lambda>e. dom_frame rx (rr_request (rv_objs s ! snd e))) (takeWhile (ready now s) (rv_deadlineQueue s)) \<and>
    sorted_wrt (<) (map fst (takeWhile (ready now s) (rv_deadlineQueue s))) \<and>
    rv_deadlineQueue s' = dropWhile (ready now s) (rv_deadlineQueue s)"
proof -
  have "sm_ok (rv_deadlineQueue s)" using rcv_reach_ok [OF assms(1)] by (simp add: rcv_ok_def)
  then have "sm_ok (takeWhile (ready now s) (rv_deadlineQueue s))" by simp
  then show ?thesis
    using assms(2) deadline_loop_effect [of rx now "rv_deadlineQueue s" s]
    by (auto simp: checkDeadlines_def Let_def sm_ok_def)
qed

text \<open>A request at the head of the queue whose embedded client message does not parse is never verified:
  the thread takes it from its queue and skips it, and then no check, however late, forwards
  anything behind it.\<close>

theorem receiver_unparsable_head_blocks:
  assumes "rv_deadlineQueue s = (k, p) # q" and "rv_verifyQueue s = p # vq" and "\<not> rr_verified (rv_objs s ! p)"
    and "read_frame (dom_client_req (rr_request (rv_objs s ! p))) = Inr fr"
    and "wp_parse (rx_wire rx) CLIENT_REQUEST (fr_body fr) = None"
  shows "\<exists>s'. receiverVerify rx s = Inr s' \<and> rv_verifyQueue s' = vq \<and>
    (\<forall>now. rv_processQueue (snd (checkDeadlines rx now s')) = rv_processQueue s \<and>
           rv_deadlineQueue (snd (checkDeadlines rx now s')) = (k, p) # q)"
  using assms by (simp add: receiverVerify_def Let_def checkDeadlines_def)

text \<open>A receiver with one request of client 3, for the witnesses.\<close>

definition demo_rx :: "unit receiver_env" where
  "demo_rx =
     \<lparr>rx_wire = \<lparr>wp_sha = (\<lambda>b. b),
        wp_parse = (\<lambda>t b. if t = DOM_REQUEST then Some (M_DOMRequest \<lparr>dom_deadline = 10, dom_send_time = 1, dom_proxy_id = 0,
              dom_late = False, dom_deadline_set_size = 0, dom_client_id = 3, dom_client_seq = 1,
              dom_client_req = frame_bytes \<lparr>fr_type = 1, fr_body = b, fr_sig = []\<rparr>\<rparr>)
            else if t = CLIENT_REQUEST \<and> b = [7] then Some (M_ClientRequest \<lparr>crq_client_id = 3, crq_client_seq = 1,
              crq_send_time = 1, crq_deadline = 0, crq_is_write = False, crq_req_data = []\<rparr>)
            else None),
        wp_ser = (\<lambda>m. []),
        wp_sig = \<lparr>sp_pubKeys = (\<lambda>n. Some ()), sp_verifier = (\<lambda>_ d sig. True), sp_sign = (\<lambda>d. []), sp_maxSigLen = 0\<rparr>,
        wp_hmac = (\<lambda>k d. []), wp_hmacKeys = (\<lambda>n. None)\<rparr>,
      rx_replicaId = 0, rx_numProxies = 1, rx_ignoreDeadlines = False, rx_useHMAC = False\<rparr>"

definition demo_queued :: "bytes \<Rightarrow> bool \<Rightarrow> nat list \<Rightarrow> receiver" where
  "demo_queued b v vq =
     \<lparr>rv_objs = [\<lparr>rr_request = \<lparr>dom_deadline = 10, dom_send_time = 1, dom_proxy_id = 0, dom_late = False,
          dom_deadline_set_size = 0, dom_client_id = 3, dom_client_seq = 1,
          dom_client_req = frame_bytes \<lparr>fr_type = 1, fr_body = b, fr_sig = []\<rparr>\<rparr>,
        rr_deadline = 10, rr_clientId = 3, rr_verified = v\<rparr>],
      rv_deadlineQueue = [((10, 3), 0)], rv_verifyQueue = vq, rv_lastMeasurementTimes = [(0, 0)],
      rv_numForwarded = 0, rv_lastFwdDeadline = 0, rv_processQueue = [], rv_sent = []\<rparr>"

lemma demo_read_frame:
  "read_frame (frame_bytes \<lparr>fr_type = 1, fr_body = [b], fr_sig = []\<rparr>) = Inr \<lparr>fr_type = 1, fr_body = [b], fr_sig = []\<rparr>"
  using frame_roundtrip [of "\<lparr>fr_type = 1, fr_body = [b], fr_sig = []\<rparr>" "[]"] by simp

lemmas demo_rx_simps = demo_rx_def demo_queued_def demo_read_frame receiver_init_def

lemma demo_rx_request: "receiveRequest demo_rx 5 [] [7] receiver_init = Inr (demo_queued [7] False [0])"
  by (simp add: receiveRequest_def enqueueReceiverRequest_def measure_due_def measure_owd_def demo_rx_simps
      sm_at_def sm_insert_def sm_has_def Let_def)

lemma demo_rx_verify: "receiverVerify demo_rx (demo_queued [7] False [0]) = Inr (demo_queued [7] True [])"
  by (simp add: receiverVerify_def client_verified_def sig_verify_frame_def sig_verify_def demo_rx_simps Let_def)

lemma demo_rx_reach: "rcv_reach demo_rx (demo_queued [7] True [])"
  using rcv_reach.verify [OF rcv_reach.request [OF rcv_reach.init demo_rx_request] demo_rx_verify] .

theorem receiver_forwards_authentic_witness:
  "\<exists>r. dom_frame demo_rx (rr_request (rv_objs (demo_queued [7] True []) ! 0)) = dom_frame demo_rx r \<and>
     authentic demo_rx (dom_client_id r) r"
proof (rule receiver_forwards_authentic)
  show "rcv_reach demo_rx (snd (checkDeadlines demo_rx 12 (demo_queued [7] True [])))"
    by (rule rcv_reach.deadlines [OF demo_rx_reach]) (rule prod.collapse [symmetric])
  show "dom_frame demo_rx (rr_request (rv_objs (demo_queued [7] True []) ! 0)) \<in>
      set (rv_processQueue (snd (checkDeadlines demo_rx 12 (demo_queued [7] True []))))"
    by (simp add: checkDeadlines_def forwardRequest_def dom_frame_def demo_queued_def Let_def)
qed

theorem checkDeadlines_prefix_witness:
  "rv_deadlineQueue (snd (checkDeadlines demo_rx 12 (demo_queued [7] True []))) = []"
  using checkDeadlines_prefix [OF demo_rx_reach prod.collapse [symmetric], of 12]
  by (simp add: ready_def demo_queued_def)

theorem receiver_unparsable_head_blocks_witness:
  "\<exists>s'. receiverVerify demo_rx (demo_queued [9] False [0]) = Inr s' \<and>
     rv_processQueue (snd (checkDeadlines demo_rx 1000 s')) = []"
  using receiver_unparsable_head_blocks [of "demo_queued [9] False [0]" "(10, 3)" 0 "[]" "[]"
      "\<lparr>fr_type = 1, fr_body = [9], fr_sig = []\<rparr>" demo_rx]
  by (force simp: demo_rx_simps)

end
