(* ===== verification/ReplicaNode.thy ===== *)
theory ReplicaNode
  imports Repair Receiver
begin

text \<open>
  The replica process as a whole (\<open>processes/replica/replica.cc\<close>): the preserialisation
  experiment, the dispatch of the process thread, the routing of incoming messages and the
  queues between the threads. A step of the process is one turn of one thread.
\<close>

section \<open>What the execution of a request changes\<close>

text \<open>A state without the log, the collectors, the checkpoint timer, the snapshot queue and the
  output, which are all that the execution of a request changes.\<close>

definition core :: "'s replica \<Rightarrow> 's replica" where
  "core s = s\<lparr>rp_log := undefined, rp_collectors := undefined, rp_checkpointTimeoutStart := 0,
     rp_snapshotQueue := [], rp_out := []\<rparr>"

lemma core_simps [simp]:
  "core (s\<lparr>rp_log := a\<rparr>) = core s" "core (s\<lparr>rp_collectors := b\<rparr>) = core s"
  "core (s\<lparr>rp_checkpointTimeoutStart := c\<rparr>) = core s" "core (s\<lparr>rp_snapshotQueue := d\<rparr>) = core s"
  "core (s\<lparr>rp_out := e\<rparr>) = core s"
  "core (sendMsgToDst env m t dst s) = core s" "core (broadcastToReplicas env m t s) = core s"
  by (simp_all add: core_def sendMsgToDst_def broadcastToReplicas_def)

lemma coreD:
  assumes "core s' = core s"
  shows "rp_round s' = rp_round s" "rp_repair s' = rp_repair s" "rp_repairQueuedReqs s' = rp_repairQueuedReqs s"
    "rp_repairProposal s' = rp_repairProposal s" "rp_proposalDigest s' = rp_proposalDigest s"
    "rp_repairStartMsgs s' = rp_repairStartMsgs s" "rp_pbftView s' = rp_pbftView s"
    "rp_preparedRound s' = rp_preparedRound s" "rp_viewPrepared s' = rp_viewPrepared s"
    "rp_lastPreparedState s' = rp_lastPreparedState s" "rp_replicaViews s' = rp_replicaViews s"
    "rp_repairPrepares s' = rp_repairPrepares s" "rp_repairPBFTCommits s' = rp_repairPBFTCommits s"
    "rp_psForwardBuffer s' = rp_psForwardBuffer s" "rp_psOrderRequests s' = rp_psOrderRequests s"
    "rp_psOrderSeqs s' = rp_psOrderSeqs s" "rp_heldRequest s' = rp_heldRequest s"
    "rp_pendingMissingRequests s' = rp_pendingMissingRequests s"
    "rp_missingRequestFetchSent s' = rp_missingRequestFetchSent s" "rp_repairStart s' = rp_repairStart s"
proof -
  note * = arg_cong [OF assms]
  show "rp_round s' = rp_round s" using * [of rp_round] by (simp add: core_def)
  show "rp_repair s' = rp_repair s" using * [of rp_repair] by (simp add: core_def)
  show "rp_repairQueuedReqs s' = rp_repairQueuedReqs s" using * [of rp_repairQueuedReqs] by (simp add: core_def)
  show "rp_repairProposal s' = rp_repairProposal s" using * [of rp_repairProposal] by (simp add: core_def)
  show "rp_proposalDigest s' = rp_proposalDigest s" using * [of rp_proposalDigest] by (simp add: core_def)
  show "rp_repairStartMsgs s' = rp_repairStartMsgs s" using * [of rp_repairStartMsgs] by (simp add: core_def)
  show "rp_pbftView s' = rp_pbftView s" using * [of rp_pbftView] by (simp add: core_def)
  show "rp_preparedRound s' = rp_preparedRound s" using * [of rp_preparedRound] by (simp add: core_def)
  show "rp_viewPrepared s' = rp_viewPrepared s" using * [of rp_viewPrepared] by (simp add: core_def)
  show "rp_lastPreparedState s' = rp_lastPreparedState s" using * [of rp_lastPreparedState] by (simp add: core_def)
  show "rp_replicaViews s' = rp_replicaViews s" using * [of rp_replicaViews] by (simp add: core_def)
  show "rp_repairPrepares s' = rp_repairPrepares s" using * [of rp_repairPrepares] by (simp add: core_def)
  show "rp_repairPBFTCommits s' = rp_repairPBFTCommits s" using * [of rp_repairPBFTCommits] by (simp add: core_def)
  show "rp_psForwardBuffer s' = rp_psForwardBuffer s" using * [of rp_psForwardBuffer] by (simp add: core_def)
  show "rp_psOrderRequests s' = rp_psOrderRequests s" using * [of rp_psOrderRequests] by (simp add: core_def)
  show "rp_psOrderSeqs s' = rp_psOrderSeqs s" using * [of rp_psOrderSeqs] by (simp add: core_def)
  show "rp_heldRequest s' = rp_heldRequest s" using * [of rp_heldRequest] by (simp add: core_def)
  show "rp_pendingMissingRequests s' = rp_pendingMissingRequests s"
    using * [of rp_pendingMissingRequests] by (simp add: core_def)
  show "rp_missingRequestFetchSent s' = rp_missingRequestFetchSent s"
    using * [of rp_missingRequestFetchSent] by (simp add: core_def)
  show "rp_repairStart s' = rp_repairStart s" using * [of rp_repairStart] by (simp add: core_def)
qed

lemma startCheckpoint_core [simp]: "startCheckpoint env b s = Inr s' \<Longrightarrow> core s' = core s"
  by (auto simp: startCheckpoint_def Let_def elim!: bindE_InrE split: if_splits prod.splits)

lemma processClientRequest_core: "processClientRequest env r q s = Inr s' \<Longrightarrow> core s' = core s"
  by (auto simp: processClientRequest_def Let_def elim!: bindE_InrE split: if_splits prod.splits)

section \<open>Preserialisation\<close>

text \<open>The loop over the buffer counts on by itself, whatever the log does with a request.\<close>

function drain_forward :: "('s, 'k) replica_env \<Rightarrow> u32 \<Rightarrow> 's replica \<Rightarrow> 's replica res" where
  "drain_forward env k s =
     (case map_of (rp_psForwardBuffer s) k of None \<Rightarrow> Inr s
      | Some req \<Rightarrow>
          bindE (processClientRequest env req False s) (\<lambda>s1.
          drain_forward env (k + 1) (s1\<lparr>rp_psForwardBuffer := sm_del k (rp_psForwardBuffer s1)\<rparr>)))"
  by pat_completeness auto

lemma length_sm_del_less: "map_of m k = Some v \<Longrightarrow> length (sm_del k m) < length m"
  unfolding sm_del_def by (rule length_filter_less [of "(k, v)"]) (auto dest: map_of_SomeD)

termination drain_forward
  by (relation "Wellfounded.measure (\<lambda>(env, k, s). length (rp_psForwardBuffer s))")
    (auto simp: length_sm_del_less dest!: processClientRequest_core coreD(14))

text \<open>The loop over the ordered requests ends at the first number that has no request yet.\<close>

function checkPSOrderRequests :: "('s, 'k) replica_env \<Rightarrow> 's replica \<Rightarrow> 's replica res" where
  "checkPSOrderRequests env s =
     (case map_of (rp_psOrderSeqs s) (lg_nextSeq (rp_log s)) of None \<Rightarrow> Inr s
      | Some key \<Rightarrow>
          (case map_of (rp_psOrderRequests s) key of None \<Rightarrow> Inr s
           | Some req \<Rightarrow>
               bindE (processClientRequest env req False
                        (s\<lparr>rp_psOrderRequests := sm_del key (rp_psOrderRequests s),
                           rp_psOrderSeqs := sm_del (lg_nextSeq (rp_log s)) (rp_psOrderSeqs s)\<rparr>))
                 (checkPSOrderRequests env)))"
  by pat_completeness auto

termination checkPSOrderRequests
  by (relation "Wellfounded.measure (\<lambda>(env, s). length (rp_psOrderSeqs s))")
    (auto simp: length_sm_del_less dest!: processClientRequest_core coreD(16))

declare drain_forward.simps [simp del] checkPSOrderRequests.simps [simp del]

definition sendToOthers :: "proto_msg \<Rightarrow> message_type \<Rightarrow> 's replica \<Rightarrow> 's replica" where
  "sendToOthers msg t s = s\<lparr>rp_out := rp_out s @ [(To_Others, t, msg)]\<rparr>"

definition processPSClient :: "('s, 'k) replica_env \<Rightarrow> client_request \<Rightarrow> bytes \<Rightarrow> 's replica \<Rightarrow> 's replica res" where
  "processPSClient env req sig s =
     (case cfg_preserializationMode (re_config env) of
        PS_Full \<Rightarrow>
          processClientRequest env req False
            (sendToOthers (M_PSForward \<lparr>psf_seq = lg_nextSeq (rp_log s), psf_request = req, psf_client_signature = sig\<rparr>)
               PS_LEADER_FORWARD s)
      | PS_Order \<Rightarrow>
          if re_id env = 0 then
            processClientRequest env req False
              (sendToOthers (M_PSOrder \<lparr>pso_client_id = crq_client_id req, pso_client_seq = crq_client_seq req,
                  pso_seq = lg_nextSeq (rp_log s)\<rparr>) PS_LEADER_ORDER s)
          else Inr (s\<lparr>rp_psOrderRequests := sm_put (crq_client_id req, crq_client_seq req) req (rp_psOrderRequests s)\<rparr>)
      | PS_Disabled \<Rightarrow> Inr s)"

definition processPSLeaderForward :: "('s, 'k) replica_env \<Rightarrow> ps_leader_forward \<Rightarrow> 's replica \<Rightarrow> 's replica res" where
  "processPSLeaderForward env f s =
     (if psf_seq f = lg_nextSeq (rp_log s)
      then bindE (processClientRequest env (psf_request f) False s) (\<lambda>s1. drain_forward env (lg_nextSeq (rp_log s1)) s1)
      else checkPSOrderRequests env
             (s\<lparr>rp_psForwardBuffer := sm_insert (psf_seq f) (psf_request f) (rp_psForwardBuffer s)\<rparr>))"

definition processPSLeaderOrder :: "('s, 'k) replica_env \<Rightarrow> ps_leader_order \<Rightarrow> 's replica \<Rightarrow> 's replica res" where
  "processPSLeaderOrder env p s =
     checkPSOrderRequests env
       (s\<lparr>rp_psOrderSeqs := sm_put (pso_seq p) (pso_client_id p, pso_client_seq p) (rp_psOrderSeqs s)\<rparr>)"

section \<open>The process thread\<close>

text \<open>A message of the process queue: the state, and whether the thread goes on (it returns when a
  message of most types does not parse). A request from the receiver carries the client's message
  in its \<open>client_req\<close>.\<close>

definition handle_request :: "('s, 'k) replica_env \<Rightarrow> u64 \<Rightarrow> client_request \<Rightarrow> 's replica \<Rightarrow> 's replica res" where
  "handle_request env deadline c s =
     (let req = c\<lparr>crq_deadline := deadline\<rparr>
      in if rp_repair s then queueDuringRepair env deadline req s
         else if re_swapFreq env \<noteq> 0 \<and> lg_nextSeq (rp_log s) mod re_swapFreq env = 0 then holdAndSwapCliReq env req s
         else processClientRequest env req False s)"

definition process_dom :: "('s, 'k) replica_env \<Rightarrow> bytes \<Rightarrow> 's replica \<Rightarrow> (bool \<times> 's replica) res" where
  "process_dom env body s =
     (case wp_parse (re_wire env) DOM_REQUEST body of
        Some (M_DOMRequest dm) \<Rightarrow>
          bindE (read_body (dom_client_req dm)) (\<lambda>clientBody.
          case wp_parse (re_wire env) CLIENT_REQUEST clientBody of
            Some (M_ClientRequest c) \<Rightarrow> bindE (handle_request env (dom_deadline dm) c s) (\<lambda>s'. Inr (True, s'))
          | _ \<Rightarrow> Inr (True, s))
      | _ \<Rightarrow> Inr (False, s))"

definition goOn :: "'s replica res \<Rightarrow> (bool \<times> 's replica) res" where
  "goOn r = bindE r (\<lambda>s. Inr (True, s))"

definition process_normal_msg ::
  "('s, 'k) replica_env \<Rightarrow> message_type \<Rightarrow> frame \<Rightarrow> 's replica \<Rightarrow> (bool \<times> 's replica) res" where
  "process_normal_msg env t fr s =
     (case (t, wp_parse (re_wire env) t (fr_body fr)) of
        (CLIENT_REQUEST, Some (M_ClientRequest r)) \<Rightarrow> goOn (processClientRequest env r False s)
      | (CLIENT_REQUEST, _) \<Rightarrow> Inr (True, s)
      | (CERT, Some (M_Cert c)) \<Rightarrow> goOn (processCert env c s)
      | (REPLY, Some (M_Reply r)) \<Rightarrow> goOn (processReply env r (fr_sig fr) s)
      | (COMMIT, Some (M_Commit c)) \<Rightarrow> goOn (processCommit env c (fr_sig fr) s)
      | (SNAPSHOT_REQUEST, Some (M_SnapshotRequest r)) \<Rightarrow> goOn (processSnapshotRequest env r s)
      | (SNAPSHOT_REPLY, Some (M_SnapshotReply r)) \<Rightarrow> goOn (processSnapshotReply env r s)
      | (MISSING_REQUEST_FETCH, Some (M_MissingFetch r)) \<Rightarrow> goOn (processMissingRequestFetch env r s)
      | (MISSING_REQUEST_REPLY, Some (M_MissingReply r)) \<Rightarrow> goOn (processMissingRequestReply env r s)
      | _ \<Rightarrow> Inr (False, s))"

definition process_repair_msg ::
  "('s, 'k) replica_env \<Rightarrow> message_type \<Rightarrow> frame \<Rightarrow> 's replica \<Rightarrow> (bool \<times> 's replica) res" where
  "process_repair_msg env t fr s =
     (case (t, wp_parse (re_wire env) t (fr_body fr)) of
        (REPAIR_TIMEOUT, Some (M_RepairTimeout r)) \<Rightarrow> goOn (processRepairTimeout env r (fr_sig fr) s)
      | (REPAIR_REPLY_PROOF, Some (M_RepairReplyProof p)) \<Rightarrow> goOn (processRepairReplyProof env p s)
      | (REPAIR_TIMEOUT_PROOF, Some (M_RepairTimeoutProof p)) \<Rightarrow> goOn (processRepairTimeoutProof env p s)
      | (REPAIR_START, Some (M_RepairStart m)) \<Rightarrow> Inr (True, processRepairStart env m (fr_sig fr) s)
      | (PBFT_PREPREPARE, Some (M_PrePrepare p)) \<Rightarrow> goOn (processPrePrepare env p s)
      | (PBFT_PREPARE, Some (M_Prepare p)) \<Rightarrow> goOn (processPrepare env p (fr_sig fr) s)
      | (PBFT_COMMIT, Some (M_PBFTCommit c)) \<Rightarrow> goOn (processPBFTCommit env c (fr_sig fr) s)
      | (VIEW_UPDATE, Some (M_ViewUpdate v)) \<Rightarrow>
          goOn (updateReplicaView env (vu_replica_id v) (vu_view v) (vu_round v) s)
      | (VIEW_UPDATE, _) \<Rightarrow> Inr (True, s)
      | _ \<Rightarrow> Inr (False, s))"

definition process_ps_msg ::
  "('s, 'k) replica_env \<Rightarrow> message_type \<Rightarrow> frame \<Rightarrow> 's replica \<Rightarrow> 's replica res" where
  "process_ps_msg env t fr s =
     (case (t, wp_parse (re_wire env) t (fr_body fr)) of
        (PS_CLIENT, Some (M_ClientRequest r)) \<Rightarrow> processPSClient env r (fr_sig fr) s
      | (PS_LEADER_FORWARD, Some (M_PSForward f)) \<Rightarrow> processPSLeaderForward env f s
      | (PS_LEADER_ORDER, Some (M_PSOrder p)) \<Rightarrow> processPSLeaderOrder env p s
      | _ \<Rightarrow> Inr s)"

definition normal_types :: "message_type list" where
  "normal_types =
     [CLIENT_REQUEST, CERT, REPLY, COMMIT, SNAPSHOT_REQUEST, SNAPSHOT_REPLY, MISSING_REQUEST_FETCH,
      MISSING_REQUEST_REPLY]"

definition processMessage :: "('s, 'k) replica_env \<Rightarrow> frame \<Rightarrow> 's replica \<Rightarrow> (bool \<times> 's replica) res" where
  "processMessage env fr s =
     (case type_of_code (fr_type fr) of None \<Rightarrow> Inr (True, s)
      | Some t \<Rightarrow>
          if t = DOM_REQUEST then process_dom env (fr_body fr) s
          else if t \<in> set normal_types then process_normal_msg env t fr s
          else if t \<in> set repair_types then process_repair_msg env t fr s
          else goOn (process_ps_msg env t fr s))"

text \<open>One turn of \<open>processMessagesThd\<close>: the timeouts, one ready snapshot, and one message when the
  queue is not empty.\<close>

definition process_turn ::
  "('s, 'k) replica_env \<Rightarrow> frame option \<Rightarrow> 's replica \<Rightarrow> (bool \<times> 's replica) res" where
  "process_turn env msg s =
     bindE (checkTimeouts env s) (\<lambda>s1.
     bindE (case rp_snapshotQueue s1 of [] \<Rightarrow> Inr s1
            | (rd, snap) # q \<Rightarrow> processSnapshot env snap rd (s1\<lparr>rp_snapshotQueue := q\<rparr>)) (\<lambda>s2.
     case msg of None \<Rightarrow> Inr (True, s2) | Some fr \<Rightarrow> processMessage env fr s2))"

section \<open>The threads and their queues\<close>

text \<open>The process queue is shared with the receiver, whose state holds it. The last check time is
  the main thread's.\<close>

record 's node =
  nd_verifyQueue :: "frame list"
  nd_receiver :: receiver
  nd_replica :: "'s replica"
  nd_lastCheckTime :: u64
  nd_verifyThreads :: nat
  nd_processRunning :: bool

record ('s, 'k) node_env =
  ne_replica :: "('s, 'k) replica_env"
  ne_receiver :: "'k receiver_env"
  ne_ip :: bytes
  ne_numVerifyThreads :: nat

text \<open>The address comparison is by IP alone.\<close>

definition handleMessage :: "('s, 'k) node_env \<Rightarrow> u64 \<Rightarrow> bytes \<Rightarrow> frame \<Rightarrow> 's node \<Rightarrow> 's node res" where
  "handleMessage ne now sender fr nd =
     (let t = type_of_code (fr_type fr); rv = nd_receiver nd
      in if t = Some DOM_REQUEST
         then bindE (receiveRequest (ne_receiver ne) now sender (fr_body fr) rv) (\<lambda>rv'. Inr (nd\<lparr>nd_receiver := rv'\<rparr>))
         else if t = Some DOM_BATCH_REQUEST
         then bindE (receiveBatchedRequests (ne_receiver ne) now sender (fr_body fr) rv) (\<lambda>rv'. Inr (nd\<lparr>nd_receiver := rv'\<rparr>))
         else if t = Some PS_CLIENT then Inr (nd\<lparr>nd_verifyQueue := nd_verifyQueue nd @ [fr]\<rparr>)
         else if sender = ne_ip ne then Inr (nd\<lparr>nd_receiver := rv\<lparr>rv_processQueue := rv_processQueue rv @ [fr]\<rparr>\<rparr>)
         else Inr (nd\<lparr>nd_verifyQueue := nd_verifyQueue nd @ [fr]\<rparr>))"

text \<open>The registered handler also checks the deadlines once a millisecond.\<close>

definition onMessage :: "('s, 'k) node_env \<Rightarrow> u64 \<Rightarrow> bytes \<Rightarrow> frame \<Rightarrow> 's node \<Rightarrow> 's node res" where
  "onMessage ne now sender fr nd =
     bindE (handleMessage ne now sender fr nd) (\<lambda>nd1.
     Inr (if 1000 < now - nd_lastCheckTime nd1
          then nd1\<lparr>nd_lastCheckTime := now, nd_receiver := snd (checkDeadlines (ne_receiver ne) now (nd_receiver nd1))\<rparr>
          else nd1))"

definition verify_turn :: "('s, 'k) node_env \<Rightarrow> 's node \<Rightarrow> 's node res" where
  "verify_turn ne nd =
     (case nd_verifyQueue nd of [] \<Rightarrow> Inr nd
      | fr # q \<Rightarrow>
          bindE (verify_message (re_wire (ne_replica ne)) (re_cm (ne_replica ne)) fr) (\<lambda>v.
          let nd1 = nd\<lparr>nd_verifyQueue := q\<rparr>
          in Inr (case v of
               Enqueue \<Rightarrow> nd1\<lparr>nd_receiver := (nd_receiver nd)\<lparr>rv_processQueue := rv_processQueue (nd_receiver nd) @ [fr]\<rparr>\<rparr>
             | DropMsg \<Rightarrow> nd1
             | ExitThread \<Rightarrow> nd1\<lparr>nd_verifyThreads := nd_verifyThreads nd - 1\<rparr>)))"

definition process_step :: "('s, 'k) node_env \<Rightarrow> u64 \<Rightarrow> 's node \<Rightarrow> 's node res" where
  "process_step ne now nd =
     (let rv = nd_receiver nd; env = (ne_replica ne)\<lparr>re_now := now\<rparr>;
          (msg, q) = (case rv_processQueue rv of [] \<Rightarrow> (None, []) | fr # q \<Rightarrow> (Some fr, q))
      in bindE (process_turn env msg (nd_replica nd)) (\<lambda>(goes_on, s).
         Inr (nd\<lparr>nd_receiver := rv\<lparr>rv_processQueue := q\<rparr>, nd_replica := s, nd_processRunning := goes_on\<rparr>)))"

definition node_init :: "('s, 'k) node_env \<Rightarrow> 's \<Rightarrow> 's node" where
  "node_init ne app =
     \<lparr>nd_verifyQueue = [], nd_receiver = receiver_init, nd_replica = replica_init (ne_replica ne) app,
      nd_lastCheckTime = 0, nd_verifyThreads = ne_numVerifyThreads ne, nd_processRunning = True\<rparr>"

text \<open>The reachable states: \<open>own\<close> is what arrives from the replica's own address.\<close>

inductive node_reach :: "('s, 'k) node_env \<Rightarrow> (frame \<Rightarrow> bool) \<Rightarrow> 's \<Rightarrow> 's node \<Rightarrow> bool" for ne own app where
  init: "node_reach ne own app (node_init ne app)"
| net: "node_reach ne own app nd \<Longrightarrow> sender = ne_ip ne \<longrightarrow> own fr \<Longrightarrow>
    onMessage ne now sender fr nd = Inr nd' \<Longrightarrow> node_reach ne own app nd'"
| verify: "node_reach ne own app nd \<Longrightarrow> 0 < nd_verifyThreads nd \<Longrightarrow> verify_turn ne nd = Inr nd' \<Longrightarrow>
    node_reach ne own app nd'"
| process: "node_reach ne own app nd \<Longrightarrow> nd_processRunning nd \<Longrightarrow> process_step ne now nd = Inr nd' \<Longrightarrow>
    node_reach ne own app nd'"
| timer: "node_reach ne own app nd \<Longrightarrow>
    node_reach ne own app (nd\<lparr>nd_receiver := snd (checkDeadlines (ne_receiver ne) now (nd_receiver nd))\<rparr>)"
| receiver: "node_reach ne own app nd \<Longrightarrow> receiverVerify (ne_receiver ne) (nd_receiver nd) = Inr rv \<Longrightarrow>
    node_reach ne own app (nd\<lparr>nd_receiver := rv\<rparr>)"

end
