(* ===== verification/Frames.thy ===== *)
theory Frames
  imports ReplicaNode
begin

text \<open>
  What the handlers of the replica leave alone. The votes of a repair are the stored prepares,
  commits and starts, and the view; the stage adds the commits sent, what is prepared, the
  proposal at hand and the round. The normal path, checkpoints and state transfer keep the stage.
\<close>

section \<open>Votes and stage\<close>

definition votes ::
  "'s replica \<Rightarrow> (u32, pbft_prepare) smap \<times> (u32, pbft_commit) smap \<times> (u32, repair_start) smap \<times> u32" where
  "votes s = (rp_repairPrepares s, rp_repairPBFTCommits s, rp_repairStartMsgs s, rp_pbftView s)"

text \<open>The commits the replica has sent.\<close>

definition commits_sent :: "'s replica \<Rightarrow> pbft_commit set" where
  "commits_sent s = {c. \<exists>dst t. (dst, t, M_PBFTCommit c) \<in> set (rp_out s)}"

type_synonym 's stage =
  "((u32, pbft_prepare) smap \<times> (u32, pbft_commit) smap \<times> (u32, repair_start) smap \<times> u32) \<times>
   pbft_commit set \<times> bool \<times> u32 \<times> repair_proposal option \<times> u32"

definition stage :: "'s replica \<Rightarrow> 's stage" where
  "stage s = (votes s, commits_sent s, rp_viewPrepared s, rp_preparedRound s, rp_repairProposal s, rp_round s)"

named_theorems stages

lemma votes_stage: "stage s' = stage s \<Longrightarrow> votes s' = votes s"
  by (simp add: stage_def)

lemma stage_sel:
  assumes "stage s' = stage s"
  shows "votes s' = votes s" "commits_sent s' = commits_sent s" "rp_viewPrepared s' = rp_viewPrepared s"
    "rp_preparedRound s' = rp_preparedRound s" "rp_repairProposal s' = rp_repairProposal s" "rp_round s' = rp_round s"
    "rp_pbftView s' = rp_pbftView s"
  using assms by (simp_all add: stage_def votes_def)

lemma votes_updates [simp]:
  "votes (s\<lparr>rp_round := a1\<rparr>) = votes s" "votes (s\<lparr>rp_log := a2\<rparr>) = votes s"
  "votes (s\<lparr>rp_collectors := a3\<rparr>) = votes s" "votes (s\<lparr>rp_checkpointSnapshotRequested := a4\<rparr>) = votes s"
  "votes (s\<lparr>rp_checkpointTimeoutStart := a5\<rparr>) = votes s" "votes (s\<lparr>rp_checkpointTimeoutSeqs := a6\<rparr>) = votes s"
  "votes (s\<lparr>rp_repair := a7\<rparr>) = votes s" "votes (s\<lparr>rp_repairSnapshotRequested := a8\<rparr>) = votes s"
  "votes (s\<lparr>rp_repairTimeoutStart := a9\<rparr>) = votes s" "votes (s\<lparr>rp_repairViewStart := b1\<rparr>) = votes s"
  "votes (s\<lparr>rp_pendingRepair := b2\<rparr>) = votes s" "votes (s\<lparr>rp_curRoundStartSeq := b3\<rparr>) = votes s"
  "votes (s\<lparr>rp_repairQueuedReqs := b4\<rparr>) = votes s" "votes (s\<lparr>rp_repairStart := b5\<rparr>) = votes s"
  "votes (s\<lparr>rp_repairProposal := b6\<rparr>) = votes s" "votes (s\<lparr>rp_proposalDigest := b7\<rparr>) = votes s"
  "votes (s\<lparr>rp_repairProposalLogSuffix := b8\<rparr>) = votes s" "votes (s\<lparr>rp_missingRequestFetchSent := b9\<rparr>) = votes s"
  "votes (s\<lparr>rp_pendingMissingRequests := c1\<rparr>) = votes s" "votes (s\<lparr>rp_preparedRound := c2\<rparr>) = votes s"
  "votes (s\<lparr>rp_viewPrepared := c3\<rparr>) = votes s" "votes (s\<lparr>rp_numConsecutiveViewChanges := c4\<rparr>) = votes s"
  "votes (s\<lparr>rp_lastPreparedState := c5\<rparr>) = votes s" "votes (s\<lparr>rp_replicaViews := c6\<rparr>) = votes s"
  "votes (s\<lparr>rp_repairPrepareSigs := c7\<rparr>) = votes s" "votes (s\<lparr>rp_repairCommitSigs := c8\<rparr>) = votes s"
  "votes (s\<lparr>rp_heldRequest := c9\<rparr>) = votes s" "votes (s\<lparr>rp_viewChangeRound := d1\<rparr>) = votes s"
  "votes (s\<lparr>rp_viewChangeCounter := d2\<rparr>) = votes s" "votes (s\<lparr>rp_holdPrepareOrCommit := d3\<rparr>) = votes s"
  "votes (s\<lparr>rp_psForwardBuffer := d4\<rparr>) = votes s" "votes (s\<lparr>rp_psOrderRequests := d5\<rparr>) = votes s"
  "votes (s\<lparr>rp_psOrderSeqs := d6\<rparr>) = votes s" "votes (s\<lparr>rp_snapshotQueue := d7\<rparr>) = votes s"
  "votes (s\<lparr>rp_out := d8\<rparr>) = votes s" "votes (s\<lparr>rp_repairHistorySigs := d9\<rparr>) = votes s"
  by (simp_all add: votes_def)

lemma stage_updates [simp]:
  "stage (s\<lparr>rp_log := a2\<rparr>) = stage s" "stage (s\<lparr>rp_collectors := a3\<rparr>) = stage s"
  "stage (s\<lparr>rp_checkpointSnapshotRequested := a4\<rparr>) = stage s" "stage (s\<lparr>rp_checkpointTimeoutStart := a5\<rparr>) = stage s"
  "stage (s\<lparr>rp_checkpointTimeoutSeqs := a6\<rparr>) = stage s" "stage (s\<lparr>rp_repair := a7\<rparr>) = stage s"
  "stage (s\<lparr>rp_repairSnapshotRequested := a8\<rparr>) = stage s" "stage (s\<lparr>rp_repairTimeoutStart := a9\<rparr>) = stage s"
  "stage (s\<lparr>rp_repairViewStart := b1\<rparr>) = stage s" "stage (s\<lparr>rp_pendingRepair := b2\<rparr>) = stage s"
  "stage (s\<lparr>rp_curRoundStartSeq := b3\<rparr>) = stage s" "stage (s\<lparr>rp_repairQueuedReqs := b4\<rparr>) = stage s"
  "stage (s\<lparr>rp_repairStart := b5\<rparr>) = stage s" "stage (s\<lparr>rp_proposalDigest := b7\<rparr>) = stage s"
  "stage (s\<lparr>rp_repairProposalLogSuffix := b8\<rparr>) = stage s" "stage (s\<lparr>rp_missingRequestFetchSent := b9\<rparr>) = stage s"
  "stage (s\<lparr>rp_pendingMissingRequests := c1\<rparr>) = stage s" "stage (s\<lparr>rp_numConsecutiveViewChanges := c4\<rparr>) = stage s"
  "stage (s\<lparr>rp_lastPreparedState := c5\<rparr>) = stage s" "stage (s\<lparr>rp_replicaViews := c6\<rparr>) = stage s"
  "stage (s\<lparr>rp_repairPrepareSigs := c7\<rparr>) = stage s" "stage (s\<lparr>rp_repairCommitSigs := c8\<rparr>) = stage s"
  "stage (s\<lparr>rp_heldRequest := c9\<rparr>) = stage s" "stage (s\<lparr>rp_viewChangeRound := d1\<rparr>) = stage s"
  "stage (s\<lparr>rp_viewChangeCounter := d2\<rparr>) = stage s" "stage (s\<lparr>rp_holdPrepareOrCommit := d3\<rparr>) = stage s"
  "stage (s\<lparr>rp_psForwardBuffer := d4\<rparr>) = stage s" "stage (s\<lparr>rp_psOrderRequests := d5\<rparr>) = stage s"
  "stage (s\<lparr>rp_psOrderSeqs := d6\<rparr>) = stage s" "stage (s\<lparr>rp_snapshotQueue := d7\<rparr>) = stage s"
  "stage (s\<lparr>rp_repairHistorySigs := d9\<rparr>) = stage s"
  by (simp_all add: stage_def commits_sent_def)

lemma send_votes [simp]:
  "votes (sendMsgToDst env m t dst s) = votes s" "votes (broadcastToReplicas env m t s) = votes s"
  "votes (sendToOthers m t s) = votes s"
  by (simp_all add: sendMsgToDst_def broadcastToReplicas_def sendToOthers_def)

lemma send_stage [simp]:
  assumes "\<And>c. m \<noteq> M_PBFTCommit c"
  shows "stage (sendMsgToDst env m t dst s) = stage s" "stage (broadcastToReplicas env m t s) = stage s"
    "stage (sendToOthers m t s) = stage s"
  using assms by (auto simp: stage_def commits_sent_def sendMsgToDst_def broadcastToReplicas_def sendToOthers_def)

section \<open>The normal path, checkpoints and state transfer\<close>

lemma stage_request [stages]:
  "startCheckpoint env b s = Inr s' \<Longrightarrow> stage s' = stage s"
  "processClientRequest env r q s = Inr s' \<Longrightarrow> stage s' = stage s"
proof -
  show start: "startCheckpoint env b s = Inr s' \<Longrightarrow> stage s' = stage s" for b s s'
    by (auto simp: startCheckpoint_def Let_def elim!: bindE_InrE split: if_splits prod.splits)
  show "processClientRequest env r q s = Inr s' \<Longrightarrow> stage s' = stage s"
    by (auto simp: processClientRequest_def Let_def elim!: bindE_InrE dest!: start split: if_splits prod.splits)
qed

lemma stage_hold [stages]: "holdAndSwapCliReq env r s = Inr s' \<Longrightarrow> stage s' = stage s"
  by (auto simp: holdAndSwapCliReq_def elim!: bindE_InrE dest!: stage_request split: option.splits)

lemma stage_cert [stages]: "processCert env c s = Inr s' \<Longrightarrow> stage s' = stage s"
  by (auto simp: processCert_def elim!: bindE_InrE split: list.splits if_splits prod.splits)

lemma stage_startRepair [stages]: "startRepair env s = Inr s' \<Longrightarrow> stage s' = stage s"
  by (auto simp: startRepair_def Let_def elim!: bindE_InrE split: if_splits)

lemma stage_timeoutReply [stages]: "processTimeoutReply env r s = Inr s' \<Longrightarrow> stage s' = stage s"
  by (auto simp: processTimeoutReply_def Let_def dest!: stage_request split: if_splits prod.splits)

lemma stage_ownCommit [stages]: "sendOwnCommit env c s = Inr s' \<Longrightarrow> stage s' = stage s"
  by (auto simp: sendOwnCommit_def elim!: bindE_InrE split: if_splits)

lemma stage_collectedReply [stages]: "processCollectedReply env r sig s = Inr s' \<Longrightarrow> stage s' = stage s"
  by (auto simp: processCollectedReply_def Let_def elim!: bindE_InrE dest!: stage_ownCommit stage_startRepair
      split: if_splits prod.splits)

lemma stage_reply [stages]: "processReply env r sig s = Inr s' \<Longrightarrow> stage s' = stage s"
  by (auto simp: processReply_def elim!: bindE_InrE dest!: stage_timeoutReply stage_collectedReply split: if_splits)

lemma stage_snapshot [stages]: "processSnapshot env sn rd s = Inr s' \<Longrightarrow> stage s' = stage s"
  by (auto simp: processSnapshot_def Let_def elim!: bindE_InrE dest!: stage_ownCommit split: if_splits)

lemma stage_snapshotRequest [stages]: "sendSnapshotRequest env i n s = Inr s' \<Longrightarrow> stage s' = stage s"
  by (auto simp: sendSnapshotRequest_def elim!: bindE_InrE)

lemma stage_install [stages]: "installCheckpoint env cp s = Inr s' \<Longrightarrow> stage s' = stage s"
  by (auto simp: installCheckpoint_def elim!: bindE_InrE)

lemma stage_useCheckpoint [stages]: "useCheckpoint env b cp s = Inr s' \<Longrightarrow> stage s' = stage s"
  by (auto simp: useCheckpoint_def Let_def elim!: bindE_InrE dest!: stage_snapshotRequest stage_install split: if_splits)

lemma stage_commit [stages]: "processCommit env c sig s = Inr s' \<Longrightarrow> stage s' = stage s"
  by (auto simp: processCommit_def Let_def elim!: bindE_InrE dest!: stage_useCheckpoint split: if_splits prod.splits)

lemma stage_transfer [stages]:
  "processSnapshotRequest env r s = Inr s' \<Longrightarrow> stage s' = stage s"
  "processMissingRequestFetch env f s = Inr s' \<Longrightarrow> stage s' = stage s"
  by (auto simp: processSnapshotRequest_def processMissingRequestFetch_def Let_def elim!: bindE_InrE split: if_splits)

lemma stage_missingFetch [simp]: "stage (sendMissingRequestFetch env ms s) = stage s"
  by (simp add: sendMissingRequestFetch_def)

lemma stage_suffix [stages]: "getRepairLogSuffix env s = Inr (x, s') \<Longrightarrow> stage s' = stage s"
  by (auto simp: getRepairLogSuffix_def elim!: bindE_InrE split: option.splits if_splits)

lemma stage_foldE:
  assumes "foldE f xs s = Inr s'" and "\<And>x s s'. f x s = Inr s' \<Longrightarrow> stage s' = stage s"
  shows "stage s' = stage s"
  using assms(1) by (rule foldE_invariant [where P = "\<lambda>t. stage t = stage s"]) (auto dest: assms(2))

lemma stage_summary [stages]: "sendRepairSummaryToClients env s = Inr s' \<Longrightarrow> stage s' = stage s"
  unfolding sendRepairSummaryToClients_def
  by (elim bindE_InrE, erule stage_foldE) (auto elim!: bindE_InrE)

lemma stage_repairCheckpoint [stages]: "repairCheckpoint env s = Inr s' \<Longrightarrow> stage s' = stage s"
  by (auto simp: repairCheckpoint_def repairSnapshotCommit_def repairDirectCheckpoint_def Let_def elim!: bindE_InrE
      dest!: stage_suffix split: if_splits prod.splits list.splits)

lemma stage_collector_timeouts [simp]: "stage (collector_timeouts env s) = stage s"
proof -
  have "stage (fold (\<lambda>(k, coll) s'.
         let (fired, coll') = cpc_checkSelfTimeout (re_now env) (cfg_replicaCheckpointTimeout (re_config env)) coll;
             s1 = s'\<lparr>rp_collectors := cst_set (fst k) (snd k) coll' (rp_collectors s')\<rparr>
         in if fired
            then broadcastToReplicas env
                   (M_RepairTimeout \<lparr>rt_replica_id = re_id env, rt_round = rp_round s', rt_view = rp_pbftView s', rt_seq = snd k\<rparr>)
                   REPAIR_TIMEOUT s1
            else s1) xs t) = stage t" for xs t
    by (induction xs arbitrary: t) (auto simp: Let_def split: prod.splits)
  then show ?thesis unfolding collector_timeouts_def by blast
qed

lemma stage_drain: "drain_forward env k s = Inr s' \<Longrightarrow> stage s' = stage s"
proof (induction env k s arbitrary: s' rule: drain_forward.induct)
  case (1 env k s)
  show ?case
  proof (cases "map_of (rp_psForwardBuffer s) k")
    case None
    then show ?thesis using "1.prems" by (subst (asm) drain_forward.simps) simp
  next
    case (Some req)
    then obtain s1 where s1: "processClientRequest env req False s = Inr s1"
      "drain_forward env (k + 1) (s1\<lparr>rp_psForwardBuffer := sm_del k (rp_psForwardBuffer s1)\<rparr>) = Inr s'"
      using "1.prems" by (subst (asm) drain_forward.simps) (auto elim!: bindE_InrE)
    then show ?thesis using "1.IH" [OF Some s1] stage_request(2) by fastforce
  qed
qed

lemma stage_ordered: "checkPSOrderRequests env s = Inr s' \<Longrightarrow> stage s' = stage s"
proof (induction env s arbitrary: s' rule: checkPSOrderRequests.induct)
  case (1 env s)
  show ?case
  proof (cases "map_of (rp_psOrderSeqs s) (lg_nextSeq (rp_log s))")
    case None
    then show ?thesis using "1.prems" by (subst (asm) checkPSOrderRequests.simps) simp
  next
    case (Some key)
    show ?thesis
    proof (cases "map_of (rp_psOrderRequests s) key")
      case None
      then show ?thesis using "1.prems" Some by (subst (asm) checkPSOrderRequests.simps) simp
    next
      case req: (Some req)
      let ?s = "s\<lparr>rp_psOrderRequests := sm_del key (rp_psOrderRequests s),
          rp_psOrderSeqs := sm_del (lg_nextSeq (rp_log s)) (rp_psOrderSeqs s)\<rparr>"
      obtain s1 where s1: "processClientRequest env req False ?s = Inr s1" "checkPSOrderRequests env s1 = Inr s'"
        using "1.prems" Some req by (subst (asm) checkPSOrderRequests.simps) (auto elim!: bindE_InrE)
      then show ?thesis using "1.IH" [OF Some req s1] stage_request(2) by fastforce
    qed
  qed
qed

lemma goOn_Inr: "goOn r = Inr (b, s') \<longleftrightarrow> r = Inr s' \<and> b"
  by (auto simp: goOn_def bindE_eq_Inr)

lemma process_ps_cases:
  assumes "process_ps_msg env t fr s = Inr s'"
  shows "s' = s \<or> (\<exists>r sig. processPSClient env r sig s = Inr s') \<or> (\<exists>f. processPSLeaderForward env f s = Inr s') \<or>
    (\<exists>p. processPSLeaderOrder env p s = Inr s')"
proof (cases "wp_parse (re_wire env) t (fr_body fr)")
  case None
  then show ?thesis using assms by (cases t) (simp_all add: process_ps_msg_def)
next
  case (Some msg)
  show ?thesis using assms unfolding process_ps_msg_def Some
    by (cases t; cases msg; simp; blast?)
qed

lemma stage_ps_handlers:
  "processPSClient env q sig s = Inr s' \<Longrightarrow> stage s' = stage s"
  "processPSLeaderForward env f s = Inr s' \<Longrightarrow> stage s' = stage s"
  "processPSLeaderOrder env p s = Inr s' \<Longrightarrow> stage s' = stage s"
  by (auto simp: processPSClient_def processPSLeaderForward_def processPSLeaderOrder_def
      elim!: bindE_InrE dest!: stage_request(2) stage_drain stage_ordered split: preserialization.splits if_splits)

lemma stage_ps: "process_ps_msg env t fr s = Inr s' \<Longrightarrow> stage s' = stage s"
  using process_ps_cases stage_ps_handlers by metis

lemma stage_nextRound: "stage (nextRound s) = stage (s\<lparr>rp_round := rp_round s + 1\<rparr>)"
  by (simp add: nextRound_def stage_def votes_def commits_sent_def Let_def)

text \<open>The stage after a repair.\<close>

definition finished :: "'s replica \<Rightarrow> 's stage" where
  "finished s = (([], [], rp_repairStartMsgs s, rp_pbftView s), commits_sent s, rp_viewPrepared s,
     rp_preparedRound s, None, rp_round s + 1)"

lemma finished_stage:
  assumes "stage s' = stage s"
  shows "finished s' = finished s"
  unfolding finished_def using stage_sel [OF assms] by (simp add: votes_def)

lemma resumeRound_stage:
  assumes "resumeRound env ab s = Inr s'"
  shows "stage s' = stage (clearRepair ab s)"
proof -
  let ?s1 = "clearRepair ab s"
  from assms obtain s2 where s2: "foldE (\<lambda>(_, req). processClientRequest env req True) (rp_repairQueuedReqs ?s1) ?s1 = Inr s2"
    and last: "stage s' = stage s2"
    unfolding resumeRound_def Let_def
    by (elim bindE_InrE) (auto dest!: stage_startRepair split: if_splits)
  have "stage s2 = stage ?s1" using s2 by (rule stage_foldE) (auto dest: stage_request(2))
  then show ?thesis using last by simp
qed

lemma finishRepair_stage:
  assumes "finishRepair env ab s = Inr s'"
  shows "stage s' = finished s"
proof -
  obtain s1 s2 where *: "sendRepairSummaryToClients env (nextRound s) = Inr s1" "repairCheckpoint env s1 = Inr s2"
    "resumeRound env ab s2 = Inr s'"
    using assms unfolding finishRepair_def by (elim bindE_InrE)
  have "stage s2 = stage (s\<lparr>rp_round := rp_round s + 1\<rparr>)"
    using stage_summary [OF *(1)] stage_repairCheckpoint [OF *(2)] stage_nextRound [of s] by simp
  note s2 = stage_sel [OF this]
  show ?thesis using resumeRound_stage [OF *(3)] s2
    by (simp add: finished_def clearRepair_def stage_def votes_def commits_sent_def)
qed

lemma applyRepair_stage:
  assumes "applyRepair env sfx av ab s = Inr (b, s')"
  shows "stage s' = (if b then finished s else stage s)"
proof -
  have "finished (s\<lparr>rp_log := l\<rparr>) = finished s" for l by (rule finished_stage) simp
  then show ?thesis
    using assms by (auto simp: applyRepair_def Let_def elim!: bindE_InrE dest!: finishRepair_stage
        split: if_splits)
qed

lemma tryFinishRepair_stage:
  assumes "tryFinishRepair env s = Inr s'"
  shows "\<exists>p rd. rp_repairProposal s = Some p \<and> rd \<in> {rp_round s, rpr_round p} \<and>
    (stage s' = stage (s\<lparr>rp_round := rd\<rparr>) \<or> stage s' = finished (s\<lparr>rp_round := rd\<rparr>))"
proof -
  obtain sfx s1 p where s1: "getRepairLogSuffix env s = Inr (sfx, s1)" "rp_repairProposal s1 = Some p"
    using assms by (auto simp: tryFinishRepair_def elim!: bindE_InrE split: option.splits)
  let ?s2 = "s1\<lparr>rp_round := rpr_round p, rp_repairViewStart := 0\<rparr>"
  have same: "stage (s1\<lparr>rp_round := rd\<rparr>) = stage (s\<lparr>rp_round := rd\<rparr>)" for rd
    using stage_suffix [OF s1(1)] by (simp add: stage_def votes_def commits_sent_def)
  have same2: "stage ?s2 = stage (s\<lparr>rp_round := rpr_round p\<rparr>)" using same [of "rpr_round p"] by (simp add: stage_def votes_def commits_sent_def)
  have fin: "stage s1 = stage s" "rp_repairProposal s = Some p"
    using stage_suffix [OF s1(1)] s1(2) stage_sel(5) by metis+
  consider ab where "finishRepair env ab s1 = Inr s'"
    | b ab where "applyRepair env sfx (queued_requests ?s2 []) ab ?s2 = Inr (b, s')"
    | "stage s' = stage ?s2"
    using assms s1
    by (auto simp: tryFinishRepair_def Let_def elim!: bindE_InrE split: if_splits dest!: stage_snapshotRequest)
  then show ?thesis
  proof cases
    case 1
    then have "stage s' = finished s" using finishRepair_stage finished_stage [OF fin(1)] by metis
    then show ?thesis using fin by (intro exI [of _ p] exI [of _ "rp_round s"]) simp
  next
    case 2
    from applyRepair_stage [OF this] show ?thesis
      using same2 finished_stage [OF same2] fin by (intro exI [of _ p] exI [of _ "rpr_round p"]) (simp split: if_splits)
  next
    case 3
    then show ?thesis using same2 fin by (intro exI [of _ p] exI [of _ "rpr_round p"]) simp
  qed
qed

lemmas votes_request = stage_request [THEN votes_stage]
lemmas votes_startRepair = stage_startRepair [THEN votes_stage]
lemmas votes_snapshot = stage_snapshot [THEN votes_stage]
lemmas votes_snapshotRequest = stage_snapshotRequest [THEN votes_stage]
lemmas votes_suffix = stage_suffix [THEN votes_stage]
lemmas votes_summary = stage_summary [THEN votes_stage]
lemmas votes_repairCheckpoint = stage_repairCheckpoint [THEN votes_stage]
lemmas votes_collector_timeouts = stage_collector_timeouts [THEN votes_stage]
lemmas votes_ps = stage_ps [THEN votes_stage]

end
