(* ===== verification/RepairSafety.thy ===== *)
theory RepairSafety
  imports Frames
begin

text \<open>
  What the repair guarantees: the votes a replica counts are filed under their senders and come from
  messages it was handed, a commit is sent and a proposal applied only with a quorum of them,
  and two replicas that apply in the same round and view apply the same proposal.
\<close>

section \<open>What the repair does to the votes\<close>

text \<open>Finishing a repair clears the prepares and commits and keeps the rest.\<close>

definition cleared :: "'s replica \<Rightarrow> 's replica \<Rightarrow> bool" where
  "cleared s s' \<longleftrightarrow> votes s' = votes s \<or> votes s' = ([], [], rp_repairStartMsgs s, rp_pbftView s)"

lemma votes_sel:
  assumes "votes s' = votes s"
  shows "rp_repairPrepares s' = rp_repairPrepares s" "rp_repairPBFTCommits s' = rp_repairPBFTCommits s"
    "rp_repairStartMsgs s' = rp_repairStartMsgs s" "rp_pbftView s' = rp_pbftView s"
  using assms by (simp_all add: votes_def)

lemma cleared_same: "votes s' = votes s \<Longrightarrow> cleared s s'"
  by (simp add: cleared_def)

lemma cleared_from: "votes s1 = votes s \<Longrightarrow> cleared s1 s' \<Longrightarrow> cleared s s'"
  by (auto simp: cleared_def votes_def)

lemma cleared_then: "cleared s s1 \<Longrightarrow> votes s' = votes s1 \<Longrightarrow> cleared s s'"
  by (auto simp: cleared_def)

lemma cleared_finished: "stage s' = finished s1 \<Longrightarrow> votes s1 = votes s \<Longrightarrow> cleared s s'"
  by (simp add: cleared_def finished_def stage_def votes_def)

lemma applyRepair_votes: "applyRepair env sfx av ab s = Inr (b, s') \<Longrightarrow> cleared s s'"
  by (drule applyRepair_stage) (cases b; auto intro: cleared_finished cleared_same votes_stage)

lemma tryFinishRepair_votes:
  assumes "tryFinishRepair env s = Inr s'"
  shows "cleared s s'"
proof -
  obtain rd where "stage s' = stage (s\<lparr>rp_round := rd\<rparr>) \<or> stage s' = finished (s\<lparr>rp_round := rd\<rparr>)"
    using tryFinishRepair_stage [OF assms] by blast
  then show ?thesis
    using cleared_finished [of s' "s\<lparr>rp_round := rd\<rparr>" s] votes_stage [of s' "s\<lparr>rp_round := rd\<rparr>"]
    by (auto intro: cleared_same)
qed

lemma votes_phases:
  "votes (doPrePreparePhase env rd s) = votes s"
  "doPreparePhase env s = Inr s' \<Longrightarrow> votes s' = votes s"
  "doCommitPhase env s = Inr s' \<Longrightarrow> votes s' = votes s"
  by (auto simp: doPrePreparePhase_def doPreparePhase_def doCommitPhase_def Let_def elim!: bindE_InrE dest!: votes_suffix
      split: option.splits if_splits)

lemma votes_prePrepare: "processPrePrepare env m s = Inr s' \<Longrightarrow> votes s' = votes s"
  by (auto simp: processPrePrepare_def Let_def dest!: votes_phases(2) split: if_splits)

lemma votes_prepareDone: "prepareDone env s = Inr s' \<Longrightarrow> votes s' = votes s"
  by (auto simp: prepareDone_def elim!: bindE_InrE dest!: votes_phases(3) split: if_splits)

lemma votes_recordPrepared [simp]: "votes (record_prepared p s) = votes s"
  by (simp add: record_prepared_def Let_def)

lemma startViewChange_votes:
  "startViewChange env v s = Inr s' \<Longrightarrow>
     votes s' = (rp_repairPrepares s, rp_repairPBFTCommits s, rp_repairStartMsgs s, v)"
  by (auto simp: startViewChange_def Let_def votes_phases(1) elim!: bindE_InrE split: if_splits)
    (simp_all add: votes_def)

lemma updateReplicaView_votes:
  "updateReplicaView env i v rd s = Inr s' \<Longrightarrow>
     \<exists>w. votes s' = (rp_repairPrepares s, rp_repairPBFTCommits s, rp_repairStartMsgs s, w)"
  by (auto simp: updateReplicaView_def Let_def dest!: startViewChange_votes split: if_splits)
    (simp_all add: votes_def)

text \<open>Handlers that change at most the view, besides.\<close>

definition same_votes :: "'s replica \<Rightarrow> 's replica \<Rightarrow> bool" where
  "same_votes s s' \<longleftrightarrow> rp_repairPrepares s' = rp_repairPrepares s \<and> rp_repairPBFTCommits s' = rp_repairPBFTCommits s \<and>
     rp_repairStartMsgs s' = rp_repairStartMsgs s"

lemma same_votes_of: "votes s' = votes s \<Longrightarrow> same_votes s s'"
  by (simp add: same_votes_def votes_def)

lemma same_votes_trans: "same_votes s s1 \<Longrightarrow> same_votes s1 s' \<Longrightarrow> same_votes s s'"
  by (simp add: same_votes_def)

lemma startViewChange_same: "startViewChange env v s = Inr s' \<Longrightarrow> same_votes s s'"
  using startViewChange_votes [of env v s s'] by (simp add: same_votes_def votes_def)

lemma updateReplicaView_same: "updateReplicaView env i v rd s = Inr s' \<Longrightarrow> same_votes s s'"
  using updateReplicaView_votes [of env i v rd s s'] by (auto simp: same_votes_def votes_def)

lemma checkTimeouts_same:
  assumes "checkTimeouts env s = Inr s'"
  shows "same_votes s s'"
  using assms
  by (auto simp: checkTimeouts_def Let_def elim!: bindE_InrE dest!: votes_request(1) startViewChange_same split: if_splits)
    (auto simp: same_votes_def votes_def votes_sel [OF votes_collector_timeouts])

lemma trigger_same:
  "processRepairTimeout env t sig s = Inr s' \<Longrightarrow> same_votes s s'"
  "processRepairReplyProof env p s = Inr s' \<Longrightarrow> same_votes s s'"
  "processRepairTimeoutProof env q s = Inr s' \<Longrightarrow> same_votes s s'"
proof -
  show "same_votes s s'" if "processRepairTimeout env t sig s = Inr s'"
    using that by (auto simp: processRepairTimeout_def Let_def elim!: bindE_InrE dest!: votes_startRepair
        intro!: same_votes_of split: if_splits prod.splits)
  show "same_votes s s'" if p: "processRepairReplyProof env p s = Inr s'"
  proof -
    obtain s1 where "updateReplicaView env (rrp_replica_id p) (rrp_view p) (rrp_round p) s = Inr s1" "votes s' = votes s1"
      using p by (auto simp: processRepairReplyProof_def elim!: bindE_InrE dest!: votes_startRepair split: if_splits)
    then show ?thesis using updateReplicaView_same same_votes_of same_votes_trans by blast
  qed
  show "same_votes s s'" if q: "processRepairTimeoutProof env q s = Inr s'"
  proof -
    obtain s1 where "updateReplicaView env (rtp_replica_id q) (rtp_view q) (rtp_round q) s = Inr s1" "votes s' = votes s1"
      using q by (auto simp: processRepairTimeoutProof_def elim!: bindE_InrE dest!: votes_startRepair split: if_splits)
    then show ?thesis using updateReplicaView_same same_votes_of same_votes_trans by blast
  qed
qed

lemma transfer_cleared:
  "processSnapshotReply env m s = Inr s' \<Longrightarrow> cleared s s'"
  "processMissingRequestReply env q s = Inr s' \<Longrightarrow> cleared s s'"
  "queueDuringRepair env d r s = Inr s' \<Longrightarrow> cleared s s'"
proof -
  have align: "votes s' = votes s" if a: "snapshotAlignment env m s = Inr s'" for s'
  proof -
    have "stage t' = stage t" if "resendReply env sq t = Inr t'" for sq t t'
      using that by (auto simp: resendReply_def elim!: bindE_InrE)
    then show ?thesis using a
      by (auto simp: snapshotAlignment_def elim!: bindE_InrE dest!: stage_foldE [THEN votes_stage] split: if_splits prod.splits)
  qed
  have during: "cleared s s'" if d: "snapshotDuringRepair env m s = Inr (b, s')" for b s'
    using d by (auto simp: snapshotDuringRepair_def elim!: bindE_InrE dest!: votes_suffix applyRepair_votes
        split: if_splits prod.splits) (auto simp: cleared_def votes_def)
  show "cleared s s'" if "processSnapshotReply env m s = Inr s'"
    using that by (auto simp: processSnapshotReply_def Let_def elim!: bindE_InrE dest!: align during
        intro: cleared_same cleared_then split: if_splits prod.splits)
  have "votes (fold missing_reply_step ds t) = votes t" for ds and t :: "'a replica"
    by (induction ds arbitrary: t) (simp_all add: missing_reply_step_def Let_def)
  then show "cleared s s'" if "processMissingRequestReply env q s = Inr s'"
    using that by (auto simp: processMissingRequestReply_def Let_def dest!: tryFinishRepair_votes
        intro: cleared_same cleared_from [rotated] split: if_splits)
  show "cleared s s'" if "queueDuringRepair env d r s = Inr s'"
    using that by (auto simp: queueDuringRepair_def Let_def dest!: tryFinishRepair_votes
        intro: cleared_same cleared_from [rotated] split: if_splits)
qed

section \<open>The votes are authentic\<close>

text \<open>A message of a type that some admissible frame carried.\<close>

definition came :: "'k wire_params \<Rightarrow> (frame \<Rightarrow> bool) \<Rightarrow> message_type \<Rightarrow> proto_msg \<Rightarrow> bool" where
  "came w adm t msg \<longleftrightarrow> (\<exists>fr. adm fr \<and> type_of_code (fr_type fr) = Some t \<and> wp_parse w t (fr_body fr) = Some msg)"

text \<open>Each stored vote is filed under the replica it names and came in an admissible frame.\<close>

definition votes_ok :: "'k wire_params \<Rightarrow> (frame \<Rightarrow> bool) \<Rightarrow> 's replica \<Rightarrow> bool" where
  "votes_ok w adm s \<longleftrightarrow>
     sm_ok (rp_repairPrepares s) \<and> sm_ok (rp_repairPBFTCommits s) \<and> sm_ok (rp_repairStartMsgs s) \<and>
     (\<forall>(i, p) \<in> set (rp_repairPrepares s). prep_replica_id p = i \<and> came w adm PBFT_PREPARE (M_Prepare p)) \<and>
     (\<forall>(i, c) \<in> set (rp_repairPBFTCommits s). pc_replica_id c = i \<and> came w adm PBFT_COMMIT (M_PBFTCommit c)) \<and>
     (\<forall>(i, m) \<in> set (rp_repairStartMsgs s). rs_replica_id m = i \<and> came w adm REPAIR_START (M_RepairStart m))"

lemma votes_ok_init: "votes_ok w adm (replica_init env app)"
  by (simp add: votes_ok_def replica_init_def)

lemma votes_ok_same: "votes_ok w adm s \<Longrightarrow> same_votes s s' \<Longrightarrow> votes_ok w adm s'"
  by (simp add: votes_ok_def same_votes_def)

lemma votes_ok_cleared: "votes_ok w adm s \<Longrightarrow> cleared s s' \<Longrightarrow> votes_ok w adm s'"
  by (auto simp: votes_ok_def cleared_def votes_def)

lemma processPrepare_cases:
  "processPrepare env p sig s = Inr s' \<Longrightarrow> s' = s \<or> countPrepares env (prep_round p) (storePrepare p sig s) = Inr s'"
  unfolding processPrepare_def by (metis sum.inject(2))

lemma processPBFTCommit_cases:
  "processPBFTCommit env c sig s = Inr s' \<Longrightarrow> s' = s \<or>
     (pc_round c = rp_round s \<and> pc_pbft_view c = rp_pbftView s \<and> countCommits env (pc_round c) (storeCommit c sig s) = Inr s')"
  unfolding processPBFTCommit_def by (metis less_linear sum.inject(2))

lemma countPrepares_votes: "countPrepares env rd s = Inr s' \<Longrightarrow> votes s' = votes s"
  by (auto simp: countPrepares_def dest: votes_prepareDone split: if_splits option.splits)

lemma countCommits_votes: "countCommits env rd s = Inr s' \<Longrightarrow> cleared s s'"
  by (auto simp: countCommits_def cleared_same dest: tryFinishRepair_votes split: if_splits option.splits)

lemma votes_ok_storePrepare:
  "votes_ok w adm s \<Longrightarrow> came w adm PBFT_PREPARE (M_Prepare p) \<Longrightarrow> votes_ok w adm (storePrepare p sig s)"
  by (auto simp: votes_ok_def storePrepare_def sm_put_set)

lemma votes_ok_storeCommit:
  "votes_ok w adm s \<Longrightarrow> came w adm PBFT_COMMIT (M_PBFTCommit c) \<Longrightarrow> votes_ok w adm (storeCommit c sig s)"
  by (auto simp: votes_ok_def storeCommit_def sm_put_set)

lemma votes_ok_prepare:
  assumes "votes_ok w adm s" and "came w adm PBFT_PREPARE (M_Prepare p)" and "processPrepare env p sig s = Inr s'"
  shows "votes_ok w adm s'"
  using processPrepare_cases [OF assms(3)] assms(1) votes_ok_storePrepare [OF assms(1,2)]
    countPrepares_votes same_votes_of votes_ok_same by metis

lemma votes_ok_commit:
  assumes "votes_ok w adm s" and "came w adm PBFT_COMMIT (M_PBFTCommit c)" and "processPBFTCommit env c sig s = Inr s'"
  shows "votes_ok w adm s'"
  using processPBFTCommit_cases [OF assms(3)] assms(1) votes_ok_storeCommit [OF assms(1,2)]
    countCommits_votes votes_ok_cleared by metis

lemma votes_ok_start:
  assumes "votes_ok w adm s" and "came w adm REPAIR_START (M_RepairStart m)"
  shows "votes_ok w adm (processRepairStart env m sig s)"
proof -
  let ?s1 = "s\<lparr>rp_repairStartMsgs := sm_put (rs_replica_id m) m (rp_repairStartMsgs s),
      rp_repairHistorySigs := sm_put (rs_replica_id m) sig (rp_repairHistorySigs s)\<rparr>"
  have ok: "votes_ok w adm ?s1" using assms(1,2) by (auto simp: votes_ok_def sm_put_set)
  have "processRepairStart env m sig s = s \<or> votes (processRepairStart env m sig s) = votes ?s1"
    by (simp add: processRepairStart_def Let_def votes_phases(1))
  then show ?thesis using assms(1) ok votes_ok_same same_votes_of by metis
qed

lemma process_dom_cases:
  assumes "process_dom env body s = Inr (b, s')"
  shows "s' = s \<or> (\<exists>d r. queueDuringRepair env d r s = Inr s') \<or> (\<exists>r. holdAndSwapCliReq env r s = Inr s') \<or>
    (\<exists>r. processClientRequest env r False s = Inr s')"
proof -
  have "s' = s \<or> (\<exists>d c. handle_request env d c s = Inr s')"
    using assms unfolding process_dom_def by (auto elim!: bindE_InrE split: option.splits proto_msg.splits)
  then show ?thesis by (auto simp: handle_request_def Let_def split: if_splits)
qed

lemma process_normal_cases:
  assumes "process_normal_msg env t fr s = Inr (b, s')"
  shows "s' = s \<or> (\<exists>r. processClientRequest env r False s = Inr s') \<or> (\<exists>c. processCert env c s = Inr s') \<or>
    (\<exists>r sig. processReply env r sig s = Inr s') \<or> (\<exists>c sig. processCommit env c sig s = Inr s') \<or>
    (\<exists>r. processSnapshotRequest env r s = Inr s') \<or> (\<exists>r. processSnapshotReply env r s = Inr s') \<or>
    (\<exists>r. processMissingRequestFetch env r s = Inr s') \<or> (\<exists>r. processMissingRequestReply env r s = Inr s')"
proof (cases "wp_parse (re_wire env) t (fr_body fr)")
  case None
  then show ?thesis using assms by (cases t) (simp_all add: process_normal_msg_def)
next
  case (Some msg)
  show ?thesis using assms unfolding process_normal_msg_def Some
    by (cases t; cases msg; simp add: goOn_Inr; blast?)
qed

lemma process_repair_cases:
  assumes "process_repair_msg env t fr s = Inr (b, s')"
  shows "s' = s \<or> (\<exists>msg. wp_parse (re_wire env) t (fr_body fr) = Some msg \<and>
    ((\<exists>r sig. processRepairTimeout env r sig s = Inr s') \<or> (\<exists>p. processRepairReplyProof env p s = Inr s') \<or>
     (\<exists>p. processRepairTimeoutProof env p s = Inr s') \<or>
     (\<exists>p. t = PBFT_PREPREPARE \<and> msg = M_PrePrepare p \<and> processPrePrepare env p s = Inr s') \<or>
     (\<exists>i v rd. updateReplicaView env i v rd s = Inr s') \<or>
     (\<exists>m. t = REPAIR_START \<and> msg = M_RepairStart m \<and> s' = processRepairStart env m (fr_sig fr) s) \<or>
     (\<exists>p. t = PBFT_PREPARE \<and> msg = M_Prepare p \<and> processPrepare env p (fr_sig fr) s = Inr s') \<or>
     (\<exists>c. t = PBFT_COMMIT \<and> msg = M_PBFTCommit c \<and> processPBFTCommit env c (fr_sig fr) s = Inr s')))"
proof (cases "wp_parse (re_wire env) t (fr_body fr)")
  case None
  then show ?thesis using assms by (cases t) (simp_all add: process_repair_msg_def)
next
  case (Some msg)
  show ?thesis using assms unfolding process_repair_msg_def Some
    by (cases t; cases msg; simp add: goOn_Inr; blast?)
qed

lemma votes_ok_dom:
  assumes "votes_ok w adm s" and "process_dom env body s = Inr (b, s')"
  shows "votes_ok w adm s'"
  using process_dom_cases [OF assms(2)] assms(1) votes_ok_cleared cleared_same stage_hold [THEN votes_stage] votes_request(2)
    transfer_cleared(3) by metis

lemma votes_ok_normal:
  assumes "votes_ok w adm s" and "process_normal_msg env t fr s = Inr (b, s')"
  shows "votes_ok w adm s'"
proof -
  have "s' = s \<or> stage s' = stage s \<or> cleared s s'"
    using process_normal_cases [OF assms(2)] by (elim disjE exE) (auto dest: stages transfer_cleared)
  then show ?thesis using assms(1) votes_ok_cleared cleared_same votes_stage by metis
qed

lemma votes_ok_repair:
  assumes "votes_ok (re_wire env) adm s" and "adm fr" and "type_of_code (fr_type fr) = Some t"
    and "process_repair_msg env t fr s = Inr (b, s')"
  shows "votes_ok (re_wire env) adm s'"
proof -
  have came: "came (re_wire env) adm t msg" if "wp_parse (re_wire env) t (fr_body fr) = Some msg" for msg
    using assms(2,3) that by (auto simp: came_def)
  show ?thesis
    using process_repair_cases [OF assms(4)] assms(1)
    by (elim disjE exE conjE)
      (use came in \<open>auto intro: votes_ok_same trigger_same updateReplicaView_same same_votes_of votes_prePrepare
         votes_ok_prepare votes_ok_commit votes_ok_start\<close>)
qed

lemma votes_ok_message:
  assumes "votes_ok (re_wire env) adm s" and "adm fr" and "processMessage env fr s = Inr (b, s')"
  shows "votes_ok (re_wire env) adm s'"
proof (cases "type_of_code (fr_type fr)")
  case (Some t)
  then show ?thesis
    using assms votes_ok_dom votes_ok_normal votes_ok_repair [OF assms(1,2) Some]
    by (auto simp: processMessage_def goOn_Inr dest!: votes_ps intro: votes_ok_same same_votes_of split: if_splits)
qed (use assms in \<open>simp add: processMessage_def\<close>)

end
