(* ===== verification/NodeSafety.thy ===== *)
theory NodeSafety
  imports RepairSafety
begin

text \<open>
  What holds in every reachable state of the whole process: each message in the process queue is
  the replica's own, was passed by the verification thread, or is a request that the receiver
  forwarded; and each vote the replica has stored is filed under the replica that signed it.
\<close>

section \<open>The invariant\<close>

text \<open>The messages that may reach the process thread.\<close>

definition checked :: "('s, 'k) node_env \<Rightarrow> (frame \<Rightarrow> bool) \<Rightarrow> frame \<Rightarrow> bool" where
  "checked ne own fr \<longleftrightarrow>
     own fr \<or> verify_message (re_wire (ne_replica ne)) (re_cm (ne_replica ne)) fr = Inr Enqueue \<or>
     forwarded_ok (ne_receiver ne) fr"

definition node_ok :: "('s, 'k) node_env \<Rightarrow> (frame \<Rightarrow> bool) \<Rightarrow> 's node \<Rightarrow> bool" where
  "node_ok ne own nd \<longleftrightarrow>
     rcv_ok (ne_receiver ne) (checked ne own) (nd_receiver nd) \<and>
     votes_ok (re_wire (ne_replica ne)) (checked ne own) (nd_replica nd)"

lemma rcv_ok_push:
  "rcv_ok rx Q s \<Longrightarrow> Q fr \<Longrightarrow> rcv_ok rx Q (s\<lparr>rv_processQueue := rv_processQueue s @ [fr]\<rparr>)"
  by (auto simp: rcv_ok_def)

lemma rcv_ok_pop:
  "rcv_ok rx Q s \<Longrightarrow> set q \<subseteq> set (rv_processQueue s) \<Longrightarrow> rcv_ok rx Q (s\<lparr>rv_processQueue := q\<rparr>)"
  by (auto simp: rcv_ok_def)

lemma node_ok_init: "node_ok ne own (node_init ne app)"
proof -
  have "rcv_ok (ne_receiver ne) (checked ne own) receiver_init"
    by (rule rcv_ok_init) (auto simp: checked_def forwarded_ok_def)
  then show ?thesis by (simp add: node_ok_def node_init_def votes_ok_init)
qed

lemma node_ok_handle:
  assumes "node_ok ne own nd" and "sender = ne_ip ne \<longrightarrow> own fr" and "handleMessage ne now sender fr nd = Inr nd'"
  shows "node_ok ne own nd'"
  using assms rcv_ok_receive(1,2)
  by (auto simp: node_ok_def handleMessage_def Let_def checked_def elim!: bindE_InrE intro!: rcv_ok_push split: if_splits)

lemma node_ok_deadlines:
  "node_ok ne own nd \<Longrightarrow>
     node_ok ne own (nd\<lparr>nd_receiver := snd (checkDeadlines (ne_receiver ne) now (nd_receiver nd))\<rparr>)"
  by (simp add: node_ok_def rcv_ok_receive(3))

lemma node_ok_message:
  assumes "node_ok ne own nd" and "sender = ne_ip ne \<longrightarrow> own fr" and "onMessage ne now sender fr nd = Inr nd'"
  shows "node_ok ne own nd'"
proof -
  obtain nd1 where nd1: "handleMessage ne now sender fr nd = Inr nd1"
    using assms(3) by (auto simp: onMessage_def elim!: bindE_InrE)
  have "node_ok ne own nd1" using node_ok_handle [OF assms(1,2) nd1] .
  then show ?thesis
    using assms(3) nd1 node_ok_deadlines [of ne own nd1 now] by (auto simp: onMessage_def node_ok_def split: if_splits)
qed

lemma node_ok_verify:
  assumes "node_ok ne own nd" and "verify_turn ne nd = Inr nd'"
  shows "node_ok ne own nd'"
  using assms
  by (auto simp: verify_turn_def node_ok_def checked_def Let_def elim!: bindE_InrE intro!: rcv_ok_push
      split: list.splits verdict.splits)

lemma votes_ok_turn:
  assumes "votes_ok (re_wire env) adm s" and "\<And>fr. msg = Some fr \<Longrightarrow> adm fr" and "process_turn env msg s = Inr (b, s')"
  shows "votes_ok (re_wire env) adm s'"
proof -
  obtain s1 where s1: "checkTimeouts env s = Inr s1"
    using assms(3) unfolding process_turn_def by (elim bindE_InrE)
  have ok1: "votes_ok (re_wire env) adm s1" using checkTimeouts_same [OF s1] assms(1) votes_ok_same by blast
  obtain s2 where s2: "(case rp_snapshotQueue s1 of [] \<Rightarrow> Inr s1
      | (rd, snap) # q \<Rightarrow> processSnapshot env snap rd (s1\<lparr>rp_snapshotQueue := q\<rparr>)) = Inr s2"
    and last: "(case msg of None \<Rightarrow> Inr (True, s2) | Some fr \<Rightarrow> processMessage env fr s2) = Inr (b, s')"
    using assms(3) s1 unfolding process_turn_def by (auto elim!: bindE_InrE)
  have "votes s2 = votes s1"
    using s2 by (cases "rp_snapshotQueue s1") (auto dest!: votes_snapshot)
  then have ok2: "votes_ok (re_wire env) adm s2" using ok1 same_votes_of votes_ok_same by blast
  show ?thesis using last ok2 assms(2) votes_ok_message by (cases msg) auto
qed

lemma node_ok_process:
  assumes "node_ok ne own nd" and "process_step ne now nd = Inr nd'"
  shows "node_ok ne own nd'"
proof -
  let ?env = "(ne_replica ne)\<lparr>re_now := now\<rparr>" and ?rv = "nd_receiver nd"
  obtain msg q where mq: "(case rv_processQueue ?rv of [] \<Rightarrow> (None, []) | fr # q \<Rightarrow> (Some fr, q)) = (msg, q)"
    by (cases "rv_processQueue ?rv") auto
  obtain b s where turn: "process_turn ?env msg (nd_replica nd) = Inr (b, s)"
    and nd': "nd' = nd\<lparr>nd_receiver := ?rv\<lparr>rv_processQueue := q\<rparr>, nd_replica := s, nd_processRunning := b\<rparr>"
    using assms(2) mq by (auto simp: process_step_def Let_def elim!: bindE_InrE)
  have sub: "set q \<subseteq> set (rv_processQueue ?rv)" and adm: "\<And>fr. msg = Some fr \<Longrightarrow> fr \<in> set (rv_processQueue ?rv)"
    using mq by (auto split: list.splits)
  have rcv: "rcv_ok (ne_receiver ne) (checked ne own) ?rv" using assms(1) by (simp add: node_ok_def)
  then have "checked ne own fr" if "msg = Some fr" for fr using adm [OF that] by (simp add: rcv_ok_def)
  then have "votes_ok (re_wire (ne_replica ne)) (checked ne own) s"
    using votes_ok_turn [where env = ?env, OF _ _ turn] assms(1) by (simp add: node_ok_def)
  then show ?thesis using rcv_ok_pop [OF rcv sub] nd' by (simp add: node_ok_def)
qed

lemma node_reach_ok:
  assumes "node_reach ne own app nd"
  shows "node_ok ne own nd"
  using assms
proof (induction rule: node_reach.induct)
  case init
  show ?case by (rule node_ok_init)
next
  case (net nd sender fr now nd')
  show ?case by (rule node_ok_message [OF net.IH net.hyps(2,3)])
next
  case (verify nd nd')
  show ?case by (rule node_ok_verify [OF verify.IH verify.hyps(3)])
next
  case (process nd now nd')
  show ?case by (rule node_ok_process [OF process.IH process.hyps(3)])
next
  case (timer nd now)
  show ?case by (rule node_ok_deadlines [OF timer.IH])
next
  case (receiver nd rv)
  then show ?case using rcv_ok_verify by (simp add: node_ok_def) blast
qed

text \<open>What a vote that came in a checked frame proves.\<close>

definition vouched :: "('s, 'k) node_env \<Rightarrow> (frame \<Rightarrow> bool) \<Rightarrow> message_type \<Rightarrow> proto_msg \<Rightarrow> u32 \<Rightarrow> bool" where
  "vouched ne own t msg i \<longleftrightarrow>
     (\<exists>fr. type_of_code (fr_type fr) = Some t \<and> wp_parse (re_wire (ne_replica ne)) t (fr_body fr) = Some msg \<and>
        (own fr \<or> sig_verify_frame (wp_sig (re_wire (ne_replica ne))) fr (REPLICA, i)))"

lemma verify_message_sender:
  assumes "verify_message w m fr = Inr Enqueue" and "type_of_code (fr_type fr) = Some t" and "t \<notin> set unsigned_types"
    and "wp_parse w t (fr_body fr) = Some msg" and "claimed_sender msg = Some i"
  shows "sig_verify_frame (wp_sig w) fr i"
proof -
  consider "verify_client_msg w t fr = Inr Enqueue" | "verify_repair_msg w m t fr = Inr Enqueue"
    | "verify_checkpoint_msg w m t fr = Inr Enqueue"
    using assms(1,2) by (auto simp: verify_message_def simp del: not_None_eq split: if_splits)
  then have "\<exists>msg i. wp_parse w t (fr_body fr) = Some msg \<and> claimed_sender msg = Some i \<and> sig_verify_frame (wp_sig w) fr i"
    by cases (use assms(3) enqueue_checkpoint enqueue_client enqueue_repair in blast)+
  then show ?thesis using assms(4,5) by auto
qed

lemma came_vouched:
  assumes "came (re_wire (ne_replica ne)) (checked ne own) t msg" and "t \<notin> set unsigned_types" and "t \<noteq> DOM_REQUEST"
    and "claimed_sender msg = Some (REPLICA, i)"
  shows "vouched ne own t msg i"
  using assms verify_message_sender
  by (fastforce simp: came_def checked_def vouched_def forwarded_ok_def dom_frame_def)

lemma votes_ok_vouched:
  assumes "votes_ok (re_wire (ne_replica ne)) (checked ne own) s"
  shows "(i, p) \<in> set (rp_repairPrepares s) \<Longrightarrow> prep_replica_id p = i \<and> vouched ne own PBFT_PREPARE (M_Prepare p) i"
    and "(i, c) \<in> set (rp_repairPBFTCommits s) \<Longrightarrow> pc_replica_id c = i \<and> vouched ne own PBFT_COMMIT (M_PBFTCommit c) i"
    and "(i, m) \<in> set (rp_repairStartMsgs s) \<Longrightarrow> rs_replica_id m = i \<and> vouched ne own REPAIR_START (M_RepairStart m) i"
proof -
  note came = came_vouched [where ne = ne and own = own, simplified unsigned_types_def claimed_sender_def]
  show "prep_replica_id p = i \<and> vouched ne own PBFT_PREPARE (M_Prepare p) i" if "(i, p) \<in> set (rp_repairPrepares s)"
    using that assms came [of PBFT_PREPARE "M_Prepare p" i] by (auto simp: votes_ok_def)
  show "pc_replica_id c = i \<and> vouched ne own PBFT_COMMIT (M_PBFTCommit c) i" if "(i, c) \<in> set (rp_repairPBFTCommits s)"
    using that assms came [of PBFT_COMMIT "M_PBFTCommit c" i] by (auto simp: votes_ok_def)
  show "rs_replica_id m = i \<and> vouched ne own REPAIR_START (M_RepairStart m) i" if "(i, m) \<in> set (rp_repairStartMsgs s)"
    using that assms came [of REPAIR_START "M_RepairStart m" i] by (auto simp: votes_ok_def)
qed

section \<open>A concrete repair\<close>

text \<open>Four replicas, of which the first is the primary of view 0, and the messages of a repair in
  round 1 that agrees on the empty log; for the witnesses.\<close>

definition demo_start :: "u32 \<Rightarrow> repair_start" where
  "demo_start i = \<lparr>rs_pbft_view = 0, rs_round = 1, rs_replica_id = i, rs_log = Some empty_repair_log, rs_prepared_history = None\<rparr>"

definition demo_proposal :: repair_proposal where
  "demo_proposal = \<lparr>rpr_round = 1, rpr_view = 0, rpr_replica_id = 0, rpr_start_msgs = map demo_start [0, 1, 2],
     rpr_signatures = [[1], [1], [1]]\<rparr>"

definition demo_vote :: "u32 \<Rightarrow> pbft_prepare" where
  "demo_vote i = \<lparr>prep_round = 1, prep_replica_id = i, prep_pbft_view = 0, prep_proposal_digest = [1, 1, 1], prep_log_digest = []\<rparr>"

definition demo_commit :: "u32 \<Rightarrow> pbft_commit" where
  "demo_commit i = \<lparr>pc_round = 1, pc_replica_id = i, pc_pbft_view = 0, pc_proposal_digest = [1, 1, 1], pc_log_digest = []\<rparr>"

definition demo_repair_wire :: "unit wire_params" where
  "demo_repair_wire = demo_wire\<lparr>wp_parse := (\<lambda>t b.
     case (t, b) of (PBFT_PREPREPARE, []) \<Rightarrow> Some (M_PrePrepare \<lparr>pp_round = 1, pp_primary_id = 0, pp_pbft_view = 0,
         pp_proposal = demo_proposal, pp_proposal_digest = [1, 1, 1]\<rparr>)
     | (PBFT_PREPARE, [i]) \<Rightarrow> Some (M_Prepare (demo_vote (ucast i)))
     | (PBFT_COMMIT, [i]) \<Rightarrow> Some (M_PBFTCommit (demo_commit (ucast i)))
     | _ \<Rightarrow> None)\<rparr>"

definition demo_replica :: "u32 \<Rightarrow> (unit, unit) replica_env" where
  "demo_replica i =
     \<lparr>re_log = demo_env, re_cm = demo_config, re_wire = demo_repair_wire, re_id = i, re_now = 5, re_crashed = False,
      re_swapFreq = 0, re_checkpointDropFreq = 0, re_viewChangeFreq = 0, re_viewChangeNum = 0,
      re_commitLocalInViewChange = False\<rparr>"

definition demo_node :: "(unit, unit) node_env" where
  "demo_node = \<lparr>ne_replica = demo_replica 0, ne_receiver = demo_rx, ne_ip = [9], ne_numVerifyThreads = 1\<rparr>"

text \<open>A message of the demonstration in a frame whose signature passes.\<close>

definition demo_frame :: "message_type \<Rightarrow> bytes \<Rightarrow> frame" where
  "demo_frame t b = \<lparr>fr_type = code_of_type t, fr_body = b, fr_sig = [1]\<rparr>"

definition demo_waiting :: "unit node" where
  "demo_waiting = (node_init demo_node ())\<lparr>nd_verifyQueue := [demo_frame PBFT_PREPARE [2]]\<rparr>"

definition demo_passed :: "unit node" where
  "demo_passed = (node_init demo_node ())\<lparr>nd_receiver := receiver_init\<lparr>rv_processQueue := [demo_frame PBFT_PREPARE [2]]\<rparr>\<rparr>"

lemma demo_type [simp]: "type_of_code (fr_type (demo_frame t b)) = Some t" "fr_body (demo_frame t b) = b"
  "fr_sig (demo_frame t b) = [1]"
  by (simp_all add: demo_frame_def)

lemmas demo_repair_simps = demo_repair_wire_def demo_wire_simps demo_replica_def

lemma demo_arrives: "onMessage demo_node 1 [] (demo_frame PBFT_PREPARE [2]) (node_init demo_node ()) = Inr demo_waiting"
  by (simp add: onMessage_def handleMessage_def demo_node_def node_init_def demo_waiting_def Let_def)

lemma demo_checks: "verify_turn demo_node demo_waiting = Inr demo_passed"
  by (simp add: verify_turn_def demo_waiting_def demo_passed_def node_init_def verify_message_def client_types_def
      repair_types_def verify_repair_msg_def demo_node_def demo_repair_simps signed_by_def verdict_of_def receiver_init_def Let_def)

lemma demo_passed_reach: "node_reach demo_node (\<lambda>_. False) () demo_passed"
proof -
  have "node_reach demo_node (\<lambda>_. False) () demo_waiting"
    by (rule node_reach.net [OF node_reach.init _ demo_arrives]) (simp add: demo_node_def)
  then show ?thesis
    by (rule node_reach.verify [OF _ _ demo_checks]) (simp add: demo_waiting_def node_init_def demo_node_def)
qed

definition demo_voted :: "unit node" where
  "demo_voted = (node_init demo_node ())\<lparr>nd_replica := storePrepare (demo_vote 2) [1] (replica_init (demo_replica 0) ())\<rparr>"

lemma demo_processes: "process_step demo_node 5 demo_passed = Inr demo_voted"
  by (simp add: process_step_def process_turn_def demo_passed_def demo_voted_def node_init_def demo_node_def
      replica_init_def checkTimeouts_def collector_timeouts_def cst_new_def processMessage_def normal_types_def
      repair_types_def process_repair_msg_def demo_repair_simps goOn_def processPrepare_def laterPrepare_def
      countPrepares_def storePrepare_def demo_vote_def receiver_init_def Let_def)

section \<open>Properties\<close>

text \<open>C5: in every reachable state of the process, each message waiting for the process thread came from the
  replica's own address, was passed by the verification thread, or is a request the receiver forwarded, whose
  client message is authentic.\<close>

theorem node_process_queue_checked:
  assumes "node_reach ne own app nd" and "fr \<in> set (rv_processQueue (nd_receiver nd))"
  shows "own fr \<or> verify_message (re_wire (ne_replica ne)) (re_cm (ne_replica ne)) fr = Inr Enqueue \<or>
    (\<exists>r. fr = dom_frame (ne_receiver ne) r \<and> authentic (ne_receiver ne) (dom_client_id r) r)"
  using node_reach_ok [OF assms(1)] assms(2)
  unfolding node_ok_def rcv_ok_def checked_def forwarded_ok_def by blast

theorem node_process_queue_checked_witness:
  "verify_message demo_repair_wire demo_config (demo_frame PBFT_PREPARE [2]) = Inr Enqueue \<or>
     (\<exists>r. demo_frame PBFT_PREPARE [2] = dom_frame demo_rx r \<and> authentic demo_rx (dom_client_id r) r)"
  using node_process_queue_checked [OF demo_passed_reach, of "demo_frame PBFT_PREPARE [2]"]
  by (simp add: demo_passed_def demo_node_def demo_replica_def)

text \<open>C6: in every reachable state of the process the stored prepares, commits and repair starts are filed
  under the replica they name, at most one for each, and each came in a message that this replica signed or
  that came from the own address.\<close>

theorem node_votes_authentic:
  assumes "node_reach ne own app nd"
  shows "sm_ok (rp_repairPrepares (nd_replica nd)) \<and> sm_ok (rp_repairPBFTCommits (nd_replica nd)) \<and>
    (\<forall>(i, p) \<in> set (rp_repairPrepares (nd_replica nd)).
       prep_replica_id p = i \<and> vouched ne own PBFT_PREPARE (M_Prepare p) i) \<and>
    (\<forall>(i, c) \<in> set (rp_repairPBFTCommits (nd_replica nd)).
       pc_replica_id c = i \<and> vouched ne own PBFT_COMMIT (M_PBFTCommit c) i) \<and>
    (\<forall>(i, m) \<in> set (rp_repairStartMsgs (nd_replica nd)).
       rs_replica_id m = i \<and> vouched ne own REPAIR_START (M_RepairStart m) i)"
proof -
  have ok: "votes_ok (re_wire (ne_replica ne)) (checked ne own) (nd_replica nd)"
    using node_reach_ok [OF assms] by (simp add: node_ok_def)
  have sorted: "sm_ok (rp_repairPrepares (nd_replica nd))" "sm_ok (rp_repairPBFTCommits (nd_replica nd))"
    using ok by (simp_all add: votes_ok_def)
  show ?thesis
    by (intro conjI sorted ballI; clarify) (blast dest: votes_ok_vouched [OF ok])+
qed

theorem node_votes_authentic_witness:
  "vouched demo_node (\<lambda>_. False) PBFT_PREPARE (M_Prepare (demo_vote 2)) 2"
proof -
  have "node_reach demo_node (\<lambda>_. False) () demo_voted"
    by (rule node_reach.process [OF demo_passed_reach _ demo_processes]) (simp add: demo_passed_def node_init_def)
  from node_votes_authentic [OF this] show ?thesis by (simp add: demo_voted_def storePrepare_def replica_init_def demo_vote_def)
qed

end
