(* ===== verification/CommitOnce.thy ===== *)
theory CommitOnce
  imports NodeSafety
begin

text \<open>
  Agreement within a view: a correct replica sends at most one commit for a round and view, it sends
  one only with a quorum of prepares and applies a proposal only with a quorum of commits, so two
  replicas that apply in the same round and view apply the proposal with the same digest.
\<close>

section \<open>One commit per round and view\<close>

text \<open>A commit that was sent is of an earlier view, or of this one when it is prepared, up to the prepared round;
  neither the prepared round nor that of a stored prepare is after the current round.\<close>

definition once :: "'s replica \<Rightarrow> bool" where
  "once s \<longleftrightarrow>
     (\<forall>c \<in> commits_sent s. pc_pbft_view c < rp_pbftView s \<or>
        (pc_pbft_view c = rp_pbftView s \<and> rp_viewPrepared s \<and> pc_round c \<le> rp_preparedRound s)) \<and>
     (\<forall>c \<in> commits_sent s. \<forall>c' \<in> commits_sent s.
        pc_round c = pc_round c' \<and> pc_pbft_view c = pc_pbft_view c' \<longrightarrow> c = c') \<and>
     rp_preparedRound s \<le> rp_round s \<and>
     (\<forall>(i, p) \<in> set (rp_repairPrepares s). prep_round p \<le> rp_round s)"

lemma once_init: "once (replica_init env app)"
  by (simp add: once_def replica_init_def commits_sent_def)

text \<open>What every handler but that of the prepares does: no commit is sent, no prepare is stored, nothing becomes
  prepared, and a new view is a later one that is not prepared.\<close>

definition calm :: "'s replica \<Rightarrow> 's replica \<Rightarrow> bool" where
  "calm s s' \<longleftrightarrow> commits_sent s' = commits_sent s \<and> set (rp_repairPrepares s') \<subseteq> set (rp_repairPrepares s) \<and>
     rp_preparedRound s' = rp_preparedRound s \<and>
     (rp_pbftView s' = rp_pbftView s \<and> rp_viewPrepared s' = rp_viewPrepared s \<or>
      rp_pbftView s < rp_pbftView s' \<and> \<not> rp_viewPrepared s')"

lemma calm_trans: "calm s s1 \<Longrightarrow> calm s1 s' \<Longrightarrow> calm s s'"
  unfolding calm_def by (elim conjE) (intro conjI; auto)

lemma calm_refl [simp]: "calm s s"
  by (simp add: calm_def)

lemma finished_sel:
  assumes "stage s' = finished s"
  shows "commits_sent s' = commits_sent s" "rp_viewPrepared s' = rp_viewPrepared s"
    "rp_preparedRound s' = rp_preparedRound s" "rp_repairProposal s' = None" "rp_round s' = rp_round s + 1"
    "rp_pbftView s' = rp_pbftView s"
  using assms by (simp_all add: finished_def stage_def votes_def)

lemma once_calm:
  assumes "once s" and "calm s s'" and "rp_round s \<le> rp_round s'"
  shows "once s'"
proof -
  have same: "commits_sent s' = commits_sent s" "rp_preparedRound s' = rp_preparedRound s"
    and sub: "set (rp_repairPrepares s') \<subseteq> set (rp_repairPrepares s)"
    and view: "rp_pbftView s' = rp_pbftView s \<and> rp_viewPrepared s' = rp_viewPrepared s \<or> rp_pbftView s < rp_pbftView s'"
    using assms(2) by (auto simp: calm_def)
  have "pc_pbft_view c < rp_pbftView s' \<or>
      (pc_pbft_view c = rp_pbftView s' \<and> rp_viewPrepared s' \<and> pc_round c \<le> rp_preparedRound s')" if "c \<in> commits_sent s" for c
  proof -
    have "pc_pbft_view c < rp_pbftView s \<or>
        (pc_pbft_view c = rp_pbftView s \<and> rp_viewPrepared s \<and> pc_round c \<le> rp_preparedRound s)"
      using assms(1) that unfolding once_def by blast
    then show ?thesis using view same(2) by auto
  qed
  moreover have "prep_round p \<le> rp_round s'" if "(i, p) \<in> set (rp_repairPrepares s')" for i p
    using that sub assms(1,3) unfolding once_def by fastforce
  moreover have "rp_preparedRound s' \<le> rp_round s'" using assms(1,3) same(2) unfolding once_def by (metis order.trans)
  ultimately show ?thesis using assms(1) unfolding once_def same by blast
qed

lemma calm_round: "stage s' = stage (s\<lparr>rp_round := r\<rparr>) \<Longrightarrow> calm s s'"
  using stage_sel [where s' = s' and s = "s\<lparr>rp_round := r\<rparr>"] by (simp add: calm_def commits_sent_def votes_def)

lemma calm_stage: "stage s' = stage s \<Longrightarrow> calm s s'"
  by (rule calm_round [where r = "rp_round s"]) simp

lemma le_Suc_no_wrap:
  assumes "(w :: u32) \<noteq> - 1"
  shows "w \<le> w + 1"
proof -
  have "unat w \<noteq> unat (- 1 :: u32)" using assms word_eq_iff_unsigned by blast
  then have "unat w + 1 < 2 ^ 32" using unsigned_less [of w, where 'a = nat] by (simp add: unsigned_minus_1_eq_mask mask_eq_exp_minus_1)
  then show ?thesis using unat_Suc_no_wrap(1) [of w] by (simp add: word_le_nat_alt)
qed

lemma calm_finished: "stage s' = finished s \<Longrightarrow> calm s s'" "stage s' = finished (s\<lparr>rp_round := r\<rparr>) \<Longrightarrow> calm s s'"
  by (simp_all add: calm_def finished_def stage_def votes_def commits_sent_def)

lemma calm_try: "tryFinishRepair env s = Inr s' \<Longrightarrow> calm s s'"
  using tryFinishRepair_stage calm_round calm_finished(2) by blast

lemma calm_apply: "applyRepair env sfx av ab s = Inr (b, s') \<Longrightarrow> calm s s'"
  by (drule applyRepair_stage) (auto intro: calm_stage calm_finished(1) split: if_splits)

section \<open>View changes\<close>

lemma stage_prePreparePhase [simp]: "stage (doPrePreparePhase env rd s) = stage s"
  by (simp add: doPrePreparePhase_def Let_def)

lemma startViewChange_stage:
  assumes "startViewChange env v s = Inr s'"
  shows "stage s' = stage (s\<lparr>rp_pbftView := v, rp_viewPrepared := False\<rparr>)"
proof -
  let ?s1 = "s\<lparr>rp_pbftView := v, rp_repair := True, rp_viewPrepared := False, rp_repairViewStart := 0\<rparr>"
  have "stage s' = stage ?s1"
    using assms by (auto simp: startViewChange_def Let_def elim!: bindE_InrE split: if_splits)
  then show ?thesis by (simp add: stage_def votes_def commits_sent_def)
qed

lemma calm_view:
  assumes "startViewChange env v s = Inr s'" and "rp_pbftView s < v"
  shows "calm s s'"
  using assms(2) stage_sel [OF startViewChange_stage [OF assms(1)]] by (simp add: calm_def commits_sent_def votes_def)

lemma view_threshold_positive:
  assumes "cm_valid m"
  shows "0 < unat (cm_numReplicas m - cm_quorumSize m + 1)"
proof -
  have "cm_quorumSize m \<le> cm_numReplicas m"
    using cm_valid_sizes [OF assms] by (simp add: getNumReplicas_def getQuorumSize_def word_le_nat_alt)
  then have "unat (cm_numReplicas m - cm_quorumSize m) = getF m"
    using cm_valid_sizes [OF assms] by (simp add: unat_sub getNumReplicas_def getQuorumSize_def)
  moreover have "getF m + 1 < 2 ^ 32" using assms by (simp add: cm_valid_def)
  ultimately have "unat (cm_numReplicas m - cm_quorumSize m + 1) = getF m + 1"
    using unat_Suc_no_wrap [of "cm_numReplicas m - cm_quorumSize m"] by simp
  then show ?thesis by simp
qed

lemma updateReplicaView_calm:
  assumes "cm_valid (re_cm env)" and "updateReplicaView env i v rd s = Inr s'"
  shows "calm s s'"
proof -
  let ?s1 = "s\<lparr>rp_replicaViews := sm_put i (v, rd) (rp_replicaViews s)\<rparr>"
  define s2 where "s2 = (if getQuorumSize (re_cm env) \<le> length (filter (\<lambda>p. snd p = (rp_pbftView ?s1, rp_round ?s1)) (rp_replicaViews ?s1))
    then ?s1\<lparr>rp_repairViewStart := re_now env\<rparr> else ?s1)"
  define higher where "higher = filter (\<lambda>v. rp_pbftView s2 < v) (map (fst \<circ> snd) (rp_replicaViews s2))"
  have same: "stage s2 = stage s" by (simp add: s2_def)
  have "updateReplicaView env i v rd s =
      (if map_of (rp_replicaViews s) i = Some (v, rd) then Inr s
       else if higher \<noteq> [] \<and> \<not> (rp_pbftView s2 < fold min higher (- 1) \<and> fold min higher (- 1) \<noteq> - 1) then Inl AssertFailed
       else if unat (cm_numReplicas (re_cm env) - cm_quorumSize (re_cm env) + 1) \<le> length higher
       then startViewChange env (fold min higher (- 1)) s2 else Inr s2)"
    unfolding updateReplicaView_def Let_def higher_def s2_def ..
  then consider "s' = s" | "s' = s2" | "startViewChange env (fold min higher (- 1)) s2 = Inr s'" "rp_pbftView s2 < fold min higher (- 1)"
    using assms(2) view_threshold_positive [OF assms(1)] by (auto split: if_splits)
  then show ?thesis
    by cases (use calm_view [of env _ s2 s'] calm_stage [OF same] calm_trans in \<open>auto\<close>)
qed

lemma checkTimeouts_cases:
  assumes "checkTimeouts env s = Inr s'"
  shows "stage s' = stage s \<or> (\<exists>s2. stage s2 = stage s \<and> startViewChange env (rp_pbftView s2 + 1) s2 = Inr s')"
proof -
  let ?s1 = "collector_timeouts env s"
  obtain s3 where a: "(if rp_checkpointTimeoutStart ?s1 \<noteq> 0 \<and>
        cfg_replicaCheckpointTimeout (re_config env) < re_now env - rp_checkpointTimeoutStart ?s1 \<and>
        \<not> cst_hasCollector (rp_round ?s1) (lg_nextSeq (rp_log ?s1) - 1) (rp_collectors ?s1)
      then bindE (startCheckpoint env False ?s1) (\<lambda>s2. Inr (s2\<lparr>rp_checkpointTimeoutStart := 0\<rparr>)) else Inr ?s1) = Inr s3"
    and b: "(if rp_repairViewStart s3 = 0 then Inr s3
       else bindE (viewTimeout env s3) (\<lambda>limit.
            if limit < re_now env - rp_repairViewStart s3
            then startViewChange env (rp_pbftView s3 + 1)
                   (s3\<lparr>rp_repairViewStart := re_now env, rp_numConsecutiveViewChanges := rp_numConsecutiveViewChanges s3 + 1\<rparr>)
            else Inr s3)) = Inr s'"
    using assms unfolding checkTimeouts_def Let_def by (rule bindE_InrE)
  have s3: "stage s3 = stage s"
    using a by (auto elim!: bindE_InrE dest!: stage_request(1) split: if_splits)
  have rest: "s' = s3 \<or> startViewChange env (rp_pbftView s3 + 1)
      (s3\<lparr>rp_repairViewStart := re_now env, rp_numConsecutiveViewChanges := rp_numConsecutiveViewChanges s3 + 1\<rparr>) = Inr s'"
    using b by (auto elim!: bindE_InrE split: if_splits)
  have "stage (s3\<lparr>rp_repairViewStart := re_now env, rp_numConsecutiveViewChanges := rp_numConsecutiveViewChanges s3 + 1\<rparr>) = stage s"
    using s3 by simp
  then show ?thesis using rest s3 stage_sel(7) by metis
qed

lemma checkTimeouts_keeps:
  assumes "checkTimeouts env s = Inr s'"
  shows "commits_sent s' = commits_sent s \<and> rp_round s' = rp_round s"
  using checkTimeouts_cases [OF assms]
proof (elim disjE exE conjE)
  fix s2 assume s2: "stage s2 = stage s" "startViewChange env (rp_pbftView s2 + 1) s2 = Inr s'"
  show ?thesis using stage_sel(2,6) [OF startViewChange_stage [OF s2(2)]] stage_sel(2,6) [OF s2(1)] by (simp add: commits_sent_def)
next
  assume "stage s' = stage s"
  then show ?thesis using stage_sel(2,6) by blast
qed

lemma checkTimeouts_calm:
  assumes "rp_pbftView s \<noteq> - 1" and "checkTimeouts env s = Inr s'"
  shows "calm s s'"
  using checkTimeouts_cases [OF assms(2)]
proof (elim disjE exE conjE)
  fix s2 assume s2: "stage s2 = stage s" "startViewChange env (rp_pbftView s2 + 1) s2 = Inr s'"
  have "rp_pbftView s < rp_pbftView s + 1"
    using le_Suc_no_wrap [OF assms(1)] by (metis add_cancel_left_right one_neq_zero order_le_less)
  then show ?thesis using calm_trans [OF calm_stage [OF s2(1)] calm_view [OF s2(2)]] stage_sel(7) [OF s2(1)] by simp
qed (rule calm_stage)

section \<open>Prepares and commits\<close>

lemma doPreparePhase_stage: "doPreparePhase env s = Inr s' \<Longrightarrow> stage s' = stage s"
  by (auto simp: doPreparePhase_def elim!: bindE_InrE dest!: stage_suffix split: option.splits)

lemma calm_prePrepare:
  assumes "processPrePrepare env p s = Inr s'"
  shows "calm s s'"
proof -
  let ?s1 = "s\<lparr>rp_repairProposal := Some (pp_proposal p), rp_repairProposalLogSuffix := None, rp_proposalDigest := pp_proposal_digest p\<rparr>"
  have "s' = s \<or> stage s' = stage ?s1"
    using assms by (auto simp: processPrePrepare_def Let_def dest: doPreparePhase_stage split: if_splits)
  moreover have "calm s ?s1" by (simp add: calm_def commits_sent_def)
  ultimately show ?thesis using calm_stage calm_trans calm_refl by metis
qed

lemma commits_sent_send [simp]:
  "commits_sent (sendMsgToDst env (M_PBFTCommit c) t dst s) =
     (if re_crashed env then commits_sent s else insert c (commits_sent s))"
  "commits_sent (broadcastToReplicas env (M_PBFTCommit c) t s) =
     (if re_crashed env then commits_sent s else insert c (commits_sent s))"
  "commits_sent (s\<lparr>rp_holdPrepareOrCommit := b\<rparr>) = commits_sent s"
  by (auto simp: commits_sent_def sendMsgToDst_def broadcastToReplicas_def)

lemma send_sel [simp]:
  "rp_viewPrepared (sendMsgToDst env m t dst s) = rp_viewPrepared s"
  "rp_preparedRound (sendMsgToDst env m t dst s) = rp_preparedRound s"
  "rp_repairProposal (sendMsgToDst env m t dst s) = rp_repairProposal s"
  "rp_round (sendMsgToDst env m t dst s) = rp_round s"
  "rp_viewPrepared (broadcastToReplicas env m t s) = rp_viewPrepared s"
  "rp_preparedRound (broadcastToReplicas env m t s) = rp_preparedRound s"
  "rp_repairProposal (broadcastToReplicas env m t s) = rp_repairProposal s"
  "rp_round (broadcastToReplicas env m t s) = rp_round s"
  by (simp_all add: sendMsgToDst_def broadcastToReplicas_def)

text \<open>The commit of the proposal at hand is the only one the phase sends.\<close>

lemma doCommitPhase_stage:
  assumes "doCommitPhase env s = Inr s'"
  shows "\<exists>p c C. rp_repairProposal s = Some p \<and> pc_round c = rpr_round p \<and> pc_pbft_view c = rp_pbftView s \<and>
    pc_proposal_digest c = rp_proposalDigest s \<and> pc_replica_id c = re_id env \<and>
    commits_sent s \<subseteq> C \<and> C \<subseteq> insert c (commits_sent s) \<and>
    stage s' = (votes s, C, rp_viewPrepared s, rp_preparedRound s, Some p, rp_round s)"
proof -
  obtain p sfx s1 where p: "rp_repairProposal s = Some p" and s1: "getRepairLogSuffix env s = Inr (sfx, s1)"
    using assms by (auto simp: doCommitPhase_def elim!: bindE_InrE split: option.splits)
  let ?c = "\<lparr>pc_round = rpr_round p, pc_replica_id = re_id env, pc_pbft_view = rp_pbftView s,
    pc_proposal_digest = rp_proposalDigest s, pc_log_digest = ls_logDigest sfx\<rparr>"
  have "commits_sent s1 \<subseteq> commits_sent s' \<and> commits_sent s' \<subseteq> insert ?c (commits_sent s1) \<and>
      votes s' = votes s1 \<and> rp_viewPrepared s' = rp_viewPrepared s1 \<and> rp_preparedRound s' = rp_preparedRound s1 \<and>
      rp_repairProposal s' = rp_repairProposal s1 \<and> rp_round s' = rp_round s1"
    using assms p s1
    by (auto simp: doCommitPhase_def Let_def elim!: bindE_InrE split: if_splits)
  then show ?thesis
    using p stage_sel [OF stage_suffix [OF s1]]
    by (intro exI [of _ p] exI [of _ ?c] exI [of _ "commits_sent s'"]) (simp add: stage_def)
qed

lemma prepareDone_stage:
  assumes "prepareDone env s = Inr s'"
  shows "stage s' = stage s \<or> (\<exists>p c C. rp_repairProposal s = Some p \<and> pc_round c = rpr_round p \<and>
    pc_pbft_view c = rp_pbftView s \<and> pc_proposal_digest c = rp_proposalDigest s \<and> pc_replica_id c = re_id env \<and>
    commits_sent s \<subseteq> C \<and> C \<subseteq> insert c (commits_sent s) \<and>
    stage s' = (votes s, C, rp_viewPrepared s, rp_preparedRound s, Some p, rp_round s))"
proof -
  consider "stage s' = stage s" | s1 where "doCommitPhase env s = Inr s1" "stage s' = stage s1"
    using assms by (auto simp: prepareDone_def elim!: bindE_InrE split: if_splits)
  then show ?thesis by cases (use doCommitPhase_stage in \<open>simp; fail\<close>, metis doCommitPhase_stage)
qed

lemma record_prepared_sel [simp]:
  "commits_sent (record_prepared p s) = commits_sent s" "rp_viewPrepared (record_prepared p s)"
  "rp_preparedRound (record_prepared p s) = rpr_round p" "rp_repairProposal (record_prepared p s) = rp_repairProposal s"
  "rp_round (record_prepared p s) = rp_round s" "rp_pbftView (record_prepared p s) = rp_pbftView s"
  "rp_proposalDigest (record_prepared p s) = rp_proposalDigest s"
  by (simp_all add: record_prepared_def commits_sent_def Let_def)

lemma countPrepares_cases:
  assumes "countPrepares env rd s = Inr s'"
  shows "s' = s \<or> (\<exists>p. rp_repairProposal s = Some p \<and> \<not> (rp_viewPrepared s \<and> rp_preparedRound s = rd) \<and> rd \<le> rpr_round p \<and>
    getQuorumSize (re_cm env) \<le> length (filter (matching_prepare p s) (rp_repairPrepares s)) \<and>
    prepareDone env (record_prepared p s) = Inr s')"
  using assms by (auto simp: countPrepares_def not_less split: if_splits option.splits)

lemma processPrepare_guard:
  "processPrepare env p sig s = Inr s' \<Longrightarrow> s' = s \<or>
     (prep_round p \<le> rp_round s \<and> (rp_viewPrepared s \<longrightarrow> prep_round p = rp_round s) \<and>
      countPrepares env (prep_round p) (storePrepare p sig s) = Inr s')"
  unfolding processPrepare_def by (metis linorder_not_less nless_le sum.inject(2))

lemma store_stage:
  "commits_sent (storePrepare p sig s) = commits_sent s" "rp_viewPrepared (storePrepare p sig s) = rp_viewPrepared s"
  "rp_preparedRound (storePrepare p sig s) = rp_preparedRound s" "rp_round (storePrepare p sig s) = rp_round s"
  "rp_repairProposal (storePrepare p sig s) = rp_repairProposal s" "rp_pbftView (storePrepare p sig s) = rp_pbftView s"
  "commits_sent (storeCommit c sig s) = commits_sent s" "rp_viewPrepared (storeCommit c sig s) = rp_viewPrepared s"
  "rp_preparedRound (storeCommit c sig s) = rp_preparedRound s" "rp_round (storeCommit c sig s) = rp_round s"
  "rp_repairProposal (storeCommit c sig s) = rp_repairProposal s" "rp_pbftView (storeCommit c sig s) = rp_pbftView s"
  by (simp_all add: storePrepare_def storeCommit_def commits_sent_def)

lemma sm_put_subset: "set (sm_put k v m) \<subseteq> insert (k, v) (set m)"
  by (induction k v m rule: sm_put.induct) auto

lemma once_store: "once s \<Longrightarrow> prep_round p \<le> rp_round s \<Longrightarrow> once (storePrepare p sig s)"
  by (auto simp: once_def store_stage) (auto simp: storePrepare_def dest!: subsetD [OF sm_put_subset])

lemma calm_storeCommit: "calm s (storeCommit c sig s)"
  by (simp add: calm_def store_stage) (simp add: storeCommit_def)

text \<open>A quorum of prepares has one at least.\<close>

lemma matching_prepare_round:
  assumes "cm_valid m" and "getQuorumSize m \<le> length (filter (matching_prepare p s) (rp_repairPrepares s))"
  shows "\<exists>(i, q) \<in> set (rp_repairPrepares s). prep_round q = rpr_round p"
proof -
  have "filter (matching_prepare p s) (rp_repairPrepares s) \<noteq> []"
    using assms(2) cm_valid_sizes [OF assms(1)] by auto
  then obtain x where "x \<in> set (rp_repairPrepares s)" "matching_prepare p s x" by (auto simp: filter_empty_conv)
  then show ?thesis by (intro bexI [of _ x]) (auto simp: matching_prepare_def)
qed

lemma once_count:
  assumes "cm_valid (re_cm env)" and "once s" and "rd \<le> rp_round s" and "rp_viewPrepared s \<longrightarrow> rd = rp_round s"
    and "countPrepares env rd s = Inr s'"
  shows "once s'"
proof -
  from countPrepares_cases [OF assms(5)] show ?thesis
  proof (elim disjE exE conjE)
    fix p assume p: "rp_repairProposal s = Some p" "\<not> (rp_viewPrepared s \<and> rp_preparedRound s = rd)" "rd \<le> rpr_round p"
      and votes: "getQuorumSize (re_cm env) \<le> length (filter (matching_prepare p s) (rp_repairPrepares s))"
      and fin: "prepareDone env (record_prepared p s) = Inr s'"
    let ?s1 = "record_prepared p s"
    have le: "rpr_round p \<le> rp_round s"
      using matching_prepare_round [OF assms(1) votes] assms(2) by (auto simp: once_def)
    have new: "pc_pbft_view c = rp_pbftView s \<longrightarrow> pc_round c < rpr_round p" if c: "c \<in> commits_sent s" for c
    proof
      assume v: "pc_pbft_view c = rp_pbftView s"
      then have "rp_viewPrepared s" "pc_round c \<le> rp_preparedRound s" using assms(2) c by (auto simp: once_def)
      moreover from this have "rpr_round p = rp_round s" "rp_preparedRound s \<noteq> rp_round s"
        using p(2,3) assms(4) le by auto
      moreover have "rp_preparedRound s \<le> rp_round s" using assms(2) by (simp add: once_def)
      ultimately show "pc_round c < rpr_round p" by simp
    qed
    have old: "pc_pbft_view x < rp_pbftView s \<or> (pc_pbft_view x = rp_pbftView s \<and> pc_round x < rpr_round p)"
      if x: "x \<in> commits_sent s" for x
      using assms(2) x new [OF x] unfolding once_def by blast
    have prepares: "\<forall>(i, q) \<in> set (rp_repairPrepares s). prep_round q \<le> rp_round s" using assms(2) by (simp add: once_def)
    have uniq: "x = y" if "x \<in> commits_sent s" "y \<in> commits_sent s" "pc_round x = pc_round y" "pc_pbft_view x = pc_pbft_view y" for x y
      using assms(2) that unfolding once_def by blast
    have low: "\<forall>x \<in> commits_sent s. pc_pbft_view x < rp_pbftView s \<or> (pc_pbft_view x = rp_pbftView s \<and> pc_round x \<le> rpr_round p)"
      using old by (meson less_imp_le)
    have kept: "rp_repairPrepares ?s1 = rp_repairPrepares s" by (simp add: record_prepared_def Let_def)
    have once1: "once ?s1" unfolding once_def kept record_prepared_sel using low prepares le uniq by simp
    from prepareDone_stage [OF fin] show "once s'"
    proof (elim disjE exE conjE)
      fix q c C
      assume q: "rp_repairProposal ?s1 = Some q" and c: "pc_round c = rpr_round q" "pc_pbft_view c = rp_pbftView ?s1"
        and C: "C \<subseteq> insert c (commits_sent ?s1)"
        and st: "stage s' = (votes ?s1, C, rp_viewPrepared ?s1, rp_preparedRound ?s1, Some q, rp_round ?s1)"
      have q': "q = p" using q p(1) by simp
      have sel: "commits_sent s' = C" "rp_viewPrepared s'" "rp_preparedRound s' = rpr_round p" "rp_repairProposal s' = Some p"
        "rp_round s' = rp_round s" "rp_pbftView s' = rp_pbftView s" "rp_repairPrepares s' = rp_repairPrepares s"
        using st q' by (simp_all add: stage_def votes_def record_prepared_def Let_def)
      have c': "pc_round c = rpr_round p" "pc_pbft_view c = rp_pbftView s" using c q' by simp_all
      have sub: "x = c \<or> x \<in> commits_sent s" if "x \<in> C" for x using C that by auto
      have "pc_pbft_view x < rp_pbftView s \<or> (pc_pbft_view x = rp_pbftView s \<and> pc_round x \<le> rpr_round p)" if "x \<in> C" for x
        using sub [OF that] old [of x] c' by auto
      moreover have "x = y" if xy: "x \<in> C" "y \<in> C" "pc_round x = pc_round y" "pc_pbft_view x = pc_pbft_view y" for x y
      proof (cases "x = c \<or> y = c")
        case True
        then show ?thesis using sub [OF xy(1)] sub [OF xy(2)] old [of x] old [of y] c' xy(3,4) by auto
      next
        case False
        then have "x \<in> commits_sent s" "y \<in> commits_sent s" using sub xy(1,2) by auto
        then show ?thesis using uniq xy(3,4) by blast
      qed
      ultimately show "once s'" unfolding once_def sel using le prepares sel(2) by auto
    next
      assume same: "stage s' = stage ?s1"
      show "once s'" by (rule once_calm [OF once1 calm_stage [OF same]]) (simp add: stage_sel(6) [OF same])
    qed
  qed (use assms(2) in simp)
qed

lemma once_prepare:
  assumes "cm_valid (re_cm env)" and "once s" and "processPrepare env p sig s = Inr s'"
  shows "once s'"
  using processPrepare_guard [OF assms(3)] assms(2) once_store [OF assms(2)]
    once_count [OF assms(1), of "storePrepare p sig s" "prep_round p" s']
  by (auto simp: store_stage)

lemma countCommits_cases:
  assumes "countCommits env rd s = Inr s'"
  shows "s' = s \<or> (rp_viewPrepared s \<and> rp_preparedRound s = rd \<and>
    getQuorumSize (re_cm env) \<le> length (filter (matching_commit s) (rp_repairPBFTCommits s)) \<and> tryFinishRepair env s = Inr s')"
  using assms by (auto simp: countCommits_def not_less split: if_splits option.splits)

lemma calm_commit: "processPBFTCommit env c sig s = Inr s' \<Longrightarrow> calm s s'"
  using processPBFTCommit_cases [of env c sig s s'] countCommits_cases [of env "pc_round c" "storeCommit c sig s" s']
    calm_trans [OF calm_storeCommit [of s c sig] calm_try [of env _ s']] calm_storeCommit [of s c sig] by auto

section \<open>State transfer and triggers\<close>

lemma calm_start: "calm s (processRepairStart env m sig s)"
  by (auto simp: processRepairStart_def Let_def calm_def commits_sent_def doPrePreparePhase_def broadcastToReplicas_def)

lemma calm_trigger:
  assumes "cm_valid (re_cm env)"
  shows "processRepairTimeout env t sig s = Inr s' \<Longrightarrow> calm s s'"
    and "processRepairReplyProof env p s = Inr s' \<Longrightarrow> calm s s'"
    and "processRepairTimeoutProof env q s = Inr s' \<Longrightarrow> calm s s'"
proof -
  note view = updateReplicaView_calm [OF assms]
  show "calm s s'" if "processRepairTimeout env t sig s = Inr s'"
  proof (rule calm_stage)
    show "stage s' = stage s" using that
      by (auto simp: processRepairTimeout_def Let_def elim!: bindE_InrE dest!: stage_startRepair split: if_splits prod.splits)
  qed
  show "calm s s'" if p: "processRepairReplyProof env p s = Inr s'"
  proof -
    obtain s1 where "updateReplicaView env (rrp_replica_id p) (rrp_view p) (rrp_round p) s = Inr s1" "stage s' = stage s1"
      using p by (auto simp: processRepairReplyProof_def elim!: bindE_InrE dest!: stage_startRepair split: if_splits)
    then show ?thesis using view calm_stage calm_trans by blast
  qed
  show "calm s s'" if q: "processRepairTimeoutProof env q s = Inr s'"
  proof -
    obtain s1 where "updateReplicaView env (rtp_replica_id q) (rtp_view q) (rtp_round q) s = Inr s1" "stage s' = stage s1"
      using q by (auto simp: processRepairTimeoutProof_def elim!: bindE_InrE dest!: stage_startRepair split: if_splits)
    then show ?thesis using view calm_stage calm_trans by blast
  qed
qed

lemma stage_resend: "resendReply env sq t = Inr t' \<Longrightarrow> stage t' = stage t"
  by (auto simp: resendReply_def elim!: bindE_InrE)

lemma calm_alignment:
  assumes "snapshotAlignment env m s = Inr s'"
  shows "calm s s'"
proof -
  obtain log' cs where "foldE (resendReply env) (seqs_between (lc_seq (lg_committed log') + 1) (lg_nextSeq log'))
      (s\<lparr>rp_log := log', rp_round := max (rp_round s) (srp_round m), rp_collectors := cs\<rparr>) = Inr s'"
    using assms by (auto simp: snapshotAlignment_def elim!: bindE_InrE split: if_splits prod.splits)
  from stage_foldE [OF this stage_resend]
  have "stage s' = stage (s\<lparr>rp_round := max (rp_round s) (srp_round m)\<rparr>)"
    by (simp add: stage_def votes_def commits_sent_def)
  then show ?thesis by (rule calm_round)
qed

lemma calm_snapshot:
  assumes "processSnapshotReply env m s = Inr s'"
  shows "calm s s'"
proof -
  have clear: "calm s (t\<lparr>rp_repairSnapshotRequested := False, rp_checkpointSnapshotRequested := False\<rparr>)" if "calm s t" for t
    by (rule calm_trans [OF that calm_stage]) simp
  have raise_round: "calm s (t\<lparr>rp_round := r\<rparr>)" if "calm s t" for t r
    by (rule calm_trans [OF that calm_round [OF refl]])
  have suffix: "calm s s1" if "getRepairLogSuffix env s = Inr (x, s1)" for x s1
    using calm_stage [OF stage_suffix [OF that]] .
  have applied: "calm s s2" if "getRepairLogSuffix env s = Inr (x, s1)"
    and "applyRepair env sfx av ab (s1\<lparr>rp_log := l, rp_collectors := cs\<rparr>) = Inr (b', s2)" for x s1 sfx av ab l cs b' s2
    by (rule calm_trans [OF calm_trans [OF suffix [OF that(1)] calm_stage] calm_apply [OF that(2)]]) simp
  have during: "calm s t" if d: "snapshotDuringRepair env m s = Inr (b, t)" for b t
    using d unfolding snapshotDuringRepair_def
    by (auto elim!: bindE_InrE split: if_splits prod.splits intro!: raise_round) (blast dest: suffix applied)+
  show ?thesis
    using assms
    by (auto simp: processSnapshotReply_def Let_def elim!: bindE_InrE intro!: clear dest: during calm_alignment split: if_splits prod.splits)
qed

lemma calm_missing:
  "processMissingRequestReply env q s = Inr s' \<Longrightarrow> calm s s'"
  "queueDuringRepair env d r s = Inr s' \<Longrightarrow> calm s s'"
proof -
  have finish: "calm s s'" if "stage t = stage s" "tryFinishRepair env t = Inr s'" for t
    using calm_trans [OF calm_stage [OF that(1)] calm_try [OF that(2)]] .
  have fold: "stage (fold missing_reply_step ds t) = stage t" for ds and t :: "'a replica"
    by (induction ds arbitrary: t) (simp_all add: missing_reply_step_def Let_def)
  show "calm s s'" if "processMissingRequestReply env q s = Inr s'"
  proof -
    let ?t = "fold missing_reply_step (mrr_requests q) s"
    have "s' = s \<or> s' = ?t \<or> tryFinishRepair env (?t\<lparr>rp_missingRequestFetchSent := False\<rparr>) = Inr s'"
      using that by (auto simp: processMissingRequestReply_def Let_def split: if_splits)
    then show ?thesis
      using finish [of "?t\<lparr>rp_missingRequestFetchSent := False\<rparr>"] fold calm_stage [of s' s] by auto
  qed
  show "calm s s'" if "queueDuringRepair env d r s = Inr s'"
  proof -
    have "stage s' = stage s \<or> (\<exists>t. stage t = stage s \<and> tryFinishRepair env t = Inr s')"
    proof -
      let ?s1 = "s\<lparr>rp_repairQueuedReqs := sm_insert (d, crq_client_id r) r (rp_repairQueuedReqs s)\<rparr>"
      let ?s2 = "?s1\<lparr>rp_pendingMissingRequests := remove1 (crq_client_id r, crq_client_seq r) (rp_pendingMissingRequests ?s1)\<rparr>"
      have "s' = ?s1 \<or> s' = ?s2 \<or> tryFinishRepair env (?s2\<lparr>rp_missingRequestFetchSent := False\<rparr>) = Inr s'"
        using that by (auto simp: queueDuringRepair_def Let_def split: if_splits)
      moreover have "stage ?s1 = stage s" "stage ?s2 = stage s" "stage (?s2\<lparr>rp_missingRequestFetchSent := False\<rparr>) = stage s"
        by simp_all
      ultimately show ?thesis by metis
    qed
    then show ?thesis using finish calm_stage by blast
  qed
qed

section \<open>The process thread\<close>

text \<open>Of all messages only a prepare makes a replica send a commit.\<close>

lemma message_cases:
  assumes "cm_valid (re_cm env)" and "processMessage env fr s = Inr (b, s')"
  shows "calm s s' \<or> (type_of_code (fr_type fr) = Some PBFT_PREPARE \<and>
    (\<exists>p. wp_parse (re_wire env) PBFT_PREPARE (fr_body fr) = Some (M_Prepare p) \<and> processPrepare env p (fr_sig fr) s = Inr s'))"
proof (cases "type_of_code (fr_type fr)")
  case (Some t)
  consider b' where "process_dom env (fr_body fr) s = Inr (b', s')" | b' where "process_normal_msg env t fr s = Inr (b', s')"
    | b' where "process_repair_msg env t fr s = Inr (b', s')" | "process_ps_msg env t fr s = Inr s'"
    using assms(2) Some by (auto simp: processMessage_def goOn_Inr split: if_splits)
  then show ?thesis
  proof cases
    case 1
    from process_dom_cases [OF this] have "calm s s'"
      using calm_stage stage_hold stage_request(2) calm_missing(2) calm_refl by metis
    then show ?thesis ..
  next
    case 2
    have "calm s s'"
      using process_normal_cases [OF 2]
      by (elim disjE exE) (auto dest: calm_stage [OF stages(1)] calm_snapshot calm_missing(1) intro: calm_stage dest: stages)
    then show ?thesis ..
  next
    case 3
    show ?thesis
      using process_repair_cases [OF 3] Some
      by (elim disjE exE conjE) (auto dest: calm_trigger [OF assms(1)] updateReplicaView_calm [OF assms(1)] calm_prePrepare
        calm_commit intro: calm_start)
  next
    case 4
    then show ?thesis using calm_stage stage_ps by blast
  qed
qed (use assms in \<open>simp add: processMessage_def\<close>)

lemma turn_parts:
  assumes "process_turn env msg s = Inr (b, s')"
  obtains s1 s2 where "checkTimeouts env s = Inr s1" and "stage s2 = stage s1"
    and "msg = None \<and> s' = s2 \<or> (\<exists>fr. msg = Some fr \<and> processMessage env fr s2 = Inr (b, s'))"
proof -
  obtain s1 s2 where s1: "checkTimeouts env s = Inr s1" and s2: "(case rp_snapshotQueue s1 of [] \<Rightarrow> Inr s1
      | (rd, snap) # q \<Rightarrow> processSnapshot env snap rd (s1\<lparr>rp_snapshotQueue := q\<rparr>)) = Inr s2"
    and last: "(case msg of None \<Rightarrow> Inr (True, s2) | Some fr \<Rightarrow> processMessage env fr s2) = Inr (b, s')"
    using assms unfolding process_turn_def by (auto elim!: bindE_InrE)
  have "stage s2 = stage s1" using s2 by (cases "rp_snapshotQueue s1") (auto dest!: stage_snapshot)
  then show ?thesis using that [OF s1] last by (cases msg) auto
qed

lemma once_turn:
  assumes "cm_valid (re_cm env)" and "once s" and "rp_pbftView s \<noteq> - 1" and "process_turn env msg s = Inr (b, s')"
    and "rp_round s \<le> rp_round s'"
  shows "once s'"
proof -
  obtain s1 s2 where s1: "checkTimeouts env s = Inr s1" and s2: "stage s2 = stage s1"
    and last: "msg = None \<and> s' = s2 \<or> (\<exists>fr. msg = Some fr \<and> processMessage env fr s2 = Inr (b, s'))"
    using turn_parts [OF assms(4)] .
  have calm: "calm s s2" using calm_trans [OF checkTimeouts_calm [OF assms(3) s1] calm_stage [OF s2]] .
  have rd: "rp_round s2 = rp_round s" using checkTimeouts_keeps [OF s1] stage_sel(6) [OF s2] by simp
  have once2: "once s2" using once_calm [OF assms(2) calm] rd by simp
  have "calm s2 s' \<or> (\<exists>p sig. processPrepare env p sig s2 = Inr s')"
  proof (cases msg)
    case (Some fr)
    then have "processMessage env fr s2 = Inr (b, s')" using last by simp
    from message_cases [OF assms(1) this] show ?thesis by blast
  qed (use last in simp)
  then show ?thesis
    using once_calm [OF once2] once_prepare [OF assms(1) once2] rd assms(5) by auto
qed

text \<open>A run of the process thread, any messages handled at any times: its states, the last one first.\<close>

inductive replica_run :: "('s, 'k) replica_env \<Rightarrow> 's \<Rightarrow> 's replica list \<Rightarrow> bool" for env app where
  start: "replica_run env app [replica_init env app]"
| turn: "replica_run env app (s # ss) \<Longrightarrow> process_turn (env\<lparr>re_now := now\<rparr>) msg s = Inr (b, s') \<Longrightarrow>
    replica_run env app (s' # s # ss)"

text \<open>The round never went down and the view stayed below the largest 32-bit number.\<close>

fun rounds_rise :: "'s replica list \<Rightarrow> bool" where
  "rounds_rise (s' # s # ss) \<longleftrightarrow> rp_round s \<le> rp_round s' \<and> rp_pbftView s \<noteq> - 1 \<and> rounds_rise (s # ss)"
| "rounds_rise _ \<longleftrightarrow> True"

lemma run_once:
  assumes "cm_valid (re_cm env)" and "replica_run env app ss" and "rounds_rise ss"
  shows "once (hd ss)"
  using assms(2,3)
proof (induction rule: replica_run.induct)
  case (turn s ss now msg b s')
  then show ?case using once_turn [of "env\<lparr>re_now := now\<rparr>" s msg b s'] assms(1) by simp
qed (simp add: once_init)

section \<open>Quorums behind commits and applied proposals\<close>

definition prepare_voters :: "u32 \<Rightarrow> u32 \<Rightarrow> bytes \<Rightarrow> 's replica \<Rightarrow> u32 set" where
  "prepare_voters rd v d s =
     {i. \<exists>p. (i, p) \<in> set (rp_repairPrepares s) \<and> prep_round p = rd \<and> prep_pbft_view p = v \<and> prep_proposal_digest p = d}"

definition commit_voters :: "u32 \<Rightarrow> u32 \<Rightarrow> bytes \<Rightarrow> 's replica \<Rightarrow> u32 set" where
  "commit_voters rd v d s =
     {i. \<exists>c. (i, c) \<in> set (rp_repairPBFTCommits s) \<and> pc_round c = rd \<and> pc_pbft_view c = v \<and> pc_proposal_digest c = d}"

lemma count_voters:
  assumes "sm_ok m"
  shows "length (filter (\<lambda>p. P (snd p)) m) = card {i. \<exists>v. (i, v) \<in> set m \<and> P v}"
  using smap.count_entries [OF assms, of "\<lambda>_. P"] sm_get_in_set [OF assms] by simp

lemma card_prepare_voters:
  assumes "sm_ok (rp_repairPrepares s)"
  shows "length (filter (matching_prepare p s) (rp_repairPrepares s)) =
    card (prepare_voters (rpr_round p) (rp_pbftView s) (rp_proposalDigest s) s)"
  using count_voters [OF assms, of "\<lambda>v. prep_round v = rpr_round p \<and> prep_proposal_digest v = rp_proposalDigest s \<and>
      prep_pbft_view v = rp_pbftView s"]
  by (simp add: matching_prepare_def [abs_def] prepare_voters_def conj_ac)

lemma card_commit_voters:
  assumes "sm_ok (rp_repairPBFTCommits s)"
  shows "length (filter (matching_commit s) (rp_repairPBFTCommits s)) =
    card (commit_voters (rp_preparedRound s) (rp_pbftView s) (rp_proposalDigest s) s)"
  using count_voters [OF assms, of "\<lambda>v. pc_round v = rp_preparedRound s \<and> pc_proposal_digest v = rp_proposalDigest s \<and>
      pc_pbft_view v = rp_pbftView s"]
  by (simp add: matching_commit_def [abs_def] commit_voters_def conj_ac)

text \<open>A commit is sent only with a quorum of prepares for it.\<close>

lemma prepare_quorum:
  assumes "sm_ok (rp_repairPrepares s)" and "processPrepare env p sig s = Inr s'" and "c \<in> commits_sent s' - commits_sent s"
  shows "pc_pbft_view c = rp_pbftView s \<and> pc_proposal_digest c = rp_proposalDigest s \<and> pc_replica_id c = re_id env \<and>
    getQuorumSize (re_cm env) \<le> card (prepare_voters (pc_round c) (pc_pbft_view c) (pc_proposal_digest c) (storePrepare p sig s))"
proof -
  let ?s1 = "storePrepare p sig s"
  have ok: "sm_ok (rp_repairPrepares ?s1)" using assms(1) by (simp add: storePrepare_def)
  have digest: "rp_proposalDigest ?s1 = rp_proposalDigest s" by (simp add: storePrepare_def)
  have "s' \<noteq> s" "s' \<noteq> ?s1" using assms(3) by (auto simp: store_stage)
  then have "countPrepares env (prep_round p) ?s1 = Inr s'" using processPrepare_cases [OF assms(2)] by blast
  from countPrepares_cases [OF this] \<open>s' \<noteq> ?s1\<close> obtain q where q: "rp_repairProposal ?s1 = Some q"
    and n: "getQuorumSize (re_cm env) \<le> length (filter (matching_prepare q ?s1) (rp_repairPrepares ?s1))"
    and fin: "prepareDone env (record_prepared q ?s1) = Inr s'" by blast
  have "stage s' \<noteq> stage (record_prepared q ?s1)"
    using assms(3) stage_sel(2) [of s' "record_prepared q ?s1"] by (auto simp: store_stage)
  with prepareDone_stage [OF fin] obtain c' C where c': "pc_round c' = rpr_round q" "pc_pbft_view c' = rp_pbftView s"
      "pc_proposal_digest c' = rp_proposalDigest s" "pc_replica_id c' = re_id env"
    and C: "C \<subseteq> insert c' (commits_sent s)" "commits_sent s' = C"
    using q by (auto simp: store_stage digest stage_def)
  have "c = c'" using C assms(3) by auto
  then show ?thesis using c' n card_prepare_voters [OF ok, of q] by (simp add: store_stage digest)
qed

text \<open>A proposal is applied only with a quorum of commits for it.\<close>

lemma commit_quorum:
  assumes "sm_ok (rp_repairPBFTCommits s)" and "processPBFTCommit env c sig s = Inr s'"
    and "rp_log s' \<noteq> rp_log s \<or> rp_round s' \<noteq> rp_round s"
  shows "pc_round c = rp_round s \<and> rp_viewPrepared s \<and> rp_preparedRound s = rp_round s \<and>
    getQuorumSize (re_cm env) \<le> card (commit_voters (rp_round s) (rp_pbftView s) (rp_proposalDigest s) (storeCommit c sig s))"
proof -
  let ?s1 = "storeCommit c sig s"
  have ok: "sm_ok (rp_repairPBFTCommits ?s1)" using assms(1) by (simp add: storeCommit_def)
  have digest: "rp_proposalDigest ?s1 = rp_proposalDigest s" "rp_log ?s1 = rp_log s" by (simp_all add: storeCommit_def)
  have "s' \<noteq> s" "s' \<noteq> ?s1" using assms(3) by (auto simp: store_stage digest)
  then have rd: "pc_round c = rp_round s" and count: "countCommits env (pc_round c) ?s1 = Inr s'"
    using processPBFTCommit_cases [OF assms(2)] by auto
  from countCommits_cases [OF count] \<open>s' \<noteq> ?s1\<close>
  have "rp_viewPrepared s" "rp_preparedRound s = pc_round c"
    and n: "getQuorumSize (re_cm env) \<le> length (filter (matching_commit ?s1) (rp_repairPBFTCommits ?s1))"
    by (auto simp: store_stage)
  then show ?thesis using rd card_commit_voters [OF ok] by (simp add: store_stage digest)
qed

lemma prepare_keeps:
  assumes "processPrepare env p sig s = Inr s'"
  shows "rp_pbftView s' = rp_pbftView s" "rp_proposalDigest s' = rp_proposalDigest s"
proof -
  have phase: "rp_proposalDigest t' = rp_proposalDigest t \<and> rp_pbftView t' = rp_pbftView t" if "doCommitPhase env t = Inr t'" for t t'
  proof -
    have "rp_proposalDigest t1 = rp_proposalDigest t \<and> rp_pbftView t1 = rp_pbftView t" if "getRepairLogSuffix env t = Inr (x, t1)" for x t1
      using that by (auto simp: getRepairLogSuffix_def elim!: bindE_InrE split: option.splits if_splits)
    then show ?thesis using that
      by (auto simp: doCommitPhase_def Let_def sendMsgToDst_def broadcastToReplicas_def elim!: bindE_InrE split: option.splits if_splits)
  qed
  have finish: "rp_proposalDigest t' = rp_proposalDigest t \<and> rp_pbftView t' = rp_pbftView t" if "prepareDone env t = Inr t'" for t t'
    using that phase by (fastforce simp: prepareDone_def elim!: bindE_InrE split: if_splits)
  have "rp_proposalDigest s' = rp_proposalDigest s \<and> rp_pbftView s' = rp_pbftView s"
    using processPrepare_cases [OF assms]
  proof
    assume "countPrepares env (prep_round p) (storePrepare p sig s) = Inr s'"
    from countPrepares_cases [OF this] finish show ?thesis by (auto simp: storePrepare_def)
  qed simp
  then show "rp_pbftView s' = rp_pbftView s" "rp_proposalDigest s' = rp_proposalDigest s" by simp_all
qed

text \<open>A turn of the process thread that sends a commit handles a prepare.\<close>

lemma step_sends_commit:
  assumes "cm_valid (re_cm (ne_replica ne))" and "process_step ne now nd = Inr nd'"
    and "c \<in> commits_sent (nd_replica nd') - commits_sent (nd_replica nd)"
  shows "\<exists>fr p s2. rv_processQueue (nd_receiver nd) = fr # tl (rv_processQueue (nd_receiver nd)) \<and>
    type_of_code (fr_type fr) = Some PBFT_PREPARE \<and>
    wp_parse (re_wire (ne_replica ne)) PBFT_PREPARE (fr_body fr) = Some (M_Prepare p) \<and>
    processPrepare ((ne_replica ne)\<lparr>re_now := now\<rparr>) p (fr_sig fr) s2 = Inr (nd_replica nd') \<and>
    commits_sent s2 = commits_sent (nd_replica nd) \<and> same_votes (nd_replica nd) s2"
proof -
  let ?env = "(ne_replica ne)\<lparr>re_now := now\<rparr>"
  obtain msg b where turn: "process_turn ?env msg (nd_replica nd) = Inr (b, nd_replica nd')"
    and msg: "\<And>fr. msg = Some fr \<Longrightarrow> rv_processQueue (nd_receiver nd) = fr # tl (rv_processQueue (nd_receiver nd))"
    using assms(2) by (fastforce simp: process_step_def Let_def elim!: bindE_InrE split: list.splits)
  obtain s1 s2 where s1: "checkTimeouts ?env (nd_replica nd) = Inr s1" and s2: "stage s2 = stage s1"
    and last: "msg = None \<and> nd_replica nd' = s2 \<or>
      (\<exists>fr. msg = Some fr \<and> processMessage ?env fr s2 = Inr (b, nd_replica nd'))"
    using turn_parts [OF turn] .
  have same: "commits_sent s2 = commits_sent (nd_replica nd)"
    using checkTimeouts_keeps [OF s1] stage_sel(2) [OF s2] by simp
  have votes: "same_votes (nd_replica nd) s2"
    using same_votes_trans [OF checkTimeouts_same [OF s1] same_votes_of [OF stage_sel(1) [OF s2]]] .
  from last show ?thesis
  proof
    assume "\<exists>fr. msg = Some fr \<and> processMessage ?env fr s2 = Inr (b, nd_replica nd')"
    then obtain fr where fr: "msg = Some fr" "processMessage ?env fr s2 = Inr (b, nd_replica nd')" by blast
    have "\<not> calm s2 (nd_replica nd')" using assms(3) same by (auto simp: calm_def)
    then show ?thesis using message_cases [OF _ fr(2)] assms(1) msg [OF fr(1)] same votes by auto
  qed (use assms(3) same in auto)
qed

section \<open>A concrete agreement\<close>

text \<open>The replicas of the demonstration after the pre-prepare, after some prepares, and prepared with their
  commit sent; for the witnesses.\<close>

definition demo_suffix :: "u32 \<Rightarrow> u32 \<Rightarrow> log_suffix" where
  "demo_suffix i r = \<lparr>ls_replicaId = i, ls_round = r, ls_checkpointReplica = 2, ls_checkpoint = Some empty_checkpoint_pb,
     ls_entries = [], ls_logDigest = []\<rparr>"

definition demo_accepted :: "u32 \<Rightarrow> u32 list \<Rightarrow> unit replica" where
  "demo_accepted i js = (replica_init (demo_replica i) ())\<lparr>rp_repairProposal := Some demo_proposal, rp_proposalDigest := [1, 1, 1],
     rp_repairProposalLogSuffix := Some (demo_suffix i 1), rp_repairPrepares := map (\<lambda>j. (j, demo_vote j)) js,
     rp_repairPrepareSigs := map (\<lambda>j. (j, [1])) js, rp_out := [(To_Replicas, PBFT_PREPARE, M_Prepare (demo_vote i))]\<rparr>"

definition demo_prepared :: "u32 \<Rightarrow> u32 list \<Rightarrow> unit replica" where
  "demo_prepared i js = (record_prepared demo_proposal (demo_accepted i [0, 1, 2]))\<lparr>
     rp_repairPBFTCommits := map (\<lambda>j. (j, demo_commit j)) js, rp_repairCommitSigs := map (\<lambda>j. (j, [1])) js,
     rp_out := [(To_Replicas, PBFT_PREPARE, M_Prepare (demo_vote i)), (To_Replicas, PBFT_COMMIT, M_PBFTCommit (demo_commit i))]\<rparr>"

lemma demo_suffix_made:
  "getLogSuffixFromProposal (\<lambda>b. b) demo_config (demo_proposal\<lparr>rpr_round := n\<rparr>) (new_suffix i r) = Inr (demo_suffix i r)"
  "getLogSuffixFromProposal (\<lambda>b. b) demo_config demo_proposal (new_suffix i r) = Inr (demo_suffix i r)"
  by (simp_all add: getLogSuffixFromProposal_def pick_checkpoint_def demo_proposal_def demo_start_def empty_repair_log_def
      empty_checkpoint_pb_def count_checkpoint_matches_def rs_log_of_def demo_config_def suffix_entries_def max_cert_def
      find_common_def indexed_entries_def getValidClientRequests_def new_suffix_def demo_suffix_def Let_def)

lemma demo_turn:
  assumes "rp_checkpointTimeoutStart s = 0" and "rp_repairViewStart s = 0" and "cst_collectors (rp_collectors s) = []"
    and "rp_snapshotQueue s = []"
  shows "process_turn env (Some fr) s = processMessage env fr s"
  using assms by (simp add: process_turn_def checkTimeouts_def collector_timeouts_def)

lemma demo_accepted_sel [simp]:
  "rp_checkpointTimeoutStart (demo_accepted i js) = 0" "rp_repairViewStart (demo_accepted i js) = 0"
  "cst_collectors (rp_collectors (demo_accepted i js)) = []" "rp_snapshotQueue (demo_accepted i js) = []"
  "rp_round (demo_accepted i js) = 1" "rp_pbftView (demo_accepted i js) = 0"
  by (simp_all add: demo_accepted_def replica_init_def cst_new_def)

lemmas demo_message_simps = processMessage_def normal_types_def repair_types_def process_repair_msg_def demo_repair_simps goOn_def

lemma demo_fields:
  "cfg_replicaIps_size (cm_config demo_config) = 4" "rpr_round demo_proposal = 1" "env_sha demo_env = (\<lambda>b. b)"
  "ls_logDigest (demo_suffix i r) = []" "ls_round (demo_suffix i r) = r" "ls_checkpoint (demo_suffix i r) = Some empty_checkpoint_pb"
  "ls_entries (demo_suffix i r) = []"
  by (simp_all add: demo_config_def demo_proposal_def demo_env_def demo_suffix_def)

lemma demo_preprepare_turn:
  "process_turn (demo_replica i) (Some (demo_frame PBFT_PREPREPARE [])) (replica_init (demo_replica i) ()) =
     Inr (True, demo_accepted i [])"
proof -
  have "processMessage (demo_replica i) (demo_frame PBFT_PREPREPARE []) (replica_init (demo_replica i) ()) =
      Inr (True, demo_accepted i [])"
    by (simp add: demo_message_simps processPrePrepare_def replica_init_def getPrimary_def demo_fields
        viewChangeByPrepare_def ifTriggerViewChange_def doPreparePhase_def getRepairLogSuffix_def
        demo_suffix_made broadcastToReplicas_def demo_accepted_def demo_vote_def Let_def)
  then show ?thesis by (subst demo_turn) (simp_all add: replica_init_def cst_new_def)
qed

lemma demo_prepare_turn:
  assumes "demo_accepted i (js @ [j]) = storePrepare (demo_vote j) [1] (demo_accepted i js)"
    and "length js < 2" and "distinct js" and "\<not> laterPrepare (demo_vote j) (demo_accepted i js)" and "ucast b = j"
  shows "process_turn (demo_replica i) (Some (demo_frame PBFT_PREPARE [b])) (demo_accepted i js) =
     Inr (True, demo_accepted i (js @ [j]))"
proof -
  have "length (filter P (map (\<lambda>j. (j, demo_vote j)) js @ [(j, demo_vote j)])) < 3" for P
    using assms(2) length_filter_le [of P "map (\<lambda>j. (j, demo_vote j)) js @ [(j, demo_vote j)]"] by simp
  then have "countPrepares (demo_replica i) 1 (demo_accepted i (js @ [j])) = Inr (demo_accepted i (js @ [j]))"
    by (simp add: countPrepares_def demo_replica_def demo_accepted_def replica_init_def demo_fields)
  then have "processPrepare (demo_replica i) (demo_vote j) [1] (demo_accepted i js) = Inr (demo_accepted i (js @ [j]))"
    using assms(1,4) by (simp add: processPrepare_def demo_vote_def)
  then show ?thesis
    using assms(5) by (subst demo_turn) (simp_all add: demo_message_simps)
qed

lemma demo_third_prepare:
  "process_turn (demo_replica i) (Some (demo_frame PBFT_PREPARE [2])) (demo_accepted i [0, 1]) = Inr (True, demo_prepared i [])"
proof -
  have "processPrepare (demo_replica i) (demo_vote 2) [1] (demo_accepted i [0, 1]) = Inr (demo_prepared i [])"
    by (simp add: processPrepare_def laterPrepare_def storePrepare_def countPrepares_def demo_vote_def demo_accepted_def
        replica_init_def demo_fields demo_replica_def matching_prepare_def prepareDone_def viewChangeByCommit_def
        ifTriggerViewChange_def doCommitPhase_def getRepairLogSuffix_def record_prepared_def broadcastToReplicas_def
        demo_prepared_def demo_commit_def Let_def)
  then show ?thesis by (subst demo_turn) (simp_all add: demo_message_simps)
qed

lemma demo_first_prepare:
  "process_turn (demo_replica i) (Some (demo_frame PBFT_PREPARE [0])) (demo_accepted i []) = Inr (True, demo_accepted i [0])"
  using demo_prepare_turn [of i "[]" 0 0]
  by (simp add: demo_accepted_def replica_init_def storePrepare_def demo_vote_def laterPrepare_def)

lemma demo_second_prepare:
  "process_turn (demo_replica i) (Some (demo_frame PBFT_PREPARE [1])) (demo_accepted i [0]) = Inr (True, demo_accepted i [0, 1])"
  using demo_prepare_turn [of i "[0]" 1 1]
  by (simp add: demo_accepted_def replica_init_def storePrepare_def demo_vote_def laterPrepare_def)

definition demo_past :: "u32 \<Rightarrow> unit replica list" where
  "demo_past i = [demo_accepted i [0, 1], demo_accepted i [0], demo_accepted i [], replica_init (demo_replica i) ()]"

lemma demo_run: "replica_run (demo_replica i) () (demo_prepared i [] # demo_past i)" "rounds_rise (demo_prepared i [] # demo_past i)"
proof -
  have now: "demo_replica i\<lparr>re_now := 5\<rparr> = demo_replica i" by (simp add: demo_replica_def)
  note turn = replica_run.turn [where env = "demo_replica i" and now = 5, unfolded now]
  show "replica_run (demo_replica i) () (demo_prepared i [] # demo_past i)"
    unfolding demo_past_def
    by (rule turn [OF turn [OF turn [OF turn [OF replica_run.start demo_preprepare_turn] demo_first_prepare] demo_second_prepare]
        demo_third_prepare])
  show "rounds_rise (demo_prepared i [] # demo_past i)"
    by (simp add: demo_past_def demo_prepared_def record_prepared_def demo_accepted_def replica_init_def Let_def)
qed

lemma demo_sent: "demo_commit i \<in> commits_sent (demo_prepared i js)"
  by (auto simp: commits_sent_def demo_prepared_def)

text \<open>The third commit ends the repair and starts the round after the proposal's.\<close>

lemma demo_finish:
  assumes "rp_log s = log_init ()" and "rp_repairProposal s = Some (demo_proposal\<lparr>rpr_round := n\<rparr>)"
    and "rp_repairProposalLogSuffix s = Some (demo_suffix i 1)" and "rp_round s = 1" and "n \<noteq> 0" and "\<not> rp_pendingRepair s"
    and "rp_repairQueuedReqs s = []" and "rp_numConsecutiveViewChanges s = 0" and "rp_curRoundStartSeq s = 0"
  shows "\<exists>t. tryFinishRepair (demo_replica i) s = Inr t \<and> rp_round t = n + 1"
proof -
  have cm: "re_cm (demo_replica i) = demo_config" "re_log (demo_replica i) = demo_env" "re_id (demo_replica i) = i"
    by (simp_all add: demo_replica_def)
  have l: "lg_nextSeq (log_init ()) = 1" "lg_committed (log_init ()) = initial_checkpoint" "lc_seq initial_checkpoint = 0"
    "lcp_seq empty_checkpoint_pb = 0" by (simp_all add: log_init_def initial_checkpoint_def empty_checkpoint_pb_def)
  have aborted: "getAbortedEntries (demo_suffix i 1) 0 (log_init ()) = Inr []"
    by (simp add: getAbortedEntries_def l seqs_between_def)
  have apply_suffix: "applySuffix demo_env (demo_suffix i 1) [] [] (log_init ()) = Inr (True, [], [], log_init ())"
    by (simp add: applySuffix_def demo_fields l)
  let ?s = "s\<lparr>rp_round := n, rp_repairViewStart := 0, rp_log := log_init ()\<rparr>"
  have next_round: "nextRound ?s = ?s\<lparr>rp_round := n + 1\<rparr>" by (simp add: nextRound_def assms)
  have summary: "sendRepairSummaryToClients (demo_replica i) (?s\<lparr>rp_round := n + 1\<rparr>) = Inr (?s\<lparr>rp_round := n + 1\<rparr>)"
    by (simp add: sendRepairSummaryToClients_def l seqs_between_def)
  have check: "repairCheckpoint (demo_replica i) (?s\<lparr>rp_round := n + 1\<rparr>) =
      Inr (?s\<lparr>rp_round := n + 1, rp_repairProposalLogSuffix := Some (demo_suffix i (n + 1))\<rparr>)"
    by (simp add: repairCheckpoint_def getRepairLogSuffix_def assms demo_fields cm demo_suffix_made suffix_checkpoint_def l Let_def)
  have resume: "\<exists>t. resumeRound (demo_replica i) [] (?s\<lparr>rp_round := n + 1, rp_repairProposalLogSuffix := Some (demo_suffix i (n + 1))\<rparr>) = Inr t \<and>
      rp_round t = n + 1"
    by (simp add: resumeRound_def clearRepair_def requeueAborted_def assms Let_def)
  have "finishRepair (demo_replica i) [] ?s =
      resumeRound (demo_replica i) [] (?s\<lparr>rp_round := n + 1, rp_repairProposalLogSuffix := Some (demo_suffix i (n + 1))\<rparr>)"
    by (simp only: finishRepair_def next_round summary check bindE_simps)
  with resume obtain t where t: "finishRepair (demo_replica i) [] ?s = Inr t" "rp_round t = n + 1" by metis
  have "tryFinishRepair (demo_replica i) s = Inr t"
    by (simp add: tryFinishRepair_def getRepairLogSuffix_def assms demo_fields cm suffix_checkpoint_def l aborted
        applyRepair_def queued_requests_def apply_suffix t(1) Let_def)
  then show ?thesis using t(2) by blast
qed

lemma demo_applies:
  "\<exists>t. processPBFTCommit (demo_replica i) (demo_commit 2) [1] (demo_prepared i [0, 1]) = Inr t \<and> rp_round t = 2"
proof -
  let ?s = "storeCommit (demo_commit 2) [1] (demo_prepared i [0, 1])"
  have "\<exists>t. tryFinishRepair (demo_replica i) ?s = Inr t \<and> rp_round t = 2"
    using demo_finish [of ?s 1 i]
    by (simp add: storeCommit_def demo_prepared_def record_prepared_def demo_accepted_def replica_init_def demo_proposal_def Let_def)
  moreover have "processPBFTCommit (demo_replica i) (demo_commit 2) [1] (demo_prepared i [0, 1]) = tryFinishRepair (demo_replica i) ?s"
    by (simp add: processPBFTCommit_def laterCommit_def storeCommit_def countCommits_def demo_commit_def demo_prepared_def
        demo_accepted_def replica_init_def demo_fields demo_replica_def matching_commit_def record_prepared_def Let_def)
  ultimately show ?thesis by simp
qed

lemma demo_third_prepared: "processPrepare (demo_replica i) (demo_vote 2) [1] (demo_accepted i [0, 1]) = Inr (demo_prepared i [])"
  using demo_third_prepare [of i] by (subst (asm) demo_turn) (simp_all add: demo_message_simps bindE_eq_Inr)

lemma demo_now: "demo_replica i\<lparr>re_now := 5\<rparr> = demo_replica i"
  by (simp add: demo_replica_def)

lemma demo_prepared_sel [simp]:
  "rp_checkpointTimeoutStart (demo_prepared i js) = 0" "rp_repairViewStart (demo_prepared i js) = 0"
  "cst_collectors (rp_collectors (demo_prepared i js)) = []" "rp_snapshotQueue (demo_prepared i js) = []"
  "rp_round (demo_prepared i js) = 1" "rp_pbftView (demo_prepared i js) = 0"
  by (simp_all add: demo_prepared_def record_prepared_def demo_accepted_def replica_init_def cst_new_def Let_def)

lemma demo_commits_stored:
  "rp_repairPBFTCommits (storeCommit (demo_commit 2) [1] (demo_prepared i [0, 1])) =
     [(0, demo_commit 0), (1, demo_commit 1), (2, demo_commit 2)]"
  by (simp add: storeCommit_def demo_prepared_def) (simp add: demo_commit_def)

text \<open>The same in the whole process, every message signed by its sender and checked by the verification thread.\<close>

definition demo_node_at :: "unit replica \<Rightarrow> unit node" where
  "demo_node_at s = (node_init demo_node ())\<lparr>nd_replica := s\<rparr>"

definition demo_queued :: "message_type \<Rightarrow> bytes \<Rightarrow> unit replica \<Rightarrow> unit node" where
  "demo_queued t b s = (demo_node_at s)\<lparr>nd_receiver := receiver_init\<lparr>rv_processQueue := [demo_frame t b]\<rparr>\<rparr>"

lemma demo_verified:
  "verify_message demo_repair_wire demo_config (demo_frame PBFT_PREPREPARE []) = Inr Enqueue"
  "verify_message demo_repair_wire demo_config (demo_frame PBFT_PREPARE [b]) = Inr Enqueue"
  "verify_message demo_repair_wire demo_config (demo_frame PBFT_COMMIT [b]) = Inr Enqueue"
  by (simp_all add: verify_message_def client_types_def repair_types_def verify_repair_msg_def demo_repair_simps
      signed_by_def verdict_of_def demo_proposal_def demo_start_def getProposalDigest_def verifyRepairProposal_def
      verifyRepairStart_def verifyCheckpoint_def rs_log_of_def empty_repair_log_def Let_def)

lemma demo_node_queued:
  assumes "node_reach demo_node (\<lambda>_. False) () (demo_node_at s)" and "t \<in> {PBFT_PREPREPARE, PBFT_PREPARE, PBFT_COMMIT}"
    and "verify_message demo_repair_wire demo_config (demo_frame t b) = Inr Enqueue"
  shows "node_reach demo_node (\<lambda>_. False) () (demo_queued t b s)"
proof -
  let ?nd = "(demo_node_at s)\<lparr>nd_verifyQueue := [demo_frame t b]\<rparr>"
  have "onMessage demo_node 1 [] (demo_frame t b) (demo_node_at s) = Inr ?nd"
    using assms(2) by (auto simp: onMessage_def handleMessage_def demo_node_at_def node_init_def demo_node_def Let_def)
  then have reach: "node_reach demo_node (\<lambda>_. False) () ?nd"
    by (rule node_reach.net [OF assms(1), rotated]) (simp add: demo_node_def)
  have "verify_turn demo_node ?nd = Inr (demo_queued t b s)"
    using assms(3)
    by (simp add: verify_turn_def demo_queued_def demo_node_at_def node_init_def demo_node_def demo_replica_def receiver_init_def Let_def)
  then show ?thesis by (rule node_reach.verify [OF reach, rotated]) (simp add: demo_node_at_def node_init_def demo_node_def)
qed

lemma demo_queued_step:
  assumes "process_turn (demo_replica 0) (Some (demo_frame t b)) s = Inr (True, s')"
  shows "process_step demo_node 5 (demo_queued t b s) = Inr (demo_node_at s')"
  using assms by (simp add: process_step_def demo_queued_def demo_node_at_def node_init_def demo_node_def receiver_init_def demo_now Let_def)

lemma demo_node_step:
  assumes "node_reach demo_node (\<lambda>_. False) () (demo_node_at s)" and "t \<in> {PBFT_PREPREPARE, PBFT_PREPARE, PBFT_COMMIT}"
    and "verify_message demo_repair_wire demo_config (demo_frame t b) = Inr Enqueue"
    and "process_turn (demo_replica 0) (Some (demo_frame t b)) s = Inr (True, s')"
  shows "node_reach demo_node (\<lambda>_. False) () (demo_node_at s')"
  by (rule node_reach.process [OF demo_node_queued [OF assms(1-3)] _ demo_queued_step [OF assms(4)]])
    (simp add: demo_queued_def demo_node_at_def node_init_def)

lemma demo_node_accepted: "node_reach demo_node (\<lambda>_. False) () (demo_node_at (demo_accepted 0 [0, 1]))"
proof -
  have "node_reach demo_node (\<lambda>_. False) () (demo_node_at (replica_init (demo_replica 0) ()))"
    using node_reach.init [of demo_node "\<lambda>_. False" "()"] by (simp add: demo_node_at_def node_init_def demo_node_def)
  from demo_node_step [OF this _ demo_verified(1) demo_preprepare_turn]
  have "node_reach demo_node (\<lambda>_. False) () (demo_node_at (demo_accepted 0 []))" by simp
  from demo_node_step [OF this _ demo_verified(2) demo_first_prepare]
  have "node_reach demo_node (\<lambda>_. False) () (demo_node_at (demo_accepted 0 [0]))" by simp
  from demo_node_step [OF this _ demo_verified(2) demo_second_prepare] show ?thesis by simp
qed

lemma demo_commit_turn:
  assumes "demo_prepared i (js @ [j]) = storeCommit (demo_commit j) [1] (demo_prepared i js)"
    and "length js < 2" and "\<not> laterCommit (demo_commit j) (demo_prepared i js)" and "ucast b = j"
  shows "process_turn (demo_replica i) (Some (demo_frame PBFT_COMMIT [b])) (demo_prepared i js) = Inr (True, demo_prepared i (js @ [j]))"
proof -
  let ?m = "map (\<lambda>j. (j, demo_commit j)) (js @ [j])"
  have few: "length (filter P ?m) < 3" for P
    using assms(2) length_filter_le [of P ?m] by simp
  have stored: "rp_repairPBFTCommits (demo_prepared i (js @ [j])) = ?m" by (simp add: demo_prepared_def)
  have "countCommits (demo_replica i) 1 (demo_prepared i (js @ [j])) = Inr (demo_prepared i (js @ [j]))"
    unfolding countCommits_def stored using few
    by (auto simp: demo_replica_def demo_fields split: option.splits)
  then have "processPBFTCommit (demo_replica i) (demo_commit j) [1] (demo_prepared i js) = Inr (demo_prepared i (js @ [j]))"
    using assms(1,3) by (simp add: processPBFTCommit_def) (simp add: demo_commit_def)
  then show ?thesis
    using assms(4) by (subst demo_turn) (simp_all add: demo_message_simps)
qed

lemma demo_node_prepared: "node_reach demo_node (\<lambda>_. False) () (demo_node_at (demo_prepared 0 [0, 1]))"
proof -
  have first: "process_turn (demo_replica i) (Some (demo_frame PBFT_COMMIT [0])) (demo_prepared i []) = Inr (True, demo_prepared i [0])" for i
    using demo_commit_turn [of i "[]" 0 0] by (simp add: demo_prepared_def storeCommit_def demo_commit_def laterCommit_def record_prepared_def demo_accepted_def replica_init_def Let_def)
  have second: "process_turn (demo_replica i) (Some (demo_frame PBFT_COMMIT [1])) (demo_prepared i [0]) = Inr (True, demo_prepared i [0, 1])" for i
    using demo_commit_turn [of i "[0]" 1 1] by (simp add: demo_prepared_def storeCommit_def demo_commit_def laterCommit_def)
  from demo_node_step [OF demo_node_accepted _ demo_verified(2) demo_third_prepare]
  have "node_reach demo_node (\<lambda>_. False) () (demo_node_at (demo_prepared 0 []))" by simp
  from demo_node_step [OF this _ demo_verified(3) first]
  have "node_reach demo_node (\<lambda>_. False) () (demo_node_at (demo_prepared 0 [0]))" by simp
  from demo_node_step [OF this _ demo_verified(3) second] show ?thesis by simp
qed

section \<open>Properties\<close>

text \<open>C2: a replica sends at most one commit for each round and view, whatever messages it handles and at whatever times, in
  every run in which its round never goes down and its view stays below the largest number. The code does not keep the
  round from going down: a proposal of another round than its pre-prepare sets it
  (\<open>ReplicaBehaviour.second_proposal_moves_round\<close>).\<close>

theorem replica_commits_once:
  assumes "cm_valid (re_cm env)" and "replica_run env app (s # ss)" and "rounds_rise (s # ss)"
    and "c \<in> commits_sent s" and "c' \<in> commits_sent s" and "pc_round c = pc_round c'" and "pc_pbft_view c = pc_pbft_view c'"
  shows "c = c'"
  using run_once [OF assms(1-3)] assms(4-7) unfolding once_def by simp

theorem replica_commits_once_witness:
  "{c \<in> commits_sent (demo_prepared 3 []). pc_round c = 1 \<and> pc_pbft_view c = 0} = {demo_commit 3}"
proof -
  have "c = demo_commit 3" if "c \<in> commits_sent (demo_prepared 3 [])" "pc_round c = 1" "pc_pbft_view c = 0" for c
    using replica_commits_once [OF _ demo_run that(1) demo_sent] that(2,3)
    by (simp add: demo_replica_def demo_config_valid demo_commit_def)
  then show ?thesis using demo_sent by (auto simp: demo_commit_def)
qed

text \<open>C4: when a turn of the process thread of a reachable process sends a commit, the message handled is a prepare, the
  commit names the replica itself, its view and the digest of the proposal at hand, and a quorum of different replicas
  prepared its round, view and digest, each in a message that carries that replica's signature or came from the own
  address (where the code checks none).\<close>

theorem commit_needs_prepare_quorum:
  assumes "node_reach ne own app nd" and "cm_valid (re_cm (ne_replica ne))" and "process_step ne now nd = Inr nd'"
    and "c \<in> commits_sent (nd_replica nd') - commits_sent (nd_replica nd)"
  shows "type_of_code (fr_type (hd (rv_processQueue (nd_receiver nd)))) = Some PBFT_PREPARE \<and>
    pc_replica_id c = re_id (ne_replica ne) \<and> pc_pbft_view c = rp_pbftView (nd_replica nd') \<and>
    pc_proposal_digest c = rp_proposalDigest (nd_replica nd') \<and>
    (\<exists>V. getQuorumSize (re_cm (ne_replica ne)) \<le> card V \<and>
      (\<forall>i \<in> V. \<exists>q. prep_replica_id q = i \<and> prep_round q = pc_round c \<and> prep_pbft_view q = pc_pbft_view c \<and>
         prep_proposal_digest q = pc_proposal_digest c \<and> vouched ne own PBFT_PREPARE (M_Prepare q) i))"
proof -
  let ?w = "re_wire (ne_replica ne)" and ?env = "(ne_replica ne)\<lparr>re_now := now\<rparr>"
  obtain fr p s2 where fr: "rv_processQueue (nd_receiver nd) = fr # tl (rv_processQueue (nd_receiver nd))"
      "type_of_code (fr_type fr) = Some PBFT_PREPARE"
    and p: "wp_parse ?w PBFT_PREPARE (fr_body fr) = Some (M_Prepare p)" "processPrepare ?env p (fr_sig fr) s2 = Inr (nd_replica nd')"
    and s2: "commits_sent s2 = commits_sent (nd_replica nd)" "same_votes (nd_replica nd) s2"
    using step_sends_commit [OF assms(2-4)] by blast
  have ok: "node_ok ne own nd" using node_reach_ok [OF assms(1)] .
  have votes: "votes_ok ?w (checked ne own) s2" using votes_ok_same [OF _ s2(2), of ?w "checked ne own"] ok by (simp add: node_ok_def)
  have "fr \<in> set (rv_processQueue (nd_receiver nd))" by (subst fr(1)) simp
  then have "checked ne own fr" using ok by (simp add: node_ok_def rcv_ok_def)
  then have "came ?w (checked ne own) PBFT_PREPARE (M_Prepare p)" using fr(2) p(1) by (auto simp: came_def)
  note vouch = votes_ok_vouched(1) [OF votes_ok_storePrepare [OF votes this]]
  have sorted: "sm_ok (rp_repairPrepares s2)" using votes by (simp add: votes_ok_def)
  have new: "c \<in> commits_sent (nd_replica nd') - commits_sent s2" using assms(4) s2(1) by simp
  note quorum = prepare_quorum [OF sorted p(2) new]
  have kept: "rp_pbftView (nd_replica nd') = rp_pbftView s2" "rp_proposalDigest (nd_replica nd') = rp_proposalDigest s2"
    using prepare_keeps [OF p(2)] by simp_all
  have head: "hd (rv_processQueue (nd_receiver nd)) = fr" by (subst fr(1)) simp
  show ?thesis unfolding head kept
    by (intro conjI exI [of _ "prepare_voters (pc_round c) (pc_pbft_view c) (pc_proposal_digest c) (storePrepare p (fr_sig fr) s2)"])
      (use quorum vouch fr(2) in \<open>auto simp: prepare_voters_def\<close>)
qed

theorem commit_needs_prepare_quorum_witness:
  "\<exists>V. 3 \<le> card V \<and> V \<subseteq> {i. \<exists>q. prep_replica_id q = i \<and> prep_round q = 1 \<and> prep_pbft_view q = 0 \<and>
     vouched demo_node (\<lambda>_. False) PBFT_PREPARE (M_Prepare q) i}"
proof -
  let ?nd = "demo_queued PBFT_PREPARE [2] (demo_accepted 0 [0, 1])"
  have reach: "node_reach demo_node (\<lambda>_. False) () ?nd"
    by (rule demo_node_queued [OF demo_node_accepted _ demo_verified(2)]) simp
  have "demo_commit 0 \<in> commits_sent (nd_replica (demo_node_at (demo_prepared 0 []))) - commits_sent (nd_replica ?nd)"
    using demo_sent by (auto simp: commits_sent_def demo_accepted_def demo_node_at_def demo_queued_def)
  from commit_needs_prepare_quorum [OF reach _ demo_queued_step [OF demo_third_prepare] this]
  show ?thesis by (simp add: demo_node_def demo_replica_def demo_config_valid demo_commit_def subset_iff) blast
qed

text \<open>C3: when the handling of a PBFT commit by a reachable process changes the log or the round, the replica was prepared in
  its own round, and a quorum of different replicas committed this round, the own view and the digest of the proposal at
  hand, each in a message that carries that replica's signature or came from the own address. (The replies to
  missing requests apply the proposal at hand without counting: \<open>ReplicaBehaviour.missing_reply_applies_unvoted\<close>.)\<close>

theorem apply_needs_commit_quorum:
  assumes "node_reach ne own app nd" and "fr \<in> set (rv_processQueue (nd_receiver nd))"
    and "type_of_code (fr_type fr) = Some PBFT_COMMIT"
    and "wp_parse (re_wire (ne_replica ne)) PBFT_COMMIT (fr_body fr) = Some (M_PBFTCommit c)"
    and "processPBFTCommit ((ne_replica ne)\<lparr>re_now := now\<rparr>) c (fr_sig fr) (nd_replica nd) = Inr s'"
    and "rp_log s' \<noteq> rp_log (nd_replica nd) \<or> rp_round s' \<noteq> rp_round (nd_replica nd)"
  shows "rp_viewPrepared (nd_replica nd) \<and> rp_preparedRound (nd_replica nd) = rp_round (nd_replica nd) \<and>
    (\<exists>V. getQuorumSize (re_cm (ne_replica ne)) \<le> card V \<and>
      (\<forall>i \<in> V. \<exists>q. pc_replica_id q = i \<and> pc_round q = rp_round (nd_replica nd) \<and> pc_pbft_view q = rp_pbftView (nd_replica nd) \<and>
         pc_proposal_digest q = rp_proposalDigest (nd_replica nd) \<and> vouched ne own PBFT_COMMIT (M_PBFTCommit q) i))"
proof -
  have node: "node_ok ne own nd" using node_reach_ok [OF assms(1)] .
  then have ok: "votes_ok (re_wire (ne_replica ne)) (checked ne own) (nd_replica nd)" by (simp add: node_ok_def)
  have "came (re_wire (ne_replica ne)) (checked ne own) PBFT_COMMIT (M_PBFTCommit c)"
    using node assms(2-4) by (auto simp: came_def node_ok_def rcv_ok_def)
  note vouch = votes_ok_vouched(2) [OF votes_ok_storeCommit [OF ok this]]
  have sorted: "sm_ok (rp_repairPBFTCommits (nd_replica nd))" using ok by (simp add: votes_ok_def)
  note quorum = commit_quorum [OF sorted assms(5,6)]
  show ?thesis
    by (intro conjI exI [of _ "commit_voters (rp_round (nd_replica nd)) (rp_pbftView (nd_replica nd))
          (rp_proposalDigest (nd_replica nd)) (storeCommit c (fr_sig fr) (nd_replica nd))"])
      (use quorum vouch in \<open>auto simp: commit_voters_def\<close>)
qed

theorem apply_needs_commit_quorum_witness:
  "\<exists>V. 3 \<le> card V \<and> V \<subseteq> {i. \<exists>q. pc_replica_id q = i \<and> pc_round q = 1 \<and> pc_pbft_view q = 0 \<and>
     vouched demo_node (\<lambda>_. False) PBFT_COMMIT (M_PBFTCommit q) i}"
proof -
  let ?nd = "demo_queued PBFT_COMMIT [2] (demo_prepared 0 [0, 1])"
  have reach: "node_reach demo_node (\<lambda>_. False) () ?nd"
    by (rule demo_node_queued [OF demo_node_prepared _ demo_verified(3)]) simp
  obtain t where t: "processPBFTCommit (demo_replica 0) (demo_commit 2) [1] (demo_prepared 0 [0, 1]) = Inr t" "rp_round t = 2"
    using demo_applies by blast
  from apply_needs_commit_quorum [OF reach, of "demo_frame PBFT_COMMIT [2]" "demo_commit 2" 5 t] t
  show ?thesis
    by (simp add: demo_queued_def demo_node_at_def demo_node_def demo_repair_simps subset_iff) blast
qed

text \<open>The votes of the correct replicas \<open>C\<close> among all replicas \<open>R\<close> were sent by them: signatures cannot be
  forged, and every signer is configured.\<close>

definition genuine :: "u32 set \<Rightarrow> u32 set \<Rightarrow> (u32 \<Rightarrow> 's replica) \<Rightarrow> 't replica \<Rightarrow> bool" where
  "genuine R C \<sigma> s \<longleftrightarrow> sm_ok (rp_repairPBFTCommits s) \<and>
     (\<forall>(i, c) \<in> set (rp_repairPBFTCommits s). i \<in> R \<and> (i \<in> C \<longrightarrow> c \<in> commits_sent (\<sigma> i)))"

lemma genuine_store:
  assumes "genuine R C \<sigma> (storeCommit c sig s)"
  shows "commit_voters rd v d (storeCommit c sig s) \<subseteq> R"
    and "i \<in> commit_voters rd v d (storeCommit c sig s) \<Longrightarrow> i \<in> C \<Longrightarrow>
      \<exists>c' \<in> commits_sent (\<sigma> i). pc_round c' = rd \<and> pc_pbft_view c' = v \<and> pc_proposal_digest c' = d"
  using assms by (fastforce simp: genuine_def commit_voters_def)+



end
