(* ===== verification/ReplicaBehaviour.thy ===== *)
theory ReplicaBehaviour
  imports CommitOnce
begin

text \<open>
  The behaviour of single handlers of the replica: what a request does to the log and the client, how
  the view timeout grows, when the loop over the ordered requests stops, and the branches in which
  the repair goes wrong.
\<close>

section \<open>Requests\<close>

lemma log_last_entry:
  assumes "log_chain sha l" and "lg_log l = es @ [e]"
  shows "getEntry (lg_nextSeq l - 1) l = Inr e" and "unat (lg_nextSeq l - 1 - le_seq (hd (lg_log l))) = length es"
proof -
  have ne: "lg_log l \<noteq> []" using assms(2) by simp
  have seq: "unat (lg_nextSeq l) = unat (lc_seq (lg_stable l)) + 1 + length (lg_log l)"
    using assms(1) by (simp add: log_chain_def)
  have one: "1 \<le> lg_nextSeq l" using seq by (simp add: word_le_nat_alt)
  then have u: "unat (lg_nextSeq l - 1) = unat (lc_seq (lg_stable l)) + length (lg_log l)"
    using seq by (simp add: unat_sub)
  have eseq: "unat (le_seq (lg_log l ! length es)) = unat (lc_seq (lg_stable l)) + 1 + length es"
    using log_chain_seq [OF assms(1), of "length es"] assms(2) by simp
  have "hd (lg_log l) = lg_log l ! 0" using ne by (simp add: hd_conv_nth)
  then have hd: "unat (le_seq (hd (lg_log l))) = unat (lc_seq (lg_stable l)) + 1"
    using log_chain_seq [OF assms(1), of 0] ne by simp
  have le: "le_seq (hd (lg_log l)) \<le> lg_nextSeq l - 1" using u hd assms(2) by (simp add: word_le_nat_alt)
  show i: "unat (lg_nextSeq l - 1 - le_seq (hd (lg_log l))) = length es"
    using le u hd assms(2) by (simp add: unat_sub)
  have "le_seq (lg_log l ! length es) = lg_nextSeq l - 1"
    using eseq u assms(2) by (simp add: word_unat_eq_iff)
  moreover have "inRange (lg_nextSeq l - 1) l"
    using ne u seq one le hd by (auto simp: inRange_def word_le_nat_alt word_less_nat_alt)
  ultimately show "getEntry (lg_nextSeq l - 1) l = Inr e"
    using i assms(2) by (simp add: getEntry_def Let_def nth_append)
qed

text \<open>The reply to a request that was appended.\<close>

definition request_reply :: "('s, 'k) replica_env \<Rightarrow> client_request \<Rightarrow> bool \<Rightarrow> bytes \<Rightarrow> bytes \<Rightarrow> 's replica \<Rightarrow> reply" where
  "request_reply env r queued result digest s =
     \<lparr>rep_client_id = crq_client_id r, rep_client_seq = crq_client_seq r, rep_round = rp_round s,
      rep_seq = lg_nextSeq (rp_log s), rep_replica_id = re_id env, rep_result = result, rep_digest = digest, rep_queued = queued\<rparr>"

lemma set_deadline_last:
  assumes "log_wf sha l" and "lg_log l = es @ [e]"
  shows "set_deadline (lg_nextSeq l - 1) d l = Inr (l\<lparr>lg_log := es @ [e\<lparr>le_deadline := d\<rparr>]\<rparr>)"
  using log_last_entry [OF log_wf_chain [OF assms(1)] assms(2)] assms(2)
  by (simp add: set_deadline_def Let_def list_update_append)

lemma appended_request:
  assumes "log_wf (env_sha (re_log env)) (rp_log s)" and "lg_nextSeq (rp_log s) + 1 \<noteq> 0"
    and "unat (crq_client_id r) < cfg_clientIps_size (re_config env)" and "\<not> re_crashed env"
    and "\<not> rec_contains (lc_clientRecord (lg_committed (rp_log s))) (crq_client_id r) (crq_client_seq r)"
    and "addEntry (re_log env) (crq_client_id r) (crq_client_seq r) (crq_req_data r) [] True (rp_log s) = Inr ((True, res), l1)"
    and "cfg_replicaCheckpointInterval (re_config env) \<noteq> 0"
    and "lg_nextSeq (rp_log s) mod cfg_replicaCheckpointInterval (re_config env) \<noteq> 0"
  shows "\<exists>s' e. processClientRequest env r queued s = Inr s' \<and>
    rp_out s' = rp_out s @ [(To_Client (crq_client_id r), REPLY, M_Reply (request_reply env r queued res (getDigest (rp_log s')) s))] \<and>
    lg_log (rp_log s') = lg_log (rp_log s) @ [e] \<and> le_deadline e = crq_deadline r \<and> le_result e = res \<and>
    entry_id e = (lg_nextSeq (rp_log s), crq_client_id r, crq_client_seq r, crq_req_data r) \<and>
    getDigest (rp_log s') = getDigest l1 \<and> lg_nextSeq (rp_log s') = lg_nextSeq (rp_log s) + 1"
proof -
  let ?l = "rp_log s"
  obtain e where e: "lg_log l1 = lg_log ?l @ [e]" "entry_id e = (lg_nextSeq ?l, crq_client_id r, crq_client_seq r, crq_req_data r)"
      "le_result e = res" and wf: "log_wf (env_sha (re_log env)) l1" and n: "lg_nextSeq l1 = lg_nextSeq ?l + 1"
    using addEntry_effect [OF assms(1,2,6)] by blast
  let ?e = "e\<lparr>le_deadline := crq_deadline r\<rparr>" and ?l2 = "l1\<lparr>lg_log := lg_log ?l @ [e\<lparr>le_deadline := crq_deadline r\<rparr>]\<rparr>"
  have dl: "set_deadline (lg_nextSeq ?l) (crq_deadline r) l1 = Inr ?l2"
    using set_deadline_last [OF wf e(1), of "crq_deadline r"] n by simp
  have digest: "getDigest ?l2 = getDigest l1" using e(1) by (simp add: getDigest_def)
  show ?thesis
    using assms(3-8) e n dl digest
    by (intro exI [of _ "if lg_nextSeq ?l = 1 then
          (s\<lparr>rp_log := ?l2, rp_out := rp_out s @ [(To_Client (crq_client_id r), REPLY, M_Reply (request_reply env r queued res (getDigest ?l2) s))],
             rp_checkpointTimeoutStart := re_now env\<rparr>)
          else s\<lparr>rp_log := ?l2, rp_out := rp_out s @ [(To_Client (crq_client_id r), REPLY, M_Reply (request_reply env r queued res (getDigest ?l2) s))]\<rparr>"]
        exI [of _ ?e])
      (auto simp: processClientRequest_def Let_def client_addr_def sendMsgToDst_def divides_def request_reply_def entry_id_def)
qed

section \<open>Timeouts and loops\<close>

lemma viewTimeout_doubles:
  assumes "viewTimeout env s = Inr t" and "unat (rp_numConsecutiveViewChanges s) \<le> 30"
    and "unat (cfg_replicaRepairViewTimeout (re_config env)) * 2 ^ unat (rp_numConsecutiveViewChanges s) < 2 ^ 64"
  shows "unat t = unat (cfg_replicaRepairViewTimeout (re_config env)) * 2 ^ unat (rp_numConsecutiveViewChanges s)"
proof -
  let ?k = "unat (rp_numConsecutiveViewChanges s)" and ?b = "cfg_replicaRepairViewTimeout (re_config env)"
  have "sint (push_bit ?k 1 :: u32) = 2 ^ ?k"
  proof -
    have le: "(2 :: nat) ^ ?k \<le> 2 ^ 30" using assms(2) by (intro power_increasing) simp_all
    have "(push_bit ?k 1 :: u32) = of_nat (2 ^ ?k)" by (simp add: push_bit_eq_mult)
    then have u: "unat (push_bit ?k 1 :: u32) = 2 ^ ?k" using le by (simp only: unat_of_nat) simp
    have "(2 :: nat) ^ ?k \<le> 2 ^ 30" using assms(2) by (intro power_increasing) simp_all
    then show ?thesis using u by (simp add: sint_unat)
  qed
  then have "(scast (push_bit ?k 1 :: u32) :: u64) = of_nat (2 ^ ?k)"
    by (simp add: scast_eq)
  then have t: "t = of_nat (unat ?b * 2 ^ ?k)"
    using assms(1,2) by (auto simp: viewTimeout_def)
  show ?thesis unfolding t by (simp only: unat_of_nat) (use assms(3) in simp)
qed

lemma viewTimeout_top: "unat (rp_numConsecutiveViewChanges s) = 31 \<Longrightarrow>
    viewTimeout env s = Inr (- (cfg_replicaRepairViewTimeout (re_config env) * 2 ^ 31))"
  by (simp add: viewTimeout_def push_bit_eq_mult)

lemma checkPSOrder_stops:
  "checkPSOrderRequests env s = Inr s' \<Longrightarrow>
     (case map_of (rp_psOrderSeqs s') (lg_nextSeq (rp_log s')) of None \<Rightarrow> True
      | Some key \<Rightarrow> map_of (rp_psOrderRequests s') key = None) \<and>
     length (rp_psOrderSeqs s') \<le> length (rp_psOrderSeqs s)"
proof (induction env s arbitrary: s' rule: checkPSOrderRequests.induct)
  case (1 env s)
  show ?case
  proof (cases "map_of (rp_psOrderSeqs s) (lg_nextSeq (rp_log s))")
    case None
    then show ?thesis using "1.prems" by (subst (asm) checkPSOrderRequests.simps) auto
  next
    case (Some key)
    show ?thesis
    proof (cases "map_of (rp_psOrderRequests s) key")
      case None
      then show ?thesis using "1.prems" Some by (subst (asm) checkPSOrderRequests.simps) auto
    next
      case req: (Some req)
      let ?s = "s\<lparr>rp_psOrderRequests := sm_del key (rp_psOrderRequests s),
          rp_psOrderSeqs := sm_del (lg_nextSeq (rp_log s)) (rp_psOrderSeqs s)\<rparr>"
      obtain s1 where s1: "processClientRequest env req False ?s = Inr s1" "checkPSOrderRequests env s1 = Inr s'"
        using "1.prems" Some req by (subst (asm) checkPSOrderRequests.simps) (auto elim!: bindE_InrE)
      have "length (rp_psOrderSeqs s1) < length (rp_psOrderSeqs s)"
        using coreD(16) [OF processClientRequest_core [OF s1(1)]] length_sm_del_less [OF Some] by simp
      then show ?thesis using "1.IH" [OF Some req s1] by simp
    qed
  qed
qed

section \<open>Aborted requests\<close>

lemma requeueAborted_Cons:
  "requeueAborted (r # reqs) m = requeueAborted reqs (sm_insert (rq_deadline r, rq_clientId r)
     (empty_request\<lparr>crq_client_id := rq_clientId r, crq_client_seq := rq_clientSeq r, crq_req_data := rq_requestData r\<rparr>) m)"
  by (simp add: requeueAborted_def)

lemma requeueAborted_taken:
  assumes "\<forall>r \<in> set reqs. (rq_deadline r, rq_clientId r) \<in> fst ` set m"
  shows "requeueAborted reqs m = m"
  using assms
proof (induction reqs)
  case (Cons r reqs)
  have "sm_has (rq_deadline r, rq_clientId r) m" using Cons.prems by (force simp: sm_has_def map_of_eq_None_iff)
  then show ?case using Cons by (simp add: requeueAborted_Cons sm_insert_def)
qed (simp add: requeueAborted_def)

section \<open>Repairs that go wrong\<close>

lemma fold_min_same:
  fixes v :: u32
  assumes "\<forall>x \<in> set xs. x = v" and "xs \<noteq> []"
  shows "fold min xs (- 1) = v"
proof -
  have "fold min xs w = (if xs = [] then w else v)" if "v \<le> w" for w
    using assms(1) that by (induction xs arbitrary: w) (auto simp: min_def)
  then show ?thesis using assms(2) by simp
qed

text \<open>A replica that has not repaired yet and has seen \<open>k\<close> others in view \<open>v\<close>.\<close>

definition before_repair :: "u32 \<Rightarrow> u32 set \<Rightarrow> 's replica \<Rightarrow> bool" where
  "before_repair v A s \<longleftrightarrow> rp_pbftView s = 0 \<and> rp_round s = 1 \<and> rp_repairStart s = None \<and>
     ps_round (rp_lastPreparedState s) = 0 \<and> sm_ok (rp_replicaViews s) \<and> length (rp_replicaViews s) = card A \<and>
     fst ` set (rp_replicaViews s) = A \<and> (\<forall>p \<in> set (rp_replicaViews s). snd p = (v, 1))"

lemma view_update_before_repair:
  assumes "before_repair v A s" and "i \<notin> A" and "v \<noteq> 0" and "v \<noteq> - 1" and "cm_valid (re_cm env)"
  shows "if card A < getF (re_cm env)
    then \<exists>s'. updateReplicaView env i v 1 s = Inr s' \<and> before_repair v (insert i A) s'
    else updateReplicaView env i v 1 s = Inl Undefined"
proof -
  let ?m = "sm_put i (v, 1) (rp_replicaViews s)" and ?cm = "re_cm env"
  have none: "map_of (rp_replicaViews s) i = None"
    using assms(1,2) by (auto simp: before_repair_def map_of_eq_None_iff)
  have all: "\<forall>p \<in> set ?m. snd p = (v, 1)" using assms(1) by (auto simp: before_repair_def sm_put_set)
  have len: "length ?m = Suc (card A)" using assms(1) length_sm_put_new [OF none] by (simp add: before_repair_def)
  have v: "(0 :: u32) < v" using assms(3) by (simp add: word_gt_0)
  have same: "filter (\<lambda>p. snd p = (0, 1)) ?m = []" using all assms(3) by (auto simp: filter_empty_conv)
  have views: "filter (\<lambda>w. 0 < w) (map (fst \<circ> snd) ?m) = map (fst \<circ> snd) ?m"
    using all v by (auto simp: filter_id_conv)
  have "?m \<noteq> []" using len by auto
  then have min_view: "fold min (map (fst \<circ> snd) ?m) (- 1) = v" using all by (intro fold_min_same) auto
  have quorum: "0 < getQuorumSize ?cm" using cm_valid_sizes(2) [OF assms(5)] by simp
  have "cm_quorumSize ?cm \<le> cm_numReplicas ?cm"
    using cm_valid_sizes [OF assms(5)] by (simp add: getNumReplicas_def getQuorumSize_def word_le_nat_alt)
  then have "unat (cm_numReplicas ?cm - cm_quorumSize ?cm) = getF ?cm"
    using cm_valid_sizes [OF assms(5)] by (simp add: unat_sub getNumReplicas_def getQuorumSize_def)
  moreover have "getF ?cm + 1 < 2 ^ 32" using assms(5) by (simp add: cm_valid_def)
  ultimately have threshold: "unat (cm_numReplicas ?cm - cm_quorumSize ?cm + 1) = Suc (getF ?cm)"
    using unat_Suc_no_wrap [of "cm_numReplicas ?cm - cm_quorumSize ?cm"] by simp
  have eq: "updateReplicaView env i v 1 s =
      (if getF ?cm \<le> card A then startViewChange env v (s\<lparr>rp_replicaViews := ?m\<rparr>) else Inr (s\<lparr>rp_replicaViews := ?m\<rparr>))"
    using assms(1) none same views min_view quorum threshold len v assms(4)
    by (simp add: updateReplicaView_def before_repair_def Let_def del: length_filter_map)
  show ?thesis
  proof (cases "card A < getF ?cm")
    case True
    have "finite A" using assms(1) by (auto simp: before_repair_def)
    then have "before_repair v (insert i A) (s\<lparr>rp_replicaViews := ?m\<rparr>)"
      using assms(1,2) all len by (auto simp: before_repair_def sm_keys_put)
    then show ?thesis using True eq by simp
  next
    case False
    then show ?thesis using eq assms(1) by (simp add: startViewChange_def viewChangeStart_def before_repair_def Let_def)
  qed
qed

lemma view_updates_before_repair:
  assumes "before_repair v A s" and "distinct is" and "set is \<inter> A = {}" and "v \<noteq> 0" and "v \<noteq> - 1" and "cm_valid (re_cm env)"
    and "length is + card A = Suc (getF (re_cm env))" and "is \<noteq> []"
  shows "foldE (\<lambda>i. updateReplicaView env i v 1) is s = Inl Undefined"
  using assms(1,2,3,7,8)
proof (induction "is" arbitrary: A s)
  case (Cons i js)
  note step = view_update_before_repair [OF Cons.prems(1) _ assms(4,5,6), of i]
  show ?case
  proof (cases "js = []")
    case True
    then show ?thesis using step Cons.prems by simp
  next
    case False
    have fin: "finite A" using Cons.prems(1) by (auto simp: before_repair_def)
    have "card A < getF (re_cm env)" using False Cons.prems(4) by (cases js) auto
    then obtain s' where s': "updateReplicaView env i v 1 s = Inr s'" "before_repair v (insert i A) s'"
      using step Cons.prems(3) by auto
    have "foldE (\<lambda>i. updateReplicaView env i v 1) js s' = Inl Undefined"
      using Cons.prems s'(2) False fin by (intro Cons.IH [of "insert i A"]) auto
    then show ?thesis using s'(1) by simp
  qed
qed simp

text \<open>The round of the proposal becomes the replica's, or the one before its next.\<close>

lemma tryFinishRepair_round:
  assumes "tryFinishRepair env s = Inr s'" and "rp_repairProposal s = Some p" and "rpr_round p \<noteq> rp_round s - 1"
  shows "rp_round s' \<in> {rpr_round p, rpr_round p + 1}"
proof -
  obtain sfx s1 where s1: "getRepairLogSuffix env s = Inr (sfx, s1)"
    using assms(1) by (auto simp: tryFinishRepair_def elim!: bindE_InrE)
  let ?s2 = "s1\<lparr>rp_round := rpr_round p, rp_repairViewStart := 0\<rparr>"
  have sel: "rp_round s1 = rp_round s" "rp_repairProposal s1 = Some p"
    using stage_sel [OF stage_suffix [OF s1]] assms(2) by simp_all
  consider b ab where "applyRepair env sfx (queued_requests ?s2 []) ab ?s2 = Inr (b, s')" | "stage s' = stage ?s2"
    using assms(1,3) s1 sel
    by (auto simp: tryFinishRepair_def Let_def elim!: bindE_InrE split: if_splits dest!: stage_snapshotRequest)
  then show ?thesis
  proof cases
    case 1
    then show ?thesis using applyRepair_stage [OF 1] finished_sel(5) [of s' ?s2] stage_sel(6) [of s' ?s2] by (cases b) auto
  next
    case 2
    then show ?thesis using stage_sel(6) [OF 2] by simp
  qed
qed

lemma doPreparePhase_keeps:
  "doPreparePhase env s = Inr s' \<Longrightarrow> rp_missingRequestFetchSent s' = rp_missingRequestFetchSent s \<and>
     rp_pendingMissingRequests s' = rp_pendingMissingRequests s \<and> rp_proposalDigest s' = rp_proposalDigest s"
  by (auto simp: doPreparePhase_def getRepairLogSuffix_def broadcastToReplicas_def elim!: bindE_InrE split: option.splits if_splits)

lemma processPrePrepare_accepts:
  assumes "processPrePrepare env pp s = Inr s'" and "pp_round pp = rp_round s" and "pp_pbft_view pp = rp_pbftView s"
    and "pp_primary_id pp = getPrimary env s"
  shows "stage s' = stage (s\<lparr>rp_repairProposal := Some (pp_proposal pp)\<rparr>) \<and> rp_proposalDigest s' = pp_proposal_digest pp \<and>
    rp_missingRequestFetchSent s' = rp_missingRequestFetchSent s \<and> rp_pendingMissingRequests s' = rp_pendingMissingRequests s"
proof -
  let ?s1 = "s\<lparr>rp_repairProposal := Some (pp_proposal pp), rp_repairProposalLogSuffix := None, rp_proposalDigest := pp_proposal_digest pp\<rparr>"
  have "stage ?s1 = stage (s\<lparr>rp_repairProposal := Some (pp_proposal pp)\<rparr>)" by (simp add: stage_def votes_def commits_sent_def)
  moreover have "s' = ?s1\<lparr>rp_holdPrepareOrCommit := \<not> rp_holdPrepareOrCommit ?s1, rp_viewChangeRound := rp_viewChangeRound ?s1 + re_viewChangeFreq env\<rparr>
      \<or> doPreparePhase env ?s1 = Inr s'"
    using assms by (auto simp: processPrePrepare_def Let_def split: if_splits)
  ultimately show ?thesis using doPreparePhase_stage [of env ?s1 s'] doPreparePhase_keeps [of env ?s1 s'] by auto
qed

section \<open>Properties\<close>

text \<open>C27: a new request of a configured client, off the checkpoint interval, is appended to the log with its deadline
  and result, and exactly one message is sent: the reply to that client with the number of the entry and the
  new digest of the log.\<close>

theorem request_appended_and_answered:
  assumes "log_wf (env_sha (re_log env)) (rp_log s)" and "lg_nextSeq (rp_log s) + 1 \<noteq> 0"
    and "unat (crq_client_id r) < cfg_clientIps_size (re_config env)" and "\<not> re_crashed env"
    and "\<not> rec_contains (lc_clientRecord (lg_committed (rp_log s))) (crq_client_id r) (crq_client_seq r)"
    and "addEntry (re_log env) (crq_client_id r) (crq_client_seq r) (crq_req_data r) [] True (rp_log s) = Inr ((True, res), l1)"
    and "cfg_replicaCheckpointInterval (re_config env) \<noteq> 0"
    and "lg_nextSeq (rp_log s) mod cfg_replicaCheckpointInterval (re_config env) \<noteq> 0"
  shows "\<exists>s' e. processClientRequest env r queued s = Inr s' \<and>
    rp_out s' = rp_out s @ [(To_Client (crq_client_id r), REPLY, M_Reply (request_reply env r queued res (getDigest (rp_log s')) s))] \<and>
    lg_log (rp_log s') = lg_log (rp_log s) @ [e] \<and> le_deadline e = crq_deadline r \<and> le_result e = res \<and>
    entry_id e = (lg_nextSeq (rp_log s), crq_client_id r, crq_client_seq r, crq_req_data r) \<and>
    getDigest (rp_log s') = getDigest l1 \<and> lg_nextSeq (rp_log s') = lg_nextSeq (rp_log s) + 1"
  using assms by (rule appended_request)

definition demo_request :: "u32 \<Rightarrow> client_request" where
  "demo_request c = empty_request\<lparr>crq_client_id := c, crq_client_seq := 1, crq_deadline := 9, crq_req_data := [8]\<rparr>"

lemmas demo_request_simps = demo_request_def empty_request_def demo_replica_def demo_config_def replica_init_def log_init_def
  initial_checkpoint_def demo_env_def addEntry_def rec_update_def seq_update_def sm_at_def empty_sequence_def rec_contains_def sm_has_def Let_def

lemma demo_request_added:
  "\<exists>l1. addEntry (re_log (demo_replica 0)) (crq_client_id (demo_request c)) (crq_client_seq (demo_request c))
     (crq_req_data (demo_request c)) [] True (rp_log (replica_init (demo_replica 0) ())) = Inr ((True, [1]), l1)"
  by (simp add: demo_request_simps)

theorem request_appended_and_answered_witness:
  "\<exists>s'. processClientRequest (demo_replica 0) (demo_request 0) False (replica_init (demo_replica 0) ()) = Inr s' \<and> length (rp_out s') = 1"
proof -
  obtain l1 where l1: "addEntry (re_log (demo_replica 0)) (crq_client_id (demo_request 0)) (crq_client_seq (demo_request 0))
     (crq_req_data (demo_request 0)) [] True (rp_log (replica_init (demo_replica 0) ())) = Inr ((True, [1]), l1)"
    using demo_request_added by blast
  have wf: "log_wf (env_sha (re_log (demo_replica 0))) (rp_log (replica_init (demo_replica 0) ()))"
    by (simp add: replica_init_def)
  have h: "lg_nextSeq (rp_log (replica_init (demo_replica 0) ())) + 1 \<noteq> 0"
    "unat (crq_client_id (demo_request 0)) < cfg_clientIps_size (re_config (demo_replica 0))" "\<not> re_crashed (demo_replica 0)"
    "\<not> rec_contains (lc_clientRecord (lg_committed (rp_log (replica_init (demo_replica 0) ())))) (crq_client_id (demo_request 0))
       (crq_client_seq (demo_request 0))"
    "cfg_replicaCheckpointInterval (re_config (demo_replica 0)) \<noteq> 0"
    "lg_nextSeq (rp_log (replica_init (demo_replica 0) ())) mod cfg_replicaCheckpointInterval (re_config (demo_replica 0)) \<noteq> 0"
    by (simp_all add: demo_request_simps)
  from request_appended_and_answered [OF wf h(1-4) l1 h(5,6), of False] show ?thesis
    by (elim exE conjE) (simp add: replica_init_def)
qed

text \<open>The check of the client number lets through the number just after the last client: such a request is
  executed and then its answer reads the client's address behind the end of the table.\<close>

theorem unconfigured_client_faults:
  assumes "log_wf (env_sha (re_log env)) (rp_log s)" and "lg_nextSeq (rp_log s) + 1 \<noteq> 0"
    and "unat (crq_client_id r) = cfg_clientIps_size (re_config env)"
    and "\<not> rec_contains (lc_clientRecord (lg_committed (rp_log s))) (crq_client_id r) (crq_client_seq r)"
    and "addEntry (re_log env) (crq_client_id r) (crq_client_seq r) (crq_req_data r) [] True (rp_log s) = Inr ((True, res), l1)"
  shows "processClientRequest env r queued s = Inl Undefined"
proof -
  obtain e where "lg_log l1 = lg_log (rp_log s) @ [e]" "log_wf (env_sha (re_log env)) l1"
    using addEntry_effect [OF assms(1,2,5)] by blast
  then obtain l2 where "set_deadline (lg_nextSeq l1 - 1) (crq_deadline r) l1 = Inr l2" using set_deadline_last by blast
  then show ?thesis using assms(3-5) by (simp add: processClientRequest_def Let_def client_addr_def)
qed

theorem unconfigured_client_faults_witness:
  "processClientRequest (demo_replica 0) (demo_request 1) False (replica_init (demo_replica 0) ()) = Inl Undefined"
proof -
  obtain l1 where l1: "addEntry (re_log (demo_replica 0)) (crq_client_id (demo_request 1)) (crq_client_seq (demo_request 1))
     (crq_req_data (demo_request 1)) [] True (rp_log (replica_init (demo_replica 0) ())) = Inr ((True, [1]), l1)"
    using demo_request_added by blast
  show ?thesis
    by (rule unconfigured_client_faults [OF _ _ _ _ l1]) (simp add: replica_init_def, simp_all add: demo_request_simps)
qed

text \<open>The time a replica waits for a view doubles with every view change in a row up to the thirtieth; at
  the thirty-first the shifted 32-bit number is negative and the wait is the configured time subtracted from zero.\<close>

theorem view_timeout_doubles:
  "(viewTimeout env s = Inr t \<and> unat (rp_numConsecutiveViewChanges s) \<le> 30 \<and>
      unat (cfg_replicaRepairViewTimeout (re_config env)) * 2 ^ unat (rp_numConsecutiveViewChanges s) < 2 ^ 64 \<longrightarrow>
    unat t = unat (cfg_replicaRepairViewTimeout (re_config env)) * 2 ^ unat (rp_numConsecutiveViewChanges s)) \<and>
   (unat (rp_numConsecutiveViewChanges s) = 31 \<longrightarrow>
      viewTimeout env s = Inr (- (cfg_replicaRepairViewTimeout (re_config env) * 2 ^ 31)))"
  using viewTimeout_doubles viewTimeout_top by blast+

theorem view_timeout_doubles_witness:
  "viewTimeout (demo_replica 0) ((replica_init (demo_replica 0) ())\<lparr>rp_numConsecutiveViewChanges := 31\<rparr>) = Inr 0"
  using view_timeout_doubles [of "demo_replica 0" "(replica_init (demo_replica 0) ())\<lparr>rp_numConsecutiveViewChanges := 31\<rparr>"]
  by (simp add: demo_replica_def demo_config_def)

text \<open>The loop over the ordered requests ends for every state, and when it returns the next number of the log has
  no order, or an order whose request has not arrived; it never runs more often than there are orders.\<close>

theorem ordered_requests_loop_stops:
  assumes "checkPSOrderRequests env s = Inr s'"
  shows "(case map_of (rp_psOrderSeqs s') (lg_nextSeq (rp_log s')) of None \<Rightarrow> True
      | Some key \<Rightarrow> map_of (rp_psOrderRequests s') key = None) \<and>
    length (rp_psOrderSeqs s') \<le> length (rp_psOrderSeqs s)"
  using assms by (rule checkPSOrder_stops)

theorem ordered_requests_loop_stops_witness:
  "length (rp_psOrderSeqs (replica_init (demo_replica 0) ())) \<le> 0"
proof -
  have "checkPSOrderRequests (demo_replica 0) (replica_init (demo_replica 0) ()) = Inr (replica_init (demo_replica 0) ())"
    by (subst checkPSOrderRequests.simps) (simp add: replica_init_def)
  from ordered_requests_loop_stops [OF this] show ?thesis by (simp add: replica_init_def)
qed

text \<open>Of the aborted requests with the same deadline and client only the first is queued again. Entries that an
  earlier repair applied all have deadline 0, so of a client's requests among them all but one are lost.\<close>

theorem aborted_requests_lost:
  assumes "\<forall>r \<in> set reqs. rq_deadline r = rq_deadline r1 \<and> rq_clientId r = rq_clientId r1"
  shows "requeueAborted (r1 # reqs) [] =
    [((rq_deadline r1, rq_clientId r1), empty_request\<lparr>crq_client_id := rq_clientId r1, crq_client_seq := rq_clientSeq r1,
        crq_req_data := rq_requestData r1\<rparr>)]"
  using assms by (subst requeueAborted_Cons) (simp add: sm_insert_def sm_has_def requeueAborted_taken)

theorem aborted_requests_lost_witness:
  "length (requeueAborted [\<lparr>rq_clientId = 7, rq_clientSeq = 1, rq_requestData = [1], rq_padding = [], rq_deadline = 0\<rparr>,
     \<lparr>rq_clientId = 7, rq_clientSeq = 2, rq_requestData = [2], rq_padding = [], rq_deadline = 0\<rparr>] []) = 1"
  by (subst aborted_requests_lost) simp_all

text \<open>A replica that has not yet taken part in a repair ends when \<open>f + 1\<close> others report a higher view: it dereferences
  the repair start it never made.\<close>

theorem view_updates_crash_unrepaired:
  assumes "cm_valid (re_cm env)" and "distinct is" and "length is = getF (re_cm env) + 1" and "v \<noteq> 0" and "v \<noteq> - 1"
  shows "foldE (\<lambda>i. updateReplicaView env i v 1) is (replica_init env app) = Inl Undefined"
proof (rule view_updates_before_repair [where A = "{}" and v = v])
  show "before_repair v {} (replica_init env app)"
    by (simp add: before_repair_def replica_init_def empty_prepared_state_def)
qed (use assms in auto)

theorem view_updates_crash_unrepaired_witness:
  "foldE (\<lambda>i. updateReplicaView (demo_replica 0) i 1 1) [1, 3] (replica_init (demo_replica 0) ()) = Inl Undefined"
  by (rule view_updates_crash_unrepaired) (simp_all add: demo_replica_def demo_config_valid)

text \<open>The digest of a proposal, and so every vote, covers only the signatures in it and not its round. When a
  prepared replica gets from the primary the same proposal with a higher round before the last commit, this commit
  takes it to the round of that second message or the one after it.\<close>

theorem second_proposal_moves_round:
  assumes "processPrePrepare env pp s = Inr s1" and "pp_round pp = rp_round s" and "pp_pbft_view pp = rp_pbftView s"
    and "pp_primary_id pp = getPrimary env s" and "pp_proposal pp = p\<lparr>rpr_round := r\<rparr>"
    and "pp_proposal_digest pp = getProposalDigest (re_sha env) (p\<lparr>rpr_round := r\<rparr>)"
    and "rp_proposalDigest s = getProposalDigest (re_sha env) p"
    and "rp_viewPrepared s" and "rp_preparedRound s = rp_round s" and "rp_round s < r"
    and "pc_round c = rp_round s" and "pc_pbft_view c = rp_pbftView s" and "\<not> laterCommit c s1"
    and "getQuorumSize (re_cm env) \<le> length (filter (matching_commit s) (rp_repairPBFTCommits (storeCommit c sig s)))"
    and "processPBFTCommit env c sig s1 = Inr s2" and "rp_round s \<noteq> 0"
  shows "rp_proposalDigest s1 = rp_proposalDigest s \<and> rp_round s2 \<in> {r, r + 1}"
proof -
  have acc: "stage s1 = stage (s\<lparr>rp_repairProposal := Some (p\<lparr>rpr_round := r\<rparr>)\<rparr>)" "rp_proposalDigest s1 = rp_proposalDigest s"
    using processPrePrepare_accepts [OF assms(1-4)] assms(5-7) by (simp_all add: getProposalDigest_def)
  note sel = stage_sel [OF acc(1)]
  let ?s1 = "storeCommit c sig s1"
  have votes: "rp_repairPBFTCommits s1 = rp_repairPBFTCommits s" using sel(1) by (simp add: votes_def)
  have "matching_commit ?s1 = matching_commit s"
    using sel(4,7) acc(2) by (simp add: matching_commit_def [abs_def] storeCommit_def)
  then have "\<not> length (filter (matching_commit ?s1) (rp_repairPBFTCommits ?s1)) < getQuorumSize (re_cm env)"
    using assms(14) votes by (simp add: storeCommit_def)
  moreover have nm1: "rp_preparedRound s \<noteq> - 1"
    using assms(9,10) by (metis word_order.extremum_strict)
  moreover have "\<not> r < rp_round s" using assms(10) by simp
  ultimately have "tryFinishRepair env ?s1 = Inr s2"
    using assms(8-13,15) sel by (simp add: processPBFTCommit_def countCommits_def store_stage)
  moreover have "r \<noteq> rp_round s - 1"
    using assms(10,16) by (auto simp: word_less_nat_alt unat_minus_one)
  ultimately show ?thesis
    using tryFinishRepair_round [of env ?s1 s2 "p\<lparr>rpr_round := r\<rparr>"] sel acc(2) by (simp add: store_stage)
qed

definition demo_preprepare :: "u32 \<Rightarrow> pbft_preprepare" where
  "demo_preprepare n = \<lparr>pp_round = 1, pp_primary_id = 0, pp_pbft_view = 0, pp_proposal = demo_proposal\<lparr>rpr_round := n\<rparr>,
     pp_proposal_digest = [1, 1, 1]\<rparr>"

lemma demo_proposal_digest: "getProposalDigest (re_sha (demo_replica i)) (demo_proposal\<lparr>rpr_round := n\<rparr>) = [1, 1, 1]"
  by (simp add: getProposalDigest_def demo_proposal_def demo_repair_simps demo_env_def)

lemma demo_accepts:
  assumes "rp_round s = 1" and "rp_pbftView s = 0" and "rp_viewChangeRound s = 0"
  shows "\<exists>t. processPrePrepare (demo_replica 0) (demo_preprepare n) s = Inr t \<and> rp_repairPBFTCommits t = rp_repairPBFTCommits s \<and>
    rp_log t = rp_log s \<and> rp_repairProposal t = Some (demo_proposal\<lparr>rpr_round := n\<rparr>) \<and>
    rp_repairProposalLogSuffix t = Some (demo_suffix 0 1) \<and> rp_round t = 1 \<and> rp_pendingRepair t = rp_pendingRepair s \<and>
    rp_repairQueuedReqs t = rp_repairQueuedReqs s \<and> rp_numConsecutiveViewChanges t = rp_numConsecutiveViewChanges s \<and>
    rp_curRoundStartSeq t = rp_curRoundStartSeq s \<and> rp_viewPrepared t = rp_viewPrepared s \<and>
    rp_preparedRound t = rp_preparedRound s \<and> rp_pbftView t = 0 \<and> rp_proposalDigest t = [1, 1, 1]"
proof -
  have cm: "re_cm (demo_replica 0) = demo_config" "re_log (demo_replica 0) = demo_env" "re_id (demo_replica 0) = 0"
    "re_viewChangeFreq (demo_replica 0) = 0" "\<not> re_crashed (demo_replica 0)"
    by (simp_all add: demo_replica_def)
  show ?thesis
    using assms
    by (simp add: processPrePrepare_def demo_preprepare_def getPrimary_def viewChangeByPrepare_def ifTriggerViewChange_def
        doPreparePhase_def getRepairLogSuffix_def demo_fields cm demo_suffix_made broadcastToReplicas_def Let_def)
qed

theorem second_proposal_moves_round_witness:
  "\<exists>t u. processPrePrepare (demo_replica 0) (demo_preprepare 9) (demo_prepared 0 [0, 1]) = Inr t \<and>
     processPBFTCommit (demo_replica 0) (demo_commit 2) [1] t = Inr u \<and> rp_round u \<in> {9, 10}"
proof -
  let ?s = "demo_prepared 0 [0, 1]"
  have sel: "rp_viewPrepared ?s" "rp_preparedRound ?s = 1" "rp_proposalDigest ?s = [1, 1, 1]" "rp_viewChangeRound ?s = 0"
    "rp_log ?s = log_init ()" "\<not> rp_pendingRepair ?s" "rp_repairQueuedReqs ?s = []" "rp_numConsecutiveViewChanges ?s = 0"
    "rp_curRoundStartSeq ?s = 0" "rp_repairPBFTCommits ?s = [(0, demo_commit 0), (1, demo_commit 1)]"
    by (simp_all add: demo_prepared_def record_prepared_def demo_accepted_def replica_init_def demo_proposal_def demo_replica_def Let_def)
  obtain t where t: "processPrePrepare (demo_replica 0) (demo_preprepare 9) ?s = Inr t"
    "rp_repairPBFTCommits t = [(0, demo_commit 0), (1, demo_commit 1)]" "rp_log t = log_init ()"
    "rp_repairProposal t = Some (demo_proposal\<lparr>rpr_round := 9\<rparr>)" "rp_repairProposalLogSuffix t = Some (demo_suffix 0 1)"
    "rp_round t = 1" "\<not> rp_pendingRepair t" "rp_repairQueuedReqs t = []" "rp_numConsecutiveViewChanges t = 0"
    "rp_curRoundStartSeq t = 0" "rp_viewPrepared t" "rp_preparedRound t = 1" "rp_pbftView t = 0" "rp_proposalDigest t = [1, 1, 1]"
    using demo_accepts [of ?s 9] sel by auto
  let ?t = "storeCommit (demo_commit 2) [1] t"
  obtain u where u: "tryFinishRepair (demo_replica 0) ?t = Inr u"
    using demo_finish [of ?t 9 0] t by (auto simp: storeCommit_def)
  have later: "\<not> laterCommit (demo_commit 2) t" by (simp add: laterCommit_def t demo_commit_def)
  have "processPBFTCommit (demo_replica 0) (demo_commit 2) [1] t = tryFinishRepair (demo_replica 0) ?t"
    using t later by (simp add: processPBFTCommit_def storeCommit_def countCommits_def demo_commit_def demo_fields
        demo_replica_def matching_commit_def)
  then have c: "processPBFTCommit (demo_replica 0) (demo_commit 2) [1] t = Inr u" using u by simp
  have count: "getQuorumSize (re_cm (demo_replica 0)) \<le>
      length (filter (matching_commit ?s) (rp_repairPBFTCommits (storeCommit (demo_commit 2) [1] ?s)))"
    unfolding demo_commits_stored by (simp add: matching_commit_def sel demo_replica_def demo_fields) (simp add: demo_commit_def)
  have "rp_round u \<in> {9, 10}"
    using second_proposal_moves_round [OF t(1) _ _ _ _ _ _ sel(1) _ _ _ _ later count c, of 9 demo_proposal]
      demo_proposal_digest [of 0 9] demo_proposal_digest [of 0 1] sel
    by (simp add: demo_preprepare_def demo_commit_def getPrimary_def demo_fields getProposalDigest_def demo_replica_def)
  then show ?thesis using t(1) c by blast
qed

text \<open>A replica that waits for a missing request goes on to \<open>tryFinishRepair\<close> with whatever proposal it has when the request
  arrives: a pre-prepare that came meanwhile replaced the agreed one, and the votes stored are those from before; none is counted.\<close>

theorem missing_reply_applies_unvoted:
  assumes "processPrePrepare env pp s = Inr s1" and "pp_round pp = rp_round s" and "pp_pbft_view pp = rp_pbftView s"
    and "pp_primary_id pp = getPrimary env s" and "rp_missingRequestFetchSent s"
    and "rp_pendingMissingRequests s = [(rd_client_id d, rd_client_seq d)]" and "mrr_requests q = [d]"
    and "rp_round s \<le> mrr_round q"
  shows "\<exists>s2. processMissingRequestReply env q s1 = tryFinishRepair env s2 \<and> rp_repairProposal s2 = Some (pp_proposal pp) \<and>
    votes s2 = votes s"
proof -
  note acc = processPrePrepare_accepts [OF assms(1-4)]
  let ?t = "(missing_reply_step d s1)\<lparr>rp_missingRequestFetchSent := False\<rparr>"
  have "processMissingRequestReply env q s1 = tryFinishRepair env ?t"
    using acc assms(5-8) stage_sel(6) [of s1 "s\<lparr>rp_repairProposal := Some (pp_proposal pp)\<rparr>"]
    by (simp add: processMissingRequestReply_def missing_reply_step_def Let_def not_less [symmetric])
  moreover have "stage ?t = stage s1" by (simp add: missing_reply_step_def Let_def)
  then have "rp_repairProposal ?t = Some (pp_proposal pp)" "votes ?t = votes s"
    using acc stage_sel(1,5) [of ?t s1] stage_sel(1,5) [of s1 "s\<lparr>rp_repairProposal := Some (pp_proposal pp)\<rparr>"] by simp_all
  ultimately show ?thesis by blast
qed

theorem missing_reply_applies_unvoted_witness:
  "\<exists>s1 s2. processMissingRequestReply (demo_replica 0) \<lparr>mrr_round = 1, mrr_replica_id = 0,
       mrr_requests = [\<lparr>rd_client_id = 7, rd_client_seq = 1, rd_request = [1]\<rparr>]\<rparr> s1 = tryFinishRepair (demo_replica 0) s2 \<and>
     rp_repairProposal s2 = Some (demo_proposal\<lparr>rpr_round := 1\<rparr>) \<and> rp_repairPBFTCommits s2 = []"
proof -
  let ?s = "(replica_init (demo_replica 0) ())\<lparr>rp_missingRequestFetchSent := True, rp_pendingMissingRequests := [(7, 1)]\<rparr>"
  have r: "rp_round ?s = 1" "rp_pbftView ?s = 0" "rp_repairPBFTCommits ?s = []" "rp_viewChangeRound ?s = 0"
    by (simp_all add: replica_init_def demo_replica_def)
  obtain t where t: "processPrePrepare (demo_replica 0) (demo_preprepare 1) ?s = Inr t"
    using demo_accepts [OF r(1,2,4), of 1] by blast
  show ?thesis
    using missing_reply_applies_unvoted [OF t, of "\<lparr>rd_client_id = 7, rd_client_seq = 1, rd_request = [1]\<rparr>"
        "\<lparr>mrr_round = 1, mrr_replica_id = 0, mrr_requests = [\<lparr>rd_client_id = 7, rd_client_seq = 1, rd_request = [1]\<rparr>]\<rparr>"] r
    by (auto simp: demo_preprepare_def getPrimary_def demo_fields demo_replica_def votes_def)
qed

text \<open>A primary that has never been prepared answers a start message with prepared history by proposing its own
  state, which is empty, under an empty digest; no replica accepts that message, because the digest of the empty
  proposal is the hash of nothing.\<close>

theorem view_change_proposes_empty:
  assumes "isPrimary env s" and "rp_lastPreparedState s = empty_prepared_state" and "\<not> re_crashed env"
    and "(i, m) \<in> set (rp_repairStartMsgs s)" and "usable_start rd s (i, m)" and "rs_prepared_history m \<noteq> None"
    and "wp_sha w [] \<noteq> []" and "type_of_code (fr_type fr) = Some PBFT_PREPREPARE"
    and "wp_parse w PBFT_PREPREPARE (fr_body fr) = Some (M_PrePrepare pp)" and "signed_by w fr REPLICA (pp_primary_id pp)"
  shows "\<exists>own. doPrePreparePhase env rd s = s\<lparr>rp_out := rp_out s @ [(To_Replicas, PBFT_PREPREPARE, M_PrePrepare own)]\<rparr> \<and>
    pp_proposal own = empty_proposal \<and> (pp = own \<longrightarrow> verify_message w cm fr = Inr DropMsg)"
proof -
  let ?own = "\<lparr>pp_round = rd, pp_primary_id = re_id env, pp_pbft_view = rp_pbftView s, pp_proposal = empty_proposal, pp_proposal_digest = []\<rparr>"
  have "\<exists>p \<in> set (filter (usable_start rd s) (rp_repairStartMsgs s)). rs_prepared_history (snd p) \<noteq> None"
    using assms(4-6) by force
  then have "doPrePreparePhase env rd s = s\<lparr>rp_out := rp_out s @ [(To_Replicas, PBFT_PREPREPARE, M_PrePrepare ?own)]\<rparr>"
    using assms(1-3) by (simp add: doPrePreparePhase_def empty_prepared_state_def broadcastToReplicas_def)
  moreover have "verify_message w cm fr = Inr DropMsg" if "pp = ?own"
    using assms(7-10) that
    by (simp add: verify_message_def client_types_def repair_types_def verify_repair_msg_def getProposalDigest_def empty_proposal_def)
  ultimately show ?thesis by (intro exI [of _ ?own]) simp
qed

text \<open>A wire whose hash is never empty and whose every pre-prepare is the given one.\<close>

definition demo_prepare_wire :: "pbft_preprepare \<Rightarrow> unit wire_params" where
  "demo_prepare_wire pp = demo_wire\<lparr>wp_sha := (\<lambda>b. 0 # b), wp_parse := (\<lambda>t b. Some (M_PrePrepare pp))\<rparr>"

definition demo_empty_preprepare :: "bytes \<Rightarrow> pbft_preprepare" where
  "demo_empty_preprepare d = \<lparr>pp_round = 1, pp_primary_id = 0, pp_pbft_view = 0, pp_proposal = empty_proposal, pp_proposal_digest = d\<rparr>"

lemma demo_prepare_signed: "signed_by (demo_prepare_wire pp) (demo_frame PBFT_PREPREPARE []) nt i"
  by (simp add: signed_by_def demo_prepare_wire_def demo_wire_simps)

theorem view_change_proposes_empty_witness:
  "verify_message (demo_prepare_wire (demo_empty_preprepare [])) demo_config (demo_frame PBFT_PREPREPARE []) = Inr DropMsg"
proof -
  let ?m = "(demo_start 1)\<lparr>rs_log := None, rs_prepared_history := Some empty_prepared_history\<rparr>"
  let ?s = "(replica_init (demo_replica 0) ())\<lparr>rp_repairStartMsgs := [(1, ?m)]\<rparr>"
  have s: "isPrimary (demo_replica 0) ?s" "rp_lastPreparedState ?s = empty_prepared_state" "\<not> re_crashed (demo_replica 0)"
    "(1, ?m) \<in> set (rp_repairStartMsgs ?s)" "usable_start 1 ?s (1, ?m)" "rs_prepared_history ?m \<noteq> None"
    by (simp_all add: isPrimary_def getPrimary_def replica_init_def demo_replica_def demo_fields usable_start_def demo_start_def)
  obtain own where own: "doPrePreparePhase (demo_replica 0) 1 ?s =
      ?s\<lparr>rp_out := rp_out ?s @ [(To_Replicas, PBFT_PREPREPARE, M_PrePrepare own)]\<rparr>"
    "demo_empty_preprepare [] = own \<longrightarrow>
       verify_message (demo_prepare_wire (demo_empty_preprepare [])) demo_config (demo_frame PBFT_PREPREPARE []) = Inr DropMsg"
    using view_change_proposes_empty [OF s _ _ _ demo_prepare_signed, of "demo_empty_preprepare []" "demo_empty_preprepare []" demo_config]
    by (auto simp: demo_prepare_wire_def)
  have "own = demo_empty_preprepare []"
    using own(1) s by (auto simp: doPrePreparePhase_def broadcastToReplicas_def empty_prepared_state_def demo_empty_preprepare_def
        demo_replica_def replica_init_def)
  then show ?thesis using own(2) by simp
qed

text \<open>C38: a primary can stop every other replica with one message: a pre-prepare of the current round and view whose
  proposal has no start messages passes the verification, and processing it reads an uninitialised checkpoint.\<close>

theorem empty_proposal_crashes:
  assumes "type_of_code (fr_type fr) = Some PBFT_PREPREPARE"
    and "wp_parse (re_wire env) PBFT_PREPREPARE (fr_body fr) = Some (M_PrePrepare pp)"
    and "signed_by (re_wire env) fr REPLICA (pp_primary_id pp)"
    and "rpr_start_msgs (pp_proposal pp) = []" and "pp_proposal_digest pp = getProposalDigest (wp_sha (re_wire env)) (pp_proposal pp)"
    and "pp_round pp = rp_round s" and "pp_pbft_view pp = rp_pbftView s" and "pp_primary_id pp = getPrimary env s"
    and "re_viewChangeFreq env = 0" and "rp_viewChangeRound s = 0"
  shows "verify_message (re_wire env) (re_cm env) fr = Inr Enqueue \<and> processMessage env fr s = Inl Undefined"
  using assms
  by (simp add: verify_message_def client_types_def repair_types_def verify_repair_msg_def verifyRepairProposal_def
      processMessage_def normal_types_def process_repair_msg_def goOn_def processPrePrepare_def viewChangeByPrepare_def
      ifTriggerViewChange_def doPreparePhase_def getRepairLogSuffix_def getLogSuffixFromProposal_def pick_checkpoint_def Let_def)

theorem empty_proposal_crashes_witness:
  "processMessage ((demo_replica 1)\<lparr>re_wire := demo_prepare_wire (demo_empty_preprepare [0])\<rparr>) (demo_frame PBFT_PREPREPARE [])
     (replica_init (demo_replica 1) ()) = Inl Undefined"
proof (rule conjunct2 [OF empty_proposal_crashes])
  show "signed_by (re_wire ((demo_replica 1)\<lparr>re_wire := demo_prepare_wire (demo_empty_preprepare [0])\<rparr>)) (demo_frame PBFT_PREPREPARE [])
      REPLICA (pp_primary_id (demo_empty_preprepare [0]))"
    using demo_prepare_signed by simp
qed (simp_all add: demo_prepare_wire_def demo_empty_preprepare_def empty_proposal_def getProposalDigest_def replica_init_def
      getPrimary_def demo_fields demo_replica_def)

end
