(* ===== verification/RepairLogs.thy ===== *)
theory RepairLogs
  imports RepairUtils
begin

text \<open>
  Applying an agreed suffix. The reference is \<open>replay\<close>, a fold over the requests that knows only the next
  number, the digest and the client record. The routine that works on the log, with its execution,
  parsing and request lookup, computes the same; so replicas that start from equal digests and
  records end with equal ones, and with the digest they voted on.
\<close>

section \<open>The reference\<close>

type_synonym view = "u32 \<times> bytes \<times> client_record"

definition log_view :: "'s log_state \<Rightarrow> view" where
  "log_view l = (lg_nextSeq l, getDigest l, lg_clientRecord l)"

fun replay :: "(bytes \<Rightarrow> bytes) \<Rightarrow> (u32 \<times> u32 \<times> bytes) list \<Rightarrow> view \<Rightarrow> view" where
  "replay sha [] v = v"
| "replay sha ((c, q, r) # xs) (s, d, rec) =
     (let (fresh, rec') = rec_update c q rec
      in replay sha xs (if fresh then (s + 1, sha (entry_input s c q r d), rec') else (s, d, rec')))"

definition requests_of :: "available \<Rightarrow> log_entry_pb list \<Rightarrow> (u32 \<times> u32 \<times> bytes) list" where
  "requests_of av es = map (\<lambda>e. (lep_client_id e, lep_client_seq e, the (map_of av (entry_key e)))) es"

section \<open>The simulation\<close>

text \<open>One entry on a well-formed log whose request parses: refused without a trace in the log, or appended.\<close>

lemma addEntry_view:
  assumes "log_wf (env_sha env) l" and "lg_nextSeq l + 1 \<noteq> 0" and "env_parse_padded env r \<noteq> None"
    and "addEntry env c q r [] True l = Inr ((added, res), l')"
  shows "log_wf (env_sha env) l' \<and>
    log_view l' = replay (env_sha env) [(c, q, r)] (log_view l) \<and>
    lg_nextSeq l' = (if added then lg_nextSeq l + 1 else lg_nextSeq l)"
proof -
  have ch: "log_chain (env_sha env) l" using assms(1) by (rule log_wf_chain)
  have le: "lc_seq (lg_committed l) < lg_nextSeq l + 1"
    using assms(1,2) by (simp add: log_wf_def less_Suc_no_wrap)
  have wf_rec: "log_wf (env_sha env) (l\<lparr>lg_clientRecord := rec'\<rparr>)" for rec'
    using assms(1) by (simp add: log_wf_def log_chain_def)
  obtain fresh rec' where u: "rec_update c q (lg_clientRecord l) = (fresh, rec')" by fastforce
  show ?thesis
  proof (cases fresh)
    case False
    then have "l' = l\<lparr>lg_clientRecord := rec'\<rparr>" "\<not> added"
      using assms(4) u by (simp_all add: addEntry_chain [OF ch] dup_check_def)
    then show ?thesis using False u wf_rec by (simp add: log_view_def getDigest_def)
  next
    case True
    then obtain app' where l': "l' = appended env c q r res rec' app' l" and added
      using assms(3,4) u by (auto simp: addEntry_chain [OF ch] dup_check_def elim!: bindE_InrE)
    then show ?thesis
      using True u assms(1) log_chain_appended [OF ch assms(2)] le
      by (simp add: log_view_def log_wf_def appended_def getDigest_def)
  qed
qed

lemma replay_append: "replay sha (xs @ ys) v = replay sha ys (replay sha xs v)"
  by (induction sha xs v rule: replay.induct) (auto split: prod.splits)

lemma apply_entries_replay:
  assumes "apply_entries env s es av l = Inr l'" and "log_wf (env_sha env) l"
    and "unat (lg_nextSeq l) + length es < 2 ^ 32"
    and "\<forall>e \<in> set es. \<forall>r. map_of av (entry_key e) = Some r \<longrightarrow> env_parse_padded env r \<noteq> None"
  shows "log_wf (env_sha env) l' \<and> log_view l' = replay (env_sha env) (requests_of av es) (log_view l) \<and>
    (\<forall>e \<in> set es. \<exists>r. map_of av (entry_key e) = Some r \<and> env_sha env r = lep_request_digest e)"
  using assms
proof (induction es arbitrary: s l)
  case Nil
  then show ?case by (simp add: requests_of_def)
next
  case (Cons e es)
  obtain r added res l1 where s: "s = lg_nextSeq l" and r: "map_of av (entry_key e) = Some r" "env_sha env r = lep_request_digest e"
    and add: "addEntry env (lep_client_id e) (lep_client_seq e) r [] True l = Inr ((added, res), l1)"
    and rest: "apply_entries env (if added then s + 1 else s) es av l1 = Inr l'"
    using Cons.prems(1) by (auto split: if_splits option.splits elim!: bindE_InrE)
  have nw: "unat (lg_nextSeq l + 1) = Suc (unat (lg_nextSeq l))" "lg_nextSeq l + 1 \<noteq> 0"
    using Cons.prems(3) by (intro unat_Suc_no_wrap; simp)+
  have step: "log_wf (env_sha env) l1" "log_view l1 = replay (env_sha env) [(lep_client_id e, lep_client_seq e, r)] (log_view l)"
      "lg_nextSeq l1 = (if added then lg_nextSeq l + 1 else lg_nextSeq l)"
    using addEntry_view [OF Cons.prems(2) nw(2) _ add] Cons.prems(4) r(1) by auto
  have "log_wf (env_sha env) l' \<and> log_view l' = replay (env_sha env) (requests_of av es) (log_view l1) \<and>
      (\<forall>e \<in> set es. \<exists>r. map_of av (entry_key e) = Some r \<and> env_sha env r = lep_request_digest e)"
  proof (rule Cons.IH [OF rest step(1)])
    show "unat (lg_nextSeq l1) + length es < 2 ^ 32" using Cons.prems(3) step(3) nw(1) by simp
  qed (use Cons.prems(4) in auto)
  then show ?case
    using step(2) r replay_append [of "env_sha env" "[(lep_client_id e, lep_client_seq e, r)]" "requests_of av es" "log_view l"]
    by (simp add: requests_of_def)
qed

lemma apply_entries_requests:
  "apply_entries env s es av l = Inr l' \<Longrightarrow> e \<in> set es \<Longrightarrow>
     \<exists>r. map_of av (entry_key e) = Some r \<and> env_sha env r = lep_request_digest e"
  by (induction es arbitrary: s l) (auto split: if_splits option.splits elim!: bindE_InrE)

lemma addEntry_refused:
  assumes "log_wf (env_sha env) l" and "addEntry env c q r [] True l = Inr ((False, res), l')"
  shows "lg_nextSeq l' = lg_nextSeq l"
  using assms(2)
  by (auto simp: addEntry_chain [OF log_wf_chain [OF assms(1)]] half_appended_def elim!: bindE_InrE
      split: prod.splits bool.splits option.splits)

text \<open>The digest of the suffix is the replay in which every request is new.\<close>

lemma replay_seq_le:
  "unat s + length xs < 2 ^ 32 \<Longrightarrow> unat (fst (replay sha xs (s, d, rec))) \<le> unat s + length xs"
proof (induction xs arbitrary: s d rec)
  case (Cons x xs)
  obtain c q r where x: "x = (c, q, r)" by (cases x) auto
  have "unat (s + 1) = Suc (unat s)" using Cons.prems by (intro unat_Suc_no_wrap) simp
  then have IH: "unat (fst (replay sha xs (t, d', rec'))) \<le> unat s + Suc (length xs)" if "t \<in> {s, s + 1}" for t d' rec'
    using Cons.IH [of t d' rec'] Cons.prems that by auto
  then show ?case by (auto simp: x split: prod.splits)
qed simp

lemma replay_all_new:
  assumes "fst (replay sha xs (s, d, rec)) = s + of_nat (length xs)" and "unat s + length xs < 2 ^ 32"
    and "\<forall>e \<in> set es. lep_request e = map_of av (entry_key e) \<and> lep_request e \<noteq> None" and "xs = requests_of av es"
  shows "fst (snd (replay sha xs (s, d, rec))) = suffix_digest sha s d es"
  using assms
proof (induction es arbitrary: xs s d rec)
  case Nil
  then show ?case by (simp add: requests_of_def)
next
  case (Cons e es)
  let ?xs = "requests_of av es" and ?r = "the (map_of av (entry_key e))"
  obtain fresh rec' where u: "rec_update (lep_client_id e) (lep_client_seq e) rec = (fresh, rec')" by fastforce
  have len: "length ?xs = length es" "unat s + Suc (length es) < 2 ^ 32" using Cons.prems(2,4) by (simp_all add: requests_of_def)
  have s1: "unat (s + 1) = Suc (unat s)" using len(2) by (intro unat_Suc_no_wrap) simp
  have xs: "xs = (lep_client_id e, lep_client_seq e, ?r) # ?xs" using Cons.prems(4) by (simp add: requests_of_def)
  obtain y where "lep_request e = Some y" "map_of av (entry_key e) = Some y" using Cons.prems(3) by fastforce
  then have r: "entry_request e = ?r" by (simp add: entry_request_def bytes_or_empty_def)
  show ?case
  proof (cases fresh)
    case True
    have "fst (snd (replay sha ?xs (s + 1, sha (entry_input s (lep_client_id e) (lep_client_seq e) ?r d), rec'))) =
        suffix_digest sha (s + 1) (sha (entry_input s (lep_client_id e) (lep_client_seq e) ?r d)) es"
    proof (rule Cons.IH)
      show "\<forall>e \<in> set es. lep_request e = map_of av (entry_key e) \<and> lep_request e \<noteq> None"
        by (rule ballI, rule bspec [OF Cons.prems(3)]) simp
    qed (use Cons.prems(1) len s1 True u xs in \<open>simp_all add: ac_simps\<close>)
    then show ?thesis using True u xs r by (simp add: new_entry_def)
  next
    case False
    have "unat (fst (replay sha ?xs (s, d, rec'))) \<le> unat s + length es"
      using replay_seq_le [of s ?xs sha d rec'] len by simp
    moreover have "unat (s + of_nat (Suc (length es))) = unat s + Suc (length es)" using len(2) by (intro unat_add_nat) simp
    ultimately show ?thesis using Cons.prems(1) False u xs len(1) by simp
  qed
qed

text \<open>One new request, applied by two applications that answer differently; for the witnesses.\<close>

definition demo_new :: "bytes option \<Rightarrow> log_entry_pb" where
  "demo_new r = \<lparr>lep_seq = 1, lep_client_id = 7, lep_client_seq = 1, lep_digest = [], lep_request = r, lep_request_digest = [8]\<rparr>"

definition demo_env2 :: "unit log_env" where
  "demo_env2 = demo_env\<lparr>env_app := (env_app demo_env)\<lparr>app_execute := (\<lambda>r i s. Inr ([2], s))\<rparr>\<rparr>"

lemmas demo_apply_simps = demo_new_def entry_key_def log_init_def initial_checkpoint_def demo_env_def demo_env2_def
  addEntry_def rec_update_def seq_update_def sm_at_def empty_sequence_def Let_def

lemma demo_applied:
  "\<exists>l'. apply_entries demo_env 1 [demo_new r] [((7, 1), [8])] (log_init ()) = Inr l' \<and> lg_nextSeq l' = 2 \<and>
     le_result (last (lg_log l')) = [1]"
  "\<exists>l'. apply_entries demo_env2 1 [demo_new r] [((7, 1), [8]), ((9, 9), [4])] (log_init ()) = Inr l' \<and> lg_nextSeq l' = 2 \<and>
     le_result (last (lg_log l')) = [2]"
  by (simp_all add: demo_apply_simps)

section \<open>Properties\<close>

text \<open>C7: the loop of \<open>applySuffix\<close> that executes the missing entries of a suffix. Two replicas that run it to the end on
  the same entries, from well-formed logs with the same next number, digest and client record, each with
  the requests it has, end with the same next number, digest and client record, whatever their
  applications answer and their earlier entries are. The requests of the one parse at both, the hash does not collide on
  the requests at hand, by which the entries are tied to them, and the numbers stay below \<open>2 ^ 32\<close>. The search for the
  common part of log and suffix and the abort before the loop are not part of it.\<close>

theorem repair_replicas_agree:
  assumes "env_sha env1 = sha" and "env_sha env2 = sha" and "env_parse_padded env1 = env_parse_padded env2"
    and "log_wf sha l1" and "log_wf sha l2" and "log_view l1 = log_view l2"
    and "apply_entries env1 s es av1 l1 = Inr l1'" and "apply_entries env2 s es av2 l2 = Inr l2'"
    and "unat (lg_nextSeq l1) + length es < 2 ^ 32" and "inj_on sha (ran (map_of av1) \<union> ran (map_of av2))"
    and "\<forall>r \<in> ran (map_of av1). env_parse_padded env1 r \<noteq> None"
  shows "log_view l1' = log_view l2'"
proof -
  have parse1: "\<forall>e \<in> set es. \<forall>r. map_of av1 (entry_key e) = Some r \<longrightarrow> env_parse_padded env1 r \<noteq> None"
    using assms(11) by (blast intro: ranI)
  have one: "log_view l1' = replay sha (requests_of av1 es) (log_view l1)"
    and req1: "\<And>e. e \<in> set es \<Longrightarrow> \<exists>r. map_of av1 (entry_key e) = Some r \<and> sha r = lep_request_digest e"
    using apply_entries_replay [OF assms(7) _ _ parse1] assms(1,4,9) by auto
  have req2: "\<And>e. e \<in> set es \<Longrightarrow> \<exists>r. map_of av2 (entry_key e) = Some r \<and> sha r = lep_request_digest e"
    using apply_entries_requests [OF assms(8)] assms(2) by auto
  have same: "map_of av1 (entry_key e) = map_of av2 (entry_key e)" if "e \<in> set es" for e
    using req1 [OF that] req2 [OF that] assms(10) by (metis UnI1 UnI2 inj_onD ranI)
  then have "requests_of av1 es = requests_of av2 es" by (simp add: requests_of_def)
  moreover have "\<forall>e \<in> set es. \<forall>r. map_of av2 (entry_key e) = Some r \<longrightarrow> env_parse_padded env2 r \<noteq> None"
    using parse1 same assms(3) by simp
  then have "log_view l2' = replay sha (requests_of av2 es) (log_view l2)"
    using apply_entries_replay [OF assms(8)] assms(2,5,6,9) by (simp add: log_view_def)
  ultimately show ?thesis using one assms(6) by simp
qed

theorem repair_replicas_agree_witness:
  "\<exists>l1 l2. log_view l1 = log_view l2 \<and> le_result (last (lg_log l1)) = [1] \<and> le_result (last (lg_log (l2 :: unit log_state))) = [2] \<and>
     lg_nextSeq (l1 :: unit log_state) = 2"
proof -
  obtain l1 l2 where l1: "apply_entries demo_env 1 [demo_new None] [((7, 1), [8])] (log_init ()) = Inr l1" "lg_nextSeq l1 = 2"
      "le_result (last (lg_log l1)) = [1]"
    and l2: "apply_entries demo_env2 1 [demo_new None] [((7, 1), [8]), ((9, 9), [4])] (log_init ()) = Inr l2"
      "le_result (last (lg_log l2)) = [2]"
    using demo_applied by blast
  have "log_view l1 = log_view l2"
    by (rule repair_replicas_agree [OF _ _ _ _ _ _ l1(1) l2(1), of "\<lambda>b. b"])
      (simp_all add: demo_env_def demo_env2_def ran_def, simp add: log_init_def)
  then show ?thesis using l1 l2 by blast
qed

text \<open>When the proposal carries the full requests and none of them is refused as a duplicate, applying it takes the
  log to the digest the replicas voted on.\<close>

theorem repair_reaches_voted_digest:
  assumes "apply_entries env (lg_nextSeq l) es av l = Inr l'" and "log_wf (env_sha env) l"
    and "unat (lg_nextSeq l) + length es < 2 ^ 32"
    and "\<forall>e \<in> set es. lep_request e = map_of av (entry_key e)"
    and "\<forall>e \<in> set es. lep_request e \<noteq> None" and "\<forall>e \<in> set es. env_parse_padded env (entry_request e) \<noteq> None"
    and "lg_nextSeq l' = lg_nextSeq l + of_nat (length es)"
  shows "getDigest l' = suffix_digest (env_sha env) (lg_nextSeq l) (getDigest l) es"
proof -
  have parse: "\<forall>e \<in> set es. \<forall>r. map_of av (entry_key e) = Some r \<longrightarrow> env_parse_padded env r \<noteq> None"
    using assms(4,6) by (auto simp: entry_request_def bytes_or_empty_def)
  have "log_view l' = replay (env_sha env) (requests_of av es) (log_view l)"
    using apply_entries_replay [OF assms(1,2,3) parse] by blast
  then show ?thesis
    using replay_all_new [of "env_sha env" "requests_of av es" "lg_nextSeq l" "getDigest l" "lg_clientRecord l" es av] assms(3,4,5,7)
    by (auto simp: log_view_def requests_of_def) (metis fst_conv snd_conv)
qed

theorem repair_reaches_voted_digest_witness:
  "\<exists>l'. apply_entries demo_env 1 [demo_new (Some [8])] [((7, 1), [8])] (log_init ()) = Inr l' \<and>
     getDigest l' = suffix_digest (\<lambda>b. b) 1 [] [demo_new (Some [8])]"
proof -
  obtain l' where l': "apply_entries demo_env 1 [demo_new (Some [8])] [((7, 1), [8])] (log_init ()) = Inr l'" "lg_nextSeq l' = 2"
    using demo_applied by blast
  have init: "lg_nextSeq (log_init ()) = 1" "getDigest (log_init ()) = []" "env_sha demo_env = (\<lambda>b. b)"
    by (simp_all add: log_init_def getDigest_def initial_checkpoint_def demo_env_def)
  have "getDigest l' = suffix_digest (env_sha demo_env) (lg_nextSeq (log_init ())) (getDigest (log_init ())) [demo_new (Some [8])]"
    by (rule repair_reaches_voted_digest [of _ _ _ "[((7, 1), [8])]"])
      (use l' in \<open>simp_all add: init demo_new_def entry_key_def entry_request_def bytes_or_empty_def\<close>, simp add: demo_env_def)
  then show ?thesis using l' init by auto
qed

text \<open>The two digests are either the one the log starts with or values of the hash.\<close>

lemma apply_entries_append:
  "apply_entries env s (es @ [e]) av l = Inr l' \<Longrightarrow> apply_entries env s es av l = Inr l1 \<Longrightarrow>
     \<exists>s'. apply_entries env s' [e] av l1 = Inr l'"
proof (induction es arbitrary: s l)
  case Nil
  then have "apply_entries env s [e] av l1 = Inr l'"
    by (simp only: append_Nil apply_entries.simps(1) sum.inject)
  then show ?case ..
next
  case (Cons a es)
  obtain x added res l2 where "map_of av (entry_key a) = Some x"
      "addEntry env (lep_client_id a) (lep_client_seq a) x [] True l = Inr ((added, res), l2)"
      "apply_entries env (if added then s + 1 else s) (es @ [e]) av l2 = Inr l'"
      "apply_entries env (if added then s + 1 else s) es av l2 = Inr l1"
    using Cons.prems by (auto simp del: bindE_eq_Inr split: if_splits option.splits elim!: bindE_InrE)
  then show ?case using Cons.IH by blast
qed

lemma replay_digest:
  "fst (replay sha xs v) = fst v \<and> fst (snd (replay sha xs v)) = fst (snd v) \<or> fst (snd (replay sha xs v)) \<in> range sha"
  by (induction sha xs v rule: replay.induct) (auto split: prod.splits)

lemma suffix_digest_range: "es \<noteq> [] \<Longrightarrow> suffix_digest sha s d es \<in> range sha"
proof (induction es arbitrary: s d)
  case (Cons e es)
  then show ?case by (cases "es = []") simp_all
qed simp

lemma suffix_digest_append:
  "suffix_digest sha s d (es @ [e]) =
     sha (entry_input (s + of_nat (length es)) (lep_client_id e) (lep_client_seq e) (entry_request e) (suffix_digest sha s d es))"
  by (induction es arbitrary: s d) (simp_all add: new_entry_def ac_simps)

text \<open>C39: when a replica applies a suffix and every entry is appended, the proposal does not carry the request of the
  last entry and that request is not empty, then its digest after the suffix is not the digest
  \<open>suffix_digest\<close> of the suffix, which the prepares and commits of the repair carry: that one is computed over an
  empty request. The requests parse, hash values have 32 bytes, and the two inputs of the last hash do not collide.\<close>

theorem repair_misses_voted_digest:
  assumes "apply_entries env (lg_nextSeq l) es av l = Inr l1" and "apply_entries env (lg_nextSeq l) (es @ [e]) av l = Inr l'"
    and "log_wf (env_sha env) l" and "unat (lg_nextSeq l) + Suc (length es) < 2 ^ 32"
    and "lg_nextSeq l' = lg_nextSeq l + of_nat (Suc (length es))"
    and "\<forall>x \<in> ran (map_of av). env_parse_padded env x \<noteq> None"
    and "lep_request e = None" and "map_of av (entry_key e) = Some r" and "r \<noteq> []"
    and "\<forall>b. length (env_sha env b) = 32"
    and "inj_on (env_sha env)
      {entry_input (lg_nextSeq l1) (lep_client_id e) (lep_client_seq e) r (getDigest l1),
       entry_input (lg_nextSeq l1) (lep_client_id e) (lep_client_seq e) []
         (suffix_digest (env_sha env) (lg_nextSeq l) (getDigest l) es)}"
  shows "getDigest l' \<noteq> suffix_digest (env_sha env) (lg_nextSeq l) (getDigest l) (es @ [e])"
proof -
  let ?sha = "env_sha env" and ?v = "log_view l" and ?c = "lep_client_id e" and ?q = "lep_client_seq e"
  let ?d = "suffix_digest (env_sha env) (lg_nextSeq l) (getDigest l) es"
  have parse: "\<forall>e \<in> set es. \<forall>x. map_of av (entry_key e) = Some x \<longrightarrow> env_parse_padded env x \<noteq> None"
    using assms(6) by (blast intro: ranI)
  have wf: "log_wf ?sha l1" and view: "log_view l1 = replay ?sha (requests_of av es) ?v"
    using apply_entries_replay [OF assms(1,3) _ parse] assms(4) by simp_all
  have len: "length (requests_of av es) = length es" by (simp add: requests_of_def)
  have le: "unat (lg_nextSeq l1) \<le> unat (lg_nextSeq l) + length es"
    using view replay_seq_le [of "lg_nextSeq l" "requests_of av es" ?sha "getDigest l" "lg_clientRecord l"] assms(4) len
    by (auto simp: log_view_def) (metis fst_conv)
  have end_seq: "unat (lg_nextSeq l') = unat (lg_nextSeq l) + Suc (length es)"
    using assms(4,5) unat_add_nat [of "lg_nextSeq l" "Suc (length es)"] by simp
  obtain s' where last: "apply_entries env s' [e] av l1 = Inr l'" using apply_entries_append [OF assms(2,1)] by blast
  have s1: "lg_nextSeq l1 + 1 \<noteq> 0" "unat (lg_nextSeq l1 + 1) = Suc (unat (lg_nextSeq l1))"
    using le assms(4) by (intro unat_Suc_no_wrap; simp)+
  obtain b res where add: "addEntry env ?c ?q r [] True l1 = Inr ((b, res), l')"
    using last assms(8) by (auto split: if_splits elim!: bindE_InrE)
  have b
  proof (rule ccontr)
    assume "\<not> b"
    then have "lg_nextSeq l' = lg_nextSeq l1" using add addEntry_refused [OF wf] by simp
    then show False using end_seq le by simp
  qed
  then have l': "getDigest l' = ?sha (entry_input (lg_nextSeq l1) ?c ?q r (getDigest l1))" "lg_nextSeq l' = lg_nextSeq l1 + 1"
    using addEntry_effect [OF wf s1(1), of ?c ?q r "[]" True res l'] add by auto
  then have seq1: "lg_nextSeq l1 = lg_nextSeq l + of_nat (length es)" using assms(5) by simp
  have voted: "suffix_digest ?sha (lg_nextSeq l) (getDigest l) (es @ [e]) = ?sha (entry_input (lg_nextSeq l1) ?c ?q [] ?d)"
    using assms(7) by (simp add: suffix_digest_append seq1 entry_request_def bytes_or_empty_def)
  have "length (getDigest l1) = length ?d"
  proof (cases "es = []")
    case False
    have "lg_nextSeq l1 \<noteq> lg_nextSeq l" using l'(2) end_seq s1(2) False by auto
    then have "getDigest l1 \<in> range ?sha"
      using replay_digest [of ?sha "requests_of av es" ?v] view by (metis (no_types, lifting) fst_conv log_view_def snd_conv)
    moreover have "?d \<in> range ?sha" using False by (rule suffix_digest_range)
    ultimately show ?thesis using assms(10) by (auto simp only: image_iff)
  qed (use assms(1) in simp)
  then show ?thesis using assms(9,11) l'(1) voted by (auto simp: inj_on_def dest!: entry_input_inj)
qed

theorem repair_misses_voted_digest_witness:
  "\<exists>env av e l' (l :: unit log_state). apply_entries env 1 [e] av l = Inr l' \<and> (\<forall>b. length (env_sha env b) = 32) \<and>
     getDigest l' \<noteq> suffix_digest (env_sha env) 1 (getDigest l) [e]"
proof -
  let ?sha = "\<lambda>b :: bytes. take 32 (drop 8 b @ replicate 32 0) :: bytes"
  let ?env = "demo_env\<lparr>env_sha := ?sha\<rparr>" and ?e = "(demo_new None)\<lparr>lep_request_digest := ?sha [8]\<rparr>"
  let ?av = "[((7, 1), [8])] :: available" and ?l = "log_init () :: unit log_state"
  obtain l' where l': "apply_entries ?env 1 [?e] ?av ?l = Inr l'" "lg_nextSeq l' = 2"
    by (simp add: demo_apply_simps)
  have init: "lg_nextSeq ?l = 1" "getDigest ?l = []"
    by (simp_all add: log_init_def getDigest_def initial_checkpoint_def)
  have len: "\<forall>b. length (?sha b) = 32" by (auto simp: min_def)
  have differ: "8 # replicate 27 0 \<noteq> (replicate 28 0 :: bytes)" by (auto dest!: arg_cong [of _ _ hd])
  have "getDigest l' \<noteq> suffix_digest (env_sha ?env) (lg_nextSeq ?l) (getDigest ?l) ([] @ [?e])"
  proof (rule repair_misses_voted_digest [where av = ?av and r = "[8]" and ?l1.0 = ?l])
    show "\<forall>b. length (env_sha ?env b) = 32" using len by simp
  qed (use l' in \<open>simp_all add: init demo_new_def entry_key_def entry_input_def le32_def differ\<close>, simp_all add: demo_env_def)
  then show ?thesis using l'(1) init len by (intro exI [of _ ?env] exI [of _ ?av] exI [of _ ?e] exI [of _ l'] exI [of _ ?l]) simp
qed

end
