(* ===== verification/Counter.thy ===== *)
theory Counter
  imports Application
begin

text \<open>
  \<open>lib/apps/counter.h\<close> and \<open>.cc\<close>: a counter with the values after each uncommitted request.
  A C++ \<open>int\<close> is a 32-bit word read as two's complement; \<open>values\<close> maps 64-bit indices to
  64-bit values, and the conversions between the widths are written out. Parsing of the
  request and serialisation of the response are generated code: parameters.
\<close>

datatype counter_operation = INCREMENT | DECREMENT | UnknownOperation

record counter =
  ctr_counter :: u32
  ctr_values :: "(u64, u64) smap"
  ctr_committedValue :: u32
  ctr_committedIdx :: u32
  ctr_snapshot :: app_snapshot

definition counter_init :: counter where
  "counter_init = \<lparr>ctr_counter = 0, ctr_values = [], ctr_committedValue = 0, ctr_committedIdx = 0,
     ctr_snapshot = \<lparr>snap_seq = 0, snap_data = [], snap_digest = []\<rparr>\<rparr>"

text \<open>\<open>values[execute_idx] = counter; response.set_value(counter)\<close>\<close>

definition counter_store :: "(u64 \<Rightarrow> bytes) \<Rightarrow> u32 \<Rightarrow> u32 \<Rightarrow> counter \<Rightarrow> bytes \<times> counter" where
  "counter_store ser c i s =
     (ser (scast c), s\<lparr>ctr_counter := c, ctr_values := sm_put (ucast i) (scast c) (ctr_values s)\<rparr>)"

definition counter_execute ::
  "(bytes \<Rightarrow> counter_operation option) \<Rightarrow> (u64 \<Rightarrow> bytes) \<Rightarrow> bytes \<Rightarrow> u32 \<Rightarrow> counter \<Rightarrow> (bytes \<times> counter) res"
where
  "counter_execute parse ser r i s =
     (case parse r of
        None \<Rightarrow> Inl ExitProcess
      | Some INCREMENT \<Rightarrow>
          if sint (ctr_counter s) = 2 ^ 31 - 1 then Inl Undefined
          else Inr (counter_store ser (ctr_counter s + 1) i s)
      | Some DECREMENT \<Rightarrow>
          if sint (ctr_counter s) = - (2 ^ 31) then Inl Undefined
          else Inr (counter_store ser (ctr_counter s - 1) i s)
      | Some UnknownOperation \<Rightarrow> Inl ExitProcess)"

text \<open>\<open>values.lower_bound(idx)\<close> as the rest of the map from it on; dereferencing the end is
  undefined. The entry found stays in the map.\<close>

definition lower_bound :: "u64 \<Rightarrow> (u64, 'v) smap \<Rightarrow> (u64, 'v) smap" where
  "lower_bound i m = dropWhile (\<lambda>p. fst p < i) m"

definition counter_commit :: "u32 \<Rightarrow> counter \<Rightarrow> (bool \<times> counter) res" where
  "counter_commit i s =
     (case lower_bound (ucast i) (ctr_values s) of
        [] \<Rightarrow> Inl Undefined
      | (k, v) # m \<Rightarrow>
          Inr (True, s\<lparr>ctr_committedIdx := ucast k, ctr_committedValue := ucast v,
                       ctr_values := (k, v) # m\<rparr>))"

definition counter_abort :: "u32 \<Rightarrow> counter \<Rightarrow> (bool \<times> counter) res" where
  "counter_abort i s =
     (let vs = takeWhile (\<lambda>p. fst p < ucast i) (ctr_values s)
      in Inr (True, s\<lparr>ctr_values := vs,
                      ctr_counter := (if vs = [] then ctr_committedValue s
                                      else ucast (snd (last vs)))\<rparr>))"

text \<open>Split at the first comma (44); \<open>find\<close> returns \<open>npos\<close> when there is none, and then both
  parts are the whole string.\<close>

definition counter_applySnapshot ::
  "bytes \<Rightarrow> bytes \<Rightarrow> u32 \<Rightarrow> counter \<Rightarrow> (bool \<times> counter) res" where
  "counter_applySnapshot snap digest i s =
     (let idxStr = takeWhile (\<lambda>b. b \<noteq> 44) snap;
          valueStr = (if 44 \<in> set snap then tl (dropWhile (\<lambda>b. b \<noteq> 44) snap) else snap)
      in bindE (stoull idxStr) (\<lambda>n. bindE (stoi valueStr) (\<lambda>v.
           if (ucast n :: u32) \<noteq> i then Inl AssertFailed
           else Inr (True, s\<lparr>ctr_committedIdx := ucast n, ctr_committedValue := v,
                             ctr_counter := v, ctr_values := []\<rparr>))))"

definition counter_takeSnapshot :: "counter \<Rightarrow> app_snapshot \<times> counter" where
  "counter_takeSnapshot s =
     (let (q, text) =
        (if ctr_values s = [] then
           (ctr_committedIdx s,
            to_string_int (sint (ctr_committedIdx s)) @ [44] @
            to_string_int (sint (ctr_committedValue s)))
         else let (k, v) = last (ctr_values s) in
           (ucast k, digits_of (unat k) @ [44] @ digits_of (unat v)));
          snap = \<lparr>snap_seq = q, snap_data = text, snap_digest = text\<rparr>
      in (snap, s\<lparr>ctr_snapshot := snap\<rparr>))"

definition counter_ops ::
  "(bytes \<Rightarrow> counter_operation option) \<Rightarrow> (u64 \<Rightarrow> bytes) \<Rightarrow> counter app_ops" where
  "counter_ops parse ser =
     \<lparr>app_execute = counter_execute parse ser, app_commit = counter_commit,
      app_abort = counter_abort, app_applySnapshot = counter_applySnapshot,
      app_takeSnapshot = counter_takeSnapshot\<rparr>"

section \<open>Abstraction and invariant\<close>

definition counter_pending :: "counter \<Rightarrow> (u64, u64) smap" where
  "counter_pending s = filter (\<lambda>p. ucast (ctr_committedIdx s) < fst p) (ctr_values s)"

definition counter_hist :: "counter \<Rightarrow> (u32 \<times> u32) list" where
  "counter_hist s = map (\<lambda>(k, v). (ucast k, ucast v)) (counter_pending s)"

text \<open>The keys come from 32-bit indices, the values from \<open>int\<close>; the map may still hold the
  committed entry, with the committed value; the counter is the last value.\<close>

definition counter_ok :: "counter \<Rightarrow> bool" where
  "counter_ok s \<longleftrightarrow>
     sm_ok (ctr_values s) \<and>
     (\<forall>(k, v) \<in> set (ctr_values s). \<exists>i c. k = ucast (i :: u32) \<and> v = scast (c :: u32) \<and>
        ctr_committedIdx s \<le> i \<and> (i = ctr_committedIdx s \<longrightarrow> c = ctr_committedValue s)) \<and>
     ctr_counter s = (if ctr_values s = [] then ctr_committedValue s
                      else ucast (snd (last (ctr_values s))))"

lemma counter_ok_init [simp]: "counter_ok counter_init"
  by (simp add: counter_ok_def counter_init_def)

lemma counter_ok_entry:
  assumes "counter_ok s" and "(k, v) \<in> set (ctr_values s)"
  shows "\<exists>i c. k = ucast (i :: u32) \<and> v = scast (c :: u32) \<and> ctr_committedIdx s \<le> i \<and>
    (i = ctr_committedIdx s \<longrightarrow> c = ctr_committedValue s)"
  using assms by (auto simp: counter_ok_def)

text \<open>Over keys that come from 32-bit indices the conversions preserve the order.\<close>

definition narrow_keys :: "(u64, u64) smap \<Rightarrow> bool" where
  "narrow_keys m \<longleftrightarrow> (\<forall>p \<in> set m. \<exists>i c. p = (ucast (i :: u32), scast (c :: u32)))"

definition narrow :: "u64 \<times> u64 \<Rightarrow> u32 \<times> u32" where
  "narrow p = (ucast (fst p), ucast (snd p))"

lemma counter_hist_narrow: "counter_hist s = map narrow (counter_pending s)"
  by (simp add: counter_hist_def narrow_def case_prod_unfold)

lemma counter_ok_narrow: "counter_ok s \<Longrightarrow> narrow_keys (ctr_values s)"
  by (fastforce simp: counter_ok_def narrow_keys_def)

lemma narrow_keys_filter: "narrow_keys m \<Longrightarrow> narrow_keys (filter P m)"
  by (simp add: narrow_keys_def)

lemma filter_map_narrow_less:
  "narrow_keys m \<Longrightarrow> filter (\<lambda>p. fst p < i) (map narrow m) = map narrow (filter (\<lambda>p. fst p < ucast i) m)"
  by (induction m) (auto simp: narrow_keys_def narrow_def)

lemma filter_map_narrow_greater:
  "narrow_keys m \<Longrightarrow> filter (\<lambda>p. i < fst p) (map narrow m) = map narrow (filter (\<lambda>p. ucast i < fst p) m)"
  by (induction m) (auto simp: narrow_keys_def narrow_def)

lemma sorted_map_narrow:
  "sm_ok m \<Longrightarrow> narrow_keys m \<Longrightarrow> sorted_wrt (<) (map fst (map narrow m))"
  by (induction m) (fastforce simp: sm_ok_Cons narrow_keys_def narrow_def)+

lemma narrow_keys_pending: "counter_ok s \<Longrightarrow> narrow_keys (counter_pending s)"
  by (simp add: counter_pending_def narrow_keys_filter counter_ok_narrow)

lemma counter_ok_sm: "counter_ok s \<Longrightarrow> sm_ok (ctr_values s)"
  by (simp add: counter_ok_def)

lemma counter_hist_ascending:
  assumes "counter_ok s"
  shows "sorted_wrt (<) (ctr_committedIdx s # map fst (counter_hist s))"
proof -
  have "sorted_wrt (<) (map fst (counter_hist s))"
    unfolding counter_hist_narrow counter_pending_def
    using assms by (intro sorted_map_narrow narrow_keys_filter)
      (simp_all add: counter_ok_sm counter_ok_narrow)
  moreover have "ctr_committedIdx s < fst p" if "p \<in> set (counter_hist s)" for p
    using that counter_ok_narrow [OF assms]
    by (auto simp: counter_hist_narrow counter_pending_def narrow_def narrow_keys_def)
  ultimately show ?thesis by auto
qed

lemma counter_view_hist:
  assumes "counter_ok s"
  shows "ctr_counter s = last_contents (ctr_committedValue s) (counter_hist s)"
proof (cases "ctr_values s" rule: rev_cases)
  case Nil
  then show ?thesis using assms
    by (simp add: counter_ok_def counter_hist_def counter_pending_def last_contents_def)
next
  case (snoc m p)
  then obtain k v where p: "p = (k, v)" and mem: "(k, v) \<in> set (ctr_values s)" by (cases p) auto
  obtain i c where e: "k = ucast (i :: u32)" "v = scast (c :: u32)"
      "ctr_committedIdx s \<le> i" "i = ctr_committedIdx s \<longrightarrow> c = ctr_committedValue s"
    using counter_ok_entry [OF assms mem] by blast
  have c: "ctr_counter s = c" using assms by (simp add: counter_ok_def snoc p e)
  show ?thesis
  proof (cases "i = ctr_committedIdx s")
    case True
    have "\<forall>q \<in> set m. fst q < ucast i"
      using assms e by (auto simp: counter_ok_def snoc p sm_ok_append)
    then have "counter_pending s = []"
      using True by (auto simp: counter_pending_def snoc p e filter_empty_conv)
    then show ?thesis using True e c by (simp add: counter_hist_narrow last_contents_def)
  next
    case False
    then have "ctr_committedIdx s < i" using e by simp
    then have "counter_pending s = filter (\<lambda>p. ucast (ctr_committedIdx s) < fst p) m @ [(k, v)]"
      by (simp add: counter_pending_def snoc p e)
    then show ?thesis by (simp add: counter_hist_narrow last_contents_def narrow_def e c)
  qed
qed

lemma counter_store_law:
  assumes ok: "counter_ok s" and i: "ctr_committedIdx s < i"
    and fresh: "\<forall>j \<in> fst ` set (counter_hist s). j < i"
    and s': "s' = snd (counter_store ser c i s)"
  shows "counter_ok s' \<and> counter_hist s' = counter_hist s @ [(i, ctr_counter s')] \<and>
     ctr_committedValue s' = ctr_committedValue s \<and> ctr_committedIdx s' = ctr_committedIdx s"
proof -
  have keys: "fst p < ucast i" if mem: "p \<in> set (ctr_values s)" for p
  proof -
    obtain k v where p: "p = (k, v)" by (cases p)
    obtain j d where e: "k = ucast (j :: u32)" "v = scast (d :: u32)" "ctr_committedIdx s \<le> j"
      using counter_ok_entry [OF ok mem [unfolded p]] by blast
    show ?thesis
    proof (cases "j = ctr_committedIdx s")
      case False
      then have "(k, v) \<in> set (counter_pending s)" using mem e by (simp add: counter_pending_def p)
      then have "narrow (k, v) \<in> set (counter_hist s)" by (auto simp: counter_hist_narrow)
      then show ?thesis using fresh by (force simp: narrow_def e p)
    qed (use i e p in simp)
  qed
  then have put: "ctr_values s' = ctr_values s @ [(ucast i, scast c)]"
    by (simp add: s' counter_store_def sm_put_above)
  have rest: "ctr_counter s' = c" "ctr_committedValue s' = ctr_committedValue s"
    "ctr_committedIdx s' = ctr_committedIdx s"
    by (simp_all add: s' counter_store_def)
  have "counter_ok s'"
    unfolding counter_ok_def put rest
  proof (intro conjI)
    show "sm_ok (ctr_values s @ [(ucast i, scast c)])"
      using counter_ok_sm [OF ok] keys by (auto simp: sm_ok_append sm_ok_Cons)
    have new: "\<exists>j d. (ucast i :: u64) = ucast (j :: u32) \<and> (scast c :: u64) = scast (d :: u32) \<and>
        ctr_committedIdx s \<le> j \<and> (j = ctr_committedIdx s \<longrightarrow> d = ctr_committedValue s)"
      by (rule exI [of _ i], rule exI [of _ c]) (use i in auto)
    show "\<forall>(k, v) \<in> set (ctr_values s @ [(ucast i, scast c)]). \<exists>j d. k = ucast (j :: u32) \<and>
        v = scast (d :: u32) \<and> ctr_committedIdx s \<le> j \<and>
        (j = ctr_committedIdx s \<longrightarrow> d = ctr_committedValue s)"
      using ok new by (simp add: counter_ok_def)
  qed simp
  moreover have "counter_hist s' = counter_hist s @ [(i, c)]"
    using i by (simp add: counter_hist_narrow counter_pending_def put rest narrow_def)
  ultimately show ?thesis by (simp add: rest)
qed

lemma counter_abort_law:
  assumes "counter_ok s"
  shows "\<exists>s'. counter_abort i s = Inr (True, s') \<and> counter_ok s' \<and>
     counter_hist s' = filter (\<lambda>p. fst p < i) (counter_hist s) \<and>
     ctr_committedValue s' = ctr_committedValue s \<and> ctr_committedIdx s' = ctr_committedIdx s"
proof -
  let ?vs = "takeWhile (\<lambda>p. fst p < ucast i) (ctr_values s)"
  let ?s = "s\<lparr>ctr_values := ?vs, ctr_counter := (if ?vs = [] then ctr_committedValue s
                                      else ucast (snd (last ?vs)))\<rparr>"
  have "counter_ok ?s"
    using assms by (auto simp: counter_ok_def dest!: set_takeWhileD)
  moreover have "?vs = filter (\<lambda>p. fst p < ucast i) (ctr_values s)"
    by (rule sm_takeWhile_filter [OF counter_ok_sm [OF assms]])
  then have "counter_hist ?s = filter (\<lambda>p. fst p < i) (counter_hist s)"
    by (simp add: counter_hist_narrow counter_pending_def filter_map_narrow_less
        narrow_keys_filter counter_ok_narrow [OF assms] conj_commute)
  ultimately show ?thesis by (simp add: counter_abort_def Let_def)
qed

lemma counter_commit_law:
  assumes ok: "counter_ok s" and mem: "(i, v) \<in> set (counter_hist s)"
  shows "\<exists>s'. counter_commit i s = Inr (True, s') \<and> counter_ok s' \<and>
     counter_hist s' = filter (\<lambda>p. i < fst p) (counter_hist s) \<and>
     ctr_committedValue s' = v \<and> ctr_committedIdx s' = i"
proof -
  obtain m1 m2 where split: "ctr_values s = m1 @ (ucast i, scast v) # m2"
    and ci: "ctr_committedIdx s < i"
  proof -
    obtain p where p: "p \<in> set (ctr_values s)" "ucast (ctr_committedIdx s) < fst p" "(i, v) = narrow p"
      using mem by (auto simp: counter_hist_narrow counter_pending_def)
    obtain j c where "p = (ucast (j :: u32), scast (c :: u32))"
      using counter_ok_narrow [OF ok] p(1) by (auto simp: narrow_keys_def)
    then have "p = (ucast i, scast v)" using p(3) by (simp add: narrow_def)
    then show thesis using p(2) split_list [OF p(1)] that by auto
  qed
  have sm: "\<forall>p \<in> set m1. fst p < ucast i" "\<forall>p \<in> set m2. ucast i < fst p"
    using counter_ok_sm [OF ok] by (auto simp: split sm_ok_append sm_ok_Cons)
  then have lb: "lower_bound (ucast i) (ctr_values s) = (ucast i, scast v) # m2"
    by (simp add: lower_bound_def split dropWhile_append3 dropWhile_append2)
  let ?s = "s\<lparr>ctr_committedIdx := i, ctr_committedValue := v,
              ctr_values := (ucast i, scast v) # m2\<rparr>"
  have "counter_ok ?s"
    unfolding counter_ok_def
  proof (intro conjI)
    show "sm_ok (ctr_values ?s)"
      using counter_ok_sm [OF ok] by (simp add: split sm_ok_append)
    have "\<exists>j d. k = ucast (j :: u32) \<and> w = scast (d :: u32) \<and> i \<le> j \<and> (j = i \<longrightarrow> d = v)"
      if mem: "(k, w) \<in> set m2" for k w
    proof -
      have "(k, w) \<in> set (ctr_values s)" using mem by (simp add: split)
      then obtain j d where "k = ucast (j :: u32)" "w = scast (d :: u32)"
        using counter_ok_entry [OF ok] by blast
      moreover have "i < j" using sm(2) mem calculation by force
      ultimately show ?thesis by (metis less_imp_le order_less_irrefl)
    qed
    moreover have "\<exists>j d. (ucast i :: u64) = ucast (j :: u32) \<and> (scast v :: u64) = scast (d :: u32) \<and>
        i \<le> j \<and> (j = i \<longrightarrow> d = v)"
      by (rule exI [of _ i], rule exI [of _ v]) simp
    ultimately show "\<forall>(k, w) \<in> set (ctr_values ?s). \<exists>j d. k = ucast (j :: u32) \<and>
        w = scast (d :: u32) \<and> ctr_committedIdx ?s \<le> j \<and>
        (j = ctr_committedIdx ?s \<longrightarrow> d = ctr_committedValue ?s)"
      by auto
    show "ctr_counter ?s = (if ctr_values ?s = [] then ctr_committedValue ?s
        else ucast (snd (last (ctr_values ?s))))"
      using ok by (simp add: counter_ok_def split)
  qed
  moreover have "counter_hist ?s = filter (\<lambda>p. i < fst p) (counter_hist s)"
  proof -
    have 1: "filter (\<lambda>p. ucast i < fst p) m2 = m2" "filter (\<lambda>p. ucast i < fst p) m1 = []"
      using sm by (auto simp: filter_id_conv filter_empty_conv)
    have "filter (\<lambda>p. i < fst p) (counter_hist s)
        = map narrow (filter (\<lambda>p. ucast i < fst p) (counter_pending s))"
      unfolding counter_hist_narrow
      by (rule filter_map_narrow_greater [OF narrow_keys_pending [OF ok]])
    also have "filter (\<lambda>p. ucast i < fst p) (counter_pending s) = m2"
    proof -
      have "filter (\<lambda>p. ucast i < fst p) (counter_pending s) =
          filter (\<lambda>p. ucast i < fst p) (ctr_values s)"
        unfolding counter_pending_def filter_filter
      proof (rule filter_cong)
        fix p :: "u64 \<times> u64"
        have lt: "(ucast (ctr_committedIdx s) :: u64) < ucast i" using ci by simp
        have "ucast (ctr_committedIdx s) < fst p" if "ucast i < fst p"
          using lt that by (rule less_trans)
        then show "(ucast (ctr_committedIdx s) < fst p \<and> ucast i < fst p) = (ucast i < fst p)"
          by iprover
      qed simp
      then show ?thesis by (simp add: split 1)
    qed
    finally show ?thesis by (simp add: counter_hist_narrow counter_pending_def 1)
  qed
  moreover have "counter_commit i s = Inr (True, ?s)"
    by (simp add: counter_commit_def lb)
  ultimately show ?thesis by auto
qed

interpretation counter: application
  "counter_ops parse ser" counter_ok ctr_counter ctr_committedValue counter_hist ctr_committedIdx
proof
  fix s :: counter
  assume "counter_ok s"
  then show "sorted_wrt (<) (ctr_committedIdx s # map fst (counter_hist s))"
    by (rule counter_hist_ascending)
next
  fix s s' :: counter and r res i
  assume "counter_ok s" "app_execute (counter_ops parse ser) r i s = Inr (res, s')"
    "ctr_committedIdx s < i" "\<forall>j \<in> fst ` set (counter_hist s). j < i"
  then show "counter_ok s' \<and> counter_hist s' = counter_hist s @ [(i, ctr_counter s')] \<and>
      ctr_committedValue s' = ctr_committedValue s \<and> ctr_committedIdx s' = ctr_committedIdx s"
    by (intro counter_store_law [where ser = ser and c = "ctr_counter s'"])
      (auto simp: counter_ops_def counter_execute_def counter_store_def
        split: option.splits counter_operation.splits if_splits)
qed (simp_all add: counter_ops_def counter_view_hist counter_abort_law
    counter_commit_law)

section \<open>Snapshots\<close>

lemma counter_applySnapshot_text:
  assumes "44 \<notin> set a"
  shows "counter_applySnapshot (a @ 44 # b) d i s =
     bindE (stoull a) (\<lambda>n. bindE (stoi b) (\<lambda>v.
       if (ucast n :: u32) \<noteq> i then Inl AssertFailed
       else Inr (True, s\<lparr>ctr_committedIdx := ucast n, ctr_committedValue := v,
                         ctr_counter := v, ctr_values := []\<rparr>)))"
proof -
  have tw: "takeWhile (\<lambda>b. b \<noteq> 44) (a @ 44 # b) = a"
    and dw: "dropWhile (\<lambda>b. b \<noteq> 44) (a @ 44 # b) = 44 # b"
    using assms by (auto simp: takeWhile_append dropWhile_append intro!: takeWhile_eq_all_conv [THEN iffD2])
  show ?thesis unfolding counter_applySnapshot_def Let_def tw dw by simp
qed

lemma unat_scast_sint: "unat (scast (c :: u32) :: u64) = nat (take_bit 64 (sint c))"
  unfolding scast_eq unsigned_of_int by simp

lemma unat_scast_nonneg: "0 \<le> sint (c :: u32) \<Longrightarrow> unat (scast c :: u64) = nat (sint c)"
  unfolding unat_scast_sint using sint_less [of c] by (subst take_bit_int_eq_self) simp_all

lemma unat_scast_neg:
  assumes "sint (c :: u32) < 0"
  shows "2 ^ 31 \<le> unat (scast c :: u64)"
proof -
  have "take_bit 64 (sint c) = take_bit 64 (sint c + 2 ^ 64)"
    unfolding take_bit_eq_mod by (simp only: mod_add_self2)
  also have "\<dots> = sint c + 2 ^ 64"
    using assms sint_ge [of c] by (intro take_bit_int_eq_self) simp_all
  finally have "unat (scast c :: u64) = nat (sint c + 2 ^ 64)"
    unfolding unat_scast_sint by simp
  then show ?thesis using sint_ge [of c] by simp
qed

lemma stoull_to_string_sint: "stoull (to_string_int (sint (w :: u32))) = Inr (scast w)"
  using sint_less [of w] sint_ge [of w] by (simp add: stoull_def parse_number_to_string)

text \<open>The snapshot of a counter with uncommitted values, in terms of its last entry.\<close>

lemma counter_snapshot_pending:
  assumes "counter_ok s" and "ctr_values s \<noteq> []"
  obtains i where "snap_data (fst (counter_takeSnapshot s)) =
      digits_of (unat (i :: u32)) @ 44 # digits_of (unat (scast (ctr_counter s) :: u64))"
    and "snap_seq (fst (counter_takeSnapshot s)) = i"
proof -
  obtain k v where kv: "last (ctr_values s) = (k, v)" by (cases "last (ctr_values s)")
  then have "(k, v) \<in> set (ctr_values s)" using last_in_set [OF assms(2)] by simp
  then obtain i c where e: "k = ucast (i :: u32)" "v = scast (c :: u32)"
    using counter_ok_entry [OF assms(1)] by blast
  have "ctr_counter s = c" using assms by (simp add: counter_ok_def kv e)
  then show thesis
    using assms(2) by (intro that [of i]) (simp_all add: counter_takeSnapshot_def kv e Let_def)
qed

section \<open>Properties\<close>

text \<open>Speculative execution can be undone: after a batch of requests at fresh ascending
  indices, aborting at the first of them brings the counter, the history of uncommitted
  values and the committed value back to what they were.\<close>

theorem counter_speculation_undone:
  assumes "counter_ok s" and "\<forall>v. ser v \<noteq> []"
    and "exec_all (counter_ops parse ser) ((r, i) # xs) s = Inr t"
    and "sorted_wrt (<) (ctr_committedIdx s # map fst (counter_hist s) @ i # map snd xs)"
  shows "\<exists>t'. counter_abort i t = Inr (True, t') \<and> counter_ok t' \<and>
    ctr_counter t' = ctr_counter s \<and> counter_hist t' = counter_hist s \<and>
    ctr_committedValue t' = ctr_committedValue s"
proof -
  have "answered (counter_ops parse ser) R" for R
    using assms(2) by (auto simp: answered_def counter_ops_def counter_execute_def counter_store_def
        split: option.splits counter_operation.splits if_splits)
  then show ?thesis
    using counter.abort_undoes_speculation [OF assms(1,3,4)] by (auto simp: counter_ops_def)
qed

theorem counter_speculation_undone_witness:
  "\<exists>t'. counter_abort 1 (\<lparr>ctr_counter = 2, ctr_values = [(1, 1), (2, 2)], ctr_committedValue = 0,
      ctr_committedIdx = 0, ctr_snapshot = ctr_snapshot counter_init\<rparr>) = Inr (True, t') \<and>
    ctr_counter t' = 0"
proof -
  let ?parse = "\<lambda>_. Some INCREMENT" and ?ser = "\<lambda>_. [0] :: bytes"
  let ?t = "\<lparr>ctr_counter = 2, ctr_values = [(1, 1), (2, 2)], ctr_committedValue = 0,
      ctr_committedIdx = 0, ctr_snapshot = ctr_snapshot counter_init\<rparr>"
  have run: "exec_all (counter_ops ?parse ?ser) (([], 1) # [([], 2)]) counter_init = Inr ?t"
    by (simp add: counter_ops_def counter_execute_def counter_store_def counter_init_def)
  have asc: "sorted_wrt (<) (ctr_committedIdx counter_init # map fst (counter_hist counter_init) @
      1 # map snd [([] :: bytes, 2 :: u32)])"
    by (simp add: counter_init_def counter_hist_def counter_pending_def)
  have ser: "\<forall>v :: u64. ?ser v \<noteq> []" by simp
  show ?thesis
    using counter_speculation_undone [OF counter_ok_init ser run asc]
    by (auto simp: counter_init_def)
qed

text \<open>A snapshot taken of a counter that has no uncommitted value or is not negative, applied
  to any counter, is accepted and installs the value and the index it was taken at.\<close>

theorem counter_snapshot_roundtrip:
  assumes "counter_ok s" and "ctr_values s = [] \<or> 0 \<le> sint (ctr_counter s)"
  defines "snap \<equiv> fst (counter_takeSnapshot s)"
  shows "\<exists>u'. counter_applySnapshot (snap_data snap) (snap_digest snap) (snap_seq snap) u = Inr (True, u') \<and>
    ctr_counter u' = ctr_counter s \<and> ctr_committedIdx u' = snap_seq snap \<and> ctr_values u' = []"
proof (cases "ctr_values s = []")
  case True
  then have "ctr_counter s = ctr_committedValue s" using assms(1) by (simp add: counter_ok_def)
  with True show ?thesis
    by (simp add: snap_def counter_takeSnapshot_def Let_def counter_applySnapshot_text
        comma_notin_to_string stoull_to_string_sint stoi_to_string_sint)
next
  case False
  then have nn: "0 \<le> sint (ctr_counter s)" using assms(2) by simp
  obtain i where data: "snap_data snap =
      digits_of (unat (i :: u32)) @ 44 # digits_of (unat (scast (ctr_counter s) :: u64))"
    and i: "snap_seq snap = i"
    unfolding snap_def using counter_snapshot_pending [OF assms(1) False] by blast
  have "unat i < 2 ^ 64" using unsigned_less [of i, where ?'a = nat] by simp
  moreover have "nat (sint (ctr_counter s)) < 2 ^ 31" using sint_less [of "ctr_counter s"] nn by simp
  moreover have "(of_nat (nat (sint (ctr_counter s))) :: u32) = ctr_counter s"
    using nn by simp
  moreover have "(ucast (of_nat (unat i) :: u64) :: u32) = i"
    by simp
  ultimately show ?thesis
    by (simp add: data i counter_applySnapshot_text comma_notin_digits stoull_digits stoi_digits
        unat_scast_nonneg [OF nn])
qed

theorem counter_snapshot_roundtrip_witness:
  "\<exists>u'. counter_applySnapshot [48, 44, 48] [48, 44, 48] 0 counter_init = Inr (True, u') \<and>
     ctr_counter u' = 0"
proof -
  have "ctr_values counter_init = [] \<or> 0 \<le> sint (ctr_counter counter_init)"
    by (simp add: counter_init_def)
  from counter_snapshot_roundtrip [OF counter_ok_init this, of counter_init]
  show ?thesis
    by (auto simp: counter_takeSnapshot_def Let_def counter_init_def to_string_int_def digits_of.simps)
qed

text \<open>A counter below zero with an uncommitted value yields a snapshot that no replica can
  apply: the value is printed as an unsigned 64-bit number, and \<open>std::stoi\<close> throws on it.\<close>

theorem counter_negative_snapshot_rejected:
  assumes "counter_ok s" and "ctr_values s \<noteq> []" and "sint (ctr_counter s) < 0"
  defines "snap \<equiv> fst (counter_takeSnapshot s)"
  shows "counter_applySnapshot (snap_data snap) (snap_digest snap) (snap_seq snap) u = Inl RuntimeError"
proof -
  obtain i where data: "snap_data snap =
      digits_of (unat (i :: u32)) @ 44 # digits_of (unat (scast (ctr_counter s) :: u64))"
    unfolding snap_def using counter_snapshot_pending [OF assms(1,2)] by blast
  have "unat i < 2 ^ 64" using unsigned_less [of i, where ?'a = nat] by simp
  moreover have "stoi (digits_of (unat (scast (ctr_counter s) :: u64))) = Inl RuntimeError"
    by (rule stoi_digits_large [OF unat_scast_neg [OF assms(3)]])
  ultimately show ?thesis
    by (simp add: data counter_applySnapshot_text comma_notin_digits stoull_digits)
qed

theorem counter_negative_snapshot_rejected_witness:
  "\<exists>s. app_execute (counter_ops (\<lambda>_. Some DECREMENT) (\<lambda>_. [0])) [] 1 counter_init = Inr ([0], s) \<and>
     counter_applySnapshot (snap_data (fst (counter_takeSnapshot s)))
       (snap_digest (fst (counter_takeSnapshot s))) (snap_seq (fst (counter_takeSnapshot s)))
       counter_init = Inl RuntimeError"
proof -
  let ?s = "snd (counter_store (\<lambda>_. [0]) (- 1) 1 counter_init)"
  have run: "app_execute (counter_ops (\<lambda>_. Some DECREMENT) (\<lambda>_. [0])) [] 1 counter_init = Inr ([0], ?s)"
    by (simp add: counter_ops_def counter_execute_def counter_store_def counter_init_def)
  have ok: "counter_ok ?s"
    by (rule counter_store_law [THEN conjunct1, OF counter_ok_init])
      (simp_all add: counter_init_def counter_hist_def counter_pending_def)
  have "ctr_values ?s \<noteq> []" "sint (ctr_counter ?s) < 0"
    by (simp_all add: counter_store_def counter_init_def)
  from counter_negative_snapshot_rejected [OF ok this] run show ?thesis by blast
qed

end
