(* ===== verification/KVStore.thy ===== *)
theory KVStore
  imports Application "HOL-Library.AList"
begin

text \<open>
  \<open>lib/apps/kv_store.h\<close> and \<open>.cc\<close>: a key-value store that keeps the live data, the committed
  data and the list of uncommitted requests. An \<open>unordered_map\<close> is an association list; the
  order in which the library iterates over it is unspecified, so the snapshot takes that
  order as a parameter \<open>perm\<close>. Parsing of requests, serialisation of responses and the hash
  are parameters. The snapshot thread is modelled at the moment it copies the data.
\<close>

datatype kv_request_type = GET | SET | DELETE | UNKNOWN

text \<open>The protobuf messages \<open>KVRequest\<close> and \<open>KVResponse\<close>.\<close>

record kv_request =
  kvr_msg_type :: kv_request_type
  kvr_key :: bytes
  kvr_value :: "bytes option"

record kv_response =
  kvs_ok :: bool
  kvs_value :: "bytes option"

text \<open>\<open>struct KVStoreRequest\<close> and \<open>class KVStore\<close>.\<close>

record kvstore_request =
  kq_idx :: u32
  kq_key :: bytes
  kq_value :: bytes
  kq_type :: kv_request_type

type_synonym kv_data = "(bytes \<times> bytes) list"

record kvstore =
  kv_requests :: "kvstore_request list"
  kv_data :: kv_data
  kv_committedData :: kv_data
  kv_dataIdx :: u32
  kv_committedIdx :: u32

text \<open>The constructor leaves \<open>dataIdx\<close> uninitialised: its value is an argument. Keys are the
  decimal numbers below \<open>numKeys\<close>.\<close>

definition kv_init :: "u32 \<Rightarrow> nat \<Rightarrow> kvstore" where
  "kv_init garbage numKeys =
     (let d = map (\<lambda>i. (digits_of i, [])) [0..<numKeys]
      in \<lparr>kv_requests = [], kv_data = d, kv_committedData = d, kv_dataIdx = garbage,
          kv_committedIdx = 0\<rparr>)"

text \<open>The effect of a request on a data map: the loop body of commit, abort and snapshot.\<close>

definition kv_apply :: "kvstore_request \<Rightarrow> kv_data \<Rightarrow> kv_data" where
  "kv_apply r d = (case kq_type r of
      SET \<Rightarrow> AList.update (kq_key r) (kq_value r) d
    | DELETE \<Rightarrow> AList.delete (kq_key r) d
    | _ \<Rightarrow> d)"

definition kv_execute ::
  "(bytes \<Rightarrow> kv_request option) \<Rightarrow> (kv_response \<Rightarrow> bytes option) \<Rightarrow>
   bytes \<Rightarrow> u32 \<Rightarrow> kvstore \<Rightarrow> (bytes \<times> kvstore) res"
where
  "kv_execute parse ser r i s =
     (case parse r of
        None \<Rightarrow> Inr ([], s)
      | Some req \<Rightarrow>
          let key = kvr_key req; value = bytes_or_empty (kvr_value req); d = kv_data s in
          (case (case kvr_msg_type req of
              GET \<Rightarrow> (case map_of d key of
                  Some v \<Rightarrow> Some (\<lparr>kvs_ok = True, kvs_value = Some v\<rparr>, d)
                | None \<Rightarrow> Some (\<lparr>kvs_ok = False, kvs_value = None\<rparr>, d))
            | SET \<Rightarrow> Some (\<lparr>kvs_ok = True, kvs_value = None\<rparr>, AList.update key value d)
            | DELETE \<Rightarrow> Some (\<lparr>kvs_ok = map_of d key \<noteq> None, kvs_value = None\<rparr>, AList.delete key d)
            | UNKNOWN \<Rightarrow> None) of
              None \<Rightarrow> Inr ([], s)
            | Some (response, d') \<Rightarrow>
                if \<not> kv_dataIdx s < i then Inl AssertFailed
                else (case ser response of
                    None \<Rightarrow> Inl RuntimeError
                  | Some ret \<Rightarrow>
                      Inr (ret, s\<lparr>kv_data := d', kv_dataIdx := i,
                        kv_requests := kv_requests s @
                          [\<lparr>kq_idx = i, kq_key = key, kq_value = value,
                            kq_type = kvr_msg_type req\<rparr>]\<rparr>))))"

definition kv_commit :: "u32 \<Rightarrow> kvstore \<Rightarrow> (bool \<times> kvstore) res" where
  "kv_commit i s =
     (let applied = takeWhile (\<lambda>r. kq_idx r \<le> i) (kv_requests s)
      in Inr (True, s\<lparr>kv_committedData := fold kv_apply applied (kv_committedData s),
                      kv_committedIdx := i,
                      kv_requests := drop (length applied) (kv_requests s)\<rparr>))"

text \<open>Both warnings of \<open>abort\<close> read an end of the request vector, which is undefined when the
  vector is empty.\<close>

definition kv_abort :: "u32 \<Rightarrow> kvstore \<Rightarrow> (bool \<times> kvstore) res" where
  "kv_abort i s =
     (if i \<le> kv_committedIdx s then
        (if kv_requests s = [] then Inl Undefined else Inr (False, s))
      else if kv_requests s = [] then Inl Undefined
      else if kq_idx (last (kv_requests s)) < i then Inr (True, s)
      else
        (let kept = takeWhile (\<lambda>r. \<not> i \<le> kq_idx r) (kv_requests s)
         in Inr (True, s\<lparr>kv_data := fold kv_apply kept (kv_committedData s),
                         kv_dataIdx := kv_committedIdx s,
                         kv_requests := kept\<rparr>)))"

text \<open>\<open>std::getline(in, token, delimiter)\<close> until it fails: the pieces between delimiters; an
  empty rest after the last delimiter is no piece.\<close>

fun getlines :: "u8 \<Rightarrow> bytes \<Rightarrow> bytes list" where
  "getlines c [] = []"
| "getlines c (b # s) =
     (takeWhile (\<lambda>x. x \<noteq> c) (b # s)) # getlines c (drop (Suc (length (takeWhile (\<lambda>x. x \<noteq> c) (b # s)))) (b # s))"

text \<open>The two calls on one piece: the key up to the first colon (58), the value from there up
  to the next one; a failed read leaves the empty string.\<close>

definition split_pair :: "bytes \<Rightarrow> bytes \<times> bytes" where
  "split_pair kv =
     (takeWhile (\<lambda>x. x \<noteq> 58) kv,
      takeWhile (\<lambda>x. x \<noteq> 58) (drop (Suc (length (takeWhile (\<lambda>x. x \<noteq> 58) kv))) kv))"

definition kv_parse :: "bytes \<Rightarrow> kv_data" where
  "kv_parse snap =
     fold (\<lambda>kv d. AList.update (fst (split_pair kv)) (snd (split_pair kv)) d) (getlines 44 snap) []"

text \<open>\<open>applySnapshot\<close> replaces both data maps; it leaves the list of requests alone.\<close>

definition kv_applySnapshot ::
  "(bytes \<Rightarrow> bytes) \<Rightarrow> bytes \<Rightarrow> bytes \<Rightarrow> u32 \<Rightarrow> kvstore \<Rightarrow> (bool \<times> kvstore) res" where
  "kv_applySnapshot sha snap digest i s =
     (if sha snap \<noteq> digest then Inr (False, s)
      else (let d = kv_parse snap
            in Inr (True, s\<lparr>kv_data := d, kv_dataIdx := i, kv_committedData := d,
                            kv_committedIdx := i\<rparr>)))"

definition kv_text :: "(kv_data \<Rightarrow> kv_data) \<Rightarrow> kv_data \<Rightarrow> bytes" where
  "kv_text perm d = concat (map (\<lambda>(k, v). k @ [58] @ v @ [44]) (perm d))"

definition kv_takeSnapshot ::
  "(bytes \<Rightarrow> bytes) \<Rightarrow> (kv_data \<Rightarrow> kv_data) \<Rightarrow> kvstore \<Rightarrow> app_snapshot \<times> kvstore" where
  "kv_takeSnapshot sha perm s =
     (let snap = kv_text perm (fold kv_apply (kv_requests s) (kv_committedData s))
      in (\<lparr>snap_seq = kv_dataIdx s, snap_data = snap, snap_digest = sha snap\<rparr>, s))"

definition kv_ops ::
  "(bytes \<Rightarrow> kv_request option) \<Rightarrow> (kv_response \<Rightarrow> bytes option) \<Rightarrow> (bytes \<Rightarrow> bytes) \<Rightarrow>
   (kv_data \<Rightarrow> kv_data) \<Rightarrow> kvstore app_ops" where
  "kv_ops parse ser sha perm =
     \<lparr>app_execute = kv_execute parse ser, app_commit = kv_commit, app_abort = kv_abort,
      app_applySnapshot = kv_applySnapshot sha, app_takeSnapshot = kv_takeSnapshot sha perm\<rparr>"

section \<open>Abstraction and invariant\<close>

type_synonym kv_contents = "bytes \<Rightarrow> bytes option"

definition kv_effect :: "kvstore_request \<Rightarrow> kv_contents \<Rightarrow> kv_contents" where
  "kv_effect r m = (case kq_type r of
      SET \<Rightarrow> m(kq_key r \<mapsto> kq_value r)
    | DELETE \<Rightarrow> m(kq_key r := None)
    | _ \<Rightarrow> m)"

fun effects :: "kvstore_request list \<Rightarrow> kv_contents \<Rightarrow> (u32 \<times> kv_contents) list" where
  "effects [] m = []"
| "effects (r # rs) m = (kq_idx r, kv_effect r m) # effects rs (kv_effect r m)"

definition kv_hist :: "kvstore \<Rightarrow> (u32 \<times> kv_contents) list" where
  "kv_hist s = effects (kv_requests s) (map_of (kv_committedData s))"

definition kv_ok :: "kvstore \<Rightarrow> bool" where
  "kv_ok s \<longleftrightarrow>
     sorted_wrt (<) (kv_committedIdx s # map kq_idx (kv_requests s)) \<and>
     map_of (kv_data s) = map_of (fold kv_apply (kv_requests s) (kv_committedData s))"

lemma map_of_kv_apply [simp]: "map_of (kv_apply r d) = kv_effect r (map_of d)"
  by (auto simp: kv_apply_def kv_effect_def update_conv' delete_conv' split: kv_request_type.split)

lemma map_of_fold_kv_apply: "map_of (fold kv_apply rs d) = fold kv_effect rs (map_of d)"
  by (induction rs arbitrary: d) simp_all

lemma effects_idx: "map fst (effects rs m) = map kq_idx rs"
  by (induction rs arbitrary: m) simp_all

lemma effects_append: "effects (rs @ qs) m = effects rs m @ effects qs (fold kv_effect rs m)"
  by (induction rs arbitrary: m) simp_all

lemma last_contents_effects: "last_contents m (effects rs m) = fold kv_effect rs m"
proof (induction rs rule: rev_induct)
  case (snoc r rs)
  then show ?case by (simp add: effects_append last_contents_def)
qed (simp add: last_contents_def)

lemma filter_effects_less:
  assumes "sorted_wrt (<) (map kq_idx rs)"
  shows "filter (\<lambda>p. fst p < i) (effects rs m) = effects (takeWhile (\<lambda>r. kq_idx r < i) rs) m"
  using assms
proof (induction rs arbitrary: m)
  case (Cons r rs)
  have "filter (\<lambda>p. fst p < i) (effects rs m') = []" if "\<not> kq_idx r < i" for m'
  proof -
    have "i \<le> fst p" if "p \<in> set (effects rs m')" for p
    proof -
      have "fst p \<in> set (map kq_idx rs)" using that by (metis effects_idx image_eqI list.set_map)
      then have "kq_idx r < fst p" using Cons.prems by auto
      then show ?thesis using \<open>\<not> kq_idx r < i\<close> by auto
    qed
    then show ?thesis by (auto simp: filter_empty_conv not_less)
  qed
  then show ?case using Cons by simp
qed simp

lemma effects_memberD:
  "(i, v) \<in> set (effects rs m) \<Longrightarrow>
   \<exists>rs1 r rs2. rs = rs1 @ r # rs2 \<and> kq_idx r = i \<and> v = kv_effect r (fold kv_effect rs1 m)"
proof (induction rs arbitrary: m)
  case (Cons q rs)
  then consider "i = kq_idx q" "v = kv_effect q m" | "(i, v) \<in> set (effects rs (kv_effect q m))"
    by auto
  then show ?case
  proof cases
    case 1
    then show ?thesis by (intro exI [of _ "[]"]) simp
  next
    case 2
    from Cons.IH [OF this] obtain rs1 r rs2 where "rs = rs1 @ r # rs2" "kq_idx r = i"
        "v = kv_effect r (fold kv_effect rs1 (kv_effect q m))"
      by blast
    then show ?thesis by (intro exI [of _ "q # rs1"]) simp
  qed
qed simp

lemma kv_hist_ascending: "kv_ok s \<Longrightarrow> sorted_wrt (<) (kv_committedIdx s # map fst (kv_hist s))"
  by (simp add: kv_ok_def kv_hist_def effects_idx)

lemma kv_view_hist:
  "kv_ok s \<Longrightarrow> map_of (kv_data s) = last_contents (map_of (kv_committedData s)) (kv_hist s)"
  by (simp add: kv_ok_def kv_hist_def last_contents_effects map_of_fold_kv_apply)

text \<open>A successful execution with a non-empty answer appends one request and applies it.\<close>

lemma kv_execute_shape:
  assumes "kv_execute parse ser r i s = Inr (res, s')" and "res \<noteq> []"
  obtains q d where "kq_idx q = i" "d = kv_apply q (kv_data s)"
    "s' = s\<lparr>kv_data := d, kv_dataIdx := i, kv_requests := kv_requests s @ [q]\<rparr>"
proof -
  obtain req where p: "parse r = Some req"
    using assms by (auto simp: kv_execute_def split: option.splits)
  let ?q = "\<lparr>kq_idx = i, kq_key = kvr_key req, kq_value = bytes_or_empty (kvr_value req),
             kq_type = kvr_msg_type req\<rparr>"
  show thesis
    using assms
    by (intro that [of ?q "kv_apply ?q (kv_data s)"])
      (auto simp: kv_execute_def p Let_def kv_apply_def
        split: option.splits kv_request_type.splits if_splits)
qed

lemma kv_execute_nonempty:
  assumes "kv_execute parse ser q j u = Inr (res, u')" and "parse q = Some req"
    and "kvr_msg_type req \<noteq> UNKNOWN" and "\<forall>v. ser v \<noteq> Some []"
  shows "res \<noteq> []"
  using assms(1,3,4)
  by (cases "kvr_msg_type req"; cases "map_of (kv_data u) (kvr_key req)";
      cases "kv_dataIdx u < j") (simp_all add: kv_execute_def assms(2) Let_def split: option.splits, auto)

lemma kv_execute_law:
  assumes ok: "kv_ok s" and ex: "kv_execute parse ser r i s = Inr (res, s')" "res \<noteq> []"
    and i: "kv_committedIdx s < i" and fresh: "\<forall>j \<in> fst ` set (kv_hist s). j < i"
  shows "kv_ok s' \<and> kv_hist s' = kv_hist s @ [(i, map_of (kv_data s'))] \<and>
    map_of (kv_committedData s') = map_of (kv_committedData s) \<and>
    kv_committedIdx s' = kv_committedIdx s"
proof -
  obtain q where q: "kq_idx q = i" and s': "s' = s\<lparr>kv_data := kv_apply q (kv_data s),
      kv_dataIdx := i, kv_requests := kv_requests s @ [q]\<rparr>"
    using kv_execute_shape [OF ex] by metis
  have "fst ` set (kv_hist s) = set (map kq_idx (kv_requests s))"
    by (metis effects_idx kv_hist_def list.set_map)
  then have below: "\<forall>x \<in> set (kv_requests s). kq_idx x < i" using fresh by auto
  have data: "map_of (kv_data s) = fold kv_effect (kv_requests s) (map_of (kv_committedData s))"
    using ok by (simp add: kv_ok_def map_of_fold_kv_apply)
  show ?thesis
    using ok i below q data
    by (simp add: s' kv_ok_def kv_hist_def effects_append map_of_fold_kv_apply sorted_wrt_append)
qed

lemma kv_abort_law:
  assumes ok: "kv_ok s" and i: "kv_committedIdx s < i"
    and ex: "\<exists>j \<in> fst ` set (kv_hist s). i \<le> j"
  shows "\<exists>s'. kv_abort i s = Inr (True, s') \<and> kv_ok s' \<and>
    kv_hist s' = filter (\<lambda>p. fst p < i) (kv_hist s) \<and>
    map_of (kv_committedData s') = map_of (kv_committedData s) \<and>
    kv_committedIdx s' = kv_committedIdx s"
proof -
  have "fst ` set (kv_hist s) = set (map kq_idx (kv_requests s))"
    by (metis effects_idx kv_hist_def list.set_map)
  then obtain r where r: "r \<in> set (kv_requests s)" "i \<le> kq_idx r" using ex by auto
  obtain rs q where rq: "kv_requests s = rs @ [q]"
    using r(1) by (metis append_butlast_last_id empty_iff empty_set)
  have srt: "sorted_wrt (<) (map kq_idx (kv_requests s))" using ok by (simp add: kv_ok_def)
  have q: "\<not> kq_idx q < i" using r srt by (auto simp: rq sorted_wrt_append)
  let ?kept = "takeWhile (\<lambda>r. kq_idx r < i) (kv_requests s)"
  let ?s = "s\<lparr>kv_data := fold kv_apply ?kept (kv_committedData s),
              kv_dataIdx := kv_committedIdx s, kv_requests := ?kept\<rparr>"
  have "kv_abort i s = Inr (True, ?s)"
    using i q by (simp add: kv_abort_def rq not_le Let_def)
  moreover have "kv_ok ?s"
    using ok by (auto simp: kv_ok_def sorted_wrt_map takeWhile_map [symmetric]
        intro: sorted_wrt_takeWhile dest: set_takeWhileD)
  moreover have "kv_hist ?s = filter (\<lambda>p. fst p < i) (kv_hist s)"
    by (simp add: kv_hist_def filter_effects_less [OF srt])
  ultimately show ?thesis by auto
qed

lemma kv_commit_law:
  assumes ok: "kv_ok s" and mem: "(i, v) \<in> set (kv_hist s)"
  shows "\<exists>s'. kv_commit i s = Inr (True, s') \<and> kv_ok s' \<and>
    kv_hist s' = filter (\<lambda>p. i < fst p) (kv_hist s) \<and>
    map_of (kv_committedData s') = v \<and> kv_committedIdx s' = i"
proof -
  obtain rs1 r rs2 where split: "kv_requests s = rs1 @ r # rs2" and r: "kq_idx r = i"
    and v: "v = kv_effect r (fold kv_effect rs1 (map_of (kv_committedData s)))"
    using effects_memberD [OF mem [unfolded kv_hist_def]] by blast
  have srt: "sorted_wrt (<) (kv_committedIdx s # map kq_idx (rs1 @ r # rs2))"
    using ok by (simp add: kv_ok_def split)
  have lo: "\<forall>x \<in> set rs1. kq_idx x \<le> i" and hi: "\<forall>x \<in> set rs2. i < kq_idx x"
    using srt r by (auto simp: sorted_wrt_append)
  have "takeWhile (\<lambda>r. kq_idx r \<le> i) rs2 = []" using hi by (cases rs2) auto
  then have tw: "takeWhile (\<lambda>r. kq_idx r \<le> i) (kv_requests s) = rs1 @ [r]"
    using lo r by (simp add: split takeWhile_append2)
  let ?d = "fold kv_apply (rs1 @ [r]) (kv_committedData s)"
  let ?s = "s\<lparr>kv_committedData := ?d, kv_committedIdx := i, kv_requests := rs2\<rparr>"
  have c: "kv_commit i s = Inr (True, ?s)" by (simp add: kv_commit_def tw) (simp add: split)
  have d: "map_of ?d = v" by (simp add: v map_of_fold_kv_apply)
  have "kv_ok ?s"
    using ok srt hi d by (simp add: kv_ok_def split map_of_fold_kv_apply sorted_wrt_append)
  moreover have "kv_hist ?s = filter (\<lambda>p. i < fst p) (kv_hist s)"
  proof -
    have "filter (\<lambda>p. i < fst p) (effects rs1 m) = []" for m
      using lo by (induction rs1 arbitrary: m) auto
    moreover have "filter (\<lambda>p. i < fst p) (effects rs2 m) = effects rs2 m" for m
      using hi by (induction rs2 arbitrary: m) auto
    ultimately show ?thesis using r d by (simp add: kv_hist_def split effects_append v map_of_fold_kv_apply)
  qed
  ultimately show ?thesis using c d by auto
qed

interpretation kv: application
  "kv_ops parse ser sha perm" kv_ok "\<lambda>s. map_of (kv_data s)" "\<lambda>s. map_of (kv_committedData s)"
  kv_hist kv_committedIdx
proof
  fix s :: kvstore
  assume "kv_ok s"
  then show "sorted_wrt (<) (kv_committedIdx s # map fst (kv_hist s))"
    by (rule kv_hist_ascending)
next
  fix s s' :: kvstore and r res i
  assume "kv_ok s" "app_execute (kv_ops parse ser sha perm) r i s = Inr (res, s')" "res \<noteq> []"
    "kv_committedIdx s < i" "\<forall>j \<in> fst ` set (kv_hist s). j < i"
  then show "kv_ok s' \<and> kv_hist s' = kv_hist s @ [(i, map_of (kv_data s'))] \<and>
      map_of (kv_committedData s') = map_of (kv_committedData s) \<and>
      kv_committedIdx s' = kv_committedIdx s"
    by (intro kv_execute_law [of s parse ser r i res s']) (simp_all add: kv_ops_def)
qed (simp_all add: kv_ops_def kv_view_hist kv_abort_law kv_commit_law)

section \<open>Snapshots\<close>

lemma kv_apply_distinct: "distinct (map fst d) \<Longrightarrow> distinct (map fst (kv_apply r d))"
  by (simp add: kv_apply_def distinct_update distinct_delete split: kv_request_type.split)

lemma fold_kv_apply_distinct:
  "distinct (map fst d) \<Longrightarrow> distinct (map fst (fold kv_apply rs d))"
  by (induction rs arbitrary: d) (simp_all add: kv_apply_distinct)

lemma getlines_piece:
  "c \<notin> set p \<Longrightarrow> getlines c (p @ c # s) = p # getlines c s"
proof -
  assume p: "c \<notin> set p"
  have "takeWhile (\<lambda>x. x \<noteq> c) (p @ c # s) = p" using p by (induction p) auto
  then show ?thesis by (cases "p @ c # s") (auto simp: append_eq_Cons_conv)
qed

lemma split_pair_text:
  assumes "58 \<notin> set k" and "58 \<notin> set v"
  shows "split_pair (k @ 58 # v) = (k, v)"
proof -
  have k: "takeWhile (\<lambda>x. x \<noteq> 58) (k @ 58 # v) = k"
    using assms(1) by (induction k) auto
  have v: "takeWhile (\<lambda>x. x \<noteq> 58) v = v"
    using assms(2) by (auto simp: takeWhile_eq_all_conv)
  show ?thesis by (simp add: split_pair_def k v)
qed

text \<open>Keys and values free of the two delimiters.\<close>

definition delimiter_free :: "kv_data \<Rightarrow> bool" where
  "delimiter_free d = (\<forall>(k, v) \<in> set d. {44, 58} \<inter> (set k \<union> set v) = {})"

lemma getlines_text:
  assumes "delimiter_free d"
  shows "getlines 44 (concat (map (\<lambda>(k, v). k @ [58] @ v @ [44]) d)) = map (\<lambda>(k, v). k @ 58 # v) d"
  using assms
proof (induction d)
  case (Cons p d)
  obtain k v where p: "p = (k, v)" by (cases p)
  have "44 \<notin> set (k @ 58 # v)" and "delimiter_free d"
    using Cons.prems by (auto simp: p delimiter_free_def)
  then show ?case
    using getlines_piece [of 44 "k @ 58 # v" "concat (map (\<lambda>(k, v). k @ [58] @ v @ [44]) d)"] Cons.IH
    by (simp add: p)
qed simp

lemma fold_update_pairs:
  assumes "delimiter_free ps"
  shows "fold (\<lambda>kv d. AList.update (fst (split_pair kv)) (snd (split_pair kv)) d)
           (map (\<lambda>(k, v). k @ 58 # v) ps) d = fold (\<lambda>(k, v). AList.update k v) ps d"
  using assms
proof (induction ps arbitrary: d)
  case (Cons p ps)
  obtain k v where p: "p = (k, v)" by (cases p)
  have "58 \<notin> set k" "58 \<notin> set v" "delimiter_free ps"
    using Cons.prems by (auto simp: p delimiter_free_def)
  then show ?case using Cons.IH by (simp add: p split_pair_text)
qed simp

lemma map_of_fold_update:
  "distinct (map fst ps) \<Longrightarrow> map_of (fold (\<lambda>(k, v). AList.update k v) ps d) = map_of d ++ map_of ps"
proof (induction ps arbitrary: d)
  case (Cons p ps)
  obtain k v where p: "p = (k, v)" by (cases p)
  have "k \<notin> dom (map_of ps)" using Cons.prems by (simp add: p dom_map_of_conv_image_fst)
  then show ?case
    using Cons by (auto simp: p update_conv' map_add_def dom_def split: option.split)
qed simp

lemma kv_parse_text:
  assumes "delimiter_free d" and "distinct (map fst d)"
    and "set (perm d) = set d" and "distinct (map fst (perm d))"
  shows "map_of (kv_parse (kv_text perm d)) = map_of d"
proof -
  have "delimiter_free (perm d)" using assms(1,3) by (simp add: delimiter_free_def)
  then have "map_of (kv_parse (kv_text perm d)) = map_of (perm d)"
    by (simp add: kv_parse_def kv_text_def getlines_text fold_update_pairs map_of_fold_update assms(4)
        del: append.simps)
  also have "\<dots> = map_of d"
  proof
    fix k
    show "map_of (perm d) k = map_of d k"
      using map_of_eq_Some_iff [OF assms(4)] map_of_eq_Some_iff [OF assms(2)] assms(3)
      by (metis option.exhaust)
  qed
  finally show ?thesis .
qed

section \<open>Properties\<close>

text \<open>Speculative execution of a batch of well-formed requests at fresh ascending indices
  can be undone: aborting at the first index restores contents, history and committed data.\<close>

theorem kv_speculation_undone:
  assumes "kv_ok s" and "\<forall>v. ser v \<noteq> Some []"
    and "\<forall>q \<in> fst ` set ((r, i) # xs). \<exists>req. parse q = Some req \<and> kvr_msg_type req \<noteq> UNKNOWN"
    and "exec_all (kv_ops parse ser sha perm) ((r, i) # xs) s = Inr t"
    and "sorted_wrt (<) (kv_committedIdx s # map fst (kv_hist s) @ i # map snd xs)"
  shows "\<exists>t'. kv_abort i t = Inr (True, t') \<and> kv_ok t' \<and>
    map_of (kv_data t') = map_of (kv_data s) \<and> kv_hist t' = kv_hist s \<and>
    map_of (kv_committedData t') = map_of (kv_committedData s)"
proof -
  have "res \<noteq> []" if m: "q \<in> fst ` set ((r, i) # xs)" and e: "kv_execute parse ser q j u = Inr (res, u')"
    for q j u res u'
  proof -
    obtain req where "parse q = Some req" "kvr_msg_type req \<noteq> UNKNOWN" using bspec [OF assms(3) m] by blast
    then show ?thesis by (rule kv_execute_nonempty [OF e _ _ assms(2)])
  qed
  then have "answered (kv_ops parse ser sha perm) (fst ` set ((r, i) # xs))"
    unfolding answered_def kv_ops_def app_ops.select_convs by blast
  then show ?thesis
    using kv.abort_undoes_speculation [OF assms(1,4,5)] by (auto simp: kv_ops_def)
qed

theorem kv_speculation_undone_witness:
  "\<exists>s t'. kv_abort 1 s = Inr (True, t') \<and> map_of (kv_data s) [9] = Some [7] \<and> kv_data t' = []"
proof -
  let ?parse = "\<lambda>q. Some \<lparr>kvr_msg_type = SET, kvr_key = q, kvr_value = Some [7]\<rparr>"
  let ?ser = "\<lambda>_ :: kv_response. Some [1] :: bytes option"
  let ?t = "\<lparr>kv_requests = [\<lparr>kq_idx = 1, kq_key = [9], kq_value = [7], kq_type = SET\<rparr>],
      kv_data = [([9], [7])], kv_committedData = [], kv_dataIdx = 1, kv_committedIdx = 0\<rparr>"
  have ok: "kv_ok (kv_init 0 0)" by (simp add: kv_init_def kv_ok_def)
  have run: "exec_all (kv_ops ?parse ?ser (\<lambda>b. b) (\<lambda>d. d)) (([9], 1) # []) (kv_init 0 0) = Inr ?t"
    by (simp add: kv_ops_def kv_execute_def kv_init_def Let_def)
  obtain t' where "kv_abort 1 ?t = Inr (True, t')" "map_of (kv_data t') = map_of (kv_data (kv_init 0 0))"
    using kv_speculation_undone [OF ok _ _ run] by (auto simp: kv_init_def kv_hist_def)
  then show ?thesis
    by (intro exI [of _ ?t] exI [of _ t']) (simp add: kv_init_def)
qed

text \<open>C15: a snapshot of a store whose keys and values contain neither delimiter, applied to any
  other store, is accepted and gives it the same contents, whatever order the library
  iterates over the table in.\<close>

theorem kv_snapshot_roundtrip:
  fixes sha :: "bytes \<Rightarrow> bytes" and perm :: "kv_data \<Rightarrow> kv_data"
  assumes "kv_ok s" and "distinct (map fst (kv_committedData s))"
  defines "d \<equiv> fold kv_apply (kv_requests s) (kv_committedData s)"
    and "snap \<equiv> fst (kv_takeSnapshot sha perm s)"
  assumes "delimiter_free d" and "set (perm d) = set d" and "distinct (map fst (perm d))"
  shows "\<exists>u'. kv_applySnapshot sha (snap_data snap) (snap_digest snap) (snap_seq snap) u = Inr (True, u') \<and>
    map_of (kv_data u') = map_of (kv_data s) \<and> kv_committedData u' = kv_data u' \<and>
    kv_committedIdx u' = snap_seq snap"
proof -
  have "distinct (map fst d)" unfolding d_def by (rule fold_kv_apply_distinct [OF assms(2)])
  then have "map_of (kv_parse (kv_text perm d)) = map_of d" using assms(5-7) by (intro kv_parse_text)
  moreover have "map_of (kv_data s) = map_of d" using assms(1) by (simp add: kv_ok_def d_def)
  ultimately show ?thesis
    by (simp add: snap_def kv_takeSnapshot_def kv_applySnapshot_def d_def Let_def)
qed

theorem kv_snapshot_roundtrip_witness:
  "\<exists>u'. kv_applySnapshot (\<lambda>b. b) [49, 58, 50, 44, 48, 58, 44] [49, 58, 50, 44, 48, 58, 44] 3 (kv_init 0 0)
      = Inr (True, u') \<and> map_of (kv_data u') [49] = Some [50]"
proof -
  let ?s = "\<lparr>kv_requests = [\<lparr>kq_idx = 3, kq_key = [49], kq_value = [50], kq_type = SET\<rparr>],
    kv_data = [([48], []), ([49], [50])], kv_committedData = [([48], [])], kv_dataIdx = 3, kv_committedIdx = 1\<rparr>"
  have "kv_ok ?s" by (simp add: kv_ok_def kv_effect_def fun_eq_iff)
  from kv_snapshot_roundtrip [OF this, of rev "\<lambda>b. b" "kv_init 0 0"]
  show ?thesis
    by (auto simp: kv_takeSnapshot_def kv_apply_def kv_text_def delimiter_free_def Let_def insert_commute)
qed

text \<open>An abort that keeps some uncommitted requests resets the data index to the committed
  index although the data contains the kept requests, so the next snapshot is labelled
  with a sequence number below requests that its contents include.\<close>

theorem kv_abort_mislabels_snapshot:
  assumes "kv_ok s" and "r \<in> set (kv_requests s)" and "kq_idx r < i"
    and "r' \<in> set (kv_requests s)" and "i \<le> kq_idx r'"
  shows "\<exists>s'. kv_abort i s = Inr (True, s') \<and> r \<in> set (kv_requests s') \<and>
    snap_seq (fst (kv_takeSnapshot sha perm s')) < kq_idx r \<and>
    snap_data (fst (kv_takeSnapshot sha perm s')) =
      kv_text perm (fold kv_apply (kv_requests s') (kv_committedData s))"
proof -
  have srt: "sorted_wrt (<) (kv_committedIdx s # map kq_idx (kv_requests s))"
    using assms(1) by (simp add: kv_ok_def)
  then have c: "kv_committedIdx s < kq_idx r" using assms(2) by simp
  have ne: "kv_requests s \<noteq> []" using assms(2) by auto
  have "kq_idx r' \<le> kq_idx (last (kv_requests s))"
    using srt assms(4) ne
    by (cases "kv_requests s" rule: rev_cases) (auto simp: sorted_wrt_append)
  then have last: "\<not> kq_idx (last (kv_requests s)) < i" using assms(5) by auto
  have "r \<in> set (takeWhile (\<lambda>q. kq_idx q < i) (kv_requests s))"
    using takeWhile_filter_sorted [of kq_idx "kv_requests s" i] srt assms(2,3) by simp
  then show ?thesis
    using c assms(3) ne last by (auto simp: kv_abort_def Let_def kv_takeSnapshot_def not_le)
qed

theorem kv_abort_mislabels_snapshot_witness:
  "\<exists>s'. kv_abort 3 \<lparr>kv_requests = [\<lparr>kq_idx = 2, kq_key = [49], kq_value = [50], kq_type = SET\<rparr>,
        \<lparr>kq_idx = 3, kq_key = [49], kq_value = [51], kq_type = SET\<rparr>],
      kv_data = [([49], [51])], kv_committedData = [], kv_dataIdx = 3, kv_committedIdx = 1\<rparr> = Inr (True, s') \<and>
    snap_seq (fst (kv_takeSnapshot (\<lambda>b. b) (\<lambda>d. d) s')) < 2"
proof -
  let ?r = "\<lparr>kq_idx = 2, kq_key = [49], kq_value = [50], kq_type = SET\<rparr>"
  let ?r' = "\<lparr>kq_idx = 3, kq_key = [49], kq_value = [51], kq_type = SET\<rparr>"
  let ?s = "\<lparr>kv_requests = [?r, ?r'], kv_data = [([49], [51])], kv_committedData = [],
      kv_dataIdx = 3, kv_committedIdx = 1\<rparr>"
  have "kv_ok ?s" by (simp add: kv_ok_def kv_effect_def)
  from kv_abort_mislabels_snapshot [OF this, of ?r 3 ?r' "\<lambda>b. b" "\<lambda>d. d"]
  show ?thesis by auto
qed

text \<open>\<open>applySnapshot\<close> keeps the uncommitted requests of the state it replaces, so the next
  commit that reaches their indices applies them to the contents of the snapshot.\<close>

theorem kv_snapshot_keeps_requests:
  assumes "sha snap = digest" and "\<forall>r \<in> set (kv_requests s). kq_idx r \<le> j"
  shows "\<exists>s1 s2. kv_applySnapshot sha snap digest i s = Inr (True, s1) \<and>
    kv_data s1 = kv_parse snap \<and> kv_requests s1 = kv_requests s \<and>
    kv_commit j s1 = Inr (True, s2) \<and>
    map_of (kv_committedData s2) = fold kv_effect (kv_requests s) (map_of (kv_parse snap))"
  using assms
  by (simp add: kv_applySnapshot_def kv_commit_def takeWhile_eq_all_conv [THEN iffD2] map_of_fold_kv_apply Let_def)

theorem kv_snapshot_keeps_requests_witness:
  "\<exists>s1 s2. kv_applySnapshot (\<lambda>b. b) [49, 58, 50, 44] [49, 58, 50, 44] 9
       \<lparr>kv_requests = [\<lparr>kq_idx = 2, kq_key = [49], kq_value = [], kq_type = DELETE\<rparr>],
         kv_data = [], kv_committedData = [([49], [51])], kv_dataIdx = 2, kv_committedIdx = 1\<rparr> = Inr (True, s1) \<and>
     map_of (kv_data s1) [49] = Some [50] \<and> kv_commit 10 s1 = Inr (True, s2) \<and>
     map_of (kv_committedData s2) [49] = None"
proof -
  let ?r = "\<lparr>kq_idx = 2, kq_key = [49], kq_value = [], kq_type = DELETE\<rparr>"
  have "kv_parse [49, 58, 50, 44] = [([49], [50])]"
    by (simp add: kv_parse_def split_pair_def)
  then show ?thesis
    using kv_snapshot_keeps_requests [of "\<lambda>b. b" "[49, 58, 50, 44]" "[49, 58, 50, 44]"
      "\<lparr>kv_requests = [?r], kv_data = [], kv_committedData = [([49], [51])], kv_dataIdx = 2,
        kv_committedIdx = 1\<rparr>" 10 9]
    by (auto simp: kv_effect_def)
qed

end
