(* ===== verification/LogApp.thy ===== *)
theory LogApp
  imports ReplicaLog Counter KVStore
begin

text \<open>
  The log together with the application it drives: the executed but uncommitted history of the
  application is the uncommitted part of the log. The interface locale \<open>application\<close> is extended by
  the hash and the request parser of the log; the lemmas are proved once in it and then used for
  both applications of the repository.
\<close>

definition mk_env ::
  "(bytes \<Rightarrow> bytes) \<Rightarrow> (bytes \<Rightarrow> padded_request_data option) \<Rightarrow> 's app_ops \<Rightarrow> 's log_env" where
  "mk_env sha parse ops = \<lparr>env_sha = sha, env_parse_padded = parse, env_app = ops\<rparr>"

lemma mk_env_sel [simp]:
  "env_sha (mk_env sha parse ops) = sha" "env_parse_padded (mk_env sha parse ops) = parse"
  "env_app (mk_env sha parse ops) = ops"
  by (simp_all add: mk_env_def)

text \<open>The application's committed index is the log's, and its history is at the numbers of the
  uncommitted entries.\<close>

definition app_synced ::
  "('s \<Rightarrow> bool) \<Rightarrow> ('s \<Rightarrow> (u32 \<times> 'v) list) \<Rightarrow> ('s \<Rightarrow> u32) \<Rightarrow> 's log_state \<Rightarrow> bool" where
  "app_synced ok hist committed l \<longleftrightarrow>
     ok (lg_app l) \<and> committed (lg_app l) = lc_seq (lg_committed l) \<and>
     map fst (hist (lg_app l)) = filter (\<lambda>s. lc_seq (lg_committed l) < s) (map le_seq (lg_log l))"

text \<open>Any sequence of calls of the methods that change a log, with any arguments.\<close>

datatype log_call = CallAddEntry u32 u32 bytes bool | CallAbort u32 | CallSetCheckpoint log_checkpoint
  | CallAddCert u32 cert | CallResetToSnapshot snapshot_reply | CallApplySnapshotModifyLog snapshot_reply

fun log_do :: "'s log_env \<Rightarrow> log_call \<Rightarrow> 's log_state \<Rightarrow> 's log_state res" where
  "log_do env (CallAddEntry c q req chk) l = bindE (addEntry env c q req [] chk l) (\<lambda>(_, l'). Inr l')"
| "log_do env (CallAbort s) l = log_abort env s l"
| "log_do env (CallSetCheckpoint cp) l = setCheckpoint env cp l"
| "log_do env (CallAddCert s c) l = bindE (addCert s c l) (\<lambda>(_, l'). Inr l')"
| "log_do env (CallResetToSnapshot msg) l = bindE (resetToSnapshot env msg l) (\<lambda>(_, l'). Inr l')"
| "log_do env (CallApplySnapshotModifyLog msg) l = bindE (applySnapshotModifyLog env msg l) (\<lambda>(_, l'). Inr l')"

text \<open>The calls that keep the log in step with the application. None of these conditions is checked by the log:
  the request parses, the application has a result for it, and the number after it does not wrap to zero; an abort is between the
  committed checkpoint and the end; a checkpoint is inside the log, has the log's digest there and, if it
  names a digest of the application, a snapshot; the log has fewer than \<open>2 ^ 31\<close> entries, so that the difference
  \<open>setStableCheckpoint\<close> truncates by fits an \<open>int32_t\<close>. The two calls that load the snapshot of another replica are left out: they move
  the committed checkpoint of the log without a commit of the application.\<close>

fun call_fits :: "'s log_env \<Rightarrow> log_call \<Rightarrow> 's log_state \<Rightarrow> bool" where
  "call_fits env (CallAddEntry c q req chk) l =
     (env_parse_padded env req \<noteq> None \<and> lg_nextSeq l + 1 \<noteq> 0 \<and>
      (case addEntry env c q req [] chk l of Inr ((True, res), _) \<Rightarrow> res \<noteq> [] | _ \<Rightarrow> True))"
| "call_fits env (CallAbort s) l = (lc_seq (lg_committed l) < s \<and> s \<le> lg_nextSeq l)"
| "call_fits env (CallSetCheckpoint cp) l =
     (lc_seq cp < lg_nextSeq l \<and> length (lg_log l) < 2 ^ 31 \<and> getDigestAt (lc_seq cp) l = Inr (lc_logDigest cp) \<and>
      (lc_appDigest cp \<noteq> [] \<longrightarrow> lc_snapshot cp \<noteq> None))"
| "call_fits env (CallAddCert s c) l = True"
| "call_fits env (CallResetToSnapshot msg) l = False"
| "call_fits env (CallApplySnapshotModifyLog msg) l = False"

text \<open>A run of calls from a log, and whether each of them fits the log it is made on.\<close>

definition log_run :: "'s log_env \<Rightarrow> log_call list \<Rightarrow> 's log_state \<Rightarrow> 's log_state res" where
  "log_run env calls l = foldE (log_do env) calls l"

fun calls_fit :: "'s log_env \<Rightarrow> log_call list \<Rightarrow> 's log_state \<Rightarrow> bool" where
  "calls_fit env [] l = True"
| "calls_fit env (a # calls) l =
     (call_fits env a l \<and> (case log_do env a l of Inl _ \<Rightarrow> True | Inr l' \<Rightarrow> calls_fit env calls l'))"

lemma log_run_simps [simp]:
  "log_run env [] l = Inr l" "log_run env (a # calls) l = bindE (log_do env a l) (log_run env calls)"
  by (simp_all add: log_run_def [abs_def])

text \<open>What every fitting call keeps, every run of them keeps.\<close>

lemma log_run_keeps:
  assumes "\<And>a l l'. I l \<Longrightarrow> call_fits env a l \<Longrightarrow> log_do env a l = Inr l' \<Longrightarrow> I l'"
    and "log_run env calls l = Inr l'" and "calls_fit env calls l" and "I l"
  shows "I l'"
  using assms(2-4)
proof (induction calls arbitrary: l)
  case (Cons a calls)
  then obtain m where m: "log_do env a l = Inr m" "log_run env calls m = Inr l'" by (auto elim: bindE_InrE)
  then show ?case using Cons assms(1) [of l a m] by simp
qed simp

text \<open>Appending a batch of requests, all new and all executed.\<close>

fun append_all :: "'s log_env \<Rightarrow> (u32 \<times> u32 \<times> bytes) list \<Rightarrow> 's log_state \<Rightarrow> 's log_state option" where
  "append_all env [] l = Some l"
| "append_all env ((c, q, req) # xs) l =
     (case addEntry env c q req [] True l of
        Inr ((True, res), l') \<Rightarrow> if res = [] then None else append_all env xs l'
      | _ \<Rightarrow> None)"

lemma addCert_keeps:
  assumes "addCert s c l = Inr (b, l')"
  shows "lg_log l' = lg_log l \<and> lg_nextSeq l' = lg_nextSeq l \<and> lg_stable l' = lg_stable l \<and>
    lg_committed l' = lg_committed l \<and> lg_app l' = lg_app l \<and> lg_clientRecord l' = lg_clientRecord l"
  using assms unfolding addCert_def
  by (auto split: list.splits if_splits option.splits elim!: bindE_InrE)

lemma addEntry_duplicateD:
  assumes "addEntry env c q req r0 chk l = Inr ((False, res), l')" and "log_chain (env_sha env) l"
    and "env_parse_padded env req \<noteq> None"
  shows "\<exists>record'. l' = l\<lparr>lg_clientRecord := record'\<rparr>"
  using assms(1,3)
  by (auto simp: addEntry_chain [OF assms(2)] split: prod.splits bool.splits option.splits elim!: bindE_InrE)

lemma append_all_ConsE:
  assumes "append_all env ((c, q, req) # xs) l = Some t"
  obtains res m where "addEntry env c q req [] True l = Inr ((True, res), m)" "res \<noteq> []"
    "append_all env xs m = Some t"
  using assms by (auto split: sum.splits prod.splits bool.splits if_splits)

lemma log_entry_below:
  assumes "log_chain sha l" and "e \<in> set (lg_log l)"
  shows "le_seq e < lg_nextSeq l"
proof -
  obtain i where i: "i < length (lg_log l)" "e = lg_log l ! i" using assms(2) by (auto simp: in_set_conv_nth)
  then show ?thesis
    using log_chain_seq [OF assms(1) i(1)] assms(1) by (simp add: log_chain_def word_less_nat_alt)
qed

lemma log_has_seq:
  assumes "log_chain sha l" and "lc_seq (lg_stable l) < s" and "s < lg_nextSeq l"
  shows "s \<in> set (map le_seq (lg_log l))"
proof -
  let ?i = "unat s - unat (lc_seq (lg_stable l)) - 1"
  have i: "?i < length (lg_log l)" using assms by (auto simp: log_chain_def word_less_nat_alt)
  then have "unat (le_seq (lg_log l ! ?i)) = unat s"
    using log_chain_seq [OF assms(1) i] assms(2) by (simp add: word_less_nat_alt)
  then have "le_seq (lg_log l ! ?i) = s" by (simp only: word_unat_eq_iff)
  moreover have "lg_log l ! ?i \<in> set (lg_log l)" using i by (rule nth_mem)
  ultimately show ?thesis by force
qed

locale replicated_log = application ops ok view base hist committed
  for ops :: "'s app_ops" and ok and view :: "'s \<Rightarrow> 'v" and base and hist and committed +
  fixes sha :: "bytes \<Rightarrow> bytes" and parse :: "bytes \<Rightarrow> padded_request_data option"
begin

lemma synced_append:
  assumes wf: "log_wf sha l" and sync: "app_synced ok hist committed l"
    and add: "addEntry (mk_env sha parse ops) c q req r0 chk l = Inr ((True, res), l')" and res: "res \<noteq> []"
  shows "app_synced ok hist committed l' \<and> base (lg_app l') = base (lg_app l) \<and>
    (\<exists>v. hist (lg_app l') = hist (lg_app l) @ [(lg_nextSeq l, v)])"
proof -
  have ch: "log_chain sha l" and lt: "lc_seq (lg_committed l) < lg_nextSeq l"
    using wf by (simp_all add: log_wf_def)
  have ch': "log_chain (env_sha (mk_env sha parse ops)) l" using ch by simp
  obtain rd app' record' where "env_parse_padded (mk_env sha parse ops) req = Some rd"
    and "app_execute (env_app (mk_env sha parse ops)) (prd_req_data rd) (lg_nextSeq l) (lg_app l) = Inr (res, app')"
    and "dup_check chk c q (lg_clientRecord l) = (True, record')"
    and l': "l' = appended (mk_env sha parse ops) c q req res record' app' l"
    by (rule addEntry_TrueD [OF add ch'])
  then have ex: "app_execute ops (prd_req_data rd) (lg_nextSeq l) (lg_app l) = Inr (res, app')" by simp
  have ok: "ok (lg_app l)" and com: "committed (lg_app l) = lc_seq (lg_committed l)"
    and h: "map fst (hist (lg_app l)) = filter (\<lambda>s. lc_seq (lg_committed l) < s) (map le_seq (lg_log l))"
    using sync by (simp_all add: app_synced_def)
  have "\<forall>j \<in> fst ` set (hist (lg_app l)). j < lg_nextSeq l"
    using arg_cong [OF h, of set] log_entry_below [OF ch] by auto
  then have law: "ok app' \<and> hist app' = hist (lg_app l) @ [(lg_nextSeq l, view app')] \<and>
      base app' = base (lg_app l) \<and> committed app' = committed (lg_app l)"
    using execute_law [OF ok ex res] com lt by simp
  then show ?thesis
    using h com lt by (auto simp: app_synced_def l' appended_def)
qed

lemma synced_abort:
  assumes wf: "log_wf sha l" and sync: "app_synced ok hist committed l"
    and s: "lc_seq (lg_committed l) < s" "s < lg_nextSeq l"
  shows "\<exists>l'. log_abort (mk_env sha parse ops) s l = Inr l' \<and> app_synced ok hist committed l' \<and>
    lg_log l' = takeWhile (\<lambda>e. le_seq e < s) (lg_log l) \<and> lg_clientRecord l' = lg_clientRecord l \<and>
    hist (lg_app l') = filter (\<lambda>p. fst p < s) (hist (lg_app l)) \<and> base (lg_app l') = base (lg_app l)"
proof -
  have ch: "log_chain sha l" and st: "lc_seq (lg_stable l) \<le> lc_seq (lg_committed l)"
    using wf by (simp_all add: log_wf_def)
  have ok: "ok (lg_app l)" and com: "committed (lg_app l) = lc_seq (lg_committed l)"
    and h: "map fst (hist (lg_app l)) = filter (\<lambda>s. lc_seq (lg_committed l) < s) (map le_seq (lg_log l))"
    using sync by (simp_all add: app_synced_def)
  have "lc_seq (lg_stable l) < s" using st s(1) by (rule le_less_trans)
  then have "s \<in> set (map fst (hist (lg_app l)))"
    using log_has_seq [OF ch _ s(2)] s(1) by (simp add: h)
  then have "\<exists>j \<in> fst ` set (hist (lg_app l)). s \<le> j" by auto
  then obtain app' where a: "app_abort ops s (lg_app l) = Inr (True, app')" "ok app'"
    "hist app' = filter (\<lambda>p. fst p < s) (hist (lg_app l))" "base app' = base (lg_app l)"
    "committed app' = committed (lg_app l)"
    using abort_law [OF ok] s(1) com by metis
  have "map fst (filter (\<lambda>p. fst p < s) (hist (lg_app l))) = filter (\<lambda>i. i < s) (map fst (hist (lg_app l)))"
    by (simp add: filter_map comp_def)
  also have "\<dots> = filter (\<lambda>i. lc_seq (lg_committed l) < i)
      (map le_seq (filter (\<lambda>e. le_seq e < s) (lg_log l)))"
    by (simp add: h filter_map comp_def conj_commute)
  also have "filter (\<lambda>e. le_seq e < s) (lg_log l) = takeWhile (\<lambda>e. le_seq e < s) (lg_log l)"
    using takeWhile_filter_sorted [OF log_chain_sorted [OF ch]] by simp
  finally show ?thesis
    using log_abort_chain [of "mk_env sha parse ops" l s] ch s st a com
    by (auto simp: app_synced_def)
qed

lemma synced_commit:
  assumes wf: "log_wf sha l" and sync: "app_synced ok hist committed l"
    and cp: "lc_seq cp < lg_nextSeq l" "length (lg_log l) < 2 ^ 31"
      "lc_appDigest cp \<noteq> [] \<longrightarrow> lc_snapshot cp \<noteq> None"
  shows "\<exists>l'. setCheckpoint (mk_env sha parse ops) cp l = Inr l' \<and> app_synced ok hist committed l' \<and>
    view (lg_app l') = view (lg_app l)"
proof -
  have ch: "log_chain sha l" and st: "lc_seq (lg_stable l) \<le> lc_seq (lg_committed l)"
    using wf by (simp_all add: log_wf_def)
  have ok: "ok (lg_app l)" and com: "committed (lg_app l) = lc_seq (lg_committed l)"
    and h: "map fst (hist (lg_app l)) = filter (\<lambda>s. lc_seq (lg_committed l) < s) (map le_seq (lg_log l))"
    using sync by (simp_all add: app_synced_def)
  have trunc: "filter (\<lambda>s. c < s) (map le_seq (lg_log (truncated cp m))) =
      filter (\<lambda>s. c < s) (map le_seq (lg_log l))" if "lg_log m = lg_log l" "lc_seq cp \<le> c" for m :: "'s log_state" and c
    using that dropWhile_filter_sorted [OF log_chain_sorted [OF ch], of "lc_seq cp"]
    by (auto simp: truncated_def filter_map comp_def intro!: arg_cong [of _ _ "map le_seq"] filter_cong)
  have keep: "lg_app (truncated cp m) = lg_app m" "lg_committed (truncated cp m) = lg_committed m" for m :: "'s log_state"
    by (simp_all add: truncated_def)
  note eq = setCheckpoint_chain [of "mk_env sha parse ops" l cp]
  show ?thesis
  proof (cases "lc_seq (lg_committed l) < lc_seq cp")
    case True
    have "lc_seq (lg_stable l) < lc_seq cp" using st True by (rule le_less_trans)
    then have "lc_seq cp \<in> set (map fst (hist (lg_app l)))"
      using log_has_seq [OF ch _ cp(1)] True by (simp add: h)
    then obtain v where v: "(lc_seq cp, v) \<in> set (hist (lg_app l))" by auto
    obtain app' where a: "app_commit ops (lc_seq cp) (lg_app l) = Inr (True, app')" "ok app'"
        "hist app' = filter (\<lambda>p. lc_seq cp < fst p) (hist (lg_app l))" "committed app' = lc_seq cp"
      using commit_law [OF ok v] by metis
    let ?l' = "truncated cp (l\<lparr>lg_committed := cp, lg_app := app'\<rparr>)"
    have "map fst (hist app') = filter (\<lambda>i. lc_seq cp < i) (map fst (hist (lg_app l)))"
      by (simp add: a(3) filter_map comp_def)
    also have "\<dots> = filter (\<lambda>i. lc_seq cp < i) (map le_seq (lg_log l))"
      using True by (auto simp: h intro!: filter_cong)
    finally have "map fst (hist app') = filter (\<lambda>s. lc_seq cp < s) (map le_seq (lg_log ?l'))"
      using trunc [of "l\<lparr>lg_committed := cp, lg_app := app'\<rparr>" "lc_seq cp"] by simp
    then have "app_synced ok hist committed ?l'"
      using a(2,4) by (simp add: app_synced_def keep)
    then show ?thesis
      using eq ch cp a(1) True commit_keeps_view [OF ok v a(1)] by (auto simp: keep)
  next
    case False
    then have "app_synced ok hist committed (truncated cp l)"
      using ok com h trunc [of l "lc_seq (lg_committed l)"] by (simp add: app_synced_def keep)
    then show ?thesis using eq ch cp False by (auto simp: keep)
  qed
qed

lemma call_keeps:
  assumes "log_wf sha l \<and> app_synced ok hist committed l" and "call_fits (mk_env sha parse ops) a l"
    and "log_do (mk_env sha parse ops) a l = Inr l'"
  shows "log_wf sha l' \<and> app_synced ok hist committed l'"
proof (cases a)
  case (CallAddEntry c q req chk)
  let ?env = "mk_env sha parse ops"
  obtain added res where add: "addEntry ?env c q req [] chk l = Inr ((added, res), l')"
    using assms(3) CallAddEntry by (auto elim!: bindE_InrE)
  show ?thesis
  proof (cases added)
    case True
    then have "res \<noteq> []" "lg_nextSeq l + 1 \<noteq> 0" using assms(2) add CallAddEntry by simp_all
    then show ?thesis
      using addEntry_effect [of ?env l c q req "[]" chk res l'] synced_append [of l c q req "[]" chk res l'] assms(1) add True by simp
  next
    case False
    then obtain record' where l': "l' = l\<lparr>lg_clientRecord := record'\<rparr>"
      using addEntry_duplicateD [of ?env c q req "[]" chk l res l'] assms(1,2) add CallAddEntry by (auto simp: log_wf_def)
    show ?thesis
      unfolding l' using assms(1) by (simp add: log_wf_def log_chain_def app_synced_def)
  qed
next
  case (CallAbort s)
  then have s: "lc_seq (lg_committed l) < s" "s \<le> lg_nextSeq l" "log_abort (mk_env sha parse ops) s l = Inr l'"
    using assms(2,3) by simp_all
  show ?thesis
  proof (cases "s < lg_nextSeq l")
    case True
    then show ?thesis
      using log_abort_effect [of "mk_env sha parse ops" l s l'] synced_abort [of l s] assms(1) s by auto
  next
    case False
    then have "s = lg_nextSeq l" using s(2) by auto
    then have "l' = l" using s(3) by (simp add: log_abort_def)
    then show ?thesis using assms(1) by simp
  qed
next
  case (CallSetCheckpoint cp)
  then show ?thesis
    using setCheckpoint_effect [of "mk_env sha parse ops" l cp l'] synced_commit [of l cp] assms by auto
next
  case (CallAddCert s c)
  then obtain b where "addCert s c l = Inr (b, l')" using assms(3) by (auto elim!: bindE_InrE)
  from addCert_keeps [OF this] show ?thesis using assms(1) by (simp add: log_wf_def log_chain_def app_synced_def)
qed (use assms(2) in simp_all)

lemma run_invariant:
  assumes "log_run (mk_env sha parse ops) calls (log_init app0) = Inr l"
    and "calls_fit (mk_env sha parse ops) calls (log_init app0)"
    and "ok app0" "hist app0 = []" "committed app0 = 0"
  shows "log_wf sha l \<and> app_synced ok hist committed l"
proof (rule log_run_keeps [OF _ assms(1,2)])
  show "log_wf sha l' \<and> app_synced ok hist committed l'"
    if "log_wf sha l \<and> app_synced ok hist committed l" "call_fits (mk_env sha parse ops) a l"
      "log_do (mk_env sha parse ops) a l = Inr l'" for a l l'
    using that by (rule call_keeps)
  show "log_wf sha (log_init app0) \<and> app_synced ok hist committed (log_init app0)"
    using assms(3-5) log_wf_init by (auto simp: app_synced_def log_init_def initial_checkpoint_def)
qed

text \<open>What a batch of appends does to the log and to the application's history.\<close>

lemma append_all_effect:
  assumes "append_all (mk_env sha parse ops) xs l = Some t"
    and "log_wf sha l" and "app_synced ok hist committed l" and "unat (lg_nextSeq l) + length xs < 2 ^ 32"
  shows "log_wf sha t \<and> app_synced ok hist committed t \<and>
    unat (lg_nextSeq t) = unat (lg_nextSeq l) + length xs \<and>
    lg_committed t = lg_committed l \<and> lg_stable t = lg_stable l \<and> base (lg_app t) = base (lg_app l) \<and>
    (\<exists>es h. lg_log t = lg_log l @ es \<and> hist (lg_app t) = hist (lg_app l) @ h \<and>
       (\<forall>e \<in> set es. lg_nextSeq l \<le> le_seq e) \<and> (\<forall>p \<in> set h. lg_nextSeq l \<le> fst p))"
  using assms
proof (induction xs arbitrary: l)
  case (Cons x xs)
  obtain c q req where x: "x = (c, q, req)" by (cases x)
  obtain res m where add: "addEntry (mk_env sha parse ops) c q req [] True l = Inr ((True, res), m)"
    and res: "res \<noteq> []" and rest: "append_all (mk_env sha parse ops) xs m = Some t"
    using append_all_ConsE [OF Cons.prems(1) [unfolded x]] .
  have "unat (lg_nextSeq l) + 1 < 2 ^ 32" using Cons.prems(4) by simp
  note nxt = unat_Suc_no_wrap [OF this]
  have wf': "log_wf (env_sha (mk_env sha parse ops)) l" using Cons.prems(2) by simp
  note eff = addEntry_effect [OF wf' nxt(2) add]
  then obtain e where m: "log_wf sha m" "lg_nextSeq m = lg_nextSeq l + 1" "lg_stable m = lg_stable l"
      "lg_committed m = lg_committed l" "lg_log m = lg_log l @ [e]" "le_seq e = lg_nextSeq l"
    by (auto simp: entry_id_def)
  obtain v where h: "app_synced ok hist committed m" "base (lg_app m) = base (lg_app l)"
      "hist (lg_app m) = hist (lg_app l) @ [(lg_nextSeq l, v)]"
    using synced_append [OF Cons.prems(2,3) add res] by blast
  have "unat (lg_nextSeq m) + length xs < 2 ^ 32" using Cons.prems(4) m(2) nxt(1) by simp
  note IH = Cons.IH [OF rest m(1) h(1) this]
  obtain es hs where t: "lg_log t = lg_log m @ es" "hist (lg_app t) = hist (lg_app m) @ hs"
      "\<forall>e \<in> set es. lg_nextSeq m \<le> le_seq e" "\<forall>p \<in> set hs. lg_nextSeq m \<le> fst p"
    using IH by blast
  have up: "lg_nextSeq l \<le> s" if "lg_nextSeq m \<le> s" for s
    using that nxt(1) by (simp add: m(2) word_le_nat_alt)
  have "lg_log t = lg_log l @ (e # es)" "hist (lg_app t) = hist (lg_app l) @ ((lg_nextSeq l, v) # hs)"
      "\<forall>e' \<in> set (e # es). lg_nextSeq l \<le> le_seq e'"
      "\<forall>p \<in> set ((lg_nextSeq l, v) # hs). lg_nextSeq l \<le> fst p"
    using t m(5,6) h(3) up by auto
  then show ?case using IH m h nxt(1) by auto
qed simp

text \<open>A batch of appends followed by an abort at its first number restores entries, history and
  contents.\<close>

lemma append_all_undone:
  assumes "append_all (mk_env sha parse ops) (x # xs) l = Some t"
    and "log_wf sha l" and "app_synced ok hist committed l"
    and "unat (lg_nextSeq l) + length (x # xs) < 2 ^ 32"
  shows "\<exists>t'. log_abort (mk_env sha parse ops) (lg_nextSeq l) t = Inr t' \<and> lg_log t' = lg_log l \<and>
    app_synced ok hist committed t' \<and> hist (lg_app t') = hist (lg_app l) \<and>
    view (lg_app t') = view (lg_app l) \<and> lg_clientRecord t' = lg_clientRecord t"
proof -
  note eff = append_all_effect [OF assms]
  obtain es h where t: "lg_log t = lg_log l @ es" "hist (lg_app t) = hist (lg_app l) @ h"
      "\<forall>e \<in> set es. lg_nextSeq l \<le> le_seq e" "\<forall>p \<in> set h. lg_nextSeq l \<le> fst p"
    using eff by blast
  have ch: "log_chain sha l" using assms(2) by (rule log_wf_chain)
  have lt: "lc_seq (lg_committed t) < lg_nextSeq l" "lg_nextSeq l < lg_nextSeq t"
    using eff assms(2) by (auto simp: log_wf_def word_less_nat_alt)
  obtain t' where t': "log_abort (mk_env sha parse ops) (lg_nextSeq l) t = Inr t'"
      "app_synced ok hist committed t'" "lg_log t' = takeWhile (\<lambda>e. le_seq e < lg_nextSeq l) (lg_log t)"
      "hist (lg_app t') = filter (\<lambda>p. fst p < lg_nextSeq l) (hist (lg_app t))"
      "base (lg_app t') = base (lg_app t)" "lg_clientRecord t' = lg_clientRecord t"
    using synced_abort [OF _ _ lt] eff by blast
  have below: "\<forall>e \<in> set (lg_log l). le_seq e < lg_nextSeq l" using log_entry_below [OF ch] by blast
  have "fst ` set (hist (lg_app l)) \<subseteq> le_seq ` set (lg_log l)"
    using assms(3) arg_cong [of _ _ set] unfolding app_synced_def by (metis filter_is_subset list.set_map)
  then have hb: "\<forall>p \<in> set (hist (lg_app l)). fst p < lg_nextSeq l" using below by auto
  have "takeWhile (\<lambda>e. le_seq e < lg_nextSeq l) es = []" using t(3) by (cases es) auto
  then have log': "lg_log t' = lg_log l" using below by (simp add: t' t takeWhile_append2)
  have "filter (\<lambda>p. fst p < lg_nextSeq l) h = []" using t(4) by (auto simp: filter_empty_conv)
  then have hist': "hist (lg_app t') = hist (lg_app l)" using hb by (simp add: t' t filter_id_conv)
  have "ok (lg_app l)" "ok (lg_app t')" using assms(3) t'(2) by (simp_all add: app_synced_def)
  then have "view (lg_app t') = view (lg_app l)"
    using view_hist hist' t'(5) eff by simp
  then show ?thesis using t' log' hist' by blast
qed

end

interpretation counter_log: replicated_log
  "counter_ops cparse cser" counter_ok ctr_counter ctr_committedValue counter_hist ctr_committedIdx sha parse
  for sha and parse :: "bytes \<Rightarrow> padded_request_data option" and cparse cser
  by unfold_locales

interpretation kv_log: replicated_log
  "kv_ops kparse kser ksha perm" kv_ok "\<lambda>s. map_of (kv_data s)" "\<lambda>s. map_of (kv_committedData s)"
  kv_hist kv_committedIdx sha parse
  for sha and parse :: "bytes \<Rightarrow> padded_request_data option" and kparse kser ksha perm
  by unfold_locales

section \<open>The client record of a log\<close>

lemma append_all_record:
  assumes "append_all env xs l = Some t" and "log_chain (env_sha env) l" and "rec_wf (lg_clientRecord l)"
    and "unat (lg_nextSeq l) + length xs < 2 ^ 32"
  shows "rec_wf (lg_clientRecord t) \<and> rec_seen (lg_clientRecord l) \<subseteq> rec_seen (lg_clientRecord t) \<and>
    (\<forall>(c, q, req) \<in> set xs. (c, q) \<in> rec_seen (lg_clientRecord t))"
  using assms
proof (induction xs arbitrary: l)
  case (Cons x xs)
  obtain c q req where x: "x = (c, q, req)" by (cases x)
  obtain res m where add: "addEntry env c q req [] True l = Inr ((True, res), m)"
    and rest: "append_all env xs m = Some t"
    using append_all_ConsE [OF Cons.prems(1) [unfolded x]] .
  obtain rd app' record' where "env_parse_padded env req = Some rd"
    and "app_execute (env_app env) (prd_req_data rd) (lg_nextSeq l) (lg_app l) = Inr (res, app')"
    and d: "dup_check True c q (lg_clientRecord l) = (True, record')"
    and m: "m = appended env c q req res record' app' l"
    by (rule addEntry_TrueD [OF add Cons.prems(2)])
  have "unat (lg_nextSeq l) + 1 < 2 ^ 32" using Cons.prems(4) by simp
  note nxt = unat_Suc_no_wrap [OF this]
  have r: "record' = snd (rec_update c q (lg_clientRecord l))" using d by (simp add: dup_check_def)
  have rm: "lg_clientRecord m = record'" by (simp add: m appended_def)
  have "rec_wf (lg_clientRecord m)" using rec_update_wf [OF Cons.prems(3)] by (simp add: rm r)
  moreover have "log_chain (env_sha env) m" unfolding m using Cons.prems(2) nxt(2) by (rule log_chain_appended)
  moreover have "unat (lg_nextSeq m) + length xs < 2 ^ 32" using Cons.prems(4) nxt(1) by (simp add: m appended_def)
  ultimately have IH: "rec_wf (lg_clientRecord t) \<and> rec_seen (lg_clientRecord m) \<subseteq> rec_seen (lg_clientRecord t) \<and>
    (\<forall>(c, q, req) \<in> set xs. (c, q) \<in> rec_seen (lg_clientRecord t))"
    using Cons.IH [OF rest] by blast
  have "rec_seen (lg_clientRecord m) = insert (c, q) (insert (c, 0) (rec_seen (lg_clientRecord l)))"
    unfolding rm r by (rule rec_seen_update [OF Cons.prems(3)])
  then show ?case using IH by (auto simp: x)
qed simp

lemma log_abort_record: "log_abort env s l = Inr l' \<Longrightarrow> lg_clientRecord l' = lg_clientRecord l"
  unfolding log_abort_def
  by (auto simp: Let_def split: if_splits prod.splits elim!: bindE_InrE)

lemma setCheckpoint_record: "setCheckpoint env cp l = Inr l' \<Longrightarrow> lg_clientRecord l' = lg_clientRecord l"
  unfolding setCheckpoint_def setStableCheckpoint_def
  by (auto simp: Let_def split: if_splits prod.splits elim!: bindE_InrE)

lemma addEntry_record:
  assumes "addEntry env c q req r0 chk l = Inr (br, l')"
  shows "lg_clientRecord l' = lg_clientRecord l \<or> lg_clientRecord l' = snd (rec_update c q (lg_clientRecord l))"
  using assms unfolding addEntry_def
  by (auto simp: Let_def split: if_splits prod.splits option.splits elim!: bindE_InrE)

lemma call_rec_wf:
  assumes "rec_wf (lg_clientRecord l)" and "call_fits env a l" and "log_do env a l = Inr l'"
  shows "rec_wf (lg_clientRecord l')"
proof (cases a)
  case (CallAddEntry c q req chk)
  then obtain br where "addEntry env c q req [] chk l = Inr (br, l')" using assms(3) by (auto elim!: bindE_InrE)
  then show ?thesis using addEntry_record assms(1) rec_update_wf by fastforce
next
  case (CallAddCert s c)
  then show ?thesis using assms(1,3) by (auto elim!: bindE_InrE dest: addCert_keeps)
qed (use assms in \<open>auto dest!: log_abort_record setCheckpoint_record\<close>)

lemma log_run_rec_wf:
  assumes "log_run env calls (log_init app0) = Inr l" and "calls_fit env calls (log_init app0)"
  shows "rec_wf (lg_clientRecord l)"
proof (rule log_run_keeps [OF _ assms])
  show "rec_wf (lg_clientRecord l')" if "rec_wf (lg_clientRecord l)" "call_fits env a l" "log_do env a l = Inr l'" for a l l'
    using that by (rule call_rec_wf)
qed (simp add: log_init_def)

lemma kv_init_ok: "kv_ok (kv_init g n)" "kv_hist (kv_init g n) = []" "kv_committedIdx (kv_init g n) = 0"
  by (simp_all add: kv_ok_def kv_hist_def kv_init_def Let_def)

section \<open>Properties\<close>

text \<open>A concrete environment over each application, for the witnesses: every request sets the key
  it consists of, or increments the counter.\<close>

definition demo_padded :: "bytes \<Rightarrow> padded_request_data option" where
  "demo_padded b = Some \<lparr>prd_req_data = b, prd_padding = []\<rparr>"

definition demo_kv_parse :: "bytes \<Rightarrow> kv_request option" where
  "demo_kv_parse b = Some \<lparr>kvr_msg_type = SET, kvr_key = b, kvr_value = Some [7]\<rparr>"

definition demo_kv_env :: "kvstore log_env" where
  "demo_kv_env = mk_env (\<lambda>b. b) demo_padded (kv_ops demo_kv_parse (\<lambda>_. Some [1]) (\<lambda>b. b) (\<lambda>d. d))"

definition demo_counter_env :: "counter log_env" where
  "demo_counter_env = mk_env (\<lambda>b. b) demo_padded (counter_ops (\<lambda>_. Some INCREMENT) (\<lambda>_. [1]))"

lemmas demo_log_defs = log_init_def initial_checkpoint_def kv_init_def kv_ops_def kv_execute_def
  demo_kv_env_def demo_counter_env_def demo_padded_def demo_kv_parse_def addEntry_def Let_def
  rec_update_def seq_update_def sm_at_def empty_sequence_def counter_ops_def counter_execute_def
  counter_store_def counter_init_def

lemma demo_kv_append:
  "\<exists>t. append_all demo_kv_env [(5, 1, [9])] (log_init (kv_init 0 0)) = Some t \<and> map le_seq (lg_log t) = [1] \<and>
     addEntry demo_kv_env 5 1 [9] [] True (log_init (kv_init 0 0)) = Inr ((True, [1]), t) \<and>
     lg_nextSeq t = 2 \<and> lg_committed t = initial_checkpoint"
  by (simp add: demo_log_defs)

lemma demo_counter_append:
  "\<exists>t. addEntry demo_counter_env 5 1 [9] [] True (log_init counter_init) = Inr ((True, [1]), t) \<and>
     map le_seq (lg_log t) = [1] \<and> lg_committed t = initial_checkpoint"
  by (simp add: demo_log_defs)


text \<open>C11: after any sequence of calls that fit the log (\<open>call_fits\<close>: requests that parse and that the application answers,
  aborts between the committed checkpoint and the end, checkpoints inside the log with its digest, no
  loading of foreign snapshots), made on a new log over the key-value store, the log is well formed and the
  store's uncommitted requests are exactly at the numbers of the uncommitted entries, above
  the committed index the two share.\<close>

theorem kv_log_invariant:
  assumes "log_run (mk_env sha parse (kv_ops kparse kser ksha perm)) calls (log_init (kv_init g n)) = Inr l"
    and "calls_fit (mk_env sha parse (kv_ops kparse kser ksha perm)) calls (log_init (kv_init g n))"
  shows "log_wf sha l \<and> kv_committedIdx (lg_app l) = lc_seq (lg_committed l) \<and>
    map kq_idx (kv_requests (lg_app l)) = filter (\<lambda>s. lc_seq (lg_committed l) < s) (map le_seq (lg_log l))"
  using kv_log.run_invariant [OF assms kv_init_ok]
  by (simp add: app_synced_def kv_hist_def effects_idx)

theorem kv_log_invariant_witness:
  "\<exists>l. log_run demo_kv_env [CallAddEntry 5 1 [9] True] (log_init (kv_init 0 0)) = Inr l \<and> map kq_idx (kv_requests (lg_app l)) = [1]"
proof -
  obtain t where t: "addEntry demo_kv_env 5 1 [9] [] True (log_init (kv_init 0 0)) = Inr ((True, [1]), t)"
    "map le_seq (lg_log t) = [1]" "lg_committed t = initial_checkpoint"
    using demo_kv_append by (elim exE conjE) (rule that, assumption+)
  have run: "log_run demo_kv_env [CallAddEntry 5 1 [9] True] (log_init (kv_init 0 0)) = Inr t"
    and fit: "calls_fit demo_kv_env [CallAddEntry 5 1 [9] True] (log_init (kv_init 0 0))"
    using t(1) by (simp_all add: log_init_def demo_kv_env_def demo_padded_def)
  show ?thesis
    using kv_log_invariant [OF run [unfolded demo_kv_env_def] fit [unfolded demo_kv_env_def]] t run
    by (intro exI [of _ t]) (simp add: initial_checkpoint_def)
qed

text \<open>The same for the counter: its uncommitted values are at the numbers of the uncommitted
  entries.\<close>

theorem counter_log_invariant:
  assumes "log_run (mk_env sha parse (counter_ops cparse cser)) calls (log_init counter_init) = Inr l"
    and "calls_fit (mk_env sha parse (counter_ops cparse cser)) calls (log_init counter_init)"
  shows "log_wf sha l \<and> ctr_committedIdx (lg_app l) = lc_seq (lg_committed l) \<and>
    map fst (counter_hist (lg_app l)) = filter (\<lambda>s. lc_seq (lg_committed l) < s) (map le_seq (lg_log l))"
proof -
  have "counter_hist counter_init = []" "ctr_committedIdx counter_init = 0"
    by (simp_all add: counter_hist_def counter_pending_def counter_init_def)
  then show ?thesis
    using counter_log.run_invariant [OF assms counter_ok_init] by (simp add: app_synced_def)
qed

theorem counter_log_invariant_witness:
  "\<exists>l. log_run demo_counter_env [CallAddEntry 5 1 [9] True] (log_init counter_init) = Inr l \<and> map fst (counter_hist (lg_app l)) = [1]"
proof -
  obtain t where t: "addEntry demo_counter_env 5 1 [9] [] True (log_init counter_init) = Inr ((True, [1]), t)"
    "map le_seq (lg_log t) = [1]" "lg_committed t = initial_checkpoint"
    using demo_counter_append by (elim exE conjE) (rule that, assumption+)
  have run: "log_run demo_counter_env [CallAddEntry 5 1 [9] True] (log_init counter_init) = Inr t"
    and fit: "calls_fit demo_counter_env [CallAddEntry 5 1 [9] True] (log_init counter_init)"
    using t(1) by (simp_all add: log_init_def demo_counter_env_def demo_padded_def)
  show ?thesis
    using counter_log_invariant [OF run [unfolded demo_counter_env_def] fit [unfolded demo_counter_env_def]] t run
    by (intro exI [of _ t]) (simp add: initial_checkpoint_def)
qed

text \<open>Speculation is undone at both levels: after a batch of new requests was appended to a
  log that a fitting sequence of calls has built, aborting at the first of them restores the entries and the contents of the
  store. The client record is not restored, so every request of the batch is refused as a
  duplicate from then on.\<close>

theorem kv_log_rollback:
  assumes "log_run (mk_env sha parse (kv_ops kparse kser ksha perm)) calls (log_init (kv_init g n)) = Inr l"
    and "calls_fit (mk_env sha parse (kv_ops kparse kser ksha perm)) calls (log_init (kv_init g n))"
    and "append_all (mk_env sha parse (kv_ops kparse kser ksha perm)) (x # xs) l = Some t"
    and "unat (lg_nextSeq l) + length (x # xs) < 2 ^ 32"
  shows "\<exists>t'. log_abort (mk_env sha parse (kv_ops kparse kser ksha perm)) (lg_nextSeq l) t = Inr t' \<and>
    lg_log t' = lg_log l \<and> map_of (kv_data (lg_app t')) = map_of (kv_data (lg_app l)) \<and>
    (\<forall>(c, q, req) \<in> set (x # xs). \<not> fst (rec_update c q (lg_clientRecord t')))"
proof -
  let ?env = "mk_env sha parse (kv_ops kparse kser ksha perm)"
  have inv: "log_wf sha l" "app_synced kv_ok kv_hist kv_committedIdx l"
    using kv_log.run_invariant [OF assms(1,2) kv_init_ok] by simp_all
  obtain t' where t': "log_abort ?env (lg_nextSeq l) t = Inr t'" "lg_log t' = lg_log l"
      "map_of (kv_data (lg_app t')) = map_of (kv_data (lg_app l))" "lg_clientRecord t' = lg_clientRecord t"
    using kv_log.append_all_undone [OF assms(3) inv assms(4)] by blast
  have "log_chain (env_sha ?env) l" using inv(1) by (simp add: log_wf_def)
  note rec = append_all_record [OF assms(3) this log_run_rec_wf [OF assms(1,2)] assms(4)]
  have "\<not> fst (rec_update c q (lg_clientRecord t'))" if "(c, q, req) \<in> set (x # xs)" for c q req
    using rec that rec_update_verdict [of "lg_clientRecord t" c q]
    by (force simp: t'(4) rec_seen_def)
  then show ?thesis using t' by blast
qed

theorem kv_log_rollback_witness:
  "\<exists>t t'. append_all demo_kv_env [(5, 1, [9])] (log_init (kv_init 0 0)) = Some t \<and>
     log_abort demo_kv_env 1 t = Inr t' \<and> lg_log t' = [] \<and> map_of (kv_data (lg_app t')) [9] = None \<and>
     \<not> fst (rec_update 5 1 (lg_clientRecord t'))"
proof -
  let ?l = "log_init (kv_init 0 0)"
  obtain t where t: "append_all demo_kv_env ((5, 1, [9]) # []) ?l = Some t"
    using demo_kv_append by (elim exE conjE) (rule that, assumption+)
  have run: "log_run demo_kv_env [] ?l = Inr ?l" and fit: "calls_fit demo_kv_env [] ?l" by simp_all
  have "unat (lg_nextSeq ?l) + length [(5 :: u32, 1 :: u32, [9] :: bytes)] < 2 ^ 32"
    by (simp add: log_init_def)
  from kv_log_rollback [OF run [unfolded demo_kv_env_def] fit [unfolded demo_kv_env_def] t [unfolded demo_kv_env_def] this]
  show ?thesis
    using t unfolding demo_kv_env_def [symmetric]
    by (auto simp: log_init_def kv_init_def)
qed

end
