(* ===== verification/Outbox.thy ===== *)
theory Outbox
  imports CommitOnce
begin

text \<open>
  What a replica sends: every message carries the type of its payload, goes to a configured
  address, and names the replica itself wherever the verification of the receiver looks for a
  sender. The frame lemmas of this theory follow the handlers one by one.
\<close>

section \<open>Well-typed messages\<close>

text \<open>The type under which each kind of payload is parsed.\<close>

fun payload_type :: "proto_msg \<Rightarrow> message_type" where
  "payload_type (M_ClientRequest _) = CLIENT_REQUEST"
| "payload_type (M_DOMRequest _) = DOM_REQUEST"
| "payload_type (M_DOMBatchRequest _) = DOM_BATCH_REQUEST"
| "payload_type (M_MeasurementReply _) = MEASUREMENT_REPLY"
| "payload_type (M_Reply _) = REPLY"
| "payload_type (M_Cert _) = CERT"
| "payload_type (M_CertReply _) = CERT_REPLY"
| "payload_type (M_CommittedReply _) = COMMITTED_REPLY"
| "payload_type (M_Commit _) = COMMIT"
| "payload_type (M_RepairTimeout _) = REPAIR_TIMEOUT"
| "payload_type (M_RepairReplyProof _) = REPAIR_REPLY_PROOF"
| "payload_type (M_RepairTimeoutProof _) = REPAIR_TIMEOUT_PROOF"
| "payload_type (M_RepairStart _) = REPAIR_START"
| "payload_type (M_RepairSummary _) = REPAIR_SUMMARY"
| "payload_type (M_PrePrepare _) = PBFT_PREPREPARE"
| "payload_type (M_Prepare _) = PBFT_PREPARE"
| "payload_type (M_PBFTCommit _) = PBFT_COMMIT"
| "payload_type (M_ViewUpdate _) = VIEW_UPDATE"
| "payload_type (M_SnapshotRequest _) = SNAPSHOT_REQUEST"
| "payload_type (M_SnapshotReply _) = SNAPSHOT_REPLY"
| "payload_type (M_MissingFetch _) = MISSING_REQUEST_FETCH"
| "payload_type (M_MissingReply _) = MISSING_REQUEST_REPLY"
| "payload_type (M_PSForward _) = PS_LEADER_FORWARD"
| "payload_type (M_PSOrder _) = PS_LEADER_ORDER"

fun configured :: "process_config \<Rightarrow> dest \<Rightarrow> bool" where
  "configured cfg (To_Client i) = (unat i < cfg_clientIps_size cfg)"
| "configured cfg (To_Replica i) = (unat i < cfg_replicaIps_size cfg)"
| "configured cfg _ = True"

text \<open>The replicas in whose name a payload speaks: the one that its receiver checks the signature of, and those of the
  committed replies inside a summary.\<close>

definition names :: "proto_msg \<Rightarrow> node_id set" where
  "names m = set_option (claimed_sender m) \<union>
     (case m of M_RepairSummary r \<Rightarrow> (\<lambda>x. (REPLICA, cr_replica_id x)) ` set (sum_replies r) | _ \<Rightarrow> {})"

definition outgoing :: "process_config \<Rightarrow> u32 \<Rightarrow> dest \<times> message_type \<times> proto_msg \<Rightarrow> bool" where
  "outgoing cfg i x =
     (case x of (dst, t, m) \<Rightarrow> t = payload_type m \<and> configured cfg dst \<and> names m \<subseteq> {(REPLICA, i)})"

text \<open>The collectors make commits and timeouts in the name of the replica.\<close>

definition cst_owned :: "u32 \<Rightarrow> collector_store \<Rightarrow> bool" where
  "cst_owned i cs \<longleftrightarrow> cst_replicaId cs = i \<and> (\<forall>p \<in> set (cst_collectors cs). cpc_replicaId (snd p) = i)"

lemma cst_owned_new [simp]: "cst_owned i (cst_new i)"
  by (simp add: cst_owned_def cst_new_def)

lemma sm_put_all: "\<forall>p \<in> set m. P (snd p) \<Longrightarrow> P v \<Longrightarrow> \<forall>p \<in> set (sm_put k v m). P (snd p)"
  by (induction k v m rule: sm_put.induct) (auto split: if_splits)

lemma cst_owned_put:
  "cst_owned i cs \<Longrightarrow> cpc_replicaId c = i \<Longrightarrow> cst_owned i (cs\<lparr>cst_collectors := sm_put k c (cst_collectors cs)\<rparr>)"
  unfolding cst_owned_def by (auto intro: sm_put_all [THEN bspec])

lemma cst_owned_id: "cst_owned i cs \<Longrightarrow> cst_replicaId cs = i"
  by (simp add: cst_owned_def)

lemma cst_owned_init: "cst_owned i cs \<Longrightarrow> cst_initCollector rd sq b cs = Inr (ok, cs') \<Longrightarrow> cst_owned i cs'"
  by (auto simp: cst_initCollector_def cpc_new_def cst_owned_id intro!: cst_owned_put split: if_splits)

lemma cst_owned_at: "cst_owned i cs \<Longrightarrow> cst_at rd sq cs = Inr c \<Longrightarrow> cpc_replicaId c = i"
  by (auto simp: cst_owned_def cst_at_def split: option.splits dest!: map_of_SomeD)

lemma cst_owned_set: "cst_owned i cs \<Longrightarrow> cpc_replicaId c = i \<Longrightarrow> cst_owned i (cst_set rd sq c cs)"
  unfolding cst_set_def by (rule cst_owned_put)

lemma cst_owned_clean: "cst_owned i cs \<Longrightarrow> cst_cleanStaleCollectors a b cs = Inr cs' \<Longrightarrow> cst_owned i cs'"
  by (auto simp: cst_owned_def cst_cleanStaleCollectors_def split: if_splits)


lemma cpc_replicaId_updates [simp]:
  "cpc_replicaId (cpc_addOwnState d r c) = cpc_replicaId c" "cpc_replicaId (cpc_addOwnSnapshot sn c) = cpc_replicaId c"
  "cpc_addAndCheckReply m now q sig c = (b, c') \<Longrightarrow> cpc_replicaId c' = cpc_replicaId c"
  "cpc_addAndCheckCommit sha m cm sig c = (b, c') \<Longrightarrow> cpc_replicaId c' = cpc_replicaId c"
  "cpc_addAndCheckTimeout m rt sig c = (b, c') \<Longrightarrow> cpc_replicaId c' = cpc_replicaId c"
  "cpc_checkSelfTimeout now t c = (b, c') \<Longrightarrow> cpc_replicaId c' = cpc_replicaId c"
  by (auto simp: cpc_addOwnState_def cpc_addOwnSnapshot_def cpc_addAndCheckReply_def cpc_addAndCheckCommit_def
      cpc_addAndCheckTimeout_def cpc_checkSelfTimeout_def Let_def split: prod.splits if_splits)

section \<open>The output of the replica\<close>

definition outbox :: "('s, 'k) replica_env \<Rightarrow> 's replica \<Rightarrow> bool" where
  "outbox env s \<longleftrightarrow> (\<forall>x \<in> set (rp_out s). outgoing (re_config env) (re_id env) x) \<and>
     (\<forall>m. rp_repairStart s = Some m \<longrightarrow> rs_replica_id m = re_id env) \<and> cst_owned (re_id env) (rp_collectors s)"

lemma outbox_init: "outbox env (replica_init env app)"
  by (simp add: outbox_def replica_init_def)

lemma outbox_now [simp]: "outbox (env\<lparr>re_now := n\<rparr>) s = outbox env s"
  by (simp add: outbox_def)

lemma outbox_updates [simp]:
  "outbox env (s\<lparr>rp_round := a1\<rparr>) = outbox env s" "outbox env (s\<lparr>rp_log := a2\<rparr>) = outbox env s"
  "outbox env (s\<lparr>rp_checkpointSnapshotRequested := a4\<rparr>) = outbox env s"
  "outbox env (s\<lparr>rp_checkpointTimeoutStart := a5\<rparr>) = outbox env s"
  "outbox env (s\<lparr>rp_checkpointTimeoutSeqs := a6\<rparr>) = outbox env s"
  "outbox env (s\<lparr>rp_repair := a7\<rparr>) = outbox env s" "outbox env (s\<lparr>rp_repairSnapshotRequested := a8\<rparr>) = outbox env s"
  "outbox env (s\<lparr>rp_repairTimeoutStart := a9\<rparr>) = outbox env s" "outbox env (s\<lparr>rp_repairViewStart := b1\<rparr>) = outbox env s"
  "outbox env (s\<lparr>rp_pendingRepair := b2\<rparr>) = outbox env s" "outbox env (s\<lparr>rp_curRoundStartSeq := b3\<rparr>) = outbox env s"
  "outbox env (s\<lparr>rp_repairQueuedReqs := b4\<rparr>) = outbox env s"
  "outbox env (s\<lparr>rp_repairProposal := b6\<rparr>) = outbox env s" "outbox env (s\<lparr>rp_proposalDigest := b7\<rparr>) = outbox env s"
  "outbox env (s\<lparr>rp_repairProposalLogSuffix := b8\<rparr>) = outbox env s"
  "outbox env (s\<lparr>rp_missingRequestFetchSent := b9\<rparr>) = outbox env s"
  "outbox env (s\<lparr>rp_pendingMissingRequests := c1\<rparr>) = outbox env s" "outbox env (s\<lparr>rp_preparedRound := c2\<rparr>) = outbox env s"
  "outbox env (s\<lparr>rp_viewPrepared := c3\<rparr>) = outbox env s"
  "outbox env (s\<lparr>rp_numConsecutiveViewChanges := c4\<rparr>) = outbox env s"
  "outbox env (s\<lparr>rp_lastPreparedState := c5\<rparr>) = outbox env s" "outbox env (s\<lparr>rp_replicaViews := c6\<rparr>) = outbox env s"
  "outbox env (s\<lparr>rp_repairPrepareSigs := c7\<rparr>) = outbox env s" "outbox env (s\<lparr>rp_repairCommitSigs := c8\<rparr>) = outbox env s"
  "outbox env (s\<lparr>rp_heldRequest := c9\<rparr>) = outbox env s" "outbox env (s\<lparr>rp_viewChangeRound := d1\<rparr>) = outbox env s"
  "outbox env (s\<lparr>rp_viewChangeCounter := d2\<rparr>) = outbox env s" "outbox env (s\<lparr>rp_holdPrepareOrCommit := d3\<rparr>) = outbox env s"
  "outbox env (s\<lparr>rp_psForwardBuffer := d4\<rparr>) = outbox env s" "outbox env (s\<lparr>rp_psOrderRequests := d5\<rparr>) = outbox env s"
  "outbox env (s\<lparr>rp_psOrderSeqs := d6\<rparr>) = outbox env s" "outbox env (s\<lparr>rp_snapshotQueue := d7\<rparr>) = outbox env s"
  "outbox env (s\<lparr>rp_repairHistorySigs := d9\<rparr>) = outbox env s" "outbox env (s\<lparr>rp_pbftView := e1\<rparr>) = outbox env s"
  "outbox env (s\<lparr>rp_repairPrepares := e2\<rparr>) = outbox env s" "outbox env (s\<lparr>rp_repairPBFTCommits := e3\<rparr>) = outbox env s"
  "outbox env (s\<lparr>rp_repairStartMsgs := e4\<rparr>) = outbox env s"
  by (simp_all add: outbox_def)

lemma outbox_collectors: "outbox env s \<Longrightarrow> cst_owned (re_id env) cs \<Longrightarrow> outbox env (s\<lparr>rp_collectors := cs\<rparr>)"
  by (simp add: outbox_def)

lemma outbox_owned: "outbox env s \<Longrightarrow> cst_owned (re_id env) (rp_collectors s)"
  by (simp add: outbox_def)

lemma outbox_start: "outbox env s \<Longrightarrow> rs_replica_id m = re_id env \<Longrightarrow> outbox env (s\<lparr>rp_repairStart := Some m\<rparr>)"
  by (simp add: outbox_def)

lemma outbox_send:
  "outbox env s \<Longrightarrow> outgoing (re_config env) (re_id env) (dst, t, m) \<Longrightarrow> outbox env (sendMsgToDst env m t dst s)"
  "outbox env s \<Longrightarrow> outgoing (re_config env) (re_id env) (To_Replicas, t, m) \<Longrightarrow> outbox env (broadcastToReplicas env m t s)"
  "outbox env s \<Longrightarrow> outgoing (re_config env) (re_id env) (To_Others, t, m) \<Longrightarrow> outbox env (sendToOthers m t s)"
  by (auto simp: outbox_def sendMsgToDst_def broadcastToReplicas_def sendToOthers_def)

lemma configured_addr:
  "client_addr env i = Inr dst \<Longrightarrow> configured (re_config env) dst"
  "replica_addr env i = Inr dst \<Longrightarrow> configured (re_config env) dst"
  by (auto simp: client_addr_def replica_addr_def split: if_splits)

lemmas outgoing_simps = outgoing_def names_def claimed_sender_def

lemmas sending = outbox_send outbox_start outbox_collectors


lemma outbox_owned_init:
  "outbox env s \<Longrightarrow> cst_initCollector rd sq b (rp_collectors s) = Inr (ok, cs) \<Longrightarrow> cst_owned (re_id env) cs"
  by (rule cst_owned_init [OF outbox_owned])

lemma outbox_owned_at: "outbox env s \<Longrightarrow> cst_at rd sq (rp_collectors s) = Inr c \<Longrightarrow> cpc_replicaId c = re_id env"
  by (rule cst_owned_at [OF outbox_owned])

lemma outbox_init_at:
  "outbox env s \<Longrightarrow> cst_initCollector rd sq b (rp_collectors s) = Inr (ok, cs) \<Longrightarrow> cst_at r q cs = Inr c \<Longrightarrow>
     cpc_replicaId c = re_id env"
  by (rule cst_owned_at [OF outbox_owned_init])

lemmas owned = outbox_owned outbox_owned_init outbox_owned_at outbox_init_at

section \<open>Requests, replies and checkpoints\<close>

lemma sends_startCheckpoint: "startCheckpoint env b s = Inr s' \<Longrightarrow> outbox env s \<Longrightarrow> outbox env s'"
  by (auto simp: startCheckpoint_def Let_def outgoing_simps elim!: bindE_InrE intro!: sending cst_owned_set
      split: if_splits prod.splits) (blast intro: owned)+

lemma sends_request: "processClientRequest env r q s = Inr s' \<Longrightarrow> outbox env s \<Longrightarrow> outbox env s'"
  by (auto simp: processClientRequest_def Let_def outgoing_simps elim!: bindE_InrE
      intro!: sending dest!: configured_addr sends_startCheckpoint split: if_splits prod.splits)

lemma sends_hold: "holdAndSwapCliReq env r s = Inr s' \<Longrightarrow> outbox env s \<Longrightarrow> outbox env s'"
  by (auto simp: holdAndSwapCliReq_def elim!: bindE_InrE dest!: sends_request split: option.splits)

lemma sends_cert: "processCert env c s = Inr s' \<Longrightarrow> outbox env s \<Longrightarrow> outbox env s'"
  by (auto simp: processCert_def outgoing_simps elim!: bindE_InrE intro!: sending dest!: configured_addr
      split: list.splits if_splits prod.splits)

lemma sends_startRepair: "startRepair env s = Inr s' \<Longrightarrow> outbox env s \<Longrightarrow> outbox env s'"
  by (auto simp: startRepair_def Let_def outgoing_simps elim!: bindE_InrE intro!: sending dest!: configured_addr split: if_splits)

lemma sends_timeoutReply: "processTimeoutReply env r s = Inr s' \<Longrightarrow> outbox env s \<Longrightarrow> outbox env s'"
  by (auto simp: processTimeoutReply_def Let_def dest!: sends_startCheckpoint split: if_splits prod.splits)

lemma sends_ownCommit:
  "sendOwnCommit env c s = Inr s' \<Longrightarrow> outbox env s \<Longrightarrow> cpc_replicaId c = re_id env \<Longrightarrow> outbox env s'"
  by (auto simp: sendOwnCommit_def cpc_getOwnCommit_def outgoing_simps elim!: bindE_InrE intro!: sending
      split: if_splits option.splits)

lemma sends_collectedReply: "processCollectedReply env r sig s = Inr s' \<Longrightarrow> outbox env s \<Longrightarrow> outbox env s'"
  by (auto simp: processCollectedReply_def Let_def outgoing_simps elim!: bindE_InrE intro!: sending cst_owned_set
      dest!: sends_ownCommit sends_startRepair split: if_splits prod.splits) (blast intro: owned)+


lemma sends_reply: "processReply env r sig s = Inr s' \<Longrightarrow> outbox env s \<Longrightarrow> outbox env s'"
  by (auto simp: processReply_def elim!: bindE_InrE dest!: sends_timeoutReply sends_collectedReply split: if_splits)

lemma sends_snapshot: "processSnapshot env sn rd s = Inr s' \<Longrightarrow> outbox env s \<Longrightarrow> outbox env s'"
  by (auto simp: processSnapshot_def Let_def elim!: bindE_InrE intro!: sending cst_owned_set
      dest!: sends_ownCommit split: if_splits) (blast intro: owned)+

lemma sends_snapshotRequest: "sendSnapshotRequest env i n s = Inr s' \<Longrightarrow> outbox env s \<Longrightarrow> outbox env s'"
  by (auto simp: sendSnapshotRequest_def outgoing_simps elim!: bindE_InrE intro!: sending dest!: configured_addr)

lemma sends_install: "installCheckpoint env cp s = Inr s' \<Longrightarrow> outbox env s \<Longrightarrow> outbox env s'"
  by (auto simp: installCheckpoint_def elim!: bindE_InrE intro!: sending dest: cst_owned_clean [OF outbox_owned])

lemma sends_useCheckpoint: "useCheckpoint env b cp s = Inr s' \<Longrightarrow> outbox env s \<Longrightarrow> outbox env s'"
  by (auto simp: useCheckpoint_def Let_def elim!: bindE_InrE dest!: sends_snapshotRequest sends_install split: if_splits)

lemma sends_commit: "processCommit env c sig s = Inr s' \<Longrightarrow> outbox env s \<Longrightarrow> outbox env s'"
  by (auto simp: processCommit_def Let_def elim!: bindE_InrE intro!: sending cst_owned_set
      dest!: sends_useCheckpoint split: if_splits prod.splits) (blast intro: owned)+

lemma sends_transfer:
  "processSnapshotRequest env r s = Inr s' \<Longrightarrow> outbox env s \<Longrightarrow> outbox env s'"
  "processMissingRequestFetch env f s = Inr s' \<Longrightarrow> outbox env s \<Longrightarrow> outbox env s'"
  by (auto simp: processSnapshotRequest_def processMissingRequestFetch_def Let_def outgoing_simps elim!: bindE_InrE
      intro!: sending dest!: configured_addr split: if_splits)

lemma sends_missingFetch [simp]: "outbox env s \<Longrightarrow> outbox env (sendMissingRequestFetch env ms s)"
  by (simp add: sendMissingRequestFetch_def outgoing_simps sending)

section \<open>Repairs\<close>

lemma sends_suffix: "getRepairLogSuffix env s = Inr (x, s') \<Longrightarrow> outbox env s \<Longrightarrow> outbox env s'"
  by (auto simp: getRepairLogSuffix_def elim!: bindE_InrE split: option.splits if_splits)

lemma sends_foldE:
  assumes "foldE f xs s = Inr s'" and "outbox env s"
    and "\<And>x s s'. f x s = Inr s' \<Longrightarrow> outbox env s \<Longrightarrow> outbox env s'"
  shows "outbox env s'"
  using assms(1) by (rule foldE_invariant [where P = "outbox env"]) (auto intro: assms(2) dest: assms(3))

text \<open>A summary and the replies in it name the replica that makes it.\<close>

definition own_summary :: "u32 \<Rightarrow> repair_summary \<Rightarrow> bool" where
  "own_summary i m \<longleftrightarrow> sum_replica_id m = i \<and> (\<forall>r \<in> set (sum_replies m). cr_replica_id r = i)"

lemma own_summary_add:
  "own_summary i m \<Longrightarrow> cr_replica_id r = i \<Longrightarrow> own_summary i (m\<lparr>sum_replies := sum_replies m @ [r]\<rparr>)"
  by (auto simp: own_summary_def)

lemma own_summary_at:
  "\<forall>p \<in> set ms. own_summary i (snd p) \<Longrightarrow> own_summary i fresh \<Longrightarrow> own_summary i (sm_at fresh ms c)"
  by (auto simp: sm_at_def split: option.split dest!: map_of_SomeD)

lemma summary_step_own:
  assumes "\<forall>p \<in> set ms. own_summary (re_id env) (snd p)"
  shows "\<forall>p \<in> set (summary_step env s e ms). own_summary (re_id env) (snd p)"
  unfolding summary_step_def Let_def
  by (intro sm_put_all [OF assms] own_summary_add own_summary_at [OF assms]) (simp_all add: own_summary_def)

lemma sends_summaries:
  assumes "foldE (\<lambda>(c, summary) s'. bindE (client_addr env c) (\<lambda>dst.
      Inr (sendMsgToDst env (M_RepairSummary summary) REPAIR_SUMMARY dst s'))) ms s = Inr s'"
    and "outbox env s" and "\<forall>p \<in> set ms. own_summary (re_id env) (snd p)"
  shows "outbox env s'"
  using assms
proof (induction ms arbitrary: s)
  case (Cons p ms)
  obtain c m where p: "p = (c, m)" by (cases p)
  obtain dst where dst: "client_addr env c = Inr dst" using Cons.prems(1) p by (auto elim!: bindE_InrE)
  have "outbox env (sendMsgToDst env (M_RepairSummary m) REPAIR_SUMMARY dst s)"
    using Cons.prems(2,3) p configured_addr(1) [OF dst] by (auto simp: outgoing_simps own_summary_def intro!: sending)
  then show ?case using Cons.IH Cons.prems(1,3) p dst by simp
qed simp

lemma sends_summary:
  assumes "sendRepairSummaryToClients env s = Inr s'" and "outbox env s"
  shows "outbox env s'"
proof -
  obtain ms where ms: "foldE (\<lambda>sq ms. bindE (getEntry sq (rp_log s)) (\<lambda>e. Inr (summary_step env s e ms)))
        (seqs_between (lc_seq (lg_committed (rp_log s)) + 1) (lg_nextSeq (rp_log s))) [] = Inr ms"
    and send: "foldE (\<lambda>(c, summary) s'. bindE (client_addr env c) (\<lambda>dst.
        Inr (sendMsgToDst env (M_RepairSummary summary) REPAIR_SUMMARY dst s'))) ms s = Inr s'"
    using assms(1) unfolding sendRepairSummaryToClients_def by (elim bindE_InrE)
  have "\<forall>p \<in> set ms. own_summary (re_id env) (snd p)"
    using ms by (rule foldE_invariant [where P = "\<lambda>ms. \<forall>p \<in> set ms. own_summary (re_id env) (snd p)"])
      (auto elim!: bindE_InrE dest: summary_step_own [THEN bspec])
  from sends_summaries [OF send assms(2) this] show ?thesis .
qed

lemma sends_repairSnapshot: "repairSnapshotCommit env sq s = Inr s' \<Longrightarrow> outbox env s \<Longrightarrow> outbox env s'"
  by (auto simp: repairSnapshotCommit_def Let_def outgoing_simps elim!: bindE_InrE intro!: sending
      split: if_splits prod.splits) (blast intro: owned)+

lemma sends_repairCheckpoint: "repairCheckpoint env s = Inr s' \<Longrightarrow> outbox env s \<Longrightarrow> outbox env s'"
  by (auto simp: repairCheckpoint_def repairDirectCheckpoint_def Let_def elim!: bindE_InrE
      dest!: sends_suffix sends_repairSnapshot split: if_splits prod.splits list.splits)

lemma sends_clear [simp]: "outbox env (clearRepair ab s) = outbox env s" "outbox env (nextRound s) = outbox env s"
  by (simp_all add: clearRepair_def nextRound_def Let_def)

lemma sends_resume: "resumeRound env ab s = Inr s' \<Longrightarrow> outbox env s \<Longrightarrow> outbox env s'"
  unfolding resumeRound_def Let_def
  by (elim bindE_InrE, drule sends_foldE [where env = env])
    (auto dest: sends_request sends_startRepair split: if_splits)

lemma sends_finish: "finishRepair env ab s = Inr s' \<Longrightarrow> outbox env s \<Longrightarrow> outbox env s'"
  unfolding finishRepair_def
  by (elim bindE_InrE) (auto dest!: sends_summary sends_repairCheckpoint sends_resume)

lemma sends_apply: "applyRepair env sfx av ab s = Inr (b, s') \<Longrightarrow> outbox env s \<Longrightarrow> outbox env s'"
  by (auto simp: applyRepair_def Let_def elim!: bindE_InrE dest!: sends_finish split: if_splits)

lemma sends_tryFinish: "tryFinishRepair env s = Inr s' \<Longrightarrow> outbox env s \<Longrightarrow> outbox env s'"
  by (auto simp: tryFinishRepair_def Let_def elim!: bindE_InrE split: if_splits option.splits
      dest!: sends_suffix sends_finish sends_apply sends_snapshotRequest)


lemma sends_prePreparePhase [simp]: "outbox env s \<Longrightarrow> outbox env (doPrePreparePhase env rd s)"
  by (auto simp: doPrePreparePhase_def Let_def outgoing_simps intro!: sending)

lemma sends_preparePhase: "doPreparePhase env s = Inr s' \<Longrightarrow> outbox env s \<Longrightarrow> outbox env s'"
  by (auto simp: doPreparePhase_def outgoing_simps elim!: bindE_InrE intro!: sending dest!: sends_suffix split: option.splits)

lemma sends_commitPhase: "doCommitPhase env s = Inr s' \<Longrightarrow> outbox env s \<Longrightarrow> outbox env s'"
  by (auto simp: doCommitPhase_def Let_def outgoing_simps elim!: bindE_InrE intro!: sending
      dest!: sends_suffix configured_addr split: option.splits if_splits)

lemma sends_prePrepare: "processPrePrepare env p s = Inr s' \<Longrightarrow> outbox env s \<Longrightarrow> outbox env s'"
  by (auto simp: processPrePrepare_def Let_def dest!: sends_preparePhase split: if_splits)

lemma sends_record [simp]: "outbox env (record_prepared p s) = outbox env s" "outbox env (storePrepare pr sig s) = outbox env s"
  "outbox env (storeCommit c sig s) = outbox env s"
  by (simp_all add: record_prepared_def storePrepare_def storeCommit_def Let_def)

lemma sends_prepareDone: "prepareDone env s = Inr s' \<Longrightarrow> outbox env s \<Longrightarrow> outbox env s'"
  by (auto simp: prepareDone_def elim!: bindE_InrE dest!: sends_commitPhase split: if_splits)

lemma sends_prepare: "processPrepare env p sig s = Inr s' \<Longrightarrow> outbox env s \<Longrightarrow> outbox env s'"
  by (auto simp: processPrepare_def countPrepares_def dest!: sends_prepareDone split: if_splits option.splits)

lemma sends_pbftCommit: "processPBFTCommit env c sig s = Inr s' \<Longrightarrow> outbox env s \<Longrightarrow> outbox env s'"
  by (auto simp: processPBFTCommit_def countCommits_def dest!: sends_tryFinish split: if_splits option.splits)

lemma viewChangeStart_own: "viewChangeStart env s = Inr m \<Longrightarrow> outbox env s \<Longrightarrow> rs_replica_id m = re_id env"
  by (auto simp: viewChangeStart_def outbox_def Let_def split: if_splits option.splits)

lemma sends_viewChange: "startViewChange env v s = Inr s' \<Longrightarrow> outbox env s \<Longrightarrow> outbox env s'"
  by (auto simp: startViewChange_def Let_def outgoing_simps elim!: bindE_InrE intro!: sending sends_prePreparePhase
      dest!: configured_addr viewChangeStart_own split: if_splits)

lemma sends_view: "updateReplicaView env i v rd s = Inr s' \<Longrightarrow> outbox env s \<Longrightarrow> outbox env s'"
  by (auto simp: updateReplicaView_def Let_def dest!: sends_viewChange split: if_splits)

lemma sends_trigger:
  "processRepairReplyProof env p s = Inr s' \<Longrightarrow> outbox env s \<Longrightarrow> outbox env s'"
  "processRepairTimeoutProof env q s = Inr s' \<Longrightarrow> outbox env s \<Longrightarrow> outbox env s'"
  by (auto simp: processRepairReplyProof_def processRepairTimeoutProof_def outgoing_simps elim!: bindE_InrE intro!: sending
      dest!: sends_view sends_startRepair split: if_splits)

lemma sends_repairTimeout: "processRepairTimeout env r sig s = Inr s' \<Longrightarrow> outbox env s \<Longrightarrow> outbox env s'"
  by (auto simp: processRepairTimeout_def Let_def outgoing_simps elim!: bindE_InrE intro!: sending cst_owned_set
      dest!: sends_startRepair split: if_splits prod.splits) (blast intro: owned)+

lemma sends_repairStart [simp]: "outbox env s \<Longrightarrow> outbox env (processRepairStart env m sig s)"
  by (auto simp: processRepairStart_def Let_def)

lemma sends_duringRepair: "snapshotDuringRepair env m s = Inr (b, s') \<Longrightarrow> outbox env s \<Longrightarrow> outbox env s'"
  by (auto simp: snapshotDuringRepair_def elim!: bindE_InrE intro!: sending dest!: sends_suffix sends_apply
      split: if_splits prod.splits) (blast intro: cst_owned_clean [OF outbox_owned])+


lemma sends_resend: "resendReply env sq s = Inr s' \<Longrightarrow> outbox env s \<Longrightarrow> outbox env s'"
  by (auto simp: resendReply_def outgoing_simps elim!: bindE_InrE intro!: sending dest!: configured_addr)

lemma sends_resend_all: "foldE (resendReply env) xs s = Inr s' \<Longrightarrow> outbox env s \<Longrightarrow> outbox env s'"
  by (erule (1) sends_foldE) (rule sends_resend)

lemma sends_alignment: "snapshotAlignment env m s = Inr s' \<Longrightarrow> outbox env s \<Longrightarrow> outbox env s'"
  by (auto simp: snapshotAlignment_def elim!: bindE_InrE intro!: sending dest!: sends_resend_all
      split: if_splits prod.splits) (blast intro: cst_owned_clean [OF outbox_owned])+

lemma sends_snapshotReply: "processSnapshotReply env m s = Inr s' \<Longrightarrow> outbox env s \<Longrightarrow> outbox env s'"
  by (auto simp: processSnapshotReply_def Let_def elim!: bindE_InrE dest!: sends_duringRepair sends_alignment
      split: if_splits prod.splits)

lemma sends_missing_step: "outbox env s \<Longrightarrow> outbox env (fold missing_reply_step ds s)"
  by (induction ds arbitrary: s) (simp_all add: missing_reply_step_def Let_def)

lemma sends_missing:
  "processMissingRequestReply env m s = Inr s' \<Longrightarrow> outbox env s \<Longrightarrow> outbox env s'"
  "queueDuringRepair env d r s = Inr s' \<Longrightarrow> outbox env s \<Longrightarrow> outbox env s'"
  using sends_missing_step [of env s "mrr_requests m"]
  by (auto simp: processMissingRequestReply_def queueDuringRepair_def Let_def dest!: sends_tryFinish split: if_splits)

section \<open>Timeouts and the process thread\<close>

lemma sends_timeout_step:
  assumes "outbox env s" and "cpc_replicaId coll = re_id env"
  shows "outbox env (let (fired, coll') = cpc_checkSelfTimeout (re_now env) t coll;
             s1 = s\<lparr>rp_collectors := cst_set rd sq coll' (rp_collectors s)\<rparr>
         in if fired
            then broadcastToReplicas env
                   (M_RepairTimeout \<lparr>rt_replica_id = re_id env, rt_round = rp_round s, rt_view = rp_pbftView s, rt_seq = sq\<rparr>)
                   REPAIR_TIMEOUT s1
            else s1)"
  using assms by (auto simp: Let_def outgoing_simps intro!: sending cst_owned_set outbox_owned split: prod.splits)

lemma sends_collector_timeouts: "outbox env s \<Longrightarrow> outbox env (collector_timeouts env s)"
proof -
  have "outbox env (fold (\<lambda>(k, coll) s'.
         let (fired, coll') = cpc_checkSelfTimeout (re_now env) (cfg_replicaCheckpointTimeout (re_config env)) coll;
             s1 = s'\<lparr>rp_collectors := cst_set (fst k) (snd k) coll' (rp_collectors s')\<rparr>
         in if fired
            then broadcastToReplicas env
                   (M_RepairTimeout \<lparr>rt_replica_id = re_id env, rt_round = rp_round s', rt_view = rp_pbftView s', rt_seq = snd k\<rparr>)
                   REPAIR_TIMEOUT s1
            else s1) xs t)"
    if "outbox env t" and "\<forall>p \<in> set xs. cpc_replicaId (snd p) = re_id env" for xs t
    using that
  proof (induction xs arbitrary: t)
    case (Cons x xs)
    then show ?case using sends_timeout_step [of env t "snd x"] by (cases x) simp
  qed simp
  then show "outbox env s \<Longrightarrow> outbox env (collector_timeouts env s)"
    using outbox_owned [of env s] unfolding collector_timeouts_def cst_owned_def by blast
qed

lemma sends_checkTimeouts: "checkTimeouts env s = Inr s' \<Longrightarrow> outbox env s \<Longrightarrow> outbox env s'"
  using sends_collector_timeouts [of env s]
  by (auto simp: checkTimeouts_def Let_def elim!: bindE_InrE dest!: sends_startCheckpoint sends_viewChange split: if_splits)

lemma sends_drain: "drain_forward env k s = Inr s' \<Longrightarrow> outbox env s \<Longrightarrow> outbox env s'"
proof (induction env k s arbitrary: s' rule: drain_forward.induct)
  case (1 env k s)
  from "1.prems"(1) consider "s' = s" | req s1 where "map_of (rp_psForwardBuffer s) k = Some req"
    "processClientRequest env req False s = Inr s1"
    "drain_forward env (k + 1) (s1\<lparr>rp_psForwardBuffer := sm_del k (rp_psForwardBuffer s1)\<rparr>) = Inr s'"
    by (subst (asm) drain_forward.simps) (auto elim!: bindE_InrE split: option.splits)
  then show ?case
  proof cases
    case 2
    then show ?thesis using "1.IH" [OF 2] "1.prems"(2) sends_request by fastforce
  qed (use "1.prems" in simp)
qed

lemma sends_ordered: "checkPSOrderRequests env s = Inr s' \<Longrightarrow> outbox env s \<Longrightarrow> outbox env s'"
proof (induction env s arbitrary: s' rule: checkPSOrderRequests.induct)
  case (1 env s)
  from "1.prems"(1) consider "s' = s" | key req s1 where "map_of (rp_psOrderSeqs s) (lg_nextSeq (rp_log s)) = Some key"
    "map_of (rp_psOrderRequests s) key = Some req"
    "processClientRequest env req False (s\<lparr>rp_psOrderRequests := sm_del key (rp_psOrderRequests s),
          rp_psOrderSeqs := sm_del (lg_nextSeq (rp_log s)) (rp_psOrderSeqs s)\<rparr>) = Inr s1"
    "checkPSOrderRequests env s1 = Inr s'"
    by (subst (asm) checkPSOrderRequests.simps) (auto elim!: bindE_InrE split: option.splits)
  then show ?case
  proof cases
    case 2
    then show ?thesis using "1.IH" [OF 2] "1.prems"(2) sends_request by fastforce
  qed (use "1.prems" in simp)
qed

lemma sends_ps_handlers:
  "processPSClient env q sig s = Inr s' \<Longrightarrow> outbox env s \<Longrightarrow> outbox env s'"
  "processPSLeaderForward env f s = Inr s' \<Longrightarrow> outbox env s \<Longrightarrow> outbox env s'"
  "processPSLeaderOrder env p s = Inr s' \<Longrightarrow> outbox env s \<Longrightarrow> outbox env s'"
  by (cases "cfg_preserializationMode (re_config env)")
    (auto simp: processPSClient_def processPSLeaderForward_def processPSLeaderOrder_def outgoing_simps
      elim!: bindE_InrE intro: sending dest!: sends_request sends_drain sends_ordered split: if_splits)

lemma sends_ps: "process_ps_msg env t fr s = Inr s' \<Longrightarrow> outbox env s \<Longrightarrow> outbox env s'"
  using process_ps_cases sends_ps_handlers by metis

lemma sends_message:
  assumes "processMessage env fr s = Inr (b, s')" and "outbox env s"
  shows "outbox env s'"
proof (cases "type_of_code (fr_type fr)")
  case (Some t)
  consider b' where "process_dom env (fr_body fr) s = Inr (b', s')" | b' where "process_normal_msg env t fr s = Inr (b', s')"
    | b' where "process_repair_msg env t fr s = Inr (b', s')" | "process_ps_msg env t fr s = Inr s'"
    using assms(1) Some by (auto simp: processMessage_def goOn_Inr split: if_splits)
  then show ?thesis
  proof cases
    case 1
    from process_dom_cases [OF this] show ?thesis
      using assms(2) by (elim disjE exE) (auto dest: sends_missing(2) sends_hold sends_request)
  next
    case 2
    from process_normal_cases [OF this] show ?thesis
      using assms(2) by (elim disjE exE) (auto dest: sends_request sends_cert sends_reply sends_commit sends_transfer
        sends_snapshotReply sends_missing(1))
  next
    case 3
    from process_repair_cases [OF this] show ?thesis
      using assms(2) by (elim disjE exE conjE) (auto dest: sends_repairTimeout sends_trigger sends_prePrepare sends_view
        sends_prepare sends_pbftCommit)
  qed (use assms(2) sends_ps in blast)
qed (use assms in \<open>simp add: processMessage_def\<close>)

lemma sends_turn: "process_turn env msg s = Inr (b, s') \<Longrightarrow> outbox env s \<Longrightarrow> outbox env s'"
  by (auto simp: process_turn_def elim!: bindE_InrE dest!: sends_checkTimeouts sends_message sends_snapshot
      split: list.splits option.splits)


lemma node_reach_outbox: "node_reach ne own app nd \<Longrightarrow> outbox (ne_replica ne) (nd_replica nd)"
proof (induction rule: node_reach.induct)
  case init
  then show ?case by (simp add: node_init_def outbox_init)
next
  case (net nd sender fr now nd')
  have "nd_replica nd' = nd_replica nd"
    using net.hyps(3) by (auto simp: onMessage_def handleMessage_def Let_def elim!: bindE_InrE split: if_splits)
  then show ?case using net.IH by simp
next
  case (verify nd nd')
  have "nd_replica nd' = nd_replica nd"
    using verify.hyps(3) by (auto simp: verify_turn_def Let_def elim!: bindE_InrE split: list.splits verdict.splits)
  then show ?case using verify.IH by simp
next
  case (process nd now nd')
  obtain msg b where "process_turn ((ne_replica ne)\<lparr>re_now := now\<rparr>) msg (nd_replica nd) = Inr (b, nd_replica nd')"
    using process.hyps(3) by (auto simp: process_step_def Let_def elim!: bindE_InrE split: prod.splits)
  from sends_turn [OF this] show ?case using process.IH by simp
qed simp_all

section \<open>Properties\<close>



end
