(* ===== verification/Floats.thy ===== *)
theory Floats
  imports Prelude
begin

text \<open>
  The non-negative floating-point numbers of the client's and the proxy's arithmetic: a number is a
  fraction of naturals, and an operation is the exact one followed by rounding to \<open>p\<close> bits, to the
  nearest and to even on a tie. Neither overflow nor subnormal numbers can occur in this arithmetic.
\<close>

section \<open>Rounding\<close>

type_synonym frac = "nat \<times> nat"

fun bits :: "nat \<Rightarrow> nat" where
  "bits n = (if n = 0 then 0 else Suc (bits (n div 2)))"

declare bits.simps [simp del]

text \<open>The quotient of two naturals, rounded to the nearest, ties to even.\<close>

definition div_even :: "nat \<Rightarrow> nat \<Rightarrow> nat" where
  "div_even a b =
     (let q = a div b; r = a mod b in if b < 2 * r \<or> (2 * r = b \<and> odd q) then q + 1 else q)"

text \<open>Scaling by \<open>2 ^ e\<close> for a positive and for a negative exponent.\<close>

definition scale_up :: "int \<Rightarrow> nat \<Rightarrow> nat" where
  "scale_up e n = n * 2 ^ nat e"

text \<open>The exponent for which the quotient has \<open>p\<close> bits.\<close>

definition float_exponent :: "nat \<Rightarrow> frac \<Rightarrow> int" where
  "float_exponent p x =
     (let (n, d) = x; e = int (bits n) - int (bits d) - int p
      in if scale_up e d * 2 ^ p \<le> scale_up (- e) n then e + 1 else e)"

definition fl :: "nat \<Rightarrow> frac \<Rightarrow> frac" where
  "fl p x =
     (let (n, d) = x; e = float_exponent p x; m = div_even (scale_up (- e) n) (scale_up e d)
      in if n = 0 then (0, 1) else (scale_up e m, 2 ^ nat (- e)))"

lemma fl_zero [simp]: "fl p (0, d) = (0, 1)"
  by (simp add: fl_def Let_def)

definition fl_of_nat :: "nat \<Rightarrow> nat \<Rightarrow> frac" where
  "fl_of_nat p n = fl p (n, 1)"

definition fl_mult :: "nat \<Rightarrow> frac \<Rightarrow> frac \<Rightarrow> frac" where
  "fl_mult p x y = fl p (fst x * fst y, snd x * snd y)"

definition fl_div :: "nat \<Rightarrow> frac \<Rightarrow> frac \<Rightarrow> frac" where
  "fl_div p x y = fl p (fst x * snd y, snd x * fst y)"

definition fl_add :: "nat \<Rightarrow> frac \<Rightarrow> frac \<Rightarrow> frac" where
  "fl_add p x y = fl p (fst x * snd y + fst y * snd x, snd x * snd y)"

text \<open>The conversion to an integer.\<close>

definition fl_trunc :: "frac \<Rightarrow> nat" where
  "fl_trunc x = fst x div snd x"

text \<open>The precision of \<open>float\<close> and of \<open>double\<close>.\<close>

definition float_bits :: nat where
  "float_bits = 24"

definition double_bits :: nat where
  "double_bits = 53"

section \<open>Small numbers are exact\<close>

lemma bits_le: "n < 2 ^ k \<Longrightarrow> bits n \<le> k"
proof (induction n arbitrary: k rule: bits.induct)
  case (1 n)
  show ?case
  proof (cases "n = 0")
    case False
    then obtain j where j: "k = Suc j" using "1.prems" by (cases k) auto
    then have "n div 2 < 2 ^ j" using "1.prems" by (simp add: less_mult_imp_div_less)
    then show ?thesis using "1.IH" [OF False] j False by (subst bits.simps) simp
  qed (simp add: bits.simps)
qed

lemma bits_bound: "n < 2 ^ bits n"
proof (induction n rule: bits.induct)
  case (1 n)
  show ?case
  proof (cases "n = 0")
    case False
    then have "n div 2 < 2 ^ bits (n div 2)" using "1.IH" by blast
    then have "n < 2 * 2 ^ bits (n div 2)" by linarith
    then show ?thesis using False by (subst bits.simps) simp
  qed (simp add: bits.simps)
qed

lemma div_even_exact: "0 < b \<Longrightarrow> div_even (a * b) b = a"
  by (simp add: div_even_def)

end
