(* ===== verification/Client.thy ===== *)
theory Client
  imports Verify Floats
begin

text \<open>
  The client (\<open>processes/client/client.h\<close> and \<open>.cc\<close>): the requests in flight, the three ways in which
  one is committed, the certificates and proofs it sends, and the pacing of new requests. A
  handler runs at one time; what it sends is appended to \<open>cl_out\<close>, and the sending of requests,
  which the code leaves to a thread pool, is a queue of tasks. The application's load generator and
  the serialisation of its requests are parameters.
\<close>

section \<open>State\<close>

datatype send_mode = RateBased | MaxInFlightBased

datatype client_dest = Cl_Proxy nat | Cl_Replica nat

record 'k client_env =
  ce_cm :: config_manager
  ce_wire :: "'k wire_params"
  ce_id :: u32
  ce_useProxy :: bool
  ce_sendToLeader :: bool
  ce_sendMode :: send_mode
  ce_sendRate :: u32
  ce_maxInFlight :: u32
  ce_requestSize :: u32
  ce_normalPathTimeout :: u64
  ce_requestTimeout :: u64
  ce_useHMAC :: bool
  ce_rateIncreaseEnabled :: bool
  ce_rateIncreaseSeqThreshold :: u32
  ce_rateIncreaseDurationUs :: u32
  ce_increasedSendRate :: u32
  ce_increasedMaxInFlight :: u32
  ce_runtimeSeconds :: int
  ce_numProxies :: nat
  ce_appRequest :: "nat \<Rightarrow> bytes"
  ce_paddedData :: "bytes \<Rightarrow> bytes \<Rightarrow> bytes"

abbreviation ce_config :: "'k client_env \<Rightarrow> process_config" where
  "ce_config env \<equiv> cm_config (ce_cm env)"

text \<open>\<open>RequestState\<close>; \<open>certSendTime\<close>, \<open>hasQuorum\<close> are never read or written. The sets of replica
  numbers are sets of \<open>int\<close>.\<close>

record request_state =
  rqs_collector :: cert_collector
  rqs_request :: client_request
  rqs_firstSendTime :: u64
  rqs_sendTime :: u64
  rqs_certTime :: u64
  rqs_certSent :: bool
  rqs_certReplies :: "int set"
  rqs_quorumTime :: u64
  rqs_triggerRound :: u32
  rqs_triggerSent :: bool
  rqs_triggerSendTime :: u64
  rqs_repairReplies :: "int set"

definition new_request_state :: "'k client_env \<Rightarrow> client_request \<Rightarrow> u64 \<Rightarrow> request_state" where
  "new_request_state env req sendT =
     \<lparr>rqs_collector = cc_init (ce_cm env), rqs_request = req, rqs_firstSendTime = sendT, rqs_sendTime = sendT,
      rqs_certTime = 0, rqs_certSent = False, rqs_certReplies = {}, rqs_quorumTime = 0, rqs_triggerRound = 0,
      rqs_triggerSent = False, rqs_triggerSendTime = 0, rqs_repairReplies = {}\<rparr>"

record client =
  cl_lastSendTime :: u64
  cl_nextSeq :: u32
  cl_numInFlight :: u32
  cl_numCommitted :: u32
  cl_lastCommitted :: u32
  cl_firstRequestCommitted :: bool
  cl_startTime :: u64
  cl_rateIncreaseActive :: bool
  cl_rateIncreaseStartTime :: u64
  cl_requestStates :: "(u32, request_state) smap"
  cl_generated :: nat
  cl_tasks :: "client_request list list"
  cl_out :: "(client_dest \<times> message_type \<times> proto_msg) list"

text \<open>The member initialisers, and the assignments of the constructor at the time it runs.\<close>

definition client_init :: "u64 \<Rightarrow> client" where
  "client_init now =
     \<lparr>cl_lastSendTime = 0, cl_nextSeq = 1, cl_numInFlight = 0, cl_numCommitted = 0, cl_lastCommitted = 0,
      cl_firstRequestCommitted = False, cl_startTime = now, cl_rateIncreaseActive = False,
      cl_rateIncreaseStartTime = 0, cl_requestStates = [], cl_generated = 0, cl_tasks = [], cl_out = []\<rparr>"

section \<open>Sending requests\<close>

definition fillRequestData :: "'k client_env \<Rightarrow> client_request \<Rightarrow> client \<Rightarrow> client_request \<times> client" where
  "fillRequestData env req s =
     (let reqData = ce_appRequest env (cl_generated s);
          padding = (if length reqData < unat (ce_requestSize env)
                     then replicate (unat (ce_requestSize env) - length reqData) 0 else [])
      in (req\<lparr>crq_req_data := ce_paddedData env reqData padding\<rparr>, s\<lparr>cl_generated := cl_generated s + 1\<rparr>))"

text \<open>The part that \<open>submitRequest\<close> and the burst share: the next request, recorded as in flight.\<close>

definition nextRequest :: "'k client_env \<Rightarrow> u64 \<Rightarrow> client \<Rightarrow> client_request \<times> client" where
  "nextRequest env now s =
     (let (req, s1) = fillRequestData env
            \<lparr>crq_client_id = ce_id env, crq_client_seq = cl_nextSeq s, crq_send_time = now, crq_deadline = 0,
             crq_is_write = True, crq_req_data = []\<rparr> s
      in (req, s1\<lparr>cl_requestStates := sm_insert (cl_nextSeq s1) (new_request_state env req now) (cl_requestStates s1),
                  cl_nextSeq := cl_nextSeq s1 + 1, cl_numInFlight := cl_numInFlight s1 + 1\<rparr>))"

definition enqueueTask :: "client_request list \<Rightarrow> client \<Rightarrow> client" where
  "enqueueTask reqs s = s\<lparr>cl_tasks := cl_tasks s @ [reqs]\<rparr>"

definition submitRequest :: "'k client_env \<Rightarrow> u64 \<Rightarrow> client \<Rightarrow> client" where
  "submitRequest env now s = (let (req, s1) = nextRequest env now s in enqueueTask [req] s1)"

text \<open>The loop of a burst. The 32-bit counter of the loop cannot wrap: the number in flight, which grows
  with it, reaches its 32-bit limit before.\<close>

fun burst :: "'k client_env \<Rightarrow> u64 \<Rightarrow> u32 \<Rightarrow> nat \<Rightarrow> client_request list \<Rightarrow> client \<Rightarrow> client_request list \<times> client" where
  "burst env now limit 0 reqs s = (reqs, s)"
| "burst env now limit (Suc n) reqs s =
     (if limit \<le> cl_numInFlight s then (reqs, s)
      else let (req, s1) = nextRequest env now s in burst env now limit n (reqs @ [req]) s1)"

text \<open>\<open>uint64_t numToSend = (now - last) * rate / 1000000.0\<close> and
  \<open>last += numToSend * (1000000.0 / rate)\<close>; the product of integers wraps, and the conversion of a
  number that does not fit is undefined.\<close>

definition num_to_send :: "u64 \<Rightarrow> u32 \<Rightarrow> nat" where
  "num_to_send elapsed rate =
     fl_trunc (fl_div double_bits (fl_of_nat double_bits (unat (elapsed * ucast rate))) (1000000, 1))"

definition advance_send_time :: "u64 \<Rightarrow> nat \<Rightarrow> u32 \<Rightarrow> u64 res" where
  "advance_send_time lastSendTime n rate =
     (let interval = fl_div double_bits (1000000, 1) (fl_of_nat double_bits (unat rate));
          t = fl_trunc (fl_add double_bits (fl_of_nat double_bits (unat lastSendTime))
                          (fl_mult double_bits (fl_of_nat double_bits n) interval))
      in if 2 ^ 64 \<le> t then Inl Undefined else Inr (of_nat t))"

definition submitRequestsOpenLoop :: "'k client_env \<Rightarrow> u64 \<Rightarrow> client \<Rightarrow> client res" where
  "submitRequestsOpenLoop env now s =
     (let s1 = (if cl_rateIncreaseActive s \<and> ucast (ce_rateIncreaseDurationUs env) \<le> now - cl_rateIncreaseStartTime s
                then s\<lparr>cl_rateIncreaseActive := False\<rparr> else s);
          rate = (if cl_rateIncreaseActive s1 then ce_increasedSendRate env else ce_sendRate env);
          limit = (if cl_rateIncreaseActive s1 then ce_increasedMaxInFlight env else ce_maxInFlight env);
          n = num_to_send (now - cl_lastSendTime s1) rate
      in if n = 0 then Inr s1
         else bindE (advance_send_time (cl_lastSendTime s1) n rate) (\<lambda>t.
              let (reqs, s2) = burst env now limit n [] (s1\<lparr>cl_lastSendTime := t\<rparr>)
              in Inr (enqueueTask reqs s2)))"

text \<open>The message of a request and its destinations; signing it or appending a MAC is not modelled.\<close>

definition to_replicas :: "'k client_env \<Rightarrow> message_type \<Rightarrow> proto_msg \<Rightarrow> (client_dest \<times> message_type \<times> proto_msg) list" where
  "to_replicas env t m = map (\<lambda>i. (Cl_Replica i, t, m)) [0..<cfg_replicaIps_size (ce_config env)]"

definition sendRequest :: "'k client_env \<Rightarrow> client_request \<Rightarrow> client \<Rightarrow> client res" where
  "sendRequest env request s =
     (let mode = cfg_preserializationMode (ce_config env);
          t = (if mode \<noteq> PS_Disabled then PS_CLIENT else CLIENT_REQUEST); m = M_ClientRequest request
      in if ce_useProxy env then
           (if mode \<noteq> PS_Disabled then Inl AssertFailed
            else if ce_numProxies env = 0 then Inl Undefined
            else Inr (s\<lparr>cl_out := cl_out s @ [(Cl_Proxy (unat (ce_id env) mod ce_numProxies env), t, m)]\<rparr>))
         else if ce_sendToLeader env \<or> mode = PS_Full then
           (if cfg_replicaIps_size (ce_config env) = 0 then Inl Undefined
            else Inr (s\<lparr>cl_out := cl_out s @ [(Cl_Replica 0, t, m)]\<rparr>))
         else Inr (s\<lparr>cl_out := cl_out s @ to_replicas env t m\<rparr>))"

text \<open>A worker of the thread pool takes the oldest task.\<close>

definition run_task :: "'k client_env \<Rightarrow> client \<Rightarrow> client res" where
  "run_task env s =
     (case cl_tasks s of [] \<Rightarrow> Inr s
      | reqs # ts \<Rightarrow> foldE (sendRequest env) reqs (s\<lparr>cl_tasks := ts\<rparr>))"

section \<open>Committing\<close>

definition commitRequest :: "'k client_env \<Rightarrow> u64 \<Rightarrow> u32 \<Rightarrow> u64 \<Rightarrow> client \<Rightarrow> client" where
  "commitRequest env now clientSeq replicaSeq s =
     (let s1 = s\<lparr>cl_lastCommitted := clientSeq, cl_requestStates := sm_del clientSeq (cl_requestStates s),
               cl_numCommitted := cl_numCommitted s + 1, cl_numInFlight := cl_numInFlight s - 1\<rparr>;
          s2 = (if cl_firstRequestCommitted s1 then s1
                else if ce_sendMode env = RateBased then s1\<lparr>cl_firstRequestCommitted := True, cl_lastSendTime := now\<rparr>
                else s1\<lparr>cl_firstRequestCommitted := True\<rparr>);
          s3 = (if ce_rateIncreaseEnabled env \<and> \<not> cl_rateIncreaseActive s2 \<and>
                   ucast (ce_rateIncreaseSeqThreshold env) \<le> replicaSeq \<and> cl_rateIncreaseStartTime s2 = 0
                then s2\<lparr>cl_rateIncreaseActive := True, cl_rateIncreaseStartTime := now\<rparr> else s2)
      in if ce_sendMode env = MaxInFlightBased then submitRequest env now s3 else s3)"

definition send_cert :: "'k client_env \<Rightarrow> cert \<Rightarrow> client \<Rightarrow> client" where
  "send_cert env c s = s\<lparr>cl_out := cl_out s @ to_replicas env CERT (M_Cert c)\<rparr>"

definition put_request :: "u32 \<Rightarrow> request_state \<Rightarrow> client \<Rightarrow> client" where
  "put_request q r s = s\<lparr>cl_requestStates := sm_put q r (cl_requestStates s)\<rparr>"

text \<open>What \<open>checkTimeouts\<close> does with one request.\<close>

definition check_request :: "'k client_env \<Rightarrow> u64 \<Rightarrow> u32 \<times> request_state \<Rightarrow> client \<Rightarrow> client res" where
  "check_request env now p s =
     (let (q, r) = p
      in if cc_hasCert (rqs_collector r) \<and> \<not> rqs_certSent r \<and> ce_normalPathTimeout env < now - rqs_certTime r \<and>
            cfg_clientNormalPathEnabled (ce_config env)
         then bindE (cc_getCert (rqs_collector r)) (\<lambda>c.
              Inr (send_cert env c (put_request q (r\<lparr>rqs_certSent := True\<rparr>) s)))
         else if rqs_triggerSent r \<and> ce_requestTimeout env < now - rqs_triggerSendTime r
         then let req = (rqs_request r)\<lparr>crq_send_time := now\<rparr>
              in Inr (enqueueTask [req]
                   (put_request q (r\<lparr>rqs_request := req, rqs_sendTime := now, rqs_triggerSent := False\<rparr>) s))
         else Inr s)"

definition client_checkTimeouts :: "'k client_env \<Rightarrow> u64 \<Rightarrow> client \<Rightarrow> client res" where
  "client_checkTimeouts env now s = foldE (check_request env now) (cl_requestStates s) s"

section \<open>Replies\<close>

text \<open>The proof of inconsistent replies: those of the collector's round, with their signatures. Its
  replica and view stay unset.\<close>

definition client_proof :: "cert_collector \<Rightarrow> repair_reply_proof" where
  "client_proof c =
     (let rs = filter (\<lambda>p. rep_round (snd p) = cc_round c) (cc_replies c)
      in \<lparr>rrp_replica_id = 0, rrp_round = cc_round c, rrp_view = 0, rrp_replies = map snd rs,
          rrp_signatures = map (\<lambda>p. sm_at [] (cc_signatures c) (fst p)) rs\<rparr>)"

text \<open>The two steps after a reply that does not commit the request; the sizes are 32-bit numbers.\<close>

definition send_cert_early :: "'k client_env \<Rightarrow> u32 \<Rightarrow> u32 \<Rightarrow> request_state \<Rightarrow> client \<Rightarrow> (request_state \<times> client) res" where
  "send_cert_early env q maxMatchSize r s =
     (let coll = rqs_collector r
      in if \<not> rqs_certSent r \<and> cc_hasCert coll \<and> maxMatchSize < cc_numReceived coll \<and>
            cfg_clientNormalPathEnabled (ce_config env)
         then bindE (cc_getCert coll) (\<lambda>c. Inr (r\<lparr>rqs_certSent := True\<rparr>, send_cert env c s))
         else Inr (r, s))"

definition send_trigger ::
  "'k client_env \<Rightarrow> u64 \<Rightarrow> reply \<Rightarrow> u32 \<Rightarrow> request_state \<Rightarrow> client \<Rightarrow> request_state \<times> client" where
  "send_trigger env now reply maxMatchSize r s =
     (let coll = rqs_collector r
      in if cfg_clientSendProofs (ce_config env) \<and> \<not> rqs_triggerSent r \<and>
            cfg_f (ce_config env) < cc_numReceived coll - maxMatchSize \<and> cc_round coll = rep_round reply
         then (r\<lparr>rqs_triggerSent := True, rqs_triggerRound := cc_round coll, rqs_triggerSendTime := now\<rparr>,
               s\<lparr>cl_out := cl_out s @ to_replicas env REPAIR_REPLY_PROOF (M_RepairReplyProof (client_proof coll))\<rparr>)
         else (r, s))"

definition handleReply :: "'k client_env \<Rightarrow> u64 \<Rightarrow> reply \<Rightarrow> bytes \<Rightarrow> client \<Rightarrow> client res" where
  "handleReply env now reply sig s =
     (let q = rep_client_seq reply
      in case map_of (cl_requestStates s) q of None \<Rightarrow> Inr s
         | Some r0 \<Rightarrow>
             let hasCertBefore = cc_hasCert (rqs_collector r0);
                 (size, coll) = cc_insertReply reply sig (rqs_collector r0);
                 maxMatchSize = of_nat size :: u32;
                 r1 = r0\<lparr>rqs_collector := coll\<rparr>;
                 r2 = (if cc_numReceived coll = cm_quorumSize (ce_cm env) then r1\<lparr>rqs_quorumTime := now\<rparr> else r1);
                 r3 = (if \<not> hasCertBefore \<and> cc_hasCert coll then r2\<lparr>rqs_certTime := now\<rparr> else r2)
             in if cm_superQuorumSize (ce_cm env) \<le> maxMatchSize
                then Inr (commitRequest env now q (ucast (rep_seq reply)) (put_request q r3 s))
                else bindE (send_cert_early env q maxMatchSize r3 s) (\<lambda>(r4, s1).
                     let (r5, s2) = send_trigger env now reply maxMatchSize r4 s1
                     in Inr (put_request q r5 s2)))"

definition handleCertReply :: "'k client_env \<Rightarrow> u64 \<Rightarrow> cert_reply \<Rightarrow> client \<Rightarrow> client res" where
  "handleCertReply env now c s =
     (let q = crp_client_seq c
      in if \<not> cfg_clientNormalPathEnabled (ce_config env) then Inl AssertFailed
         else case map_of (cl_requestStates s) q of None \<Rightarrow> Inr s
         | Some r \<Rightarrow>
             let r1 = r\<lparr>rqs_certReplies := insert (sint (crp_replica_id c)) (rqs_certReplies r)\<rparr>;
                 s1 = put_request q r1 s
             in Inr (if unat (cm_quorumSize (ce_cm env)) \<le> card (rqs_certReplies r1)
                     then commitRequest env now q (ucast (crp_seq c)) s1 else s1))"

definition handleCommittedReply :: "'k client_env \<Rightarrow> u64 \<Rightarrow> committed_reply \<Rightarrow> client \<Rightarrow> client" where
  "handleCommittedReply env now c s =
     (let q = cr_client_seq c
      in if cr_client_id c \<noteq> ce_id env then s
         else case map_of (cl_requestStates s) q of None \<Rightarrow> s
         | Some r \<Rightarrow>
             let r1 = r\<lparr>rqs_repairReplies := insert (sint (cr_replica_id c)) (rqs_repairReplies r)\<rparr>;
                 s1 = put_request q r1 s
             in if unat (cfg_f (ce_config env) + 1) \<le> card (rqs_repairReplies r1)
                then commitRequest env now q (ucast (cr_seq c)) s1 else s1)"

text \<open>The first loop of \<open>handleRepairSummary\<close> builds a reply for each request in the checkpoint's
  record and drops it; only the replies of the summary are handled.\<close>

definition handleRepairSummary :: "'k client_env \<Rightarrow> u64 \<Rightarrow> repair_summary \<Rightarrow> client \<Rightarrow> client" where
  "handleRepairSummary env now summary s =
     fold (\<lambda>c s'. if cr_client_id c \<noteq> ce_id env then s' else handleCommittedReply env now c s') (sum_replies summary) s"

section \<open>Messages\<close>

definition reply_verified :: "'k client_env \<Rightarrow> frame \<Rightarrow> u32 \<Rightarrow> bool res" where
  "reply_verified env fr i =
     (if ce_useHMAC env then hmac_verify (wp_hmac (ce_wire env)) (wp_hmacKeys (ce_wire env)) fr (REPLICA, i)
      else Inr (signed_by (ce_wire env) fr REPLICA i))"

definition client_handleMessage :: "'k client_env \<Rightarrow> u64 \<Rightarrow> frame \<Rightarrow> client \<Rightarrow> client res" where
  "client_handleMessage env now fr s =
     (case type_of_code (fr_type fr) of None \<Rightarrow> Inr s
      | Some t \<Rightarrow>
          (let msg = wp_parse (ce_wire env) t (fr_body fr)
           in if t = REPLY \<or> t = FAST_REPLY then
                (case msg of Some (M_Reply r) \<Rightarrow>
                   if rep_client_id r \<noteq> ce_id env then Inr s
                   else bindE (reply_verified env fr (rep_replica_id r)) (\<lambda>ok.
                        if \<not> ok then Inr s else handleReply env now r (fr_sig fr) s)
                 | _ \<Rightarrow> Inr s)
              else if t = CERT_REPLY then
                (case msg of Some (M_CertReply c) \<Rightarrow>
                   if crp_client_id c \<noteq> ce_id env then Inr s
                   else if \<not> signed_by (ce_wire env) fr REPLICA (crp_replica_id c) then Inr s
                   else handleCertReply env now c s
                 | _ \<Rightarrow> Inr s)
              else if t = COMMITTED_REPLY then
                (case msg of Some (M_CommittedReply c) \<Rightarrow>
                   if \<not> signed_by (ce_wire env) fr REPLICA (cr_replica_id c) then Inr s
                   else Inr (handleCommittedReply env now c s)
                 | _ \<Rightarrow> Inr s)
              else if t = REPAIR_SUMMARY then
                (case msg of Some (M_RepairSummary m) \<Rightarrow>
                   if \<not> signed_by (ce_wire env) fr REPLICA (sum_replica_id m) then Inr s
                   else Inr (handleRepairSummary env now m s)
                 | _ \<Rightarrow> Inr s)
              else Inr s))"

text \<open>The handler the constructor registers: whether the process goes on, and its state. The product of
  the run time is one of 32-bit signed numbers, whose overflow is undefined; it is compared as an unsigned one.\<close>

definition reply_handler :: "'k client_env \<Rightarrow> u64 \<Rightarrow> frame \<Rightarrow> client \<Rightarrow> (bool \<times> client) res" where
  "reply_handler env now fr s =
     (if 1000000 * ce_runtimeSeconds env \<notin> {- (2 ^ 31)..2 ^ 31 - 1} then Inl Undefined
      else if of_int (1000000 * ce_runtimeSeconds env) < now - cl_startTime s then Inr (False, s)
      else bindE (client_handleMessage env now fr s) (\<lambda>s1.
           bindE (if ce_sendMode env = RateBased then submitRequestsOpenLoop env now s1 else Inr s1) (\<lambda>s2.
           Inr (True, s2))))"

text \<open>The end of the constructor: the first request, or the first window of them.\<close>

definition client_start :: "'k client_env \<Rightarrow> u64 \<Rightarrow> client" where
  "client_start env now =
     (case ce_sendMode env of RateBased \<Rightarrow> submitRequest env now (client_init now)
      | MaxInFlightBased \<Rightarrow> ((submitRequest env now) ^^ unat (ce_maxInFlight env)) (client_init now))"

text \<open>The steps of the process: a message that \<open>net\<close> delivers, the timeout timer, the send timer, a task
  of the pool.\<close>

inductive client_reach :: "'k client_env \<Rightarrow> (frame \<Rightarrow> bool) \<Rightarrow> client \<Rightarrow> bool" for env net where
  start: "client_reach env net (client_start env now)"
| message: "client_reach env net s \<Longrightarrow> net fr \<Longrightarrow> reply_handler env now fr s = Inr (True, s') \<Longrightarrow> client_reach env net s'"
| timeout: "client_reach env net s \<Longrightarrow> client_checkTimeouts env now s = Inr s' \<Longrightarrow> client_reach env net s'"
| send: "client_reach env net s \<Longrightarrow> ce_sendMode env = RateBased \<Longrightarrow> submitRequestsOpenLoop env now s = Inr s' \<Longrightarrow>
    client_reach env net s'"
| task: "client_reach env net s \<Longrightarrow> run_task env s = Inr s' \<Longrightarrow> client_reach env net s'"

end
