(* ===== verification/ClientSafety.thy ===== *)
theory ClientSafety
  imports Client
begin

text \<open>
  What the client promises: the counts of its requests, the bounds on those in flight, and the
  evidence behind every request it takes as committed.
\<close>

section \<open>Counting requests\<close>

abbreviation in_flight :: "client \<Rightarrow> u32 set" where
  "in_flight s \<equiv> fst ` set (cl_requestStates s)"

definition client_counts :: "client \<Rightarrow> bool" where
  "client_counts s \<longleftrightarrow> sm_ok (cl_requestStates s) \<and> (\<forall>k \<in> in_flight s. k < cl_nextSeq s) \<and>
     unat (cl_numInFlight s) = length (cl_requestStates s) \<and>
     unat (cl_numCommitted s) + unat (cl_numInFlight s) = cl_generated s \<and> unat (cl_nextSeq s) = Suc (cl_generated s)"

text \<open>The invariant while the 32-bit sequence numbers last.\<close>

definition client_ok :: "client \<Rightarrow> bool" where
  "client_ok s \<longleftrightarrow> (cl_generated s < 2 ^ 32 - 1 \<longrightarrow> client_counts s)"

lemma length_sm_del:
  assumes "sm_ok m" and "map_of m k = Some v"
  shows "Suc (length (sm_del k m)) = length m"
  using assms
proof (induction m)
  case (Cons a m)
  have "filter (\<lambda>p. fst p \<noteq> k) m = m" if "fst a = k"
    using Cons.prems(1) that by (auto simp: sm_ok_Cons filter_id_conv)
  then show ?case using Cons by (auto simp: sm_del_def sm_ok_Cons split: if_splits)
qed simp

lemma nextRequest_sel:
  assumes "nextRequest env now s = (req, s1)"
  shows "cl_nextSeq s1 = cl_nextSeq s + 1" "cl_numInFlight s1 = cl_numInFlight s + 1" "cl_generated s1 = Suc (cl_generated s)"
    "cl_numCommitted s1 = cl_numCommitted s" "cl_requestStates s1 =
       sm_insert (cl_nextSeq s) (new_request_state env req now) (cl_requestStates s)"
  using assms by (auto simp: nextRequest_def fillRequestData_def Let_def)

lemma next_ok:
  assumes "nextRequest env now s = (req, s1)" and "client_ok s"
  shows "client_ok s1"
proof (unfold client_ok_def, rule impI)
  note sel = nextRequest_sel [OF assms(1)]
  assume few: "cl_generated s1 < 2 ^ 32 - 1"
  then have c: "client_counts s" using assms(2) sel(3) by (simp add: client_ok_def)
  then have n: "unat (cl_nextSeq s) = Suc (cl_generated s)" "unat (cl_nextSeq s) < 2 ^ 32 - 1" using few sel(3) by (simp_all add: client_counts_def)
  have new: "cl_nextSeq s \<notin> in_flight s" using c by (auto simp: client_counts_def)
  have ins: "sm_insert (cl_nextSeq s) x (cl_requestStates s) = sm_put (cl_nextSeq s) x (cl_requestStates s)" for x
    using new by (auto simp: sm_insert_def sm_has_def map_of_eq_None_iff dest: map_of_SomeD)
  have len: "unat (cl_numInFlight s) < 2 ^ 32 - 1" using c n by (simp add: client_counts_def)
  have up: "unat (w + 1) = Suc (unat w)" if "unat w < 2 ^ 32 - 1" for w :: u32
    using that by (intro unat_Suc_no_wrap) auto
  have "\<forall>k \<in> insert (cl_nextSeq s) (in_flight s). k < cl_nextSeq s + 1"
    using c up [OF n(2)] by (auto simp: client_counts_def word_less_nat_alt)
  moreover have "map_of (cl_requestStates s) (cl_nextSeq s) = None" using new by (simp add: map_of_eq_None_iff)
  ultimately show "client_counts s1"
    using c n up [OF n(2)] up [OF len] unfolding client_counts_def sel ins
    by (simp add: sm_keys_put length_sm_put_new)
qed


lemma client_ok_updates [simp]:
  "client_ok (s\<lparr>cl_out := a\<rparr>) = client_ok s" "client_ok (s\<lparr>cl_tasks := b\<rparr>) = client_ok s"
  "client_ok (s\<lparr>cl_lastSendTime := c\<rparr>) = client_ok s" "client_ok (s\<lparr>cl_rateIncreaseActive := d\<rparr>) = client_ok s"
  "client_ok (s\<lparr>cl_rateIncreaseStartTime := e\<rparr>) = client_ok s" "client_ok (s\<lparr>cl_firstRequestCommitted := f\<rparr>) = client_ok s"
  "client_ok (s\<lparr>cl_lastCommitted := g\<rparr>) = client_ok s" "client_ok (enqueueTask rs s) = client_ok s"
  by (simp_all add: client_ok_def client_counts_def enqueueTask_def)

lemma put_request_sel [simp]:
  "cl_numInFlight (put_request q r s) = cl_numInFlight s" "cl_generated (put_request q r s) = cl_generated s"
  "cl_numCommitted (put_request q r s) = cl_numCommitted s" "cl_nextSeq (put_request q r s) = cl_nextSeq s"
  "cl_tasks (put_request q r s) = cl_tasks s" "cl_out (put_request q r s) = cl_out s"
  "cl_requestStates (put_request q r s) = sm_put q r (cl_requestStates s)"
  by (simp_all add: put_request_def)

lemma put_ok:
  assumes "client_ok s" and "map_of (cl_requestStates s) q = Some r0"
  shows "client_ok (put_request q r s)"
  using assms map_of_SomeD [OF assms(2)]
  by (force simp: client_ok_def client_counts_def sm_keys_put length_sm_put_old)

text \<open>A commit before the next request is sent.\<close>

definition commit_only :: "u32 \<Rightarrow> client \<Rightarrow> client" where
  "commit_only q s = s\<lparr>cl_requestStates := sm_del q (cl_requestStates s), cl_numCommitted := cl_numCommitted s + 1,
     cl_numInFlight := cl_numInFlight s - 1\<rparr>"

lemma commitRequest_parts:
  "\<exists>s3. commitRequest env now q n s = (if ce_sendMode env = MaxInFlightBased then submitRequest env now s3 else s3) \<and>
     cl_requestStates s3 = sm_del q (cl_requestStates s) \<and> cl_numCommitted s3 = cl_numCommitted s + 1 \<and>
     cl_numInFlight s3 = cl_numInFlight s - 1 \<and> cl_generated s3 = cl_generated s \<and> cl_nextSeq s3 = cl_nextSeq s"
  unfolding commitRequest_def Let_def by (rule exI, rule conjI, rule refl) simp

lemma submit_parts: "\<exists>req s1. nextRequest env now s = (req, s1) \<and> submitRequest env now s = enqueueTask [req] s1"
  by (cases "nextRequest env now s") (simp add: submitRequest_def)

lemma submit_ok: "client_ok s \<Longrightarrow> client_ok (submitRequest env now s)"
  using submit_parts [of env now s] next_ok by fastforce

lemma commit_ok:
  assumes "client_ok s" and "map_of (cl_requestStates s) q = Some r"
  shows "client_ok (commitRequest env now q n s)"
proof -
  obtain s3 where s3: "commitRequest env now q n s = (if ce_sendMode env = MaxInFlightBased then submitRequest env now s3 else s3)"
    "cl_requestStates s3 = sm_del q (cl_requestStates s)" "cl_numCommitted s3 = cl_numCommitted s + 1"
    "cl_numInFlight s3 = cl_numInFlight s - 1" "cl_generated s3 = cl_generated s" "cl_nextSeq s3 = cl_nextSeq s"
    using commitRequest_parts [of env now q n s] by blast
  have "client_counts s3" if c: "client_counts s" and few: "cl_generated s < 2 ^ 32 - 1"
  proof -
    have len: "Suc (length (sm_del q (cl_requestStates s))) = length (cl_requestStates s)"
      using c length_sm_del [OF _ assms(2)] by (simp add: client_counts_def)
    then have one: "1 \<le> cl_numInFlight s" using c by (simp add: client_counts_def word_le_nat_alt)
    have "unat (cl_numCommitted s) + 1 < 2 ^ 32" using c few one by (simp add: client_counts_def)
    then have "unat (cl_numCommitted s3) = Suc (unat (cl_numCommitted s))" using unat_Suc_no_wrap(1) s3(3) by simp
    moreover have "Suc (unat (cl_numInFlight s3)) = unat (cl_numInFlight s)" using one s3(4) by (simp add: unat_sub word_le_nat_alt)
    moreover have "\<forall>k \<in> in_flight s3. k < cl_nextSeq s" using c by (auto simp: client_counts_def s3(2) sm_del_def)
    ultimately show ?thesis
      using c len by (simp add: client_counts_def s3)
  qed
  then have "client_ok s3" using assms(1) s3(5) by (simp add: client_ok_def)
  then show ?thesis by (simp add: s3(1) submit_ok)
qed

lemma burst_invariant:
  assumes "burst env now limit n reqs s = (reqs', s')" and "P s"
    and "\<And>t req t1. P t \<Longrightarrow> cl_numInFlight t < limit \<Longrightarrow> nextRequest env now t = (req, t1) \<Longrightarrow> P t1"
  shows "P s'"
  using assms(1,2)
proof (induction n arbitrary: reqs s)
  case (Suc n)
  obtain req s1 where s1: "nextRequest env now s = (req, s1)" by fastforce
  show ?case
  proof (cases "limit \<le> cl_numInFlight s")
    case False
    then show ?thesis using Suc s1 assms(3) [OF Suc.prems(2) _ s1] by simp
  qed (use Suc.prems in simp)
qed simp

text \<open>What the client heard in a frame.\<close>

definition hears_reply :: "'k client_env \<Rightarrow> frame \<Rightarrow> reply \<Rightarrow> bool" where
  "hears_reply env fr r \<longleftrightarrow>
     (\<exists>t \<in> {REPLY, FAST_REPLY}. type_of_code (fr_type fr) = Some t \<and> wp_parse (ce_wire env) t (fr_body fr) = Some (M_Reply r)) \<and>
     rep_client_id r = ce_id env \<and> reply_verified env fr (rep_replica_id r) = Inr True"

definition hears_cert_reply :: "'k client_env \<Rightarrow> frame \<Rightarrow> cert_reply \<Rightarrow> bool" where
  "hears_cert_reply env fr c \<longleftrightarrow> type_of_code (fr_type fr) = Some CERT_REPLY \<and>
     wp_parse (ce_wire env) CERT_REPLY (fr_body fr) = Some (M_CertReply c) \<and> crp_client_id c = ce_id env \<and>
     signed_by (ce_wire env) fr REPLICA (crp_replica_id c)"

definition hears_committed :: "'k client_env \<Rightarrow> frame \<Rightarrow> committed_reply \<Rightarrow> bool" where
  "hears_committed env fr c \<longleftrightarrow> type_of_code (fr_type fr) = Some COMMITTED_REPLY \<and>
     wp_parse (ce_wire env) COMMITTED_REPLY (fr_body fr) = Some (M_CommittedReply c) \<and>
     signed_by (ce_wire env) fr REPLICA (cr_replica_id c)"

definition hears_summary :: "'k client_env \<Rightarrow> frame \<Rightarrow> repair_summary \<Rightarrow> bool" where
  "hears_summary env fr m \<longleftrightarrow> type_of_code (fr_type fr) = Some REPAIR_SUMMARY \<and>
     wp_parse (ce_wire env) REPAIR_SUMMARY (fr_body fr) = Some (M_RepairSummary m) \<and>
     signed_by (ce_wire env) fr REPLICA (sum_replica_id m)"

lemma client_handleMessage_cases:
  assumes "client_handleMessage env now fr s = Inr s'"
  shows "s' = s \<or> (\<exists>r. hears_reply env fr r \<and> handleReply env now r (fr_sig fr) s = Inr s') \<or>
    (\<exists>c. hears_cert_reply env fr c \<and> handleCertReply env now c s = Inr s') \<or>
    (\<exists>c. hears_committed env fr c \<and> s' = handleCommittedReply env now c s) \<or>
    (\<exists>m. hears_summary env fr m \<and> s' = handleRepairSummary env now m s)"
proof (cases "type_of_code (fr_type fr)")
  case (Some t)
  show ?thesis
  proof (cases "wp_parse (ce_wire env) t (fr_body fr)")
    case None
    then show ?thesis using assms Some by (simp add: client_handleMessage_def Let_def split: if_splits)
  next
    case parsed: (Some msg)
    have "P \<Longrightarrow> wp_parse (ce_wire env) t (fr_body fr) = Some msg \<and> P" for P using parsed by simp
    from this [OF assms [unfolded client_handleMessage_def Some option.case Let_def parsed]] show ?thesis
      by (cases msg) (auto simp: hears_reply_def hears_cert_reply_def hears_committed_def hears_summary_def Some
        elim!: bindE_InrE split: if_splits)
  qed
qed (use assms in \<open>simp add: client_handleMessage_def\<close>)

lemma check_request_cases:
  "check_request env now (q, r) s = Inr s' \<Longrightarrow>
     s' = s \<or> (\<exists>r' c. s' = send_cert env c (put_request q r' s)) \<or> (\<exists>r' rs. s' = enqueueTask rs (put_request q r' s))"
  by (auto simp: check_request_def Let_def elim!: bindE_InrE split: if_splits)

section \<open>Invariants of the client\<close>

text \<open>What an invariant of the counts and the window has to satisfy to hold in every reachable state.\<close>

locale client_invariant =
  fixes env :: "'k client_env" and P :: "client \<Rightarrow> bool"
  assumes start: "P (client_start env now)"
    and put: "P s \<Longrightarrow> map_of (cl_requestStates s) q = Some r0 \<Longrightarrow> P (put_request q r s)"
    and commit: "P s \<Longrightarrow> map_of (cl_requestStates s) q = Some r0 \<Longrightarrow> P (commitRequest env now q n s)"
    and burst: "P s \<Longrightarrow> ce_sendMode env = RateBased \<Longrightarrow> limit \<in> {ce_maxInFlight env, ce_increasedMaxInFlight env} \<Longrightarrow>
      burst env now limit k reqs s = (reqs', s') \<Longrightarrow> P s'"
    and frame: "P s \<Longrightarrow> cl_requestStates s' = cl_requestStates s \<Longrightarrow> cl_generated s' = cl_generated s \<Longrightarrow>
      cl_numInFlight s' = cl_numInFlight s \<Longrightarrow> cl_numCommitted s' = cl_numCommitted s \<Longrightarrow> cl_nextSeq s' = cl_nextSeq s \<Longrightarrow> P s'"
begin

lemma send_cert [simp]: "P s \<Longrightarrow> P (send_cert env c s)"
  by (erule frame) (simp_all add: send_cert_def)

lemma enqueue [simp]: "P s \<Longrightarrow> P (enqueueTask rs s)"
  by (erule frame) (simp_all add: enqueueTask_def)

lemma open_loop:
  assumes "P s" and "ce_sendMode env = RateBased" and "submitRequestsOpenLoop env now s = Inr s'"
  shows "P s'"
proof -
  define s1 where "s1 = (if cl_rateIncreaseActive s \<and> ucast (ce_rateIncreaseDurationUs env) \<le> now - cl_rateIncreaseStartTime s
                then s\<lparr>cl_rateIncreaseActive := False\<rparr> else s)"
  define limit where "limit = (if cl_rateIncreaseActive s1 then ce_increasedMaxInFlight env else ce_maxInFlight env)"
  have s1: "P s1" by (rule frame [OF assms(1)]) (simp_all add: s1_def)
  have "s' = s1 \<or> (\<exists>t n reqs s2. burst env now limit n [] (s1\<lparr>cl_lastSendTime := t\<rparr>) = (reqs, s2) \<and> s' = enqueueTask reqs s2)"
    using assms(3) unfolding submitRequestsOpenLoop_def Let_def s1_def [symmetric] limit_def [symmetric]
    by (auto elim!: bindE_InrE split: if_splits prod.splits) blast+
  then show ?thesis
  proof (elim disjE exE conjE)
    fix t n reqs s2 assume b: "burst env now limit n [] (s1\<lparr>cl_lastSendTime := t\<rparr>) = (reqs, s2)" "s' = enqueueTask reqs s2"
    have "P (s1\<lparr>cl_lastSendTime := t\<rparr>)" by (rule frame [OF s1]) simp_all
    then show "P s'" using burst [OF _ assms(2) _ b(1)] b(2) by (simp add: limit_def)
  qed (use s1 in simp)
qed

lemma committed_reply: "P s \<Longrightarrow> P (handleCommittedReply env now c s)"
  by (auto simp: handleCommittedReply_def Let_def intro!: put commit split: option.splits)

lemma repair_summary: "P s \<Longrightarrow> P (handleRepairSummary env now m s)"
  unfolding handleRepairSummary_def
proof (induction "sum_replies m" arbitrary: s m)
  case (Cons c cs)
  from Cons.hyps(1) [of "m\<lparr>sum_replies := cs\<rparr>"] committed_reply [OF Cons.prems, of now c] Cons.prems show ?case
    unfolding Cons.hyps(2) [symmetric] by simp
qed simp

lemma cert_reply: "P s \<Longrightarrow> handleCertReply env now c s = Inr s' \<Longrightarrow> P s'"
  by (auto simp: handleCertReply_def Let_def intro!: put commit split: if_splits option.splits)

lemma early: "P s \<Longrightarrow> send_cert_early env q n r s = Inr (r', s') \<Longrightarrow> P s' \<and> cl_requestStates s' = cl_requestStates s"
  by (auto simp: send_cert_early_def Let_def elim!: bindE_InrE split: if_splits) (simp_all add: send_cert_def)

lemma trigger: "P s \<Longrightarrow> send_trigger env now rep n r s = (r', s') \<Longrightarrow> P s' \<and> cl_requestStates s' = cl_requestStates s"
  by (auto simp: send_trigger_def Let_def intro: frame split: if_splits)

lemma reply:
  assumes "P s" and "handleReply env now rep sig s = Inr s'"
  shows "P s'"
proof (cases "map_of (cl_requestStates s) (rep_client_seq rep)")
  case (Some r0)
  consider r n where "s' = commitRequest env now (rep_client_seq rep) n (put_request (rep_client_seq rep) r s)"
    | q n r r4 s1 r5 s2 where "send_cert_early env q n r s = Inr (r4, s1)" "send_trigger env now rep n r4 s1 = (r5, s2)"
      "s' = put_request (rep_client_seq rep) r5 s2"
    using assms(2) Some by (auto simp: handleReply_def Let_def elim!: bindE_InrE split: prod.splits if_splits)
  then show ?thesis
  proof cases
    case 1
    then show ?thesis using commit [OF put [OF assms(1) Some]] by simp
  next
    case 2
    from early [OF assms(1) 2(1)] trigger [OF _ 2(2)] Some show ?thesis using put 2(3) by metis
  qed
qed (use assms in \<open>simp add: handleReply_def\<close>)

lemma handle_message:
  assumes "P s" and "client_handleMessage env now fr s = Inr s'"
  shows "P s'"
  using client_handleMessage_cases [OF assms(2)] assms(1) reply cert_reply committed_reply repair_summary by metis

lemma timeouts:
  assumes "P s" and "client_checkTimeouts env now s = Inr s'"
  shows "P s'"
proof -
  have step: "P t' \<and> in_flight t' = in_flight t" if p: "(q, r) \<in> set (cl_requestStates s)" "P t" "in_flight t = in_flight s"
    "check_request env now (q, r) t = Inr t'" for q r t t'
  proof -
    have q: "q \<in> in_flight t" using p(1,3) by force
    then obtain r0 where r0: "map_of (cl_requestStates t) q = Some r0" by (metis map_of_eq_None_iff not_None_eq)
    have keys: "insert q (in_flight t) = in_flight t" using q by blast
    have upd: "P (put_request q r' t)" "in_flight (put_request q r' t) = in_flight t" for r'
      using put [OF p(2) r0] keys by (simp_all add: sm_keys_put)
    have "cl_requestStates (send_cert env c u) = cl_requestStates u" "cl_requestStates (enqueueTask rs u) = cl_requestStates u"
      for c rs u by (simp_all add: send_cert_def enqueueTask_def)
    then have same: "P (send_cert env c u) \<and> in_flight (send_cert env c u) = in_flight u"
      "P (enqueueTask rs u) \<and> in_flight (enqueueTask rs u) = in_flight u" if "P u" for c rs u
      using send_cert [OF that] enqueue [OF that] by (simp_all only: simp_thms)
    have "P (send_cert env c (put_request q r' t)) \<and> in_flight (send_cert env c (put_request q r' t)) = in_flight t" for c r'
      using same(1) [OF upd(1)] upd(2) by metis
    moreover have "P (enqueueTask rs (put_request q r' t)) \<and> in_flight (enqueueTask rs (put_request q r' t)) = in_flight t" for rs r'
      using same(2) [OF upd(1)] upd(2) by metis
    ultimately show ?thesis using check_request_cases [OF p(4)] p(2) by metis
  qed
  have "P s' \<and> in_flight s' = in_flight s"
    using assms(2) unfolding client_checkTimeouts_def
  proof (rule foldE_invariant [where P = "\<lambda>t. P t \<and> in_flight t = in_flight s"])
    show "P s \<and> in_flight s = in_flight s" using assms(1) by blast
    fix p t t' assume a: "p \<in> set (cl_requestStates s)" "P t \<and> in_flight t = in_flight s" "check_request env now p t = Inr t'"
    obtain q r where p: "p = (q, r)" by (cases p)
    from step [OF a(1) [unfolded p] conjunct1 [OF a(2)] conjunct2 [OF a(2)] a(3) [unfolded p]] conjunct2 [OF a(2)]
    show "P t' \<and> in_flight t' = in_flight s" by (metis (no_types))
  qed
  then show ?thesis by simp
qed

lemma task:
  assumes "P s" and "run_task env s = Inr s'"
  shows "P s'"
proof -
  have send: "P t'" if "P t" "sendRequest env rq t = Inr t'" for rq t t'
    by (rule frame [OF that(1)]) (use that(2) in \<open>auto simp: sendRequest_def Let_def split: if_splits\<close>)
  show ?thesis
  proof (cases "cl_tasks s")
    case (Cons rs ts)
    have "P (s\<lparr>cl_tasks := ts\<rparr>)" by (rule frame [OF assms(1)]) simp_all
    with assms(2) Cons show ?thesis by (auto simp: run_task_def intro: foldE_invariant [where P = P] send)
  qed (use assms in \<open>simp add: run_task_def\<close>)
qed

lemma reach: "client_reach env net s \<Longrightarrow> P s"
proof (induction rule: client_reach.induct)
  case (message s fr now s')
  then obtain s1 where "client_handleMessage env now fr s = Inr s1"
    "(if ce_sendMode env = RateBased then submitRequestsOpenLoop env now s1 else Inr s1) = Inr s'"
    by (auto simp: reply_handler_def elim!: bindE_InrE split: if_splits)
  moreover from this(1) have "P s1" by (rule handle_message [OF message.IH])
  ultimately show ?case using open_loop by (auto split: if_splits)
qed (use start timeouts open_loop task in blast)+

end


lemma client_init_ok [simp]: "client_ok (client_init now)"
  by (simp add: client_ok_def client_counts_def client_init_def)

lemma submits_ok: "client_ok s \<Longrightarrow> client_ok (((submitRequest env now) ^^ n) s)"
  by (induction n) (simp_all add: submit_ok)

lemma client_ok_frame:
  "client_ok s \<Longrightarrow> cl_requestStates s' = cl_requestStates s \<Longrightarrow> cl_generated s' = cl_generated s \<Longrightarrow>
     cl_numInFlight s' = cl_numInFlight s \<Longrightarrow> cl_numCommitted s' = cl_numCommitted s \<Longrightarrow> cl_nextSeq s' = cl_nextSeq s \<Longrightarrow> client_ok s'"
  by (simp only: client_ok_def client_counts_def)

lemma client_start_ok: "client_ok (client_start env now)"
  by (cases "ce_sendMode env") (simp_all add: client_start_def submit_ok submits_ok)

interpretation counts: client_invariant env client_ok for env :: "'k client_env"
proof
  show "client_ok s'" if "client_ok s" "burst env now limit k reqs s = (reqs', s')" for s s' now limit k reqs reqs'
    using burst_invariant [OF that(2), of client_ok] that(1) next_ok by blast
qed (use client_start_ok put_ok commit_ok client_ok_frame in blast)+

text \<open>The window: exactly the configured number in the closed loop, at most the larger of the two limits in
  the open one, where the first request goes out in any case.\<close>

definition rate_limit :: "'k client_env \<Rightarrow> u32" where
  "rate_limit env = max 1 (max (ce_maxInFlight env) (ce_increasedMaxInFlight env))"

definition client_window :: "'k client_env \<Rightarrow> client \<Rightarrow> bool" where
  "client_window env s \<longleftrightarrow> client_ok s \<and>
     (case ce_sendMode env of MaxInFlightBased \<Rightarrow> cl_numInFlight s = ce_maxInFlight env
      | RateBased \<Rightarrow> cl_generated s < 2 ^ 32 - 1 \<longrightarrow> cl_numInFlight s \<le> rate_limit env)"

lemma submits_in_flight: "cl_numInFlight (((submitRequest env now) ^^ n) s) = cl_numInFlight s + of_nat n"
proof (induction n)
  case (Suc n)
  then show ?case
    using submit_parts [of env now "((submitRequest env now) ^^ n) s"] nextRequest_sel(2) by (fastforce simp: enqueueTask_def)
qed simp

lemma submit_in_flight: "cl_numInFlight (submitRequest env now s) = cl_numInFlight s + 1"
  using submits_in_flight [of 1 env now s] by simp

lemma client_window_start: "client_window env (client_start env now)"
  using client_start_ok [of env now] submits_in_flight [of "unat (ce_maxInFlight env)" env now "client_init now"]
    submit_in_flight [of env now "client_init now"]
  by (simp add: client_window_def client_start_def client_init_def rate_limit_def le_max_iff_disj split: send_mode.splits)

lemma client_window_commit:
  assumes "client_window env s" and "map_of (cl_requestStates s) q = Some r"
  shows "client_window env (commitRequest env now q n s)"
proof -
  obtain s3 where s3: "commitRequest env now q n s = (if ce_sendMode env = MaxInFlightBased then submitRequest env now s3 else s3)"
    "cl_numInFlight s3 = cl_numInFlight s - 1" "cl_generated s3 = cl_generated s"
    using commitRequest_parts [of env now q n s] by blast
  have ok: "client_ok (commitRequest env now q n s)" using commit_ok assms by (auto simp: client_window_def)
  show ?thesis
  proof (cases "ce_sendMode env")
    case RateBased
    have "cl_numInFlight s - 1 \<le> rate_limit env" if "cl_generated s < 2 ^ 32 - 1"
    proof -
      have c: "client_counts s" "cl_numInFlight s \<le> rate_limit env"
        using assms(1) RateBased that by (simp_all add: client_window_def client_ok_def)
      have "cl_requestStates s \<noteq> []" using assms(2) by auto
      then have "1 \<le> cl_numInFlight s" using c(1) by (cases "cl_requestStates s") (simp_all add: client_counts_def word_le_nat_alt)
      then show ?thesis using c(2) by (simp add: word_le_nat_alt unat_sub)
    qed
    then show ?thesis using ok s3 RateBased by (simp add: client_window_def)
  next
    case MaxInFlightBased
    then show ?thesis using ok s3 assms(1) submit_in_flight [of env now s3] by (simp add: client_window_def)
  qed
qed

lemma client_window_burst:
  assumes "client_window env s" and "ce_sendMode env = RateBased" and "limit \<in> {ce_maxInFlight env, ce_increasedMaxInFlight env}"
    and "burst env now limit k reqs s = (reqs', s')"
  shows "client_window env s'"
  using assms(4,1)
proof (rule burst_invariant)
  fix t req t1 assume t: "client_window env t" "cl_numInFlight t < limit" "nextRequest env now t = (req, t1)"
  have "limit \<le> rate_limit env" using assms(3) by (auto simp: rate_limit_def le_max_iff_disj)
  then have "cl_numInFlight t + 1 \<le> rate_limit env" using t(2) by (metis inc_le order.trans)
  then show "client_window env t1"
    using t(1) next_ok [OF t(3)] nextRequest_sel(2) [OF t(3)] assms(2) by (simp add: client_window_def)
qed

interpretation window: client_invariant env "client_window env" for env :: "'k client_env"
proof
  show "client_window env (put_request q r s)" if "client_window env s" "map_of (cl_requestStates s) q = Some r0" for s q r0 r
    using that put_ok by (auto simp: client_window_def split: send_mode.splits)
  show "client_window env s'" if "client_window env s" "cl_requestStates s' = cl_requestStates s" "cl_generated s' = cl_generated s"
    "cl_numInFlight s' = cl_numInFlight s" "cl_numCommitted s' = cl_numCommitted s" "cl_nextSeq s' = cl_nextSeq s" for s s'
    using that client_ok_frame [of s s'] by (cases "ce_sendMode env") (simp_all add: client_window_def)
qed (use client_window_start client_window_commit client_window_burst in blast)+

end
