(* ===== verification/ClientEvidence.thy ===== *)
theory ClientEvidence
  imports ClientSafety
begin

text \<open>
  The evidence behind the requests a client takes as committed: everything it records for a request in
  flight comes from messages it heard, so that a request leaves the set of those in flight only
  for enough messages from different replicas.
\<close>

section \<open>The largest group of matching replies\<close>

text \<open>The replicas whose replies among \<open>hs\<close> have the key \<open>k\<close>.\<close>

definition reply_group :: "(reply \<times> bytes) list \<Rightarrow> reply_key \<Rightarrow> int set" where
  "reply_group hs k = (\<lambda>r. sint (rep_replica_id r)) ` {r \<in> fst ` set hs. reply_key r = k}"

lemma reply_group_finite [simp]: "finite (reply_group hs k)"
  by (simp add: reply_group_def)

lemma reply_group_mono: "set hs \<subseteq> set hs' \<Longrightarrow> card (reply_group hs k) \<le> card (reply_group hs' k)"
  by (rule card_mono) (auto simp: reply_group_def)

lemma match_loop_max:
  assumes "cc_ok c" and "set xs \<subseteq> set (cc_replies c)" and "fold cc_match_step xs (\<lambda>_. {}, c) = (m, c')"
  shows "cc_maxMatchSize c' = cc_maxMatchSize c \<or> (\<exists>k. cc_maxMatchSize c' \<le> card (matching_ids (cc_round c) k xs))"
  using assms(2,3)
proof (induction xs arbitrary: m c' rule: rev_induct)
  case (snoc x xs)
  obtain m1 c1 where f: "fold cc_match_step xs (\<lambda>_. {}, c) = (m1, c1)" by fastforce
  obtain i r where x: "x = (i, r)" by (cases x)
  have inv: "match_inv c xs m1 c1" by (rule match_loop [OF assms(1) _ f]) (use snoc.prems in simp)
  have st: "cc_match_step (i, r) (m1, c1) = (m', c')" if "m' = m" for m' using snoc.prems(2) f x that by simp
  have grow: "card (matching_ids (cc_round c) k xs) \<le> card (matching_ids (cc_round c) k (xs @ [x]))" for k
    by (rule card_mono [OF matching_ids_finite]) (auto simp: matching_ids_def)
  have "cc_maxMatchSize c' = cc_maxMatchSize c1 \<or>
      cc_maxMatchSize c' = card (matching_ids (cc_round c) (reply_key r) (xs @ [x]))"
  proof (cases "rep_round r = cc_round c1")
    case True
    moreover have "cc_ok c1" "cc_round c1 = cc_round c" "m1 = (\<lambda>k. matching_ids (cc_round c) k xs)"
      using inv by (simp_all add: match_inv_def)
    ultimately show ?thesis
      using st [OF refl] by (auto simp: match_step_hit cc_ok_def x matching_ids_snoc max_def)
  qed (use st in \<open>simp add: match_step_skip\<close>)
  moreover have "cc_maxMatchSize c1 = cc_maxMatchSize c \<or> (\<exists>k. cc_maxMatchSize c1 \<le> card (matching_ids (cc_round c) k xs))"
    using snoc.IH [OF _ f] snoc.prems(1) by simp
  ultimately show ?case using grow by (metis order.trans order_refl)
qed simp

lemma insert_max:
  assumes "cc_ok c" and "cc_insertReply r sig c = (n, c')"
  shows "n = cc_maxMatchSize c' \<and> cc_replies c' = cc_replies (cc_store r sig c) \<and>
    (n = cc_maxMatchSize c \<or> (\<exists>rd k. n \<le> card (matching_ids rd k (cc_replies c'))))"
proof -
  obtain c2 m where c2: "c2 = snd (fold cc_round_step (cc_replies (cc_store r sig c)) (\<lambda>_. 0, cc_store r sig c))"
    and inv: "match_inv c2 (cc_replies c2) m c'" "cc_ok c2" "n = cc_maxMatchSize c'"
    and rep: "cc_replies c2 = cc_replies (cc_store r sig c)"
    by (rule cc_insert_parts [OF assms(2,1)])
  have "cc_maxMatchSize c2 = cc_maxMatchSize c"
    using round_loop_keeps [where c = "cc_store r sig c" and xs = "cc_replies (cc_store r sig c)" and n = "\<lambda>_. 0"] c2
    by (simp add: cc_store_def)
  moreover obtain m' where f: "fold cc_match_step (cc_replies c2) (\<lambda>_. {}, c2) = (m', c')"
    using assms(2) unfolding cc_insertReply_def Let_def c2 [symmetric] by (cases "fold cc_match_step (cc_replies c2) (\<lambda>_. {}, c2)") simp
  moreover have "cc_replies c' = cc_replies c2" using match_inv_same [OF inv(1)] by simp
  ultimately show ?thesis using match_loop_max [OF inv(2) _ f] rep inv(3) by auto
qed

lemma stored_from_history:
  "(i, r) \<in> set (cc_replies (cc_inserts hs (cc_init m))) \<Longrightarrow> r \<in> fst ` set hs \<and> i = sint (rep_replica_id r)"
proof (induction hs arbitrary: i r rule: rev_induct)
  case (snoc h hs)
  obtain r1 sig where h: "h = (r1, sig)" by (cases h)
  let ?c = "cc_inserts hs (cc_init m)"
  have ok: "cc_ok ?c" using cc_ok_inserts cc_ok_init by blast
  obtain n c' where ins: "cc_insertReply r1 sig ?c = (n, c')" by fastforce
  have "cc_inserts (hs @ [h]) (cc_init m) = c'" by (simp add: h ins cc_inserts_append)
  then have "(i, r) \<in> set (cc_replies (cc_store r1 sig ?c))" using insert_max [OF ok ins] snoc.prems by simp
  then have "(i, r) = (sint (rep_replica_id r1), r1) \<or> (i, r) \<in> set (cc_replies ?c)"
    using ok by (auto simp: cc_store_def sm_put_set cc_ok_def cc_stored_def)
  then show ?case using snoc.IH [of i r] by (auto simp: h)
qed (simp add: cc_init_def)

lemma max_match_group: "\<exists>k. cc_maxMatchSize (cc_inserts hs (cc_init m)) \<le> card (reply_group hs k)"
proof (induction hs rule: rev_induct)
  case (snoc h hs)
  obtain r1 sig where h: "h = (r1, sig)" by (cases h)
  let ?c = "cc_inserts hs (cc_init m)"
  have ok: "cc_ok ?c" using cc_ok_inserts cc_ok_init by blast
  obtain n c' where ins: "cc_insertReply r1 sig ?c = (n, c')" by fastforce
  have c': "cc_inserts (hs @ [h]) (cc_init m) = c'" by (simp add: h ins cc_inserts_append)
  have "matching_ids rd k (cc_replies c') \<subseteq> reply_group (hs @ [h]) k" for rd k
    using stored_from_history [of _ _ "hs @ [h]" m, unfolded c'] unfolding matching_ids_def reply_group_def by blast
  then have "card (matching_ids rd k (cc_replies c')) \<le> card (reply_group (hs @ [h]) k)" for rd k
    by (rule card_mono [OF reply_group_finite])
  moreover have "card (reply_group hs k) \<le> card (reply_group (hs @ [h]) k)" for k by (rule reply_group_mono) auto
  ultimately show ?case using insert_max [OF ok ins] snoc.IH unfolding c' by (metis order.trans)
qed (simp add: cc_init_def)

section \<open>What was heard\<close>

text \<open>The messages for a request that \<open>net\<close> delivers and the client accepts. A committed reply comes by
  itself or inside a repair summary; only the sender of the summary is checked.\<close>

definition heard_replies :: "'k client_env \<Rightarrow> (frame \<Rightarrow> bool) \<Rightarrow> u32 \<Rightarrow> reply set" where
  "heard_replies env net q = {r. rep_client_seq r = q \<and> (\<exists>fr. net fr \<and> hears_reply env fr r)}"

definition heard_cert_replies :: "'k client_env \<Rightarrow> (frame \<Rightarrow> bool) \<Rightarrow> u32 \<Rightarrow> cert_reply set" where
  "heard_cert_replies env net q = {c. crp_client_seq c = q \<and> (\<exists>fr. net fr \<and> hears_cert_reply env fr c)}"

definition heard_committed :: "'k client_env \<Rightarrow> (frame \<Rightarrow> bool) \<Rightarrow> u32 \<Rightarrow> committed_reply set" where
  "heard_committed env net q = {c. cr_client_seq c = q \<and> cr_client_id c = ce_id env \<and>
     (\<exists>fr. net fr \<and> (hears_committed env fr c \<or> (\<exists>m. hears_summary env fr m \<and> c \<in> set (sum_replies m))))}"

text \<open>What a request in flight records, and what is needed to commit it.\<close>

definition recorded :: "'k client_env \<Rightarrow> (frame \<Rightarrow> bool) \<Rightarrow> u32 \<Rightarrow> request_state \<Rightarrow> bool" where
  "recorded env net q r \<longleftrightarrow>
     (\<exists>hs. fst ` set hs \<subseteq> heard_replies env net q \<and> rqs_collector r = cc_inserts hs (cc_init (ce_cm env))) \<and>
     rqs_certReplies r \<subseteq> (\<lambda>c. sint (crp_replica_id c)) ` heard_cert_replies env net q \<and>
     rqs_repairReplies r \<subseteq> (\<lambda>c. sint (cr_replica_id c)) ` heard_committed env net q"

definition replicas_of_reply :: "'k client_env \<Rightarrow> (frame \<Rightarrow> bool) \<Rightarrow> u32 \<Rightarrow> reply_key \<Rightarrow> u32 set" where
  "replicas_of_reply env net q k = rep_replica_id ` {r \<in> heard_replies env net q. reply_key r = k}"

definition commit_evidence :: "'k client_env \<Rightarrow> (frame \<Rightarrow> bool) \<Rightarrow> u32 \<Rightarrow> bool" where
  "commit_evidence env net q \<longleftrightarrow>
     (\<exists>k. unat (cm_superQuorumSize (ce_cm env)) \<le> card (replicas_of_reply env net q k)) \<or>
     unat (cm_quorumSize (ce_cm env)) \<le> card (crp_replica_id ` heard_cert_replies env net q) \<or>
     unat (cfg_f (ce_config env) + 1) \<le> card (cr_replica_id ` heard_committed env net q)"

lemma card_sint: "card ((\<lambda>x. sint (f x :: u32)) ` A) = card (f ` A)"
proof -
  have "sint a = sint b \<longleftrightarrow> a = b" for a b :: u32 using word_eq_iff_signed by blast
  then have "inj_on sint (f ` A)" by (auto intro: inj_onI)
  from card_image [OF this] show ?thesis by (simp add: image_image)
qed

lemma evidence_group:
  assumes "recorded env net q r"
  shows "\<exists>k. cc_maxMatchSize (rqs_collector r) \<le> card (replicas_of_reply env net q k)"
proof -
  obtain hs where hs: "fst ` set hs \<subseteq> heard_replies env net q" "rqs_collector r = cc_inserts hs (cc_init (ce_cm env))"
    using assms by (auto simp: recorded_def)
  obtain k where k: "cc_maxMatchSize (rqs_collector r) \<le> card (reply_group hs k)" using max_match_group hs(2) by metis
  have "card (reply_group hs k) = card (rep_replica_id ` {r \<in> fst ` set hs. reply_key r = k})"
    unfolding reply_group_def by (rule card_sint)
  also have "\<dots> \<le> card (replicas_of_reply env net q k)"
    unfolding replicas_of_reply_def by (rule card_mono) (use hs(1) in auto)
  finally show ?thesis using k by (meson order.trans)
qed

lemma finite_sint [simp]: "finite ((\<lambda>x. sint (f x :: u32)) ` A)"
  using finite_imageI [of "f ` A" sint] by (simp add: image_image)

lemma evidence_cert:
  "recorded env net q r \<Longrightarrow> card (rqs_certReplies r) \<le> card (crp_replica_id ` heard_cert_replies env net q)"
  unfolding card_sint [symmetric] by (rule card_mono) (simp_all add: recorded_def)

lemma evidence_committed:
  "recorded env net q r \<Longrightarrow> card (rqs_repairReplies r) \<le> card (cr_replica_id ` heard_committed env net q)"
  unfolding card_sint [symmetric] by (rule card_mono) (simp_all add: recorded_def)

section \<open>Every recorded request\<close>

definition records :: "'k client_env \<Rightarrow> (frame \<Rightarrow> bool) \<Rightarrow> client \<Rightarrow> bool" where
  "records env net s \<longleftrightarrow> sm_ok (cl_requestStates s) \<and>
     (\<forall>q r. map_of (cl_requestStates s) q = Some r \<longrightarrow> recorded env net q r)"

text \<open>A handler that starts and ends with sound records, and loses requests only with evidence.\<close>

definition backed :: "'k client_env \<Rightarrow> (frame \<Rightarrow> bool) \<Rightarrow> client \<Rightarrow> client \<Rightarrow> bool" where
  "backed env net s s' \<longleftrightarrow> records env net s' \<and> (\<forall>q \<in> in_flight s - in_flight s'. commit_evidence env net q)"

lemma backed_refl: "records env net s \<Longrightarrow> backed env net s s"
  by (simp add: backed_def)

lemma backed_trans: "backed env net s t \<Longrightarrow> backed env net t u \<Longrightarrow> backed env net s u"
  by (auto simp: backed_def)

lemma records_get: "records env net s \<Longrightarrow> map_of (cl_requestStates s) q = Some r \<Longrightarrow> recorded env net q r"
  by (simp add: records_def)

lemma backed_frame:
  "backed env net s t \<Longrightarrow> cl_requestStates t' = cl_requestStates t \<Longrightarrow> backed env net s t'"
  by (simp add: backed_def records_def)

lemma records_frame: "records env net t \<Longrightarrow> cl_requestStates t' = cl_requestStates t \<Longrightarrow> records env net t'"
  by (simp add: records_def)

lemma backed_records: "backed env net s t \<Longrightarrow> records env net t"
  by (simp add: backed_def)

lemma recorded_new [simp]: "recorded env net q (new_request_state env req now)"
  by (auto simp: recorded_def new_request_state_def intro: exI [of _ "[]"])

lemma backed_put:
  "records env net s \<Longrightarrow> recorded env net q r \<Longrightarrow> backed env net s (put_request q r s)"
  by (auto simp: backed_def records_def sm_keys_put)

lemma backed_next:
  assumes "records env net s" and "nextRequest env now s = (req, s1)"
  shows "backed env net s s1"
  using assms nextRequest_sel(5) [OF assms(2)]
  by (auto simp: backed_def records_def sm_insert_def sm_keys_put split: if_splits)

lemma enqueueTask_requests [simp]: "cl_requestStates (enqueueTask rs s) = cl_requestStates s"
  by (simp add: enqueueTask_def)

lemma backed_submit: "records env net s \<Longrightarrow> backed env net s (submitRequest env now s)"
  using submit_parts [of env now s] backed_next backed_frame [of env net s _ "enqueueTask _ _"]
  by (metis enqueueTask_requests)

lemma backed_burst:
  assumes "records env net s" and "burst env now limit n reqs s = (reqs', s')"
  shows "backed env net s s'"
  using assms(2) backed_refl [OF assms(1)]
  by (rule burst_invariant) (metis backed_def backed_next backed_trans)

lemma backed_open_loop:
  assumes "records env net s" and "submitRequestsOpenLoop env now s = Inr s'"
  shows "backed env net s s'"
proof -
  define s1 where "s1 = (if cl_rateIncreaseActive s \<and> ucast (ce_rateIncreaseDurationUs env) \<le> now - cl_rateIncreaseStartTime s
                then s\<lparr>cl_rateIncreaseActive := False\<rparr> else s)"
  have s1: "cl_requestStates s1 = cl_requestStates s" by (simp add: s1_def)
  then have r1: "records env net (s1\<lparr>cl_lastSendTime := t\<rparr>)" "backed env net s (s1\<lparr>cl_lastSendTime := t\<rparr>)" for t
    using records_frame [OF assms(1)] backed_frame [OF backed_refl [OF assms(1)]] by simp_all
  have "s' = s1 \<or> (\<exists>limit t n reqs s2. burst env now limit n [] (s1\<lparr>cl_lastSendTime := t\<rparr>) = (reqs, s2) \<and> s' = enqueueTask reqs s2)"
    using assms(2) unfolding submitRequestsOpenLoop_def Let_def s1_def [symmetric]
    by (auto elim!: bindE_InrE split: if_splits prod.splits) blast+
  then show ?thesis
  proof (elim disjE exE conjE)
    fix limit t n reqs s2 assume b: "burst env now limit n [] (s1\<lparr>cl_lastSendTime := t\<rparr>) = (reqs, s2)" "s' = enqueueTask reqs s2"
    from backed_trans [OF r1(2) backed_burst [OF r1(1) b(1)]] show "backed env net s s'"
      by (rule backed_frame) (simp add: b(2))
  qed (use backed_frame [OF backed_refl [OF assms(1)]] s1 in simp)
qed

lemma backed_commit:
  assumes "records env net s" and "commit_evidence env net q"
  shows "backed env net s (commitRequest env now q n s)"
proof -
  obtain s3 where s3: "commitRequest env now q n s = (if ce_sendMode env = MaxInFlightBased then submitRequest env now s3 else s3)"
    "cl_requestStates s3 = sm_del q (cl_requestStates s)"
    using commitRequest_parts [of env now q n s] by blast
  have "in_flight s3 = in_flight s - {q}" by (auto simp: s3(2) sm_del_def)
  then have "backed env net s s3" using assms by (auto simp: backed_def records_def s3(2) split: if_splits)
  then show ?thesis unfolding s3(1) by (auto intro: backed_trans backed_submit backed_records)
qed

lemma backed_put_commit:
  assumes "records env net s" and "recorded env net q r" and "commit_evidence env net q"
  shows "backed env net s (commitRequest env now q n (put_request q r s))"
  using backed_put [OF assms(1,2)] by (rule backed_trans) (rule backed_commit [OF backed_records [OF backed_put [OF assms(1,2)]] assms(3)])

section \<open>The handlers\<close>

lemma recorded_flags:
  "recorded env net q (r\<lparr>rqs_certSent := a\<rparr>) = recorded env net q r" "recorded env net q (r\<lparr>rqs_quorumTime := b\<rparr>) = recorded env net q r"
  "recorded env net q (r\<lparr>rqs_certTime := b\<rparr>) = recorded env net q r" "recorded env net q (r\<lparr>rqs_sendTime := b\<rparr>) = recorded env net q r"
  "recorded env net q (r\<lparr>rqs_request := c\<rparr>) = recorded env net q r" "recorded env net q (r\<lparr>rqs_triggerSent := a\<rparr>) = recorded env net q r"
  "recorded env net q (r\<lparr>rqs_triggerRound := d\<rparr>) = recorded env net q r"
  "recorded env net q (r\<lparr>rqs_triggerSendTime := b\<rparr>) = recorded env net q r"
  by (simp_all add: recorded_def)

lemma recorded_reply:
  assumes "recorded env net q r" and "rep \<in> heard_replies env net q"
  shows "recorded env net q (r\<lparr>rqs_collector := snd (cc_insertReply rep sig (rqs_collector r))\<rparr>)"
proof -
  obtain hs where hs: "fst ` set hs \<subseteq> heard_replies env net q" "rqs_collector r = cc_inserts hs (cc_init (ce_cm env))"
    using assms(1) by (auto simp: recorded_def)
  have "fst ` set (hs @ [(rep, sig)]) \<subseteq> heard_replies env net q \<and>
      snd (cc_insertReply rep sig (rqs_collector r)) = cc_inserts (hs @ [(rep, sig)]) (cc_init (ce_cm env))"
    using hs assms(2) by (simp add: cc_inserts_append)
  then have "\<exists>hs'. fst ` set hs' \<subseteq> heard_replies env net q \<and>
      snd (cc_insertReply rep sig (rqs_collector r)) = cc_inserts hs' (cc_init (ce_cm env))" by (rule exI)
  then show ?thesis using assms(1) unfolding recorded_def by simp
qed

lemma recorded_cert_reply:
  "recorded env net q r \<Longrightarrow> c \<in> heard_cert_replies env net q \<Longrightarrow>
     recorded env net q (r\<lparr>rqs_certReplies := insert (sint (crp_replica_id c)) (rqs_certReplies r)\<rparr>)"
  by (auto simp: recorded_def)

lemma recorded_committed:
  "recorded env net q r \<Longrightarrow> c \<in> heard_committed env net q \<Longrightarrow>
     recorded env net q (r\<lparr>rqs_repairReplies := insert (sint (cr_replica_id c)) (rqs_repairReplies r)\<rparr>)"
  by (auto simp: recorded_def)

lemma backed_committed:
  assumes "records env net s" and "c \<in> heard_committed env net (cr_client_seq c)"
  shows "backed env net s (handleCommittedReply env now c s)"
proof (cases "map_of (cl_requestStates s) (cr_client_seq c)")
  case (Some r)
  let ?q = "cr_client_seq c"
  let ?r = "r\<lparr>rqs_repairReplies := insert (sint (cr_replica_id c)) (rqs_repairReplies r)\<rparr>"
  have r: "recorded env net ?q ?r" by (rule recorded_committed [OF records_get [OF assms(1) Some] assms(2)])
  have put: "backed env net s (put_request ?q ?r s)" by (rule backed_put [OF assms(1) r])
  have "commit_evidence env net ?q" if "unat (cfg_f (ce_config env) + 1) \<le> card (rqs_repairReplies ?r)"
    using evidence_committed [OF r] that by (simp add: commit_evidence_def)
  then show ?thesis
    using put backed_refl [OF assms(1)] backed_put_commit [OF assms(1) r] Some
    by (simp add: handleCommittedReply_def Let_def)
qed (use backed_refl [OF assms(1)] in \<open>simp add: handleCommittedReply_def Let_def\<close>)

lemma backed_summary:
  assumes "records env net s" and "\<forall>c \<in> set (sum_replies m). cr_client_id c = ce_id env \<longrightarrow> c \<in> heard_committed env net (cr_client_seq c)"
  shows "backed env net s (handleRepairSummary env now m s)"
proof -
  have "backed env net s (fold (\<lambda>c s'. if cr_client_id c \<noteq> ce_id env then s' else handleCommittedReply env now c s') cs t)"
    if "set cs \<subseteq> set (sum_replies m)" "backed env net s t" for cs t
    using that
  proof (induction cs arbitrary: t)
    case (Cons c cs)
    have "backed env net s (handleCommittedReply env now c t)" if "cr_client_id c = ce_id env"
      using backed_trans [OF Cons.prems(2) backed_committed [OF backed_records [OF Cons.prems(2)]]] assms(2) Cons.prems(1) that by auto
    then show ?case using Cons by simp
  qed simp
  then show ?thesis using backed_refl [OF assms(1)] by (simp add: handleRepairSummary_def)
qed

lemma backed_cert_reply:
  assumes "records env net s" and "c \<in> heard_cert_replies env net (crp_client_seq c)" and "handleCertReply env now c s = Inr s'"
  shows "backed env net s s'"
proof (cases "map_of (cl_requestStates s) (crp_client_seq c)")
  case (Some r)
  let ?q = "crp_client_seq c"
  let ?r = "r\<lparr>rqs_certReplies := insert (sint (crp_replica_id c)) (rqs_certReplies r)\<rparr>"
  have r: "recorded env net ?q ?r" by (rule recorded_cert_reply [OF records_get [OF assms(1) Some] assms(2)])
  have put: "backed env net s (put_request ?q ?r s)" by (rule backed_put [OF assms(1) r])
  have "commit_evidence env net ?q" if "unat (cm_quorumSize (ce_cm env)) \<le> card (rqs_certReplies ?r)"
    using evidence_cert [OF r] that by (simp add: commit_evidence_def)
  then show ?thesis
    using put backed_put_commit [OF assms(1) r] Some assms(3)
    by (auto simp: handleCertReply_def Let_def split: if_splits)
qed (use backed_refl [OF assms(1)] assms(3) in \<open>simp add: handleCertReply_def Let_def split: if_splits\<close>)

lemma early_frame:
  "send_cert_early env q n r s = Inr (r', s') \<Longrightarrow>
     cl_requestStates s' = cl_requestStates s \<and> (r' = r \<or> r' = r\<lparr>rqs_certSent := True\<rparr>)"
  by (auto simp: send_cert_early_def Let_def send_cert_def elim!: bindE_InrE split: if_splits)

lemma trigger_frame:
  "send_trigger env now rep n r s = (r', s') \<Longrightarrow>
     cl_requestStates s' = cl_requestStates s \<and> recorded env net q r' = recorded env net q r"
  by (auto simp: send_trigger_def Let_def recorded_flags split: if_splits)

lemma backed_reply:
  assumes "records env net s" and "rep \<in> heard_replies env net (rep_client_seq rep)" and "handleReply env now rep sig s = Inr s'"
  shows "backed env net s s'"
proof (cases "map_of (cl_requestStates s) (rep_client_seq rep)")
  case (Some r0)
  let ?q = "rep_client_seq rep"
  obtain size coll where ins: "cc_insertReply rep sig (rqs_collector r0) = (size, coll)" by fastforce
  define r2 where "r2 = (if cc_numReceived coll = cm_quorumSize (ce_cm env)
    then r0\<lparr>rqs_collector := coll, rqs_quorumTime := now\<rparr> else r0\<lparr>rqs_collector := coll\<rparr>)"
  define r3 where "r3 = (if \<not> cc_hasCert (rqs_collector r0) \<and> cc_hasCert coll then r2\<lparr>rqs_certTime := now\<rparr> else r2)"
  have "recorded env net ?q (r0\<lparr>rqs_collector := coll\<rparr>)"
    using recorded_reply [OF records_get [OF assms(1) Some] assms(2), of sig] ins by simp
  then have r3: "recorded env net ?q r3" by (simp add: r3_def r2_def recorded_flags)
  have coll: "rqs_collector r3 = coll" by (simp add: r3_def r2_def)
  obtain hs where "rqs_collector r0 = cc_inserts hs (cc_init (ce_cm env))"
    using records_get [OF assms(1) Some] by (auto simp: recorded_def)
  then have "cc_ok (rqs_collector r0)" using cc_ok_inserts [OF cc_ok_init] by simp
  then have size: "size = cc_maxMatchSize coll" using insert_max ins by blast
  show ?thesis
  proof (cases "cm_superQuorumSize (ce_cm env) \<le> of_nat size")
    case True
    have "unat (of_nat size :: u32) \<le> size" by (simp add: unat_of_nat)
    then have "unat (cm_superQuorumSize (ce_cm env)) \<le> cc_maxMatchSize (rqs_collector r3)"
      using True coll size by (simp add: word_le_nat_alt)
    then have "commit_evidence env net ?q"
      using evidence_group [OF r3] unfolding commit_evidence_def by (meson order.trans)
    from backed_put_commit [OF assms(1) r3 this]
    have "backed env net s (commitRequest env now ?q (ucast (rep_seq rep)) (put_request ?q r3 s))" .
    moreover have "handleReply env now rep sig s = Inr (commitRequest env now ?q (ucast (rep_seq rep)) (put_request ?q r3 s))"
      using Some ins True by (simp add: handleReply_def Let_def r2_def r3_def)
    ultimately show ?thesis using assms(3) by simp
  next
    case False
    then have "handleReply env now rep sig s = bindE (send_cert_early env ?q (of_nat size) r3 s) (\<lambda>(r4, s1).
        let (r5, s2) = send_trigger env now rep (of_nat size) r4 s1 in Inr (put_request ?q r5 s2))"
      using Some ins by (simp add: handleReply_def Let_def r2_def r3_def)
    with assms(3) obtain r4 s1 r5 s2 where st: "send_cert_early env ?q (of_nat size) r3 s = Inr (r4, s1)"
      "send_trigger env now rep (of_nat size) r4 s1 = (r5, s2)" "s' = put_request ?q r5 s2"
      by (auto simp: Let_def elim!: bindE_InrE split: prod.splits)
    note e = early_frame [OF st(1)] and t = trigger_frame [OF st(2)]
    have "recorded env net ?q r5" using r3 e t by (auto simp: recorded_flags)
    from backed_put [OF assms(1) this] show ?thesis
      by (rule backed_frame) (use st(3) e t in simp)
  qed
qed (use backed_refl [OF assms(1)] assms(3) in \<open>simp add: handleReply_def\<close>)

lemma backed_message:
  assumes "records env net s" and "net fr" and "client_handleMessage env now fr s = Inr s'"
  shows "backed env net s s'"
  using client_handleMessage_cases [OF assms(3)]
proof (elim disjE exE conjE)
  fix r assume r: "hears_reply env fr r" "handleReply env now r (fr_sig fr) s = Inr s'"
  have "r \<in> heard_replies env net (rep_client_seq r)" using r assms(2) by (auto simp: heard_replies_def)
  then show ?thesis by (rule backed_reply [OF assms(1) _ r(2)])
next
  fix c assume c: "hears_cert_reply env fr c" "handleCertReply env now c s = Inr s'"
  have "c \<in> heard_cert_replies env net (crp_client_seq c)" using c assms(2) by (auto simp: heard_cert_replies_def)
  then show ?thesis by (rule backed_cert_reply [OF assms(1) _ c(2)])
next
  fix c assume c: "hears_committed env fr c" "s' = handleCommittedReply env now c s"
  show ?thesis
  proof (cases "cr_client_id c = ce_id env")
    case True
    then show ?thesis using backed_committed [OF assms(1)] assms(2) c by (auto simp: heard_committed_def)
  qed (use c backed_refl [OF assms(1)] in \<open>simp add: handleCommittedReply_def Let_def\<close>)
next
  fix m assume "hears_summary env fr m" "s' = handleRepairSummary env now m s"
  then show ?thesis using backed_summary [OF assms(1), of m] assms(2) by (auto simp: heard_committed_def)
qed (use backed_refl [OF assms(1)] in simp)

lemma backed_handler:
  assumes "records env net s" and "net fr" and "reply_handler env now fr s = Inr (b, s')"
  shows "backed env net s s'"
proof (cases b)
  case True
  then obtain s1 where "client_handleMessage env now fr s = Inr s1"
    "(if ce_sendMode env = RateBased then submitRequestsOpenLoop env now s1 else Inr s1) = Inr s'"
    using assms(3) by (auto simp: reply_handler_def elim!: bindE_InrE split: if_splits)
  then show ?thesis
    using backed_message [OF assms(1,2)] backed_trans backed_open_loop backed_records by (metis sum.inject(2))
next
  case False
  then show ?thesis using assms(3) backed_refl [OF assms(1)] by (auto simp: reply_handler_def elim!: bindE_InrE split: if_splits)
qed

lemma records_updates [simp]:
  "records env net (s\<lparr>cl_tasks := a\<rparr>) = records env net s" "records env net (s\<lparr>cl_out := b\<rparr>) = records env net s"
  by (simp_all add: records_def)

lemma records_timeouts:
  assumes "records env net s" and "client_checkTimeouts env now s = Inr s'"
  shows "records env net s'"
  using assms(2) unfolding client_checkTimeouts_def
proof (rule foldE_invariant [where P = "records env net"])
  fix p t t' assume p: "p \<in> set (cl_requestStates s)" "records env net t" "check_request env now p t = Inr t'"
  obtain q r where qr: "p = (q, r)" by (cases p)
  have "recorded env net q r"
    using records_get [OF assms(1)] p(1) assms(1) unfolding qr records_def by (metis sm_get_in_set)
  then have "records env net (put_request q (r\<lparr>rqs_certSent := True\<rparr>) t)"
    "records env net (put_request q (r\<lparr>rqs_request := rq, rqs_sendTime := now, rqs_triggerSent := False\<rparr>) t)" for rq
    using backed_records [OF backed_put [OF p(2)]] by (simp_all add: recorded_flags)
  then show "records env net t'"
    using p(2,3) unfolding qr
    by (auto simp: check_request_def Let_def send_cert_def enqueueTask_def elim!: bindE_InrE intro: records_frame split: if_splits)
qed (use assms(1) in simp)

lemma records_task:
  assumes "records env net s" and "run_task env s = Inr s'"
  shows "records env net s'"
proof -
  have send: "records env net t'" if "records env net t" "sendRequest env rq t = Inr t'" for rq t t'
    by (rule records_frame [OF that(1)]) (use that(2) in \<open>auto simp: sendRequest_def Let_def split: if_splits\<close>)
  show ?thesis
  proof (cases "cl_tasks s")
    case (Cons rs ts)
    have "records env net (s\<lparr>cl_tasks := ts\<rparr>)" by (rule records_frame [OF assms(1)]) simp
    with assms(2) Cons show ?thesis by (auto simp: run_task_def intro: foldE_invariant [where P = "records env net"] send)
  qed (use assms in \<open>simp add: run_task_def\<close>)
qed

lemma records_start: "records env net (client_start env now)"
proof -
  have init: "records env net (client_init now)" by (simp add: records_def client_init_def)
  moreover have "records env net (((submitRequest env now) ^^ n) (client_init now))" for n
    by (induction n) (use init backed_records [OF backed_submit] in simp_all)
  ultimately show ?thesis
    using backed_records [OF backed_submit [OF init]] by (simp add: client_start_def split: send_mode.split)
qed

lemma records_reach: "client_reach env net s \<Longrightarrow> records env net s"
proof (induction rule: client_reach.induct)
  case (message s fr now s')
  then show ?case using backed_records backed_handler by blast
next
  case (send s now s')
  then show ?case using backed_records backed_open_loop by blast
qed (use records_start records_timeouts records_task in blast)+

end
