(* ===== verification/ClientBehaviour.thy ===== *)
theory ClientBehaviour
  imports ClientEvidence
begin

text \<open>
  The properties of the client: the counts and bounds of its requests, the evidence behind what it
  takes as committed, and its behaviour at the edges: forged summaries, stale sizes of groups of
  replies, long run times.
\<close>

section \<open>A client and its messages\<close>

text \<open>A client of the configuration \<open>demo_config\<close>; a frame of the type of a summary carries \<open>m\<close>.\<close>

definition demo_client :: "repair_summary \<Rightarrow> unit client_env" where
  "demo_client m =
     \<lparr>ce_cm = demo_config, ce_wire = demo_wire\<lparr>wp_parse := (\<lambda>t b. if t = REPAIR_SUMMARY then Some (M_RepairSummary m) else None)\<rparr>,
      ce_id = 7, ce_useProxy = False, ce_sendToLeader = False, ce_sendMode = RateBased, ce_sendRate = 100,
      ce_maxInFlight = 10, ce_requestSize = 0, ce_normalPathTimeout = 0, ce_requestTimeout = 0, ce_useHMAC = False,
      ce_rateIncreaseEnabled = False, ce_rateIncreaseSeqThreshold = 0, ce_rateIncreaseDurationUs = 0,
      ce_increasedSendRate = 0, ce_increasedMaxInFlight = 20, ce_runtimeSeconds = 100, ce_numProxies = 1,
      ce_appRequest = (\<lambda>n. [of_nat n]), ce_paddedData = (\<lambda>d p. d)\<rparr>"

lemma demo_client_sel [simp]:
  "ce_cm (demo_client m) = demo_config" "ce_id (demo_client m) = 7" "ce_sendMode (demo_client m) = RateBased"
  "ce_rateIncreaseEnabled (demo_client m) = False" "ce_runtimeSeconds (demo_client m) = 100" "ce_useHMAC (demo_client m) = False"
  "ce_maxInFlight (demo_client m) = 10" "ce_increasedMaxInFlight (demo_client m) = 20" "ce_sendRate (demo_client m) = 100"
  by (simp_all add: demo_client_def)

text \<open>A committed reply for the request \<open>q\<close> of the client \<open>c\<close> in the name of the replica \<open>i\<close>.\<close>

definition claimed :: "u32 \<Rightarrow> u32 \<Rightarrow> bytes \<Rightarrow> u32 \<Rightarrow> committed_reply" where
  "claimed c q result i = \<lparr>cr_replica_id = i, cr_client_id = c, cr_client_seq = q, cr_seq = 1, cr_result = result, cr_is_repair = True\<rparr>"

definition demo_summary :: repair_summary where
  "demo_summary = \<lparr>sum_round = 0, sum_replica_id = 3, sum_replies = map (claimed 7 1 [9]) [0, 1], sum_pbft_view = 0,
     sum_committed_seqs = \<lparr>csp_client_id = 7, csp_last_seq = 0, csp_missed_seqs = []\<rparr>\<rparr>"

definition demo_summary_frame :: frame where
  "demo_summary_frame = \<lparr>fr_type = code_of_type REPAIR_SUMMARY, fr_body = [], fr_sig = [1]\<rparr>"

lemma demo_hears: "hears_summary (demo_client demo_summary) demo_summary_frame demo_summary"
  by (simp add: hears_summary_def demo_summary_frame_def demo_client_def demo_wire_simps signed_by_def)

text \<open>The start of an open loop, whose only request is number 1.\<close>

lemma demo_start:
  "cl_requestStates (client_start (demo_client m) 0) = [(1, new_request_state (demo_client m) \<lparr>crq_client_id = 7,
     crq_client_seq = 1, crq_send_time = 0, crq_deadline = 0, crq_is_write = True, crq_req_data = [0]\<rparr> 0)]"
  "cl_numInFlight (client_start (demo_client m) 0) = 1" "cl_generated (client_start (demo_client m) 0) = 1"
  "cl_startTime (client_start (demo_client m) 0) = 0" "cl_out (client_start (demo_client m) 0) = []"
  "cl_lastSendTime (client_start (demo_client m) 0) = 0" "cl_rateIncreaseActive (client_start (demo_client m) 0) = False"
  by (simp_all add: client_start_def demo_client_def submitRequest_def nextRequest_def fillRequestData_def client_init_def
    enqueueTask_def sm_insert_def sm_has_def Let_def)

section \<open>Forged summaries\<close>

lemma forged_commit:
  assumes "ce_sendMode env = RateBased" and "distinct ids" and "map_of (cl_requestStates s) q = Some r"
    and "rqs_repairReplies r \<inter> (sint ` set ids) = {}" and "finite (rqs_repairReplies r)"
    and "unat (cfg_f (ce_config env) + 1) \<le> card (rqs_repairReplies r) + length ids" and "ids \<noteq> []"
  shows "map_of (cl_requestStates (fold (handleCommittedReply env now) (map (claimed (ce_id env) q v) ids) s)) q = None"
  using assms(2-7)
proof (induction ids arbitrary: s r)
  case (Cons i ids)
  let ?c = "claimed (ce_id env) q v i"
  let ?r = "r\<lparr>rqs_repairReplies := insert (sint i) (rqs_repairReplies r)\<rparr>"
  have gone: "map_of (cl_requestStates (fold (handleCommittedReply env now) (map (claimed (ce_id env) q v) js) t)) q = None"
    if "map_of (cl_requestStates t) q = None" for js t
    using that by (induction js arbitrary: t) (simp_all add: handleCommittedReply_def claimed_def)
  have card: "card (rqs_repairReplies ?r) = Suc (card (rqs_repairReplies r))" using Cons.prems(3,4) by simp
  show ?case
  proof (cases "unat (cfg_f (ce_config env) + 1) \<le> card (rqs_repairReplies ?r)")
    case True
    obtain s3 where "commitRequest env now q 1 (put_request q ?r s) = s3" "cl_requestStates s3 = sm_del q (cl_requestStates (put_request q ?r s))"
      using commitRequest_parts [of env now q 1 "put_request q ?r s"] assms(1) by auto
    then have "map_of (cl_requestStates (handleCommittedReply env now ?c s)) q = None"
      using True Cons.prems(2) by (simp add: handleCommittedReply_def claimed_def Let_def)
    then show ?thesis using gone by simp
  next
    case False
    then have step: "handleCommittedReply env now ?c s = put_request q ?r s"
      using Cons.prems(2) by (simp add: handleCommittedReply_def claimed_def Let_def)
    have "sint a = sint b \<longleftrightarrow> a = b" for a b :: u32 using word_eq_iff_signed by blast
    then have "sint i \<notin> sint ` set ids" using Cons.prems(1) by auto
    moreover have "ids \<noteq> []" using False card Cons.prems(5) by auto
    ultimately show ?thesis
      using Cons.IH [of "put_request q ?r s" ?r] Cons.prems card step by auto
  qed
qed simp

text \<open>C40: a repair summary signed by one replica commits any request in flight: the client checks the signature
  of the summary alone, and takes the replica numbers of the replies inside as they are.\<close>

theorem client_summary_forged:
  assumes "ce_sendMode env = RateBased" and "map_of (cl_requestStates s) q = Some r" and "rqs_repairReplies r = {}"
    and "hears_summary env fr m" and "sum_replies m = map (claimed (ce_id env) q v) ids" and "distinct ids"
    and "0 < unat (cfg_f (ce_config env) + 1)" and "unat (cfg_f (ce_config env) + 1) \<le> length ids"
  shows "\<exists>s'. client_handleMessage env now fr s = Inr s' \<and> map_of (cl_requestStates s') q = None"
proof -
  have "ids \<noteq> []" using assms(7,8) by auto
  moreover have "(\<lambda>c s'. if cr_client_id c \<noteq> ce_id env then s' else handleCommittedReply env now c s') = handleCommittedReply env now"
    by (simp add: fun_eq_iff handleCommittedReply_def)
  ultimately have "map_of (cl_requestStates (handleRepairSummary env now m s)) q = None"
    using forged_commit [OF assms(1,6,2)] assms(3,5,8) by (simp add: handleRepairSummary_def)
  moreover have "client_handleMessage env now fr s = Inr (handleRepairSummary env now m s)"
    using assms(4) by (simp add: hears_summary_def client_handleMessage_def)
  ultimately show ?thesis by blast
qed

theorem client_summary_forged_witness:
  "\<exists>s'. client_handleMessage (demo_client demo_summary) 5 demo_summary_frame (client_start (demo_client demo_summary) 0) = Inr s' \<and>
     map_of (cl_requestStates s') 1 = None"
  by (rule client_summary_forged [OF _ _ _ demo_hears, where q = 1 and v = "[9]" and ids = "[0, 1]"])
    (simp_all add: demo_start, simp_all add: demo_client_def new_request_state_def demo_summary_def demo_config_def)

section \<open>Evidence\<close>

text \<open>C22: a request leaves the requests in flight, in any reachable state and for whatever message, only when the client
  has accepted one of three kinds of evidence for it: equal replies that name a super quorum of different replicas, each in a message that
  passed the check, by signature or HMAC, of the replica it names; answers to its certificate that name a quorum
  of different replicas, each signed by the replica it names; or committed replies that name \<open>f + 1\<close> different replicas, each in a message signed
  by the replica it names or inside a summary. Only the sender of a summary is checked, so the last kind
  can come from one replica (C40).\<close>

theorem client_commit_evidence:
  assumes "client_reach env net s" and "net fr" and "reply_handler env now fr s = Inr (b, s')"
    and "q \<in> in_flight s" and "q \<notin> in_flight s'"
  shows "commit_evidence env net q"
  using backed_handler [OF records_reach [OF assms(1)] assms(2,3)] assms(4,5) by (simp add: backed_def)

lemma num_to_send_none [simp]: "num_to_send 0 rate = 0"
  by (simp add: num_to_send_def fl_div_def fl_of_nat_def fl_trunc_def)

text \<open>A client that hears the committed replies of two replicas, each in a message of its own.\<close>

definition demo_committed_client :: "unit client_env" where
  "demo_committed_client = (demo_client demo_summary)\<lparr>ce_wire := demo_wire\<lparr>wp_parse := (\<lambda>t b.
     if t = COMMITTED_REPLY then Some (M_CommittedReply (claimed 7 1 [9] (ucast (hd b)))) else None)\<rparr>\<rparr>"

definition demo_committed_frame :: "u8 \<Rightarrow> frame" where
  "demo_committed_frame i = \<lparr>fr_type = code_of_type COMMITTED_REPLY, fr_body = [i], fr_sig = [1]\<rparr>"

lemma demo_committed_start:
  "cl_requestStates (client_start demo_committed_client 0) = [(1, new_request_state demo_committed_client \<lparr>crq_client_id = 7,
     crq_client_seq = 1, crq_send_time = 0, crq_deadline = 0, crq_is_write = True, crq_req_data = [0]\<rparr> 0)]"
  "cl_startTime (client_start demo_committed_client 0) = 0" "cl_lastSendTime (client_start demo_committed_client 0) = 0"
  "cl_rateIncreaseActive (client_start demo_committed_client 0) = False" "cl_numInFlight (client_start demo_committed_client 0) = 1"
  by (simp_all add: client_start_def demo_committed_client_def demo_client_def submitRequest_def nextRequest_def fillRequestData_def
    client_init_def enqueueTask_def sm_insert_def sm_has_def Let_def)

lemma demo_committed_message:
  "client_handleMessage demo_committed_client 0 (demo_committed_frame i) s =
     Inr (handleCommittedReply demo_committed_client 0 (claimed 7 1 [9] (ucast i)) s)"
  by (simp add: client_handleMessage_def demo_committed_client_def demo_committed_frame_def demo_wire_simps signed_by_def)

lemma demo_committed_sel [simp]:
  "ce_cm demo_committed_client = demo_config" "ce_id demo_committed_client = 7" "ce_sendMode demo_committed_client = RateBased"
  "ce_rateIncreaseEnabled demo_committed_client = False" "ce_runtimeSeconds demo_committed_client = 100"
  "ce_maxInFlight demo_committed_client = 10" "ce_increasedMaxInFlight demo_committed_client = 20" "ce_sendRate demo_committed_client = 100"
  by (simp_all add: demo_committed_client_def)

theorem client_commit_evidence_witness:
  "\<exists>s s'. client_reach demo_committed_client (\<lambda>fr. fr \<in> {demo_committed_frame 0, demo_committed_frame 2}) s \<and>
     reply_handler demo_committed_client 0 (demo_committed_frame 2) s = Inr (True, s') \<and> 1 \<in> in_flight s \<and> 1 \<notin> in_flight s' \<and>
     commit_evidence demo_committed_client (\<lambda>fr. fr \<in> {demo_committed_frame 0, demo_committed_frame 2}) 1"
proof -
  let ?net = "\<lambda>fr. fr \<in> {demo_committed_frame 0, demo_committed_frame 2}" and ?s = "client_start demo_committed_client 0"
  note run = reply_handler_def demo_committed_message handleCommittedReply_def claimed_def Let_def demo_committed_start commitRequest_def
    put_request_def new_request_state_def demo_config_def sm_del_def submitRequestsOpenLoop_def
  obtain s where s: "reply_handler demo_committed_client 0 (demo_committed_frame 0) ?s = Inr (True, s)" "1 \<in> in_flight s"
    "\<exists>s'. reply_handler demo_committed_client 0 (demo_committed_frame 2) s = Inr (True, s') \<and> 1 \<notin> in_flight s'"
    by (simp add: run)
  then obtain s' where s': "reply_handler demo_committed_client 0 (demo_committed_frame 2) s = Inr (True, s')" "1 \<notin> in_flight s'" by blast
  have reach: "client_reach demo_committed_client ?net s" by (rule client_reach.message [OF client_reach.start _ s(1)]) simp
  have "commit_evidence demo_committed_client ?net 1" by (rule client_commit_evidence [OF reach _ s'(1) s(2) s'(2)]) simp
  then show ?thesis using reach s(2) s' by blast
qed

section \<open>Counts and bounds\<close>

text \<open>C23: in every reachable state, as long as the 32-bit sequence numbers last, the requests submitted are those in
  flight and those committed, each counted once, and the next sequence number is new.\<close>

theorem client_counts_requests:
  assumes "client_reach env net s" and "cl_generated s < 2 ^ 32 - 1"
  shows "length (cl_requestStates s) = unat (cl_numInFlight s) \<and>
    unat (cl_numCommitted s) + unat (cl_numInFlight s) = cl_generated s \<and> unat (cl_nextSeq s) = Suc (cl_generated s) \<and>
    sm_ok (cl_requestStates s) \<and> in_flight s \<subseteq> {k. k < cl_nextSeq s}"
  using counts.reach [OF assms(1)] assms(2) by (auto simp: client_ok_def client_counts_def)

theorem client_counts_requests_witness:
  "unat (cl_numCommitted (client_start (demo_client demo_summary) 0)) + 1 = 1"
  using client_counts_requests [OF client_reach.start [of "demo_client demo_summary" "\<lambda>_. False" 0]]
  by (simp add: demo_start)

text \<open>C24: the requests in flight keep to the configured limit: a closed loop has exactly \<open>maxInFlight\<close> of them at any time,
  an open loop never more than the larger of its two limits (and one, which starts it).\<close>

theorem client_in_flight_bounded:
  assumes "client_reach env net s" and "cl_generated s < 2 ^ 32 - 1"
  shows "length (cl_requestStates s) \<in> (if ce_sendMode env = MaxInFlightBased then {unat (ce_maxInFlight env)}
    else {0..unat (max 1 (max (ce_maxInFlight env) (ce_increasedMaxInFlight env)))})"
  using window.reach [OF assms(1)] assms(2)
  by (cases "ce_sendMode env") (auto simp: client_window_def client_ok_def client_counts_def rate_limit_def word_le_nat_alt)

theorem client_in_flight_bounded_witness:
  "length (cl_requestStates (client_start (demo_client demo_summary) 0)) \<in> {0..20}"
  using client_in_flight_bounded [OF client_reach.start [of "demo_client demo_summary" "\<lambda>_. False" 0]]
  by (simp add: demo_start)

section \<open>Edges\<close>

text \<open>The microseconds of the run time are a product of signed 32-bit numbers: with a run time of 2148 seconds or more
  every message makes it overflow.\<close>

theorem client_runtime_overflows:
  assumes "2148 \<le> ce_runtimeSeconds env"
  shows "reply_handler env now fr s = Inl Undefined"
  using assms by (simp add: reply_handler_def)

theorem client_runtime_overflows_witness:
  "reply_handler ((demo_client demo_summary)\<lparr>ce_runtimeSeconds := 3600\<rparr>) 1 demo_summary_frame
     (client_start (demo_client demo_summary) 0) = Inl Undefined"
  by (rule client_runtime_overflows) simp

text \<open>The size of the largest group of matching replies outlives the round it was counted in; when it exceeds the
  number of replies of the current round, their 32-bit difference wraps, and the client sends its replies to
  the replicas as a proof of disagreement, although they may all match.\<close>

theorem client_stale_size_triggers:
  assumes "map_of (cl_requestStates s) (rep_client_seq reply) = Some r" and "\<not> rqs_triggerSent r"
    and "cc_insertReply reply sig (rqs_collector r) = (n, coll)" and "cc_round coll = rep_round reply"
    and "unat (cc_numReceived coll) < n" and "\<not> cc_hasCert coll" and "n < unat (cm_superQuorumSize (ce_cm env))"
    and "unat (cfg_f (ce_config env)) + n < 2 ^ 32" and "cfg_clientSendProofs (ce_config env)"
    and "i < cfg_replicaIps_size (ce_config env)"
  shows "\<exists>s'. handleReply env now reply sig s = Inr s' \<and>
    (Cl_Replica i, REPAIR_REPLY_PROOF, M_RepairReplyProof (client_proof coll)) \<in> set (cl_out s')"
proof -
  have size: "unat (of_nat n :: u32) = n" using assms(8) by (simp add: unat_of_nat)
  have lt: "cc_numReceived coll < (of_nat n :: u32)" using assms(5) size by (simp add: word_less_nat_alt)
  have "unat (cc_numReceived coll - of_nat n :: u32) = 2 ^ 32 + unat (cc_numReceived coll) - n"
    using unat_sub_if_size [of "cc_numReceived coll" "of_nat n"] assms(5) size by (simp add: word_size)
  then have wrap: "cfg_f (ce_config env) < cc_numReceived coll - of_nat n"
    using assms(8) by (simp add: word_less_nat_alt)
  have sq: "\<not> cm_superQuorumSize (ce_cm env) \<le> of_nat n" using assms(7) size by (simp add: word_le_nat_alt)
  show ?thesis
    using assms(1-4,6,9,10) wrap sq
    by (cases "cc_numReceived coll = cm_quorumSize (ce_cm env)")
      (simp_all add: handleReply_def send_cert_early_def send_trigger_def Let_def to_replicas_def)
qed

text \<open>Three replicas answer the only request in round 0, then two of them again, alike, in round 1.\<close>

definition trigger_client :: "unit client_env" where
  "trigger_client = (demo_client demo_summary)\<lparr>ce_cm := demo_config\<lparr>cm_config := (cm_config demo_config)\<lparr>cfg_clientSendProofs := True\<rparr>\<rparr>\<rparr>"

definition answered :: client where
  "answered = put_request 1 ((new_request_state trigger_client \<lparr>crq_client_id = 7, crq_client_seq = 1, crq_send_time = 0,
        crq_deadline = 0, crq_is_write = True, crq_req_data = [0]\<rparr> 0)
     \<lparr>rqs_collector := cc_inserts [(demo_reply 0 0, [0]), (demo_reply 1 0, [1]), (demo_reply 2 0, [2]), (demo_reply 0 1, [0])]
        (cc_init demo_config)\<rparr>) (client_start trigger_client 0)"

theorem client_stale_size_triggers_witness:
  "\<exists>s' p. handleReply trigger_client 0 (demo_reply 1 1) [1] answered = Inr s' \<and> (Cl_Replica 0, REPAIR_REPLY_PROOF, M_RepairReplyProof p) \<in> set (cl_out s') \<and>
     rrp_replies p = [demo_reply 0 1, demo_reply 1 1]"
proof -
  let ?cs = "cc_inserts [(demo_reply 0 0, [0]), (demo_reply 1 0, [1]), (demo_reply 2 0, [2]), (demo_reply 0 1, [0])] (cc_init demo_config)"
  obtain n coll where ins: "cc_insertReply (demo_reply 1 1) [1] ?cs = (n, coll)" by fastforce
  have "coll = cc_inserts [(demo_reply 0 1, [0]), (demo_reply 1 1, [1])]
     (cc_inserts [(demo_reply 0 0, [0]), (demo_reply 1 0, [1]), (demo_reply 2 0, [2])] (cc_init demo_config))"
    using arg_cong [OF ins, of snd] by simp
  note coll = this [unfolded demo_advance]
  have "n = cc_maxMatchSize coll" using ins insert_max cc_ok_inserts cc_ok_init by blast
  then have n: "n = 3" by (simp add: coll)
  have r: "map_of (cl_requestStates answered) (rep_client_seq (demo_reply 1 1)) =
      Some ((new_request_state trigger_client \<lparr>crq_client_id = 7, crq_client_seq = 1, crq_send_time = 0,
        crq_deadline = 0, crq_is_write = True, crq_req_data = [0]\<rparr> 0)\<lparr>rqs_collector := ?cs\<rparr>)"
    by (simp only: answered_def put_request_sel sm_get_put) (simp add: demo_reply_def)
  have upd: "rqs_collector (rs\<lparr>rqs_collector := c\<rparr>) = c" for rs c by simp
  have ins': "cc_insertReply (demo_reply 1 1) [1] (rqs_collector (rs\<lparr>rqs_collector := ?cs\<rparr>)) = (n, coll)" for rs
    using ins by (simp only: upd)
  have p: "rrp_replies (client_proof coll) = [demo_reply 0 1, demo_reply 1 1]"
    by (simp add: client_proof_def coll demo_reply_def)
  have "\<exists>s'. handleReply trigger_client 0 (demo_reply 1 1) [1] answered = Inr s' \<and>
      (Cl_Replica 0, REPAIR_REPLY_PROOF, M_RepairReplyProof (client_proof coll)) \<in> set (cl_out s')"
    by (rule client_stale_size_triggers [OF r _ ins'])
      (simp_all add: n coll trigger_client_def, simp_all add: new_request_state_def cc_hasCert_def cc_numReceived_def demo_reply_def demo_config_def)
  then show ?thesis using p by blast
qed

end
