(* ===== verification/Owd.thy ===== *)
theory Owd
  imports Prelude "HOL-Library.Multiset"
begin

text \<open>
  The estimate of one-way delays of the proxy (\<open>processes/proxy/owd_calc.h\<close>): a window of the last
  measures of each receiver, and the three ways to make one number of a window. An index out of range and
  a division by zero are \<open>Undefined\<close>.
\<close>

section \<open>State and operations\<close>

definition vec_at :: "'a list \<Rightarrow> nat \<Rightarrow> 'a res" where
  "vec_at xs i = (if i < length xs then Inr (xs ! i) else Inl Undefined)"

datatype owd_kind = MeanCtx | MaxCtx | PercentileCtx u32

record owd_ctx =
  oc_kind :: owd_kind
  oc_numReceivers :: u32
  oc_cap :: u32
  oc_windowSize :: u32
  oc_windowIndex :: "u32 list"
  oc_recvrMeasures :: "u32 list list"

definition owd_init :: "owd_kind \<Rightarrow> u32 \<Rightarrow> u32 \<Rightarrow> u32 \<Rightarrow> u32 \<Rightarrow> owd_ctx" where
  "owd_init kind numReceivers cap windowSize initialMeasure =
     (let w = (if kind = MaxCtx then 1 else windowSize)
      in \<lparr>oc_kind = kind, oc_numReceivers = numReceivers, oc_cap = cap, oc_windowSize = w,
          oc_windowIndex = replicate (unat numReceivers) 0,
          oc_recvrMeasures = replicate (unat numReceivers) (replicate (unat w) initialMeasure)\<rparr>)"

definition addMeasure :: "u32 \<Rightarrow> u32 \<Rightarrow> owd_ctx \<Rightarrow> owd_ctx res" where
  "addMeasure rcvrIndex owd c =
     (let r = unat rcvrIndex
      in bindE (vec_at (oc_recvrMeasures c) r) (\<lambda>ms.
         case oc_kind c of
           MaxCtx \<Rightarrow> bindE (vec_at ms 0) (\<lambda>m.
             Inr (c\<lparr>oc_recvrMeasures := (oc_recvrMeasures c)[r := ms[0 := max m owd]]\<rparr>))
         | _ \<Rightarrow> bindE (vec_at (oc_windowIndex c) r) (\<lambda>i.
             bindE (vec_at ms (unat i)) (\<lambda>_.
             Inr (c\<lparr>oc_recvrMeasures := (oc_recvrMeasures c)[r := ms[unat i := owd]],
                    oc_windowIndex := (oc_windowIndex c)[r := (i + 1) mod oc_windowSize c]\<rparr>)))))"

text \<open>\<open>(size() - 1) * percentile / 100\<close>, in the 64 bits of \<open>size_t\<close>.\<close>

definition percentile_index :: "nat \<Rightarrow> u32 \<Rightarrow> nat" where
  "percentile_index n p = unat ((of_nat n - 1 :: u64) * ucast p div 100)"

definition getRcvrOWD :: "owd_kind \<Rightarrow> u32 list \<Rightarrow> u32 res" where
  "getRcvrOWD kind ms =
     (case kind of
        MeanCtx \<Rightarrow> if ms = [] then Inl Undefined else Inr (of_nat (unat (sum_list ms) div length ms))
      | MaxCtx \<Rightarrow> vec_at ms 0
      | PercentileCtx p \<Rightarrow> vec_at (sort ms) (percentile_index (length ms) p))"

definition getCappedMaxOWD :: "owd_ctx \<Rightarrow> u32 res" where
  "getCappedMaxOWD c =
     foldE (\<lambda>ms maxOWD. bindE (getRcvrOWD (oc_kind c) ms) (\<lambda>owd. Inr (min (oc_cap c) (max maxOWD owd))))
       (oc_recvrMeasures c) 0"

fun mapE :: "('a \<Rightarrow> 'b res) \<Rightarrow> 'a list \<Rightarrow> 'b list res" where
  "mapE f [] = Inr []"
| "mapE f (x # xs) = bindE (f x) (\<lambda>y. bindE (mapE f xs) (\<lambda>ys. Inr (y # ys)))"

definition getPercentileOWD :: "u32 \<Rightarrow> owd_ctx \<Rightarrow> u32 res" where
  "getPercentileOWD percentile c =
     bindE (mapE (getRcvrOWD (oc_kind c)) (oc_recvrMeasures c)) (\<lambda>owds.
     vec_at (sort owds) (percentile_index (length owds) percentile))"

section \<open>Percentiles\<close>

lemma percentile_index_eq:
  assumes "0 < n" and "n < 2 ^ 32"
  shows "percentile_index n p = (n - 1) * unat p div 100"
proof -
  have p: "unat p < 2 ^ 32" using unsigned_less [of p, where ?'a = nat] by simp
  have n: "unat (of_nat n - 1 :: u64) = n - 1" using assms by (simp add: unat_sub word_le_nat_alt unat_of_nat)
  have "(n - 1) * unat p < 2 ^ 32 * 2 ^ 32" by (rule mult_strict_mono) (use assms p in auto)
  then have "unat ((of_nat n - 1 :: u64) * ucast p) = (n - 1) * unat p"
    using n p by (simp add: unat_word_ariths unsigned_ucast_eq take_bit_eq_mod)
  then show ?thesis by (simp add: percentile_index_def unat_div)
qed

lemma percentile_index_less:
  assumes "0 < n" and "n < 2 ^ 32" and "unat p \<le> 100"
  shows "percentile_index n p < n"
proof -
  have "(n - 1) * unat p \<le> (n - 1) * 100" by (rule mult_le_mono2 [OF assms(3)])
  then have "(n - 1) * unat p div 100 \<le> n - 1" by linarith
  then show ?thesis using percentile_index_eq [OF assms(1,2)] assms(1) by simp
qed

lemma sort_nth_rank:
  fixes xs :: "'a::linorder list"
  assumes "k < length xs"
  shows "k < length (filter (\<lambda>x. x \<le> sort xs ! k) xs) \<and> length xs - k \<le> length (filter (\<lambda>x. sort xs ! k \<le> x) xs)"
proof -
  let ?s = "sort xs" and ?v = "sort xs ! k"
  have same: "length (filter P xs) = length (filter P ?s)" for P
    by (simp add: filter_sort)
  have mono: "?s ! i \<le> ?s ! j" if "i \<le> j" "j < length xs" for i j using that by (simp add: sorted_nth_mono)
  have low: "\<forall>x \<in> set (take (Suc k) ?s). x \<le> ?v" using assms mono by (auto simp: in_set_conv_nth)
  have high: "\<forall>x \<in> set (drop k ?s). ?v \<le> x" using assms mono by (auto simp: in_set_conv_nth)
  have "Suc k = length (filter (\<lambda>x. x \<le> ?v) (take (Suc k) ?s))" using low assms by simp
  also have "\<dots> \<le> length (filter (\<lambda>x. x \<le> ?v) ?s)"
    by (subst (2) append_take_drop_id [of "Suc k" ?s, symmetric]) (simp only: filter_append length_append le_add1)
  finally have 1: "k < length (filter (\<lambda>x. x \<le> ?v) ?s)" by simp
  have "length xs - k = length (filter (\<lambda>x. ?v \<le> x) (drop k ?s))" using high by simp
  also have "\<dots> \<le> length (filter (\<lambda>x. ?v \<le> x) ?s)"
    by (subst (2) append_take_drop_id [of k ?s, symmetric]) (simp only: filter_append length_append le_add2)
  finally show ?thesis using 1 same by simp
qed

section \<open>The window\<close>

text \<open>A window of a receiver holds the last measures of the stream \<open>ms\<close>, rotated by its index.\<close>

definition last_n :: "nat \<Rightarrow> 'a list \<Rightarrow> 'a list" where
  "last_n n xs = drop (length xs - n) xs"

definition window_of :: "u32 list \<Rightarrow> nat \<Rightarrow> u32 list \<Rightarrow> bool" where
  "window_of ms i w \<longleftrightarrow> i < length w \<and> length w \<le> length ms \<and> rotate i w = last_n (length w) ms"

lemma rotate_update:
  assumes "i < length w"
  shows "rotate ((i + 1) mod length w) (w[i := m]) = tl (rotate i w) @ [m]"
proof (rule nth_equalityI)
  show "length (rotate ((i + 1) mod length w) (w[i := m])) = length (tl (rotate i w) @ [m])" using assms by simp
  fix j assume "j < length (rotate ((i + 1) mod length w) (w[i := m]))"
  then have j: "j < length w" by simp
  let ?n = "length w"
  have l: "rotate ((i + 1) mod ?n) (w[i := m]) ! j = w[i := m] ! ((Suc i + j) mod ?n)"
    using j by (simp add: nth_rotate mod_simps)
  show "rotate ((i + 1) mod ?n) (w[i := m]) ! j = (tl (rotate i w) @ [m]) ! j"
  proof (cases "j = ?n - 1")
    case True
    then have "Suc i + j = i + ?n" using assms by simp
    then have "(Suc i + j) mod ?n = i" using assms by (simp only: mod_add_self2 mod_less)
    then show ?thesis using l True assms by (simp add: nth_append)
  next
    case False
    then have "(Suc i + j) mod ?n \<noteq> i" using j assms by (auto simp: mod_if)
    moreover have "j < ?n - 1" using False j by simp
    ultimately show ?thesis using l by (simp add: nth_append nth_tl nth_rotate)
  qed
qed

lemma window_of_add:
  assumes "window_of ms i w"
  shows "window_of (ms @ [m]) ((i + 1) mod length w) (w[i := m])"
proof -
  have i: "i < length w" "length w \<le> length ms" and r: "rotate i w = last_n (length w) ms" using assms by (simp_all add: window_of_def)
  have "tl (drop (length ms - length w) ms) @ [m] = drop (Suc (length ms) - length w) (ms @ [m])"
    using i by (simp add: Suc_diff_le tl_drop drop_Suc)
  moreover have "(i + 1) mod length w < length w" using i(1) by (intro mod_less_divisor) auto
  ultimately show ?thesis using rotate_update [OF i(1), of m] i r by (simp add: window_of_def last_n_def)
qed

lemma mset_rotate: "mset (rotate n xs) = mset xs"
  by (metis append_take_drop_id mset_append rotate_drop_take union_commute)

lemma window_of_mset: "window_of ms i w \<Longrightarrow> mset w = mset (last_n (length w) ms)"
  unfolding window_of_def by (metis mset_rotate)

section \<open>The estimate\<close>

text \<open>What the estimate is meant to be: of every receiver the percentile of its last \<open>w\<close> measures, those
  before the first counting as the initial one; of these the largest, at most the cap.\<close>

definition measures_of :: "u32 \<Rightarrow> u32 \<Rightarrow> (u32 \<times> u32) list \<Rightarrow> nat \<Rightarrow> u32 list" where
  "measures_of w initial hist r = replicate (unat w) initial @ map snd (filter (\<lambda>x. unat (fst x) = r) hist)"

definition delay_estimate :: "u32 \<Rightarrow> u32 \<Rightarrow> u32 \<Rightarrow> u32 \<Rightarrow> u32 \<Rightarrow> (u32 \<times> u32) list \<Rightarrow> u32" where
  "delay_estimate n cap w p initial hist =
     min cap (fold max (map (\<lambda>r. sort (last_n (unat w) (measures_of w initial hist r)) ! ((unat w - 1) * unat p div 100))
       [0..<unat n]) 0)"

definition owd_follows :: "u32 \<Rightarrow> u32 \<Rightarrow> u32 \<Rightarrow> u32 \<Rightarrow> u32 \<Rightarrow> (u32 \<times> u32) list \<Rightarrow> owd_ctx \<Rightarrow> bool" where
  "owd_follows n cap w p initial hist c \<longleftrightarrow>
     oc_kind c = PercentileCtx p \<and> oc_cap c = cap \<and> oc_windowSize c = w \<and> length (oc_recvrMeasures c) = unat n \<and>
     length (oc_windowIndex c) = unat n \<and>
     (\<forall>r < unat n. length (oc_recvrMeasures c ! r) = unat w \<and>
        window_of (measures_of w initial hist r) (unat (oc_windowIndex c ! r)) (oc_recvrMeasures c ! r))"

lemma owd_follows_init:
  "0 < w \<Longrightarrow> owd_follows n cap w p initial [] (owd_init (PercentileCtx p) n cap w initial)"
  by (simp add: owd_follows_def owd_init_def measures_of_def window_of_def last_n_def word_less_nat_alt)

lemma addMeasure_follows:
  assumes "owd_follows n cap w p initial hist c" and "r < n"
  shows "\<exists>c'. addMeasure r m c = Inr c' \<and> owd_follows n cap w p initial (hist @ [(r, m)]) c'"
proof -
  let ?r = "unat r" and ?i = "oc_windowIndex c ! unat r" and ?w = "oc_recvrMeasures c ! unat r"
  have r: "?r < unat n" using assms(2) by (simp add: word_less_nat_alt)
  have win: "length ?w = unat w" "window_of (measures_of w initial hist ?r) (unat ?i) ?w"
    and len: "length (oc_recvrMeasures c) = unat n" "length (oc_windowIndex c) = unat n" and k: "oc_kind c = PercentileCtx p" "oc_windowSize c = w"
    using assms(1) r by (simp_all add: owd_follows_def)
  have i: "unat ?i < unat w" using win by (simp add: window_of_def)
  have "unat w < 2 ^ 32" using unsigned_less [of w, where ?'a = nat] by simp
  with i have nxt: "unat ((?i + 1) mod w) = (unat ?i + 1) mod unat w" by (simp add: unat_mod unat_Suc_no_wrap(1))
  let ?c = "c\<lparr>oc_recvrMeasures := (oc_recvrMeasures c)[?r := ?w[unat ?i := m]], oc_windowIndex := (oc_windowIndex c)[?r := (?i + 1) mod w]\<rparr>"
  have "addMeasure r m c = Inr ?c"
    using r i win(1) len k by (simp add: addMeasure_def vec_at_def Let_def)
  moreover have "measures_of w initial (hist @ [(r, m)]) j = measures_of w initial hist j @ (if j = ?r then [m] else [])" for j
    by (simp add: measures_of_def)
  then have "owd_follows n cap w p initial (hist @ [(r, m)]) ?c"
    using assms(1) r window_of_add [OF win(2), of m] nxt win(1) by (auto simp: owd_follows_def nth_list_update)
  ultimately show ?thesis by blast
qed

lemma measures_follow:
  assumes "owd_follows n cap w p initial hist c" and "fst ` set xs \<subseteq> {r. r < n}"
  shows "\<exists>c'. foldE (\<lambda>(r, m). addMeasure r m) xs c = Inr c' \<and> owd_follows n cap w p initial (hist @ xs) c'"
  using assms
proof (induction xs arbitrary: hist c)
  case (Cons x xs)
  obtain r m where x: "x = (r, m)" by (cases x)
  obtain c1 where "addMeasure r m c = Inr c1" "owd_follows n cap w p initial (hist @ [x]) c1"
    using addMeasure_follows [OF Cons.prems(1), of r m] Cons.prems(2) x by auto
  then show ?case using Cons.IH [of "hist @ [x]" c1] Cons.prems(2) x by auto
qed simp

lemma capped_fold:
  assumes "\<And>ms. ms \<in> set mss \<Longrightarrow> getRcvrOWD kind ms = Inr (f ms)" and "a \<le> cap"
  shows "foldE (\<lambda>ms maxOWD. bindE (getRcvrOWD kind ms) (\<lambda>owd. Inr (min cap (max maxOWD owd)))) mss a =
    Inr (min cap (fold max (map f mss) (a :: u32)))"
  using assms
proof (induction mss arbitrary: a)
  case (Cons ms mss)
  have cut: "min cap (fold max xs (min cap b)) = min cap (fold max xs b)" for xs and b :: u32
  proof (induction xs arbitrary: b)
    case (Cons x xs)
    have "min cap (max x (min cap b)) = min cap (max x b)" by (simp add: min_max_distrib2)
    then show ?case using Cons.IH [of "max x (min cap b)"] Cons.IH [of "max x b"] by simp
  qed simp
  show ?case using Cons cut [of "map f mss" "max a (f ms)"] by (simp add: max.commute)
qed (simp add: min_def)

lemma same_sort: "mset xs = mset ys \<Longrightarrow> sort xs = sort (ys :: 'a::linorder list)"
  using properties_for_sort [of "sort ys" xs] by simp

lemma estimate:
  assumes "owd_follows n cap w p initial hist c" and "0 < w" and "unat p \<le> 100"
  shows "getCappedMaxOWD c = Inr (delay_estimate n cap w p initial hist)"
proof -
  have w: "0 < unat w" "unat w < 2 ^ 32" using assms(2) unsigned_less [of w, where ?'a = nat] by (simp_all add: word_less_nat_alt)
  let ?k = "(unat w - 1) * unat p div 100"
  have k: "percentile_index (unat w) p = ?k" "?k < unat w"
    using percentile_index_eq [OF w] percentile_index_less [OF w assms(3)] by auto
  have c: "oc_kind c = PercentileCtx p" "oc_cap c = cap" "length (oc_recvrMeasures c) = unat n"
    and win: "r < unat n \<Longrightarrow> length (oc_recvrMeasures c ! r) = unat w \<and>
      mset (oc_recvrMeasures c ! r) = mset (last_n (unat w) (measures_of w initial hist r))" for r
    using assms(1) window_of_mset by (fastforce simp: owd_follows_def)+
  have one: "getRcvrOWD (oc_kind c) ms = Inr (sort ms ! ?k)" if "ms \<in> set (oc_recvrMeasures c)" for ms
    using that win k c(1,3) by (auto simp: getRcvrOWD_def vec_at_def in_set_conv_nth)
  have "map (\<lambda>ms. sort ms ! ?k) (oc_recvrMeasures c) =
      map (\<lambda>r. sort (last_n (unat w) (measures_of w initial hist r)) ! ?k) [0..<unat n]"
    using same_sort [OF conjunct2 [OF win]] c(3) by (intro nth_equalityI) auto
  then show ?thesis
    using capped_fold [where a = 0, OF one] c(2) by (simp add: getCappedMaxOWD_def delay_estimate_def)
qed

section \<open>Properties\<close>

text \<open>C26: the circular windows implement the estimate: after any measures of the configured receivers, the number that
  the code computes is the capped largest of the percentiles of the last measures of each.\<close>

theorem owd_estimate_exact:
  assumes "0 < w" and "unat p \<le> 100" and "fst ` set hist \<subseteq> {r. r < n}"
  shows "\<exists>c. foldE (\<lambda>(r, m). addMeasure r m) hist (owd_init (PercentileCtx p) n cap w initial) = Inr c \<and>
    getCappedMaxOWD c = Inr (delay_estimate n cap w p initial hist)"
proof -
  obtain c where "foldE (\<lambda>(r, m). addMeasure r m) hist (owd_init (PercentileCtx p) n cap w initial) = Inr c"
    "owd_follows n cap w p initial hist c"
    using measures_follow [OF owd_follows_init [OF assms(1)] assms(3), where cap = cap and p = p and initial = initial] by auto
  then show ?thesis using estimate [OF _ assms(1,2)] by blast
qed

theorem owd_estimate_exact_witness:
  "\<exists>c. foldE (\<lambda>(r, m). addMeasure r m) [(0, 7), (0, 9), (0, 3)] (owd_init (PercentileCtx 90) 1 100 2 5) = Inr c \<and>
     getCappedMaxOWD c = Inr 3"
proof -
  have "delay_estimate 1 100 2 90 5 [(0, 7), (0, 9), (0, 3)] = 3"
    by code_simp
  then show ?thesis
    using owd_estimate_exact [of 2 90 "[(0, 7), (0, 9), (0, 3)]" 1 100 5] by simp
qed

text \<open>The percentile of a window: at least as many measures as its rank says are not above it, and not below.\<close>

theorem owd_percentile_rank:
  assumes "getRcvrOWD (PercentileCtx p) ms = Inr v" and "ms \<noteq> []" and "length ms < 2 ^ 32"
  shows "(length ms - 1) * unat p div 100 < length (filter (\<lambda>m. m \<le> v) ms) \<and>
    length ms - (length ms - 1) * unat p div 100 \<le> length (filter (\<lambda>m. v \<le> m) ms)"
proof -
  have "0 < length ms" using assms(2) by simp
  note k = percentile_index_eq [OF this assms(3), of p]
  then show ?thesis
    using assms(1) sort_nth_rank [of "percentile_index (length ms) p" ms] by (auto simp: getRcvrOWD_def vec_at_def split: if_splits)
qed

end
