(* ===== verification/Proxy.thy ===== *)
theory Proxy
  imports Config Wire Receiver Owd Floats
begin

text \<open>
  The proxy (\<open>processes/proxy/proxy.h\<close> and \<open>.cc\<close>): it gives each client request a deadline from the
  estimated delays and forwards it, alone or in batches, to every replica. The times that a handler
  reads one after the other are its arguments; what it sends is appended to \<open>px_out\<close> by receiver. The
  constructor's addresses and keys, and framing and sockets, are not modelled.
\<close>

section \<open>State\<close>

record 'k proxy_env =
  pe_wire :: "'k wire_params"
  pe_proxyId :: u32
  pe_numReceivers :: u32
  pe_maxOWD :: u32
  pe_offsetCoefficient :: frac
  pe_batchEnabled :: bool
  pe_batchMaxCount :: u32
  pe_batchMaxDelay :: u32

record proxy =
  px_latencyBound :: u32
  px_lastDeadline :: u64
  px_numForwarded :: u32
  px_isFirstReq :: bool
  px_curBatchDelay :: u64
  px_buffer :: "dom_request list"
  px_context :: owd_ctx
  px_out :: "(nat \<times> message_type \<times> proto_msg) list"

definition proxy_init :: "'k proxy_env \<Rightarrow> u64 \<Rightarrow> proxy" where
  "proxy_init env now =
     \<lparr>px_latencyBound = pe_maxOWD env, px_lastDeadline = now, px_numForwarded = 0, px_isFirstReq = True,
      px_curBatchDelay = 0, px_buffer = [],
      px_context = owd_init (PercentileCtx 90) (pe_numReceivers env) (pe_maxOWD env) 40 (pe_maxOWD env), px_out = []\<rparr>"

section \<open>Operations\<close>

definition setDOMRequest :: "'k proxy_env \<Rightarrow> u64 \<Rightarrow> client_request \<Rightarrow> frame \<Rightarrow> proxy \<Rightarrow> dom_request \<times> proxy" where
  "setDOMRequest env now inReq hdr s =
     (let deadline = max (now + ucast (px_latencyBound s)) (px_lastDeadline s + 1)
      in (\<lparr>dom_deadline = deadline, dom_send_time = now, dom_proxy_id = pe_proxyId env, dom_late = False,
           dom_deadline_set_size = pe_numReceivers env, dom_client_id = crq_client_id inReq,
           dom_client_seq = crq_client_seq inReq, dom_client_req = frame_bytes hdr\<rparr>,
          s\<lparr>px_lastDeadline := deadline\<rparr>))"

text \<open>The loop that sends to all receivers.\<close>

definition to_receivers :: "'k proxy_env \<Rightarrow> message_type \<Rightarrow> proto_msg \<Rightarrow> proxy \<Rightarrow> proxy" where
  "to_receivers env t m s = s\<lparr>px_out := px_out s @ map (\<lambda>i. (i, t, m)) [0..<unat (pe_numReceivers env)]\<rparr>"

text \<open>The product is one of \<open>float\<close>s; the conversion of a number that does not fit is undefined.\<close>

definition bound_of :: "'k proxy_env \<Rightarrow> u32 \<Rightarrow> u32 res" where
  "bound_of env owd =
     (let t = fl_trunc (fl_mult float_bits (fl_of_nat float_bits (unat owd)) (pe_offsetCoefficient env))
      in if 2 ^ 32 \<le> t then Inl Undefined else Inr (of_nat t))"

text \<open>The three branches of the handler. A measure that is not positive is replaced by half the round trip,
  cut to 32 bits.\<close>

definition handle_measurement :: "'k proxy_env \<Rightarrow> u64 \<Rightarrow> measurement_reply \<Rightarrow> proxy \<Rightarrow> proxy res" where
  "handle_measurement env now reply s =
     (let owd = (if 0 < sint (mr_owd reply) then mr_owd reply else ucast ((now - mr_send_time reply) div 2))
      in bindE (addMeasure (mr_receiver_id reply) owd (px_context s)) (\<lambda>c.
         bindE (getCappedMaxOWD c) (\<lambda>m.
         bindE (bound_of env m) (\<lambda>b.
         Inr (s\<lparr>px_context := c, px_latencyBound := b\<rparr>)))))"

definition buffer_request :: "'k proxy_env \<Rightarrow> u64 \<times> u64 \<times> u64 \<Rightarrow> client_request \<Rightarrow> frame \<Rightarrow> proxy \<Rightarrow> proxy" where
  "buffer_request env ts inReq hdr s =
     (let (t1, t2, t3) = ts; (outReq, s1) = setDOMRequest env t1 inReq hdr s;
          buffer = px_buffer s1 @ [outReq];
          delay = t2 - dom_send_time (hd buffer);
          s2 = s1\<lparr>px_buffer := buffer, px_curBatchDelay := delay\<rparr>
      in if unat (pe_batchMaxCount env) \<le> length buffer \<or> ucast (pe_batchMaxDelay env) \<le> delay
         then to_receivers env DOM_BATCH_REQUEST
                (M_DOMBatchRequest \<lparr>dbr_send_time = t3, dbr_proxy_id = pe_proxyId env, dbr_requests = buffer\<rparr>)
                (s2\<lparr>px_buffer := [], px_curBatchDelay := 0\<rparr>)
         else s2)"

definition forward_request :: "'k proxy_env \<Rightarrow> u64 \<Rightarrow> client_request \<Rightarrow> frame \<Rightarrow> proxy \<Rightarrow> proxy" where
  "forward_request env now inReq hdr s =
     (let (outReq, s1) = setDOMRequest env now inReq hdr s
      in to_receivers env DOM_REQUEST (M_DOMRequest outReq)
           (s1\<lparr>px_isFirstReq := False, px_numForwarded := px_numForwarded s1 + 1\<rparr>))"

definition proxy_handle :: "'k proxy_env \<Rightarrow> u64 \<times> u64 \<times> u64 \<Rightarrow> frame \<Rightarrow> proxy \<Rightarrow> proxy res" where
  "proxy_handle env ts hdr s =
     (if type_of_code (fr_type hdr) = Some MEASUREMENT_REPLY then
        (case wp_parse (pe_wire env) MEASUREMENT_REPLY (fr_body hdr) of
           Some (M_MeasurementReply reply) \<Rightarrow> handle_measurement env (fst ts) reply s
         | _ \<Rightarrow> Inr s)
      else if \<not> px_isFirstReq s \<and> pe_batchEnabled env \<and> type_of_code (fr_type hdr) = Some CLIENT_REQUEST then
        (case wp_parse (pe_wire env) CLIENT_REQUEST (fr_body hdr) of
           Some (M_ClientRequest inReq) \<Rightarrow> Inr (buffer_request env ts inReq hdr s)
         | _ \<Rightarrow> Inr s)
      else if type_of_code (fr_type hdr) = Some CLIENT_REQUEST then
        (case wp_parse (pe_wire env) CLIENT_REQUEST (fr_body hdr) of
           Some (M_ClientRequest inReq) \<Rightarrow> Inr (forward_request env (fst ts) inReq hdr s)
         | _ \<Rightarrow> Inr s)
      else Inr s)"

text \<open>\<open>sendReq\<close>, a simulated request, which nothing calls.\<close>

definition proxy_sendReq :: "'k proxy_env \<Rightarrow> u64 \<Rightarrow> u32 \<Rightarrow> proxy \<Rightarrow> proxy" where
  "proxy_sendReq env now q s =
     (let deadline = max (now + ucast (px_latencyBound s)) (px_lastDeadline s + 1)
      in to_receivers env DOM_REQUEST
           (M_DOMRequest \<lparr>dom_deadline = deadline, dom_send_time = now, dom_proxy_id = pe_proxyId env, dom_late = False,
              dom_deadline_set_size = pe_numReceivers env, dom_client_id = pe_proxyId env, dom_client_seq = q,
              dom_client_req = []\<rparr>)
           (s\<lparr>px_lastDeadline := deadline\<rparr>))"

inductive proxy_reach :: "'k proxy_env \<Rightarrow> u64 \<Rightarrow> proxy \<Rightarrow> bool" for env start where
  init: "proxy_reach env start (proxy_init env start)"
| message: "proxy_reach env start s \<Longrightarrow> proxy_handle env ts hdr s = Inr s' \<Longrightarrow> proxy_reach env start s'"

section \<open>What a receiver is sent\<close>

fun requests_in :: "proto_msg \<Rightarrow> dom_request list" where
  "requests_in (M_DOMRequest r) = [r]"
| "requests_in (M_DOMBatchRequest b) = dbr_requests b"
| "requests_in _ = []"

definition sent_to :: "nat \<Rightarrow> proxy \<Rightarrow> dom_request list" where
  "sent_to i s = concat (map (\<lambda>(j, t, m). if j = i then requests_in m else []) (px_out s))"

text \<open>All requests that got a deadline, as the receiver \<open>i\<close> sees or will see them.\<close>

definition issued :: "nat \<Rightarrow> proxy \<Rightarrow> dom_request list" where
  "issued i s = sent_to i s @ px_buffer s"

lemma sent_to_receivers:
  assumes "i < unat (pe_numReceivers env)"
  shows "sent_to i (to_receivers env t m s) = sent_to i s @ requests_in m"
proof -
  have "concat (map (\<lambda>j. if j = i then requests_in m else []) [0..<n]) = (if i < n then requests_in m else [])" for n
    by (induction n) auto
  then show ?thesis using assms by (simp add: sent_to_def to_receivers_def comp_def)
qed

lemma to_receivers_sel [simp]:
  "px_buffer (to_receivers env t m s) = px_buffer s" "px_lastDeadline (to_receivers env t m s) = px_lastDeadline s"
  "px_latencyBound (to_receivers env t m s) = px_latencyBound s" "px_context (to_receivers env t m s) = px_context s"
  "px_isFirstReq (to_receivers env t m s) = px_isFirstReq s"
  by (simp_all add: to_receivers_def)

lemma sent_to_updates [simp]:
  "sent_to i (s\<lparr>px_buffer := a\<rparr>) = sent_to i s" "sent_to i (s\<lparr>px_curBatchDelay := b\<rparr>) = sent_to i s"
  "sent_to i (s\<lparr>px_lastDeadline := b\<rparr>) = sent_to i s" "sent_to i (s\<lparr>px_isFirstReq := c\<rparr>) = sent_to i s"
  "sent_to i (s\<lparr>px_numForwarded := d\<rparr>) = sent_to i s" "sent_to i (s\<lparr>px_context := e\<rparr>) = sent_to i s"
  "sent_to i (s\<lparr>px_latencyBound := d\<rparr>) = sent_to i s"
  by (simp_all add: sent_to_def)

section \<open>One step\<close>

definition buffer_ok :: "'k proxy_env \<Rightarrow> proxy \<Rightarrow> bool" where
  "buffer_ok env s \<longleftrightarrow> length (px_buffer s) < max 1 (unat (pe_batchMaxCount env)) \<and>
     (px_isFirstReq s \<or> \<not> pe_batchEnabled env \<longrightarrow> px_buffer s = [])"

text \<open>A step issues nothing and keeps the last deadline, or issues one request with the next one.\<close>

definition issues :: "'k proxy_env \<Rightarrow> proxy \<Rightarrow> proxy \<Rightarrow> bool" where
  "issues env s s' \<longleftrightarrow>
     (\<exists>rs. (\<forall>i < unat (pe_numReceivers env). issued i s' = issued i s @ rs) \<and>
        (rs = [] \<and> px_lastDeadline s' = px_lastDeadline s \<or>
         (\<exists>r. rs = [r] \<and> px_lastDeadline s' = dom_deadline r \<and> px_lastDeadline s + 1 \<le> dom_deadline r \<and>
            dom_send_time r + ucast (px_latencyBound s) \<le> dom_deadline r)))"

lemma issues_nothing:
  "sent_to i s' = sent_to i s \<Longrightarrow> px_buffer s' = px_buffer s \<Longrightarrow> issued i s' = issued i s"
  by (simp add: issued_def)

lemma measurement_step:
  assumes "handle_measurement env now reply s = Inr s'"
  shows "px_buffer s' = px_buffer s \<and> px_out s' = px_out s \<and> px_lastDeadline s' = px_lastDeadline s \<and> px_isFirstReq s' = px_isFirstReq s"
  using assms by (auto simp: handle_measurement_def Let_def elim!: bindE_InrE)

lemma forward_step:
  assumes "px_buffer s = []"
  shows "issues env s (forward_request env now inReq hdr s) \<and> px_buffer (forward_request env now inReq hdr s) = []"
  using assms by (auto simp: issues_def issued_def forward_request_def setDOMRequest_def Let_def sent_to_receivers)

lemma buffer_step:
  "issues env s (buffer_request env ts inReq hdr s)"
  by (cases ts) (auto simp: issues_def issued_def buffer_request_def setDOMRequest_def Let_def sent_to_receivers)

lemma buffer_bound:
  "length (px_buffer (buffer_request env ts inReq hdr s)) < max 1 (unat (pe_batchMaxCount env)) \<and>
   px_isFirstReq (buffer_request env ts inReq hdr s) = px_isFirstReq s"
  by (cases ts) (auto simp: buffer_request_def setDOMRequest_def Let_def)

lemma proxy_step:
  assumes "proxy_handle env ts hdr s = Inr s'" and "buffer_ok env s"
  shows "issues env s s' \<and> buffer_ok env s'"
proof -
  have refl: "issues env s t" if "px_buffer t = px_buffer s" "px_out t = px_out s" "px_lastDeadline t = px_lastDeadline s" for t
    using that by (auto simp: issues_def issued_def sent_to_def)
  consider "s' = s" | now reply where "handle_measurement env now reply s = Inr s'"
    | inReq where "\<not> px_isFirstReq s" "pe_batchEnabled env" "s' = buffer_request env ts inReq hdr s"
    | now inReq where "px_isFirstReq s \<or> \<not> pe_batchEnabled env" "s' = forward_request env now inReq hdr s"
    using assms(1) by (fastforce simp: proxy_handle_def split: if_splits option.splits proto_msg.splits)
  then show ?thesis
  proof cases
    case 1
    then show ?thesis using refl assms(2) by simp
  next
    case 2
    then show ?thesis using measurement_step [OF 2] refl assms(2) by (simp add: buffer_ok_def)
  next
    case 3
    then show ?thesis using buffer_step buffer_bound [of env ts inReq hdr s] by (simp add: buffer_ok_def)
  next
    case 4
    then have "px_buffer s = []" using assms(2) by (simp add: buffer_ok_def)
    then show ?thesis using forward_step [of s env now inReq hdr] 4(2) by (simp add: buffer_ok_def)
  qed
qed

lemma buffer_ok_init: "buffer_ok env (proxy_init env start)"
  by (simp add: buffer_ok_def proxy_init_def)

lemma buffer_ok_reach: "proxy_reach env start s \<Longrightarrow> buffer_ok env s"
  by (induction rule: proxy_reach.induct) (use buffer_ok_init proxy_step in blast)+

text \<open>The windows keep their number.\<close>

lemma addMeasure_length: "addMeasure r m c = Inr c' \<Longrightarrow> length (oc_recvrMeasures c') = length (oc_recvrMeasures c)"
  by (auto simp: addMeasure_def Let_def elim!: bindE_InrE split: owd_kind.splits)

lemma handle_length:
  assumes "proxy_handle env ts hdr s = Inr s'"
  shows "length (oc_recvrMeasures (px_context s')) = length (oc_recvrMeasures (px_context s))"
proof -
  have "length (oc_recvrMeasures (px_context s')) = length (oc_recvrMeasures (px_context s))"
    if "handle_measurement env now reply s = Inr s'" for now reply
    using that by (auto simp: handle_measurement_def Let_def elim!: bindE_InrE dest: addMeasure_length)
  moreover have "px_context (buffer_request env ts rq hdr s) = px_context s" for rq
    by (cases ts) (simp add: buffer_request_def setDOMRequest_def Let_def)
  moreover have "px_context (forward_request env now rq hdr s) = px_context s" for now rq
    by (simp add: forward_request_def setDOMRequest_def Let_def)
  ultimately show ?thesis using assms by (auto simp: proxy_handle_def split: if_splits option.splits proto_msg.splits)
qed

lemma context_length:
  "proxy_reach env start s \<Longrightarrow> length (oc_recvrMeasures (px_context s)) = unat (pe_numReceivers env)"
proof (induction rule: proxy_reach.induct)
  case (message s ts hdr s')
  then show ?case using handle_length by metis
qed (simp add: proxy_init_def owd_init_def Let_def)

text \<open>The deadlines issued so far, as long as the largest 64-bit number is not among them.\<close>

definition deadlines_ok :: "u64 \<Rightarrow> nat \<Rightarrow> proxy \<Rightarrow> bool" where
  "deadlines_ok start i s \<longleftrightarrow>
     (start \<noteq> - 1 \<longrightarrow> - 1 \<notin> dom_deadline ` set (issued i s) \<longrightarrow>
      sorted_wrt (<) (map dom_deadline (issued i s)) \<and> (\<forall>r \<in> set (issued i s). dom_deadline r \<le> px_lastDeadline s) \<and>
      px_lastDeadline s \<in> insert start (dom_deadline ` set (issued i s)))"

lemma less_inc: "w < w + 1" if "w \<noteq> - 1" for w :: u64
proof -
  have "unat w \<noteq> unat (- 1 :: u64)" using that by (simp only: word_unat_eq_iff [symmetric] not_False_eq_True)
  then have "unat w + 1 < 2 ^ 64" using unsigned_less [of w, where ?'a = nat] by (simp add: unsigned_minus_1_eq_mask mask_eq_exp_minus_1)
  then show ?thesis by (simp add: word_less_nat_alt unat_word_ariths)
qed

lemma deadlines_step:
  assumes "issues env s s'" and "deadlines_ok start i s" and "i < unat (pe_numReceivers env)"
  shows "deadlines_ok start i s'"
proof -
  obtain rs where rs: "issued i s' = issued i s @ rs" "rs = [] \<and> px_lastDeadline s' = px_lastDeadline s \<or>
      (\<exists>r. rs = [r] \<and> px_lastDeadline s' = dom_deadline r \<and> px_lastDeadline s + 1 \<le> dom_deadline r)"
    using assms(1,3) by (auto simp: issues_def)
  from rs(2) show ?thesis
  proof (elim disjE exE conjE)
    fix r assume r: "rs = [r]" "px_lastDeadline s' = dom_deadline r" "px_lastDeadline s + 1 \<le> dom_deadline r"
    show ?thesis
      unfolding deadlines_ok_def
    proof (intro impI)
      assume a: "start \<noteq> - 1" "- 1 \<notin> dom_deadline ` set (issued i s')"
      then have h: "sorted_wrt (<) (map dom_deadline (issued i s))" "\<forall>r \<in> set (issued i s). dom_deadline r \<le> px_lastDeadline s"
        "px_lastDeadline s \<in> insert start (dom_deadline ` set (issued i s))"
        using assms(2) rs(1) by (auto simp: deadlines_ok_def)
      have "px_lastDeadline s \<in> insert start (dom_deadline ` set (issued i s'))" using h(3) rs(1) by auto
      then have "px_lastDeadline s \<noteq> - 1" using a by (metis insertE)
      then have "px_lastDeadline s < px_lastDeadline s + 1" by (rule less_inc)
      then have "px_lastDeadline s < dom_deadline r" using r(3) by simp
      then show "sorted_wrt (<) (map dom_deadline (issued i s')) \<and> (\<forall>r \<in> set (issued i s'). dom_deadline r \<le> px_lastDeadline s') \<and>
          px_lastDeadline s' \<in> insert start (dom_deadline ` set (issued i s'))"
        using h(1,2) r by (auto simp: rs(1) sorted_wrt_append intro: le_less_trans order.strict_implies_order)
    qed
  qed (use assms(2) rs(1) in \<open>simp add: deadlines_ok_def\<close>)
qed

lemma deadlines_reach:
  "proxy_reach env start s \<Longrightarrow> i < unat (pe_numReceivers env) \<Longrightarrow> deadlines_ok start i s"
proof (induction rule: proxy_reach.induct)
  case (message s ts hdr s')
  then show ?case using proxy_step [OF message.hyps(2) buffer_ok_reach [OF message.hyps(1)]] deadlines_step by blast
qed (simp add: deadlines_ok_def issued_def sent_to_def proxy_init_def)

lemma same_issued:
  "proxy_reach env start s \<Longrightarrow> i < unat (pe_numReceivers env) \<Longrightarrow> j < unat (pe_numReceivers env) \<Longrightarrow> issued i s = issued j s"
proof (induction rule: proxy_reach.induct)
  case (message s ts hdr s')
  then show ?case using proxy_step [OF message.hyps(2) buffer_ok_reach [OF message.hyps(1)]] by (auto simp: issues_def)
qed (simp add: issued_def sent_to_def proxy_init_def)

section \<open>Properties\<close>

text \<open>A proxy of four receivers in front of \<open>demo_wire\<close>-like frames: any client request parses.\<close>

definition demo_request :: client_request where
  "demo_request = \<lparr>crq_client_id = 7, crq_client_seq = 1, crq_send_time = 0, crq_deadline = 0, crq_is_write = True, crq_req_data = []\<rparr>"

definition demo_proxy :: "unit proxy_env" where
  "demo_proxy =
     \<lparr>pe_wire = \<lparr>wp_sha = (\<lambda>b. b),
        wp_parse = (\<lambda>t b. if t = CLIENT_REQUEST then Some (M_ClientRequest demo_request)
          else if t = MEASUREMENT_REPLY then Some (M_MeasurementReply \<lparr>mr_receiver_id = 9, mr_owd = 5, mr_send_time = 0\<rparr>) else None),
        wp_ser = (\<lambda>x. []), wp_sig = \<lparr>sp_pubKeys = (\<lambda>n. None), sp_verifier = (\<lambda>_ d sig. False), sp_sign = (\<lambda>d. []), sp_maxSigLen = 1\<rparr>,
        wp_hmac = (\<lambda>k d. d), wp_hmacKeys = (\<lambda>n. None)\<rparr>,
      pe_proxyId = 2, pe_numReceivers = 4, pe_maxOWD = 100, pe_offsetCoefficient = (3, 2), pe_batchEnabled = True,
      pe_batchMaxCount = 50, pe_batchMaxDelay = 5000\<rparr>"

definition demo_frame :: "message_type \<Rightarrow> frame" where
  "demo_frame t = \<lparr>fr_type = code_of_type t, fr_body = [], fr_sig = []\<rparr>"

text \<open>The proxy after two requests at the same time: the first was forwarded, the second is in the batch.\<close>

definition demo_proxy_state :: proxy where
  "demo_proxy_state = buffer_request demo_proxy (10, 10, 10) demo_request (demo_frame CLIENT_REQUEST)
     (forward_request demo_proxy 10 demo_request (demo_frame CLIENT_REQUEST) (proxy_init demo_proxy 0))"

lemma demo_proxy_reach: "proxy_reach demo_proxy 0 demo_proxy_state"
proof -
  let ?s = "forward_request demo_proxy 10 demo_request (demo_frame CLIENT_REQUEST) (proxy_init demo_proxy 0)"
  have "proxy_handle demo_proxy (10, 10, 10) (demo_frame CLIENT_REQUEST) (proxy_init demo_proxy 0) = Inr ?s"
    by (simp add: proxy_handle_def demo_frame_def demo_proxy_def proxy_init_def)
  then have s: "proxy_reach demo_proxy 0 ?s" by (rule proxy_reach.message [OF proxy_reach.init])
  have "proxy_handle demo_proxy (10, 10, 10) (demo_frame CLIENT_REQUEST) ?s = Inr demo_proxy_state"
    by (simp add: proxy_handle_def demo_proxy_state_def forward_request_def Let_def split: prod.split)
      (simp add: demo_frame_def demo_proxy_def)
  then show ?thesis by (rule proxy_reach.message [OF s])
qed

lemma demo_issued:
  "map dom_deadline (issued 0 demo_proxy_state) = [110, 111]" "issued 3 demo_proxy_state = issued 0 demo_proxy_state"
  by (simp_all add: demo_proxy_state_def buffer_request_def forward_request_def setDOMRequest_def issued_def sent_to_def
      to_receivers_def proxy_init_def demo_proxy_def Let_def upt_rec)

text \<open>C25: the deadlines a proxy gives out increase strictly: each receiver is sent requests in the order of their deadlines,
  no two with the same one, those still in the batch last, whatever messages come in and however the
  clock jumps, until the largest 64-bit number is given out; and all receivers get the same requests in the same order.\<close>

theorem proxy_deadlines_increase:
  assumes "proxy_reach env start s" and "i < unat (pe_numReceivers env)" and "start \<noteq> - 1"
    and "- 1 \<notin> dom_deadline ` set (sent_to i s @ px_buffer s)" and "j < unat (pe_numReceivers env)"
  shows "sorted_wrt (<) (map dom_deadline (sent_to i s @ px_buffer s)) \<and> sent_to i s = sent_to j s"
  using deadlines_reach [OF assms(1,2)] same_issued [OF assms(1,2,5)] assms(3,4)
  by (simp only: deadlines_ok_def issued_def simp_thms append_same_eq)

theorem proxy_deadlines_increase_witness:
  "sorted_wrt (<) (map dom_deadline (sent_to 0 demo_proxy_state @ px_buffer demo_proxy_state)) \<and>
     sent_to 0 demo_proxy_state = sent_to 3 demo_proxy_state"
proof (rule proxy_deadlines_increase [OF demo_proxy_reach])
  have "dom_deadline ` set (sent_to 0 demo_proxy_state @ px_buffer demo_proxy_state) = {110, 111}"
    using arg_cong [OF demo_issued(1), of set] by (simp only: issued_def set_map list.set)
  then show "- 1 \<notin> dom_deadline ` set (sent_to 0 demo_proxy_state @ px_buffer demo_proxy_state)" by simp
qed (simp_all add: demo_proxy_def)

text \<open>A batch stays below the configured size, and what is in it leaves only when another client request comes: no
  other message, and no timer, sends it.\<close>

theorem proxy_batch_waits:
  assumes "proxy_reach env start s" and "proxy_handle env ts hdr s = Inr s'"
  shows "length (px_buffer s') < max 1 (unat (pe_batchMaxCount env)) \<and>
    (type_of_code (fr_type hdr) = Some CLIENT_REQUEST \<or> px_buffer s' = px_buffer s \<and> px_out s' = px_out s)"
proof -
  have "buffer_ok env s'" using proxy_step [OF assms(2) buffer_ok_reach [OF assms(1)]] by simp
  moreover have "px_buffer s' = px_buffer s \<and> px_out s' = px_out s" if "type_of_code (fr_type hdr) \<noteq> Some CLIENT_REQUEST"
    using assms(2) that measurement_step by (fastforce simp: proxy_handle_def split: if_splits option.splits proto_msg.splits)
  ultimately show ?thesis unfolding buffer_ok_def by blast
qed

theorem proxy_batch_waits_witness:
  "length (px_buffer demo_proxy_state) < 50"
  using proxy_batch_waits [OF demo_proxy_reach, of "(10, 10, 10)" "demo_frame REPLY" demo_proxy_state]
  by (simp add: proxy_handle_def demo_frame_def) (simp add: demo_proxy_def)

text \<open>A measurement reply is not authenticated and its receiver number not checked: any message of that type with a
  number outside the configured ones makes the proxy access its windows out of range.\<close>

theorem proxy_receiver_unchecked:
  assumes "proxy_reach env start s" and "type_of_code (fr_type hdr) = Some MEASUREMENT_REPLY"
    and "wp_parse (pe_wire env) MEASUREMENT_REPLY (fr_body hdr) = Some (M_MeasurementReply reply)"
    and "pe_numReceivers env \<le> mr_receiver_id reply"
  shows "proxy_handle env ts hdr s = Inl Undefined"
proof -
  have "length (oc_recvrMeasures (px_context s)) = unat (pe_numReceivers env)" using assms(1) by (rule context_length)
  then show ?thesis
    using assms(2-4) by (simp add: proxy_handle_def handle_measurement_def addMeasure_def vec_at_def word_le_nat_alt Let_def)
qed

theorem proxy_receiver_unchecked_witness:
  "proxy_handle demo_proxy (1, 1, 1) (demo_frame MEASUREMENT_REPLY) (proxy_init demo_proxy 0) = Inl Undefined"
  by (rule proxy_receiver_unchecked [OF proxy_reach.init, where reply = "\<lparr>mr_receiver_id = 9, mr_owd = 5, mr_send_time = 0\<rparr>"])
    (simp_all add: demo_proxy_def demo_frame_def)

text \<open>A proxy passes a client's message on unharmed: the receiver of a replica reads back, from a request that the
  proxy made of a message, that message with its signature, and marks the request as verified when the
  signature is the client's.\<close>

theorem proxy_passes_message:
  assumes "setDOMRequest env now rq hdr s = (r, s')" and "length (fr_body hdr) < 2 ^ 32" and "length (fr_sig hdr) < 2 ^ 32"
    and "rv_verifyQueue t = p # q" and "p < length (rv_objs t)" and "rr_request (rv_objs t ! p) = r"
    and "rr_clientId (rv_objs t ! p) = dom_client_id r"
    and "wp_parse (rx_wire rx) CLIENT_REQUEST (fr_body hdr) = Some (M_ClientRequest rq)" and "\<not> rx_useHMAC rx"
    and "sig_verify_frame (wp_sig (rx_wire rx)) hdr (CLIENT, crq_client_id rq)"
  shows "\<exists>t'. receiverVerify rx t = Inr t' \<and> rr_verified (rv_objs t' ! p) \<and> rr_request (rv_objs t' ! p) = r"
proof -
  have r: "dom_client_req r = frame_bytes hdr" "dom_client_id r = crq_client_id rq" using assms(1) by (auto simp: setDOMRequest_def Let_def)
  have "read_frame (dom_client_req r) = Inr hdr" using frame_roundtrip [OF assms(2,3), of "[]"] r(1) by simp
  then show ?thesis
    using assms(4-10) r(2) by (simp add: receiverVerify_def client_verified_def Let_def)
qed

text \<open>A receiver whose wire accepts every signature.\<close>

definition demo_receiver :: "unit receiver_env" where
  "demo_receiver = \<lparr>rx_wire = (pe_wire demo_proxy)\<lparr>wp_sig := \<lparr>sp_pubKeys = (\<lambda>n. Some ()), sp_verifier = (\<lambda>_ d sig. True), sp_sign = (\<lambda>d. []),
     sp_maxSigLen = 1\<rparr>\<rparr>, rx_replicaId = 0, rx_numProxies = 3, rx_ignoreDeadlines = False, rx_useHMAC = False\<rparr>"

theorem proxy_passes_message_witness:
  "\<exists>r t'. setDOMRequest demo_proxy 10 demo_request (demo_frame CLIENT_REQUEST) (proxy_init demo_proxy 0) = r \<and>
     receiverVerify demo_receiver (receiver_init\<lparr>rv_objs := [\<lparr>rr_request = fst r, rr_deadline = 110, rr_clientId = 7, rr_verified = False\<rparr>],
       rv_verifyQueue := [0]\<rparr>) = Inr t' \<and> rr_verified (rv_objs t' ! 0)"
proof -
  obtain r s' where r: "setDOMRequest demo_proxy 10 demo_request (demo_frame CLIENT_REQUEST) (proxy_init demo_proxy 0) = (r, s')" by fastforce
  have seven: "dom_client_id r = 7" using r by (auto simp: setDOMRequest_def demo_request_def Let_def)
  have "\<exists>t'. receiverVerify demo_receiver (receiver_init\<lparr>rv_objs := [\<lparr>rr_request = r, rr_deadline = 110, rr_clientId = 7, rr_verified = False\<rparr>],
       rv_verifyQueue := [0]\<rparr>) = Inr t' \<and> rr_verified (rv_objs t' ! 0) \<and> rr_request (rv_objs t' ! 0) = r"
    by (rule proxy_passes_message [OF r])
      (simp_all add: seven demo_frame_def demo_receiver_def demo_proxy_def sig_verify_frame_def sig_verify_def)
  then show ?thesis using r by auto
qed

end
