(* ===== verification/Flutter.thy ===== *)
theory Flutter
  imports Wire Owd "HOL-Library.Product_Lexorder"
begin

text \<open>
  The replica of the baseline protocol (\<open>processes/flutter/flutter_replica.h\<close> and \<open>.cc\<close>): candidates
  ordered by the deadline (the bet) the client gave them, votes on them in a fast and, through a leader, a slow
  path, and the lock time below which the accepted ones are committed in order. Sending, which the code leaves to a
  thread pool, appends to \<open>fl_out\<close>; signing is not modelled. The request is not executed by the code either.
\<close>

section \<open>Messages\<close>

record flutter_request =
  frq_client_id :: u32
  frq_client_seq :: u32
  frq_bet :: u64
  frq_num_retries :: u64
  frq_req_data :: bytes

record flutter_reply =
  frp_replica_id :: u32
  frp_client_id :: u32
  frp_client_seq :: u32
  frp_bet :: u64
  frp_accepted :: bool
  frp_result :: bytes

text \<open>The payload of a message between replicas, with the fields of its message in order.\<close>

datatype flutter_payload =
    FM_Time u64 | FM_Observe u32 bytes u64 | FM_RBCProposal u32 u32 u64 bool
  | FM_RBCSlowProposal u32 u32 u64 bool | FM_RBCSlowValue u32 u32 u64 bool | FM_None

record flutter_message =
  fm_sender_id :: u32
  fm_payload :: flutter_payload

section \<open>Committed sequence numbers\<close>

record sequence_tracker =
  tr_lastCommitted :: u32
  tr_outOfOrderCommits :: "u32 set"

definition tracker_init :: sequence_tracker where
  "tracker_init = \<lparr>tr_lastCommitted = 0, tr_outOfOrderCommits = {}\<rparr>"

definition isCommitted :: "u32 \<Rightarrow> sequence_tracker \<Rightarrow> bool" where
  "isCommitted q t \<longleftrightarrow> q \<le> tr_lastCommitted t \<or> q \<in> tr_outOfOrderCommits t"

function advance_tracker :: "u32 \<Rightarrow> u32 set \<Rightarrow> sequence_tracker" where
  "advance_tracker l S =
     (if l + 1 \<in> S then advance_tracker (l + 1) (S - {l + 1})
      else \<lparr>tr_lastCommitted = l, tr_outOfOrderCommits = S\<rparr>)"
  by auto
termination
  by (relation "measure (\<lambda>(l, S). card S)") (auto intro!: diff_Suc_less simp: card_gt_0_iff)

declare advance_tracker.simps [simp del]

definition tracker_commit :: "u32 \<Rightarrow> sequence_tracker \<Rightarrow> sequence_tracker" where
  "tracker_commit q t =
     (if q \<le> tr_lastCommitted t then t
      else if q = tr_lastCommitted t + 1 then advance_tracker q (tr_outOfOrderCommits t)
      else t\<lparr>tr_outOfOrderCommits := insert q (tr_outOfOrderCommits t)\<rparr>)"

section \<open>State\<close>

record candidate =
  cd_bet :: u64
  cd_clientId :: u32
  cd_clientSeq :: u32
  cd_request :: "flutter_request option"
  cd_digest :: bytes
  cd_acceptVotes :: u32
  cd_rejectVotes :: u32
  cd_votedReplicas :: "u32 set"
  cd_slowPathInitiated :: bool
  cd_slowValueReceived :: bool
  cd_slowAccepted :: bool
  cd_slowValueSent :: bool
  cd_slowProposals :: "(u32, bool) smap"

type_synonym candidate_key = "u64 \<times> u32 \<times> u32"

definition candidate_init :: "candidate_key \<Rightarrow> candidate" where
  "candidate_init k =
     \<lparr>cd_bet = fst k, cd_clientId = fst (snd k), cd_clientSeq = snd (snd k), cd_request = None, cd_digest = [],
      cd_acceptVotes = 0, cd_rejectVotes = 0, cd_votedReplicas = {}, cd_slowPathInitiated = False,
      cd_slowValueReceived = False, cd_slowAccepted = False, cd_slowValueSent = False, cd_slowProposals = []\<rparr>"

datatype flutter_dst = Fl_Replicas | Fl_Leader | Fl_Client u32

datatype flutter_out = FO_Message flutter_message | FO_Reply flutter_reply

record 'k flutter_env =
  fe_id :: u32
  fe_numReplicas :: u32
  fe_numClients :: nat
  fe_useHMAC :: bool
  fe_clockBroadcastInterval :: u64
  fe_ownAddr :: bytes
  fe_sha :: "bytes \<Rightarrow> bytes"
  fe_parseRequest :: "bytes \<Rightarrow> flutter_request option"
  fe_parseMessage :: "bytes \<Rightarrow> flutter_message option"
  fe_serRequest :: "flutter_request \<Rightarrow> bytes"
  fe_sig :: "'k sig_provider"
  fe_hmac :: "bytes \<Rightarrow> bytes \<Rightarrow> bytes"
  fe_hmacKeys :: hmac_keys

definition fe_f :: "'k flutter_env \<Rightarrow> u32" where
  "fe_f env = (fe_numReplicas env - 1) div 5"

definition fe_superQuorumSize :: "'k flutter_env \<Rightarrow> u32" where
  "fe_superQuorumSize env = 4 * fe_f env + 1"

definition leaderId :: u32 where
  "leaderId = 0"

record flutter =
  fl_verifyQueue :: "frame list"
  fl_processQueue :: "frame list"
  fl_replicaClocks :: "(u32, u64) smap"
  fl_lockTime :: u64
  fl_lastClockBroadcast :: u64
  fl_candidatePool :: "(candidate_key, candidate) smap"
  fl_clientCurrentBets :: "(u32 \<times> u32, u64) smap"
  fl_clientSeqTrackers :: "(u32, sequence_tracker) smap"
  fl_out :: "(flutter_dst \<times> message_type \<times> flutter_out) list"

definition flutter_init :: "'k flutter_env \<Rightarrow> u64 \<Rightarrow> flutter" where
  "flutter_init env now =
     \<lparr>fl_verifyQueue = [], fl_processQueue = [], fl_replicaClocks = [(fe_id env, now)], fl_lockTime = 0,
      fl_lastClockBroadcast = now, fl_candidatePool = [], fl_clientCurrentBets = [], fl_clientSeqTrackers = [], fl_out = []\<rparr>"

section \<open>Sending\<close>

definition fl_send :: "flutter_dst \<Rightarrow> message_type \<Rightarrow> flutter_out \<Rightarrow> flutter \<Rightarrow> flutter" where
  "fl_send dst t m s = s\<lparr>fl_out := fl_out s @ [(dst, t, m)]\<rparr>"

definition fl_broadcast :: "'k flutter_env \<Rightarrow> flutter_payload \<Rightarrow> flutter \<Rightarrow> flutter" where
  "fl_broadcast env p s =
     fl_send Fl_Replicas FLUTTER_REPLICA_MSG (FO_Message \<lparr>fm_sender_id = fe_id env, fm_payload = p\<rparr>) s"

definition broadcastObserve :: "'k flutter_env \<Rightarrow> flutter_request \<Rightarrow> flutter \<Rightarrow> flutter" where
  [simp]: "broadcastObserve env req s = fl_broadcast env (FM_Observe (frq_client_id req) (fe_serRequest env req) (frq_bet req)) s"

definition broadcastRBCProposal :: "'k flutter_env \<Rightarrow> u32 \<Rightarrow> u32 \<Rightarrow> u64 \<Rightarrow> bool \<Rightarrow> flutter \<Rightarrow> flutter" where
  [simp]: "broadcastRBCProposal env c q bet accept s = fl_broadcast env (FM_RBCProposal c q bet accept) s"

definition sendRBCSlowProposal :: "'k flutter_env \<Rightarrow> u32 \<Rightarrow> u32 \<Rightarrow> u64 \<Rightarrow> bool \<Rightarrow> flutter \<Rightarrow> flutter" where
  [simp]: "sendRBCSlowProposal env c q bet accept s =
     fl_send Fl_Leader FLUTTER_REPLICA_MSG
       (FO_Message \<lparr>fm_sender_id = fe_id env, fm_payload = FM_RBCSlowProposal c q bet accept\<rparr>) s"

definition sendRBCSlowValue :: "'k flutter_env \<Rightarrow> u32 \<Rightarrow> u32 \<Rightarrow> u64 \<Rightarrow> bool \<Rightarrow> flutter \<Rightarrow> flutter" where
  [simp]: "sendRBCSlowValue env c q bet accept s = fl_broadcast env (FM_RBCSlowValue c q bet accept) s"

text \<open>A reply goes to \<open>clientAddrs_[clientId]\<close>.\<close>

definition fl_reply :: "'k flutter_env \<Rightarrow> candidate \<Rightarrow> u32 \<Rightarrow> bool \<Rightarrow> bytes \<Rightarrow> flutter \<Rightarrow> flutter res" where
  "fl_reply env c clientId accepted result s =
     (if fe_numClients env \<le> unat clientId then Inl Undefined
      else Inr (fl_send (Fl_Client clientId) FLUTTER_REPLY
             (FO_Reply \<lparr>frp_replica_id = fe_id env, frp_client_id = clientId, frp_client_seq = cd_clientSeq c, frp_bet = cd_bet c,
                frp_accepted = accepted, frp_result = result\<rparr>) s))"

section \<open>Clocks and commits\<close>

definition broadcastClock :: "'k flutter_env \<Rightarrow> u64 \<Rightarrow> flutter \<Rightarrow> flutter" where
  "broadcastClock env now s =
     (if now - fl_lastClockBroadcast s < fe_clockBroadcastInterval env then s
      else (fl_broadcast env (FM_Time now) s)\<lparr>fl_lastClockBroadcast := now\<rparr>)"

text \<open>\<open>operator[]\<close> makes the tracker of a client on its first use.\<close>

definition touch_tracker :: "u32 \<Rightarrow> flutter \<Rightarrow> flutter" where
  "touch_tracker c s = s\<lparr>fl_clientSeqTrackers := sm_insert c tracker_init (fl_clientSeqTrackers s)\<rparr>"

definition fl_committed :: "u32 \<Rightarrow> u32 \<Rightarrow> flutter \<Rightarrow> bool" where
  "fl_committed c q s = isCommitted q (sm_at tracker_init (fl_clientSeqTrackers s) c)"

definition mark_committed :: "u32 \<Rightarrow> u32 \<Rightarrow> flutter \<Rightarrow> flutter" where
  "mark_committed c q s =
     s\<lparr>fl_clientSeqTrackers := sm_put c (tracker_commit q (sm_at tracker_init (fl_clientSeqTrackers s) c)) (fl_clientSeqTrackers s)\<rparr>"

text \<open>\<open>Request executed successfully\<close>\<close>

definition executed_text :: bytes where
  "executed_text = ascii [82, 101, 113, 117, 101, 115, 116, 32, 101, 120, 101, 99, 117, 116, 101, 100, 32,
     115, 117, 99, 99, 101, 115, 115, 102, 117, 108, 108, 121]"

text \<open>The loop of \<open>checkCandidatesForCommit\<close> over the pool, and the keys it collects.\<close>

fun commit_loop :: "'k flutter_env \<Rightarrow> (candidate_key \<times> candidate) list \<Rightarrow> flutter \<Rightarrow> (candidate_key list \<times> flutter) res" where
  "commit_loop env [] s = Inr ([], s)"
| "commit_loop env ((k, c) # pool) s =
     (if \<not> cd_bet c < fl_lockTime s then Inr ([], s)
      else if cd_request c = None then Inr ([], s)
      else
        let fast = fe_superQuorumSize env \<le> cd_acceptVotes c \<or> fe_superQuorumSize env \<le> cd_rejectVotes c;
            slow = cd_slowValueReceived c;
            accepted = (if fast then fe_superQuorumSize env \<le> cd_acceptVotes c else cd_slowAccepted c)
        in if \<not> fast \<and> \<not> slow then Inr ([], s)
           else if fast \<and> slow \<and> accepted \<noteq> cd_slowAccepted c then Inl AssertFailed
           else if \<not> accepted then Inl AssertFailed
           else bindE (fl_reply env c (cd_clientId c) accepted executed_text (mark_committed (cd_clientId c) (cd_clientSeq c) s)) (\<lambda>s1.
                bindE (commit_loop env pool s1) (\<lambda>(ks, s2). Inr (k # ks, s2))))"

definition remove_candidate :: "candidate_key \<Rightarrow> flutter \<Rightarrow> flutter" where
  "remove_candidate k s =
     s\<lparr>fl_candidatePool := sm_del k (fl_candidatePool s), fl_clientCurrentBets := sm_del (snd k) (fl_clientCurrentBets s)\<rparr>"

definition checkCandidatesForCommit :: "'k flutter_env \<Rightarrow> flutter \<Rightarrow> flutter res" where
  "checkCandidatesForCommit env s =
     bindE (commit_loop env (fl_candidatePool s) s) (\<lambda>(ks, s1). Inr (fold remove_candidate ks s1))"

definition updateLockTime :: "'k flutter_env \<Rightarrow> flutter \<Rightarrow> flutter res" where
  "updateLockTime env s =
     (let clockTimes = sort (map snd (fl_replicaClocks s))
      in if length clockTimes < unat (fe_superQuorumSize env) then Inr s
         else bindE (vec_at clockTimes (unat (fe_numReplicas env - fe_superQuorumSize env))) (\<lambda>t.
              let s1 = s\<lparr>fl_lockTime := t\<rparr>
              in if fl_lockTime s < t then checkCandidatesForCommit env s1 else Inr s1))"

definition processFlutterTime :: "'k flutter_env \<Rightarrow> u32 \<Rightarrow> u64 \<Rightarrow> flutter \<Rightarrow> flutter res" where
  "processFlutterTime env senderId clockTime s =
     updateLockTime env (s\<lparr>fl_replicaClocks := sm_put senderId clockTime (fl_replicaClocks s)\<rparr>)"

section \<open>Candidates and votes\<close>

definition stale_bet :: "u32 \<Rightarrow> u32 \<Rightarrow> u64 \<Rightarrow> flutter \<Rightarrow> bool" where
  "stale_bet c q bet s = (case map_of (fl_clientCurrentBets s) (c, q) of None \<Rightarrow> False | Some b \<Rightarrow> bet < b)"

text \<open>The request becomes the candidate of its bet, which drops an older one of the same number; it is relayed and voted
  on at once.\<close>

definition initializeCandidate :: "'k flutter_env \<Rightarrow> u64 \<Rightarrow> flutter_request \<Rightarrow> flutter \<Rightarrow> flutter" where
  "initializeCandidate env now req s =
     (let bet = frq_bet req; c = frq_client_id req; q = frq_client_seq req; s0 = touch_tracker c s
      in if fl_committed c q s0 then s0
         else let current = map_of (fl_clientCurrentBets s0) (c, q)
         in if (case current of None \<Rightarrow> False | Some b \<Rightarrow> bet \<le> b) then s0
            else
              let pool = (case current of None \<Rightarrow> fl_candidatePool s0 | Some b \<Rightarrow> sm_del (b, c, q) (fl_candidatePool s0));
                  k = (bet, c, q);
                  cd = (case map_of pool k of None \<Rightarrow> candidate_init k | Some old \<Rightarrow> old);
                  cd' = cd\<lparr>cd_request := Some req, cd_digest := fe_sha env (fe_serRequest env req)\<rparr>;
                  s1 = s0\<lparr>fl_clientCurrentBets := sm_put (c, q) bet (fl_clientCurrentBets s0), fl_candidatePool := sm_put k cd' pool\<rparr>;
                  s2 = broadcastObserve env req s1
              in broadcastRBCProposal env c q bet (now \<le> bet) s2)"

text \<open>The candidate of a key, made on the first message about it.\<close>

definition candidate_at :: "candidate_key \<Rightarrow> flutter \<Rightarrow> candidate" where
  "candidate_at k s = (case map_of (fl_candidatePool s) k of None \<Rightarrow> candidate_init k | Some c \<Rightarrow> c)"

definition put_candidate :: "candidate_key \<Rightarrow> candidate \<Rightarrow> flutter \<Rightarrow> flutter" where
  "put_candidate k c s = s\<lparr>fl_candidatePool := sm_put k c (fl_candidatePool s)\<rparr>"

definition first_candidate :: "candidate_key \<Rightarrow> flutter \<Rightarrow> bool" where
  "first_candidate k s = (case fl_candidatePool s of [] \<Rightarrow> False | p # _ \<Rightarrow> fst p = k)"

text \<open>A rejected candidate: the client hears of it, and the bet of its number moves on.\<close>

definition reject_candidate :: "'k flutter_env \<Rightarrow> candidate_key \<Rightarrow> candidate \<Rightarrow> flutter \<Rightarrow> flutter res" where
  "reject_candidate env k c s =
     bindE (fl_reply env c (fst (snd k)) False [] s) (\<lambda>s1.
     Inr (s1\<lparr>fl_candidatePool := sm_del k (fl_candidatePool s1),
             fl_clientCurrentBets := sm_put (snd k) (sm_at 0 (fl_clientCurrentBets s1) (snd k) + 1) (fl_clientCurrentBets s1)\<rparr>))"

definition record_vote :: "u32 \<Rightarrow> bool \<Rightarrow> candidate \<Rightarrow> candidate" where
  "record_vote senderId accept c =
     (let c1 = c\<lparr>cd_votedReplicas := insert senderId (cd_votedReplicas c)\<rparr>
      in if accept then c1\<lparr>cd_acceptVotes := cd_acceptVotes c1 + 1\<rparr> else c1\<lparr>cd_rejectVotes := cd_rejectVotes c1 + 1\<rparr>)"

definition processRBCProposal :: "'k flutter_env \<Rightarrow> u32 \<Rightarrow> u32 \<Rightarrow> u32 \<Rightarrow> u64 \<Rightarrow> bool \<Rightarrow> flutter \<Rightarrow> flutter res" where
  "processRBCProposal env senderId clientId clientSeq bet accept s =
     (let k = (bet, clientId, clientSeq); s0 = touch_tracker clientId s
      in if fl_committed clientId clientSeq s0 then Inr s0
         else if stale_bet clientId clientSeq bet s0 then Inr s0
         else
           let c = candidate_at k s0; s1 = put_candidate k c s0
           in if senderId \<in> cd_votedReplicas c then Inr s1
              else
                let c1 = record_vote senderId accept c; s2 = put_candidate k c1 s1; sq = fe_superQuorumSize env
                in if sq \<le> cd_acceptVotes c1 then (if first_candidate k s2 then checkCandidatesForCommit env s2 else Inr s2)
                   else if sq \<le> cd_rejectVotes c1 then reject_candidate env k c1 s2
                   else if cd_acceptVotes c1 + cd_rejectVotes c1 = sq \<and> \<not> cd_slowPathInitiated c1 then
                     Inr (sendRBCSlowProposal env clientId clientSeq bet (cd_rejectVotes c1 < cd_acceptVotes c1)
                            (put_candidate k (c1\<lparr>cd_slowPathInitiated := True\<rparr>) s2))
                   else Inr s2)"

definition processRBCSlowProposal :: "'k flutter_env \<Rightarrow> u32 \<Rightarrow> u32 \<Rightarrow> u32 \<Rightarrow> u64 \<Rightarrow> bool \<Rightarrow> flutter \<Rightarrow> flutter" where
  "processRBCSlowProposal env senderId clientId clientSeq bet accept s =
     (if fe_id env \<noteq> leaderId then s
      else
        let k = (bet, clientId, clientSeq); s0 = touch_tracker clientId s
        in if fl_committed clientId clientSeq s0 then s0
           else if stale_bet clientId clientSeq bet s0 then s0
           else
             let c = candidate_at k s0; s1 = put_candidate k c s0
             in if cd_slowValueSent c then s1
                else
                  let proposals = sm_put senderId accept (cd_slowProposals c);
                      c1 = c\<lparr>cd_slowProposals := proposals\<rparr>; s2 = put_candidate k c1 s1;
                      acceptCount = of_nat (length (filter snd proposals)) :: u32;
                      rejectCount = of_nat (length (filter (\<lambda>p. \<not> snd p) proposals)) :: u32
                  in if acceptCount < fe_f env + 1 \<and> rejectCount < fe_f env + 1 then s2
                     else sendRBCSlowValue env clientId clientSeq bet (fe_f env + 1 \<le> acceptCount)
                            (put_candidate k (c1\<lparr>cd_slowValueSent := True\<rparr>) s2))"

definition processRBCSlowValue :: "'k flutter_env \<Rightarrow> u32 \<Rightarrow> u32 \<Rightarrow> u32 \<Rightarrow> u64 \<Rightarrow> bool \<Rightarrow> flutter \<Rightarrow> flutter res" where
  "processRBCSlowValue env senderId clientId clientSeq bet accept s =
     (let k = (bet, clientId, clientSeq)
      in if senderId \<noteq> leaderId then Inr s
         else case map_of (fl_candidatePool s) k of None \<Rightarrow> Inr s
         | Some c \<Rightarrow>
             let c1 = c\<lparr>cd_slowAccepted := accept, cd_slowValueReceived := True\<rparr>; s1 = put_candidate k c1 s
             in if accept then (if first_candidate k s1 then checkCandidatesForCommit env s1 else Inr s1)
                else reject_candidate env k c1 s1)"

section \<open>The process\<close>

definition processFlutterMessage :: "'k flutter_env \<Rightarrow> u64 \<Rightarrow> flutter_message \<Rightarrow> flutter \<Rightarrow> flutter res" where
  "processFlutterMessage env now msg s =
     (case fm_payload msg of
        FM_Time t \<Rightarrow> processFlutterTime env (fm_sender_id msg) t s
      | FM_Observe c m bet \<Rightarrow>
          (case fe_parseRequest env m of None \<Rightarrow> Inr s | Some req \<Rightarrow> Inr (initializeCandidate env now req s))
      | FM_RBCProposal c q bet accept \<Rightarrow> processRBCProposal env (fm_sender_id msg) c q bet accept s
      | FM_RBCSlowProposal c q bet accept \<Rightarrow> Inr (processRBCSlowProposal env (fm_sender_id msg) c q bet accept s)
      | FM_RBCSlowValue c q bet accept \<Rightarrow> processRBCSlowValue env (fm_sender_id msg) c q bet accept s
      | FM_None \<Rightarrow> Inr s)"

definition flutter_handleMessage :: "'k flutter_env \<Rightarrow> u64 \<Rightarrow> bytes \<Rightarrow> frame \<Rightarrow> flutter \<Rightarrow> flutter" where
  "flutter_handleMessage env now sender fr s =
     (let s1 = (if sender = fe_ownAddr env then s\<lparr>fl_processQueue := fl_processQueue s @ [fr]\<rparr>
                else s\<lparr>fl_verifyQueue := fl_verifyQueue s @ [fr]\<rparr>)
      in if fe_clockBroadcastInterval env \<le> now - fl_lastClockBroadcast s1 then broadcastClock env now s1 else s1)"

text \<open>Whether the signature or MAC of a frame is that of a node.\<close>

definition flutter_verified :: "'k flutter_env \<Rightarrow> frame \<Rightarrow> node_id \<Rightarrow> bool res" where
  "flutter_verified env fr node =
     (if fe_useHMAC env then hmac_verify (fe_hmac env) (fe_hmacKeys env) fr node
      else Inr (sig_verify_frame (fe_sig env) fr node))"

text \<open>What the verification thread does with a frame: whether it goes to the process queue.\<close>

definition flutter_check :: "'k flutter_env \<Rightarrow> frame \<Rightarrow> bool res" where
  "flutter_check env fr =
     (if type_of_code (fr_type fr) = Some FLUTTER_CLIENT_REQUEST then
        (case fe_parseRequest env (fr_body fr) of None \<Rightarrow> Inr False
         | Some req \<Rightarrow> flutter_verified env fr (CLIENT, frq_client_id req))
      else if type_of_code (fr_type fr) = Some FLUTTER_REPLICA_MSG then
        (case fe_parseMessage env (fr_body fr) of None \<Rightarrow> Inr False
         | Some msg \<Rightarrow> flutter_verified env fr (REPLICA, fm_sender_id msg))
      else Inr False)"

definition flutter_verify_turn :: "'k flutter_env \<Rightarrow> flutter \<Rightarrow> flutter res" where
  "flutter_verify_turn env s =
     (case fl_verifyQueue s of [] \<Rightarrow> Inr s
      | fr # q \<Rightarrow>
          bindE (flutter_check env fr) (\<lambda>ok.
          Inr (if ok then s\<lparr>fl_verifyQueue := q, fl_processQueue := fl_processQueue s @ [fr]\<rparr> else s\<lparr>fl_verifyQueue := q\<rparr>)))"

definition flutter_process :: "'k flutter_env \<Rightarrow> u64 \<Rightarrow> frame \<Rightarrow> flutter \<Rightarrow> flutter res" where
  "flutter_process env now fr s =
     (if type_of_code (fr_type fr) = Some FLUTTER_CLIENT_REQUEST then
        (case fe_parseRequest env (fr_body fr) of None \<Rightarrow> Inr s | Some req \<Rightarrow> Inr (initializeCandidate env now req s))
      else if type_of_code (fr_type fr) = Some FLUTTER_REPLICA_MSG then
        (case fe_parseMessage env (fr_body fr) of None \<Rightarrow> Inr s | Some msg \<Rightarrow> processFlutterMessage env now msg s)
      else Inr s)"

definition flutter_process_turn :: "'k flutter_env \<Rightarrow> u64 \<Rightarrow> flutter \<Rightarrow> flutter res" where
  "flutter_process_turn env now s =
     (case fl_processQueue s of [] \<Rightarrow> Inr s
      | fr # q \<Rightarrow> flutter_process env now fr (s\<lparr>fl_processQueue := q\<rparr>))"

text \<open>The steps: a frame that the network \<open>net\<close> delivers from an address, a turn of a verification thread, a turn of the process
  thread, the clock timer.\<close>

inductive flutter_reach :: "'k flutter_env \<Rightarrow> (bytes \<Rightarrow> frame \<Rightarrow> bool) \<Rightarrow> flutter \<Rightarrow> bool" for env net where
  init: "flutter_reach env net (flutter_init env now)"
| message: "flutter_reach env net s \<Longrightarrow> net sender fr \<Longrightarrow> flutter_reach env net (flutter_handleMessage env now sender fr s)"
| verify: "flutter_reach env net s \<Longrightarrow> flutter_verify_turn env s = Inr s' \<Longrightarrow> flutter_reach env net s'"
| turn: "flutter_reach env net s \<Longrightarrow> flutter_process_turn env now s = Inr s' \<Longrightarrow> flutter_reach env net s'"
| clock: "flutter_reach env net s \<Longrightarrow> flutter_reach env net (broadcastClock env now s)"

end
