(* ===== verification/FlutterSafety.thy ===== *)
theory FlutterSafety
  imports Flutter
begin

text \<open>
  The safety of the baseline replica: every vote it counts was heard from its sender, a request is reported as accepted
  only with a super quorum of votes or the leader's decision, and no assertion of the commit loop fails.
\<close>

section \<open>What was heard\<close>

text \<open>A frame that gets into the process queue, and the messages in such frames.\<close>

definition admitted :: "'k flutter_env \<Rightarrow> (bytes \<Rightarrow> frame \<Rightarrow> bool) \<Rightarrow> frame \<Rightarrow> bool" where
  "admitted env net fr \<longleftrightarrow> (\<exists>sender. net sender fr \<and> (sender = fe_ownAddr env \<or> flutter_check env fr = Inr True))"

definition heard :: "'k flutter_env \<Rightarrow> (bytes \<Rightarrow> frame \<Rightarrow> bool) \<Rightarrow> flutter_message \<Rightarrow> bool" where
  "heard env net msg \<longleftrightarrow>
     (\<exists>fr. admitted env net fr \<and> type_of_code (fr_type fr) = Some FLUTTER_REPLICA_MSG \<and> fe_parseMessage env (fr_body fr) = Some msg)"

definition accepts_for :: "(flutter_message \<Rightarrow> bool) \<Rightarrow> candidate_key \<Rightarrow> u32 set" where
  "accepts_for H k = {i. H \<lparr>fm_sender_id = i, fm_payload = FM_RBCProposal (fst (snd k)) (snd (snd k)) (fst k) True\<rparr>}"

definition decided :: "(flutter_message \<Rightarrow> bool) \<Rightarrow> candidate_key \<Rightarrow> bool" where
  "decided H k \<longleftrightarrow> H \<lparr>fm_sender_id = leaderId, fm_payload = FM_RBCSlowValue (fst (snd k)) (snd (snd k)) (fst k) True\<rparr>"

text \<open>What it takes to commit a candidate.\<close>

definition accept_evidence :: "'k flutter_env \<Rightarrow> (flutter_message \<Rightarrow> bool) \<Rightarrow> candidate_key \<Rightarrow> bool" where
  "accept_evidence env H k \<longleftrightarrow> unat (fe_superQuorumSize env) \<le> card (accepts_for H k) \<or> decided H k"

definition key_of_reply :: "flutter_reply \<Rightarrow> candidate_key" where
  "key_of_reply r = (frp_bet r, frp_client_id r, frp_client_seq r)"

section \<open>Invariant\<close>

definition candidate_ok :: "'k flutter_env \<Rightarrow> (flutter_message \<Rightarrow> bool) \<Rightarrow> candidate_key \<Rightarrow> candidate \<Rightarrow> bool" where
  "candidate_ok env H k c \<longleftrightarrow>
     cd_bet c = fst k \<and> cd_clientId c = fst (snd k) \<and> cd_clientSeq c = snd (snd k) \<and>
     unat (cd_acceptVotes c) \<le> card (cd_votedReplicas c \<inter> accepts_for H k) \<and>
     (fe_superQuorumSize env \<le> cd_rejectVotes c \<longrightarrow> fe_superQuorumSize env \<le> cd_acceptVotes c) \<and>
     (cd_slowValueReceived c \<longrightarrow> cd_slowAccepted c \<and> decided H k)"

definition pool_ok :: "'k flutter_env \<Rightarrow> (flutter_message \<Rightarrow> bool) \<Rightarrow> flutter \<Rightarrow> bool" where
  "pool_ok env H s \<longleftrightarrow> sm_ok (fl_candidatePool s) \<and>
     (\<forall>k c. map_of (fl_candidatePool s) k = Some c \<longrightarrow> candidate_ok env H k c)"

definition replies_ok :: "'k flutter_env \<Rightarrow> (flutter_message \<Rightarrow> bool) \<Rightarrow> flutter \<Rightarrow> bool" where
  "replies_ok env H s \<longleftrightarrow>
     (\<forall>dst t r. (dst, t, FO_Reply r) \<in> set (fl_out s) \<longrightarrow> dst = Fl_Client (frp_client_id r) \<and> frp_replica_id r = fe_id env \<and>
        (frp_accepted r \<longrightarrow> accept_evidence env H (key_of_reply r)))"

lemma super_quorum: "unat (fe_superQuorumSize env) = 4 * unat (fe_f env) + 1"
proof -
  have "unat (fe_f env) \<le> (2 ^ 32 - 1) div 5"
    using unsigned_less [of "fe_numReplicas env - 1", where ?'a = nat] by (simp add: fe_f_def unat_div div_le_mono)
  then show ?thesis by (simp add: fe_superQuorumSize_def unat_word_ariths)
qed

lemma super_quorum_pos [simp]: "0 < fe_superQuorumSize env" "fe_superQuorumSize env \<noteq> 0"
  using super_quorum [of env] by (auto simp: word_less_nat_alt)

lemma candidate_ok_init [simp]: "candidate_ok env H k (candidate_init k)"
  by (simp add: candidate_ok_def candidate_init_def)

lemma candidate_ok_flags [simp]:
  "candidate_ok env H k (c\<lparr>cd_request := a\<rparr>) = candidate_ok env H k c" "candidate_ok env H k (c\<lparr>cd_digest := d\<rparr>) = candidate_ok env H k c"
  "candidate_ok env H k (c\<lparr>cd_slowPathInitiated := b\<rparr>) = candidate_ok env H k c"
  "candidate_ok env H k (c\<lparr>cd_slowValueSent := b\<rparr>) = candidate_ok env H k c"
  "candidate_ok env H k (c\<lparr>cd_slowProposals := e\<rparr>) = candidate_ok env H k c"
  by (simp_all add: candidate_ok_def)

lemma pool_ok_updates [simp]:
  "pool_ok env H (s\<lparr>fl_clientCurrentBets := a\<rparr>) = pool_ok env H s" "pool_ok env H (s\<lparr>fl_clientSeqTrackers := b\<rparr>) = pool_ok env H s"
  "pool_ok env H (s\<lparr>fl_out := d\<rparr>) = pool_ok env H s" "pool_ok env H (s\<lparr>fl_lockTime := t\<rparr>) = pool_ok env H s"
  "pool_ok env H (s\<lparr>fl_replicaClocks := e\<rparr>) = pool_ok env H s" "pool_ok env H (s\<lparr>fl_lastClockBroadcast := t\<rparr>) = pool_ok env H s"
  "pool_ok env H (s\<lparr>fl_processQueue := q\<rparr>) = pool_ok env H s" "pool_ok env H (s\<lparr>fl_verifyQueue := q\<rparr>) = pool_ok env H s"
  by (simp_all add: pool_ok_def)

lemma replies_ok_updates [simp]:
  "replies_ok env H (s\<lparr>fl_clientCurrentBets := a\<rparr>) = replies_ok env H s" "replies_ok env H (s\<lparr>fl_clientSeqTrackers := b\<rparr>) = replies_ok env H s"
  "replies_ok env H (s\<lparr>fl_candidatePool := d\<rparr>) = replies_ok env H s" "replies_ok env H (s\<lparr>fl_lockTime := t\<rparr>) = replies_ok env H s"
  "replies_ok env H (s\<lparr>fl_replicaClocks := e\<rparr>) = replies_ok env H s" "replies_ok env H (s\<lparr>fl_lastClockBroadcast := t\<rparr>) = replies_ok env H s"
  "replies_ok env H (s\<lparr>fl_processQueue := q\<rparr>) = replies_ok env H s" "replies_ok env H (s\<lparr>fl_verifyQueue := q\<rparr>) = replies_ok env H s"
  "replies_ok env H (fl_send dst ty (FO_Message m) s) = replies_ok env H s" "replies_ok env H (fl_broadcast env p s) = replies_ok env H s"
  by (auto simp: replies_ok_def fl_send_def fl_broadcast_def)

lemma send_pool [simp]:
  "pool_ok env H (fl_send dst ty m s) = pool_ok env H s" "pool_ok env H (fl_broadcast env p s) = pool_ok env H s"
  "fl_candidatePool (fl_send dst ty m s) = fl_candidatePool s" "fl_candidatePool (fl_broadcast env p s) = fl_candidatePool s"
  by (simp_all add: fl_send_def fl_broadcast_def)

lemma touch_ok [simp]:
  "pool_ok env H (touch_tracker c s) = pool_ok env H s" "replies_ok env H (touch_tracker c s) = replies_ok env H s"
  "fl_candidatePool (touch_tracker c s) = fl_candidatePool s"
  by (simp_all add: touch_tracker_def)

lemma put_candidate_ok:
  "pool_ok env H s \<Longrightarrow> candidate_ok env H k c \<Longrightarrow> pool_ok env H (put_candidate k c s)"
  by (simp add: pool_ok_def put_candidate_def)

lemma put_candidate_replies [simp]: "replies_ok env H (put_candidate k c s) = replies_ok env H s"
  by (simp add: put_candidate_def)

lemma candidate_at_ok:
  "pool_ok env H s \<Longrightarrow> candidate_ok env H k (candidate_at k s)"
  by (cases k) (simp add: candidate_at_def pool_ok_def split: option.split)

lemma del_pool_ok:
  "pool_ok env H s \<Longrightarrow> pool_ok env H (s\<lparr>fl_candidatePool := sm_del k (fl_candidatePool s)\<rparr>)"
  by (simp add: pool_ok_def split: if_splits)

section \<open>Commits\<close>

lemma accepted_evidence:
  assumes "candidate_ok env H k c" and "fe_superQuorumSize env \<le> cd_acceptVotes c \<or> cd_slowValueReceived c"
  shows "accept_evidence env H k"
proof -
  have "card (cd_votedReplicas c \<inter> accepts_for H k) \<le> card (accepts_for H k)" by (rule card_mono) auto
  then show ?thesis using assms by (auto simp: candidate_ok_def accept_evidence_def word_le_nat_alt)
qed

lemma reply_ok:
  assumes "replies_ok env H s" and "fl_reply env c cid accepted result s = Inr s'"
    and "accepted \<Longrightarrow> accept_evidence env H (cd_bet c, cid, cd_clientSeq c)"
  shows "replies_ok env H s' \<and> fl_candidatePool s' = fl_candidatePool s \<and> fl_clientCurrentBets s' = fl_clientCurrentBets s"
  using assms by (auto simp: fl_reply_def fl_send_def replies_ok_def key_of_reply_def split: if_splits)

lemma reply_no_assert: "fl_reply env c cid accepted result s \<noteq> Inl AssertFailed"
  by (simp add: fl_reply_def)

text \<open>One turn of the loop on a sound candidate: it stops there or commits it.\<close>

definition committable :: "'k flutter_env \<Rightarrow> flutter \<Rightarrow> candidate \<Rightarrow> bool" where
  "committable env s c \<longleftrightarrow> cd_bet c < fl_lockTime s \<and> cd_request c \<noteq> None \<and>
     (fe_superQuorumSize env \<le> cd_acceptVotes c \<or> cd_slowValueReceived c)"

lemma commit_loop_turn:
  assumes "candidate_ok env H k c"
  shows "commit_loop env ((k, c) # pool) s =
    (if committable env s c
     then bindE (fl_reply env c (cd_clientId c) True executed_text (mark_committed (cd_clientId c) (cd_clientSeq c) s)) (\<lambda>s1.
          bindE (commit_loop env pool s1) (\<lambda>(ks, s2). Inr (k # ks, s2)))
     else Inr ([], s))"
proof -
  have rej: "fe_superQuorumSize env \<le> cd_rejectVotes c \<Longrightarrow> fe_superQuorumSize env \<le> cd_acceptVotes c"
    and slow: "cd_slowValueReceived c \<Longrightarrow> cd_slowAccepted c" using assms by (simp_all add: candidate_ok_def)
  show ?thesis
  proof (cases "fe_superQuorumSize env \<le> cd_acceptVotes c")
    case True
    then show ?thesis using slow by (cases "cd_slowValueReceived c") (simp_all add: committable_def)
  next
    case False
    then have "\<not> fe_superQuorumSize env \<le> cd_rejectVotes c" using rej by blast
    then show ?thesis using False slow by (cases "cd_slowValueReceived c") (simp_all add: committable_def)
  qed
qed

lemma commit_loop_ok:
  assumes "\<forall>p \<in> set pool. candidate_ok env H (fst p) (snd p)" and "replies_ok env H s"
  shows "commit_loop env pool s \<noteq> Inl AssertFailed \<and>
    (\<forall>ks s'. commit_loop env pool s = Inr (ks, s') \<longrightarrow> replies_ok env H s' \<and> fl_candidatePool s' = fl_candidatePool s)"
  using assms
proof (induction pool arbitrary: s)
  case (Cons p pool)
  obtain k c where p: "p = (k, c)" by (cases p)
  let ?s0 = "mark_committed (cd_clientId c) (cd_clientSeq c) s"
  have c: "candidate_ok env H k c" using Cons.prems(1) p by simp
  have s0: "replies_ok env H ?s0" "fl_candidatePool ?s0 = fl_candidatePool s" using Cons.prems(2) by (simp_all add: mark_committed_def)
  note turn = commit_loop_turn [OF c, of pool s]
  show ?case
  proof (cases "committable env s c")
    case True
    show ?thesis
    proof (cases "fl_reply env c (cd_clientId c) True executed_text ?s0")
      case (Inl e)
      then show ?thesis using turn True p reply_no_assert [of env c "cd_clientId c" True executed_text ?s0] by simp
    next
      case (Inr s1)
      have "accept_evidence env H (cd_bet c, cd_clientId c, cd_clientSeq c)"
        using accepted_evidence [OF c] c True by (simp add: candidate_ok_def committable_def)
      then have s1: "replies_ok env H s1" "fl_candidatePool s1 = fl_candidatePool s" using reply_ok [OF s0(1) Inr] s0(2) by simp_all
      then show ?thesis
        using Cons.IH [of s1] Cons.prems(1) turn True p Inr by (cases "commit_loop env pool s1") auto
    qed
  qed (use Cons.prems(2) turn p in simp)
qed simp

lemma remove_candidates_ok:
  assumes "pool_ok env H s" and "replies_ok env H s"
  shows "pool_ok env H (fold remove_candidate ks s) \<and> replies_ok env H (fold remove_candidate ks s)"
  using assms
proof (induction ks arbitrary: s)
  case (Cons k ks)
  have "pool_ok env H (remove_candidate k s)" "replies_ok env H (remove_candidate k s)"
    using Cons.prems del_pool_ok [OF Cons.prems(1), of k] by (simp_all add: remove_candidate_def)
  then show ?case using Cons.IH by simp
qed simp

definition flutter_ok :: "'k flutter_env \<Rightarrow> (flutter_message \<Rightarrow> bool) \<Rightarrow> flutter \<Rightarrow> bool" where
  "flutter_ok env H s \<longleftrightarrow> pool_ok env H s \<and> replies_ok env H s"

text \<open>A step of the process thread that keeps the invariant and fails no assertion.\<close>

definition safe_step :: "'k flutter_env \<Rightarrow> (flutter_message \<Rightarrow> bool) \<Rightarrow> flutter res \<Rightarrow> bool" where
  "safe_step env H r \<longleftrightarrow> r \<noteq> Inl AssertFailed \<and> (\<forall>s'. r = Inr s' \<longrightarrow> flutter_ok env H s')"

lemma safe_Inr [simp]: "safe_step env H (Inr s) = flutter_ok env H s"
  by (simp add: safe_step_def)

lemma check_candidates_safe:
  assumes "flutter_ok env H s"
  shows "safe_step env H (checkCandidatesForCommit env s)"
proof -
  have "\<forall>p \<in> set (fl_candidatePool s). candidate_ok env H (fst p) (snd p)"
    using assms by (auto simp: flutter_ok_def pool_ok_def sm_get_in_set simp del: split_paired_All)
  note loop = commit_loop_ok [OF this, of s]
  show ?thesis
  proof (cases "commit_loop env (fl_candidatePool s) s")
    case (Inl e)
    then show ?thesis using loop assms by (simp add: checkCandidatesForCommit_def safe_step_def flutter_ok_def)
  next
    case (Inr x)
    obtain ks s1 where x: "x = (ks, s1)" by (cases x)
    have "replies_ok env H s1" "pool_ok env H s1" using loop Inr x assms by (simp_all add: flutter_ok_def pool_ok_def)
    then show ?thesis
      using remove_candidates_ok [of env H s1 ks] Inr x by (simp add: checkCandidatesForCommit_def flutter_ok_def)
  qed
qed

section \<open>Votes\<close>

lemma put_candidate_flutter_ok: "flutter_ok env H s \<Longrightarrow> candidate_ok env H k c \<Longrightarrow> flutter_ok env H (put_candidate k c s)"
  by (simp add: flutter_ok_def put_candidate_ok)

text \<open>Removing a candidate does not need it to be sound.\<close>

lemma reject_safe:
  assumes "flutter_ok env H s"
  shows "safe_step env H (reject_candidate env k c (put_candidate k c s))"
proof (cases "fl_reply env c (fst (snd k)) False [] (put_candidate k c s)")
  case (Inl e)
  then show ?thesis using reply_no_assert [of env c "fst (snd k)" False "[]" "put_candidate k c s"]
    by (simp add: reject_candidate_def safe_step_def)
next
  case (Inr s1)
  have "replies_ok env H (put_candidate k c s)" using assms by (simp add: flutter_ok_def)
  note r = reply_ok [OF this Inr]
  have "pool_ok env H (s1\<lparr>fl_candidatePool := sm_del k (fl_candidatePool s1)\<rparr>)"
    using assms r by (cases k) (simp add: flutter_ok_def pool_ok_def put_candidate_def split: if_splits)
  then show ?thesis using r Inr by (simp add: reject_candidate_def flutter_ok_def)
qed

lemma card_insert_vote:
  "(i :: u32) \<notin> V \<Longrightarrow> card (insert i V \<inter> A) = (if i \<in> A then Suc (card (V \<inter> A)) else card (V \<inter> A))"
  by (simp add: Int_insert_left)

lemma unat_Suc_le: "unat (w + 1) \<le> Suc (unat (w :: u32))"
  by (simp add: unat_word_ariths)

lemma vote_ok:
  assumes "candidate_ok env H (bet, cid, q) c" and "i \<notin> cd_votedReplicas c"
    and "H \<lparr>fm_sender_id = i, fm_payload = FM_RBCProposal cid q bet accept\<rparr>"
    and "fe_superQuorumSize env \<le> cd_acceptVotes (record_vote i accept c) \<or> \<not> fe_superQuorumSize env \<le> cd_rejectVotes (record_vote i accept c)"
  shows "candidate_ok env H (bet, cid, q) (record_vote i accept c)"
proof -
  let ?k = "(bet, cid, q)"
  have in_votes: "accept \<Longrightarrow> i \<in> accepts_for H ?k" using assms(3) by (simp add: accepts_for_def)
  note ok = assms(1) [unfolded candidate_ok_def]
  have "unat (cd_acceptVotes (record_vote i accept c)) \<le> card (insert i (cd_votedReplicas c) \<inter> accepts_for H ?k)"
    using ok in_votes card_insert_vote [OF assms(2), of "accepts_for H ?k"] unat_Suc_le [of "cd_acceptVotes c"]
    by (auto simp: record_vote_def Let_def)
  moreover have "cd_votedReplicas (record_vote i accept c) = insert i (cd_votedReplicas c)" by (simp add: record_vote_def Let_def)
  moreover have "fe_superQuorumSize env \<le> cd_rejectVotes (record_vote i accept c) \<longrightarrow> fe_superQuorumSize env \<le> cd_acceptVotes (record_vote i accept c)"
    using assms(4) by blast
  ultimately show ?thesis using ok by (auto simp: candidate_ok_def record_vote_def Let_def)
qed

lemma proposal_safe:
  assumes "flutter_ok env H s" and "H \<lparr>fm_sender_id = i, fm_payload = FM_RBCProposal cid q bet accept\<rparr>"
  shows "safe_step env H (processRBCProposal env i cid q bet accept s)"
proof -
  define k where "k = (bet, cid, q)"
  define s0 where "s0 = touch_tracker cid s"
  define c where "c = candidate_at k s0"
  define s1 where "s1 = put_candidate k c s0"
  define c1 where "c1 = record_vote i accept c"
  define s2 where "s2 = put_candidate k c1 s1"
  define sq where "sq = fe_superQuorumSize env"
  have s0: "flutter_ok env H s0" using assms(1) by (simp add: flutter_ok_def s0_def)
  then have c: "candidate_ok env H k c" unfolding c_def by (simp add: candidate_at_ok flutter_ok_def)
  have s1: "flutter_ok env H s1" unfolding s1_def by (rule put_candidate_flutter_ok [OF s0 c])
  have good: "candidate_ok env H k c1 \<and> flutter_ok env H s2"
    if "i \<notin> cd_votedReplicas c" "sq \<le> cd_acceptVotes c1 \<or> \<not> sq \<le> cd_rejectVotes c1"
  proof
    show "candidate_ok env H k c1"
      using vote_ok [OF c [unfolded k_def] that(1) assms(2)] that(2) unfolding c1_def k_def sq_def .
    then show "flutter_ok env H s2" unfolding s2_def by (rule put_candidate_flutter_ok [OF s1])
  qed
  have slow: "flutter_ok env H (fl_send Fl_Leader FLUTTER_REPLICA_MSG (FO_Message m) (put_candidate k (c1\<lparr>cd_slowPathInitiated := True\<rparr>) s2))"
    if "candidate_ok env H k c1" "flutter_ok env H s2" for m
    using put_candidate_flutter_ok [OF that(2), of k "c1\<lparr>cd_slowPathInitiated := True\<rparr>"] that(1) by (simp add: flutter_ok_def)
  have reject: "safe_step env H (reject_candidate env k c1 s2)" unfolding s2_def by (rule reject_safe [OF s1])
  show ?thesis
    unfolding processRBCProposal_def Let_def k_def [symmetric] s0_def [symmetric] c_def [symmetric] s1_def [symmetric]
      c1_def [symmetric] s2_def [symmetric] sq_def [symmetric]
    using s0 s1 good slow check_candidates_safe [of env H s2] reject by (auto split: if_splits)
qed

lemma slow_proposal_safe:
  assumes "flutter_ok env H s"
  shows "flutter_ok env H (processRBCSlowProposal env i cid q bet accept s)"
proof -
  define k where "k = (bet, cid, q)"
  define s0 where "s0 = touch_tracker cid s"
  define c where "c = candidate_at k s0"
  define s1 where "s1 = put_candidate k c s0"
  have s0: "flutter_ok env H s0" using assms by (simp add: flutter_ok_def s0_def)
  then have c: "candidate_ok env H k c" unfolding c_def by (simp add: candidate_at_ok flutter_ok_def)
  have s1: "flutter_ok env H s1" unfolding s1_def by (rule put_candidate_flutter_ok [OF s0 c])
  have s2: "flutter_ok env H (put_candidate k (c\<lparr>cd_slowProposals := ps\<rparr>) s1)"
    "flutter_ok env H (fl_broadcast env p (put_candidate k (c\<lparr>cd_slowProposals := ps, cd_slowValueSent := True\<rparr>)
       (put_candidate k (c\<lparr>cd_slowProposals := ps\<rparr>) s1)))" for ps p
    using put_candidate_flutter_ok [OF s1] put_candidate_flutter_ok [OF put_candidate_flutter_ok [OF s1]] c
    by (simp_all add: flutter_ok_def)
  show ?thesis
    unfolding processRBCSlowProposal_def Let_def k_def [symmetric] s0_def [symmetric] c_def [symmetric] s1_def [symmetric]
    using assms s0 s1 s2 by simp
qed

lemma slow_value_safe:
  assumes "flutter_ok env H s" and "H \<lparr>fm_sender_id = i, fm_payload = FM_RBCSlowValue cid q bet accept\<rparr>"
  shows "safe_step env H (processRBCSlowValue env i cid q bet accept s)"
proof (cases "map_of (fl_candidatePool s) (bet, cid, q)")
  case (Some c)
  define k where "k = (bet, cid, q)"
  define c1 where "c1 = c\<lparr>cd_slowAccepted := accept, cd_slowValueReceived := True\<rparr>"
  define s1 where "s1 = put_candidate k c1 s"
  have "candidate_ok env H k c" using assms(1) Some by (simp add: flutter_ok_def pool_ok_def k_def)
  then have "candidate_ok env H k c1" if "accept" "i = leaderId"
    using assms(2) that by (auto simp: candidate_ok_def c1_def decided_def k_def)
  then have s1: "flutter_ok env H s1" if "accept" "i = leaderId"
    unfolding s1_def using that by (intro put_candidate_flutter_ok [OF assms(1)]) simp
  have reject: "safe_step env H (reject_candidate env k c1 s1)" unfolding s1_def by (rule reject_safe [OF assms(1)])
  have eq: "processRBCSlowValue env i cid q bet accept s = (if i \<noteq> leaderId then Inr s
     else if accept then (if first_candidate k s1 then checkCandidatesForCommit env s1 else Inr s1) else reject_candidate env k c1 s1)"
    using Some by (simp add: processRBCSlowValue_def Let_def k_def c1_def s1_def)
  show ?thesis
    unfolding eq using assms(1) s1 check_candidates_safe [of env H s1] reject by (auto split: if_splits)
qed (use assms(1) in \<open>simp add: processRBCSlowValue_def Let_def\<close>)

lemma flutter_ok_broadcast [simp]: "flutter_ok env H (fl_broadcast env p s) = flutter_ok env H s"
  by (simp add: flutter_ok_def)

lemma initialize_ok:
  assumes "flutter_ok env H s"
  shows "flutter_ok env H (initializeCandidate env now req s)"
proof -
  define k where "k = (frq_bet req, frq_client_id req, frq_client_seq req)"
  define s0 where "s0 = touch_tracker (frq_client_id req) s"
  have s0: "flutter_ok env H s0" using assms by (simp add: flutter_ok_def s0_def)
  have ok: "flutter_ok env H (s0\<lparr>fl_candidatePool := pool\<rparr>)" if "pool = fl_candidatePool s0 \<or> (\<exists>b. pool = sm_del b (fl_candidatePool s0))" for pool
    using that s0 del_pool_ok by (auto simp: flutter_ok_def)
  have cd: "candidate_ok env H k (case map_of pool k of None \<Rightarrow> candidate_init k | Some old \<Rightarrow> old)"
    if "flutter_ok env H (s0\<lparr>fl_candidatePool := pool\<rparr>)" for pool
    using that by (cases k) (simp add: flutter_ok_def pool_ok_def split: option.split)
  have put: "flutter_ok env H (s0\<lparr>fl_clientCurrentBets := bets, fl_candidatePool := sm_put k
      ((case map_of pool k of None \<Rightarrow> candidate_init k | Some old \<Rightarrow> old)\<lparr>cd_request := Some req, cd_digest := d\<rparr>) pool\<rparr>)"
    if "flutter_ok env H (s0\<lparr>fl_candidatePool := pool\<rparr>)" for pool bets d
    using put_candidate_flutter_ok [OF that, of k "(case map_of pool k of None \<Rightarrow> candidate_init k | Some old \<Rightarrow> old)
      \<lparr>cd_request := Some req, cd_digest := d\<rparr>"] cd [OF that]
    by (simp add: flutter_ok_def put_candidate_def pool_ok_def)
  define current where "current = map_of (fl_clientCurrentBets s0) (frq_client_id req, frq_client_seq req)"
  define pool where "pool = (case current of None \<Rightarrow> fl_candidatePool s0
    | Some b \<Rightarrow> sm_del (b, frq_client_id req, frq_client_seq req) (fl_candidatePool s0))"
  have "flutter_ok env H (s0\<lparr>fl_candidatePool := pool\<rparr>)"
    by (rule ok) (auto simp: pool_def split: option.split)
  note put = put [OF this]
  show ?thesis
    unfolding initializeCandidate_def Let_def k_def [symmetric] s0_def [symmetric] current_def [symmetric] pool_def [symmetric]
    using s0 put by simp
qed

lemma time_safe:
  assumes "flutter_ok env H s"
  shows "safe_step env H (processFlutterTime env i t s)"
proof -
  have s1: "flutter_ok env H (s\<lparr>fl_replicaClocks := cs, fl_lockTime := l\<rparr>)" "flutter_ok env H (s\<lparr>fl_replicaClocks := cs\<rparr>)" for cs l
    using assms by (simp_all add: flutter_ok_def)
  then show ?thesis
    using check_candidates_safe [OF s1(1)]
    by (auto simp: processFlutterTime_def updateLockTime_def Let_def vec_at_def safe_step_def)
qed

section \<open>Queues\<close>

text \<open>No handler of the process thread touches the queues.\<close>

definition queues :: "flutter \<Rightarrow> frame list \<times> frame list" where
  "queues s = (fl_verifyQueue s, fl_processQueue s)"

lemma queues_ops [simp]:
  "queues (s\<lparr>fl_clientCurrentBets := a\<rparr>) = queues s" "queues (s\<lparr>fl_clientSeqTrackers := b\<rparr>) = queues s"
  "queues (s\<lparr>fl_candidatePool := d\<rparr>) = queues s" "queues (s\<lparr>fl_lockTime := t\<rparr>) = queues s"
  "queues (s\<lparr>fl_replicaClocks := e\<rparr>) = queues s" "queues (s\<lparr>fl_lastClockBroadcast := t\<rparr>) = queues s"
  "queues (fl_send dst ty m s) = queues s" "queues (fl_broadcast env p s) = queues s" "queues (touch_tracker c s) = queues s"
  "queues (put_candidate k cd s) = queues s" "queues (mark_committed c q s) = queues s" "queues (remove_candidate k s) = queues s"
  by (simp_all add: queues_def fl_send_def fl_broadcast_def touch_tracker_def put_candidate_def mark_committed_def remove_candidate_def)

lemma queues_reply: "fl_reply env c cid a r s = Inr s' \<Longrightarrow> queues s' = queues s"
  by (auto simp: fl_reply_def split: if_splits)

lemma queues_commit_loop: "commit_loop env pool s = Inr (ks, s') \<Longrightarrow> queues s' = queues s"
proof (induction pool arbitrary: s ks)
  case (Cons p pool)
  obtain k c where p: "p = (k, c)" by (cases p)
  show ?case
    using Cons.prems Cons.IH unfolding p
    by (auto simp: Let_def elim!: bindE_InrE split: if_splits dest!: queues_reply)
qed simp

lemma queues_remove: "queues (fold remove_candidate ks s) = queues s"
  by (induction ks arbitrary: s) simp_all

lemma queues_check: "checkCandidatesForCommit env s = Inr s' \<Longrightarrow> queues s' = queues s"
  by (auto simp: checkCandidatesForCommit_def queues_remove elim!: bindE_InrE dest: queues_commit_loop)

lemma queues_reject: "reject_candidate env k c s = Inr s' \<Longrightarrow> queues s' = queues s"
  by (auto simp: reject_candidate_def elim!: bindE_InrE dest: queues_reply)

lemma queues_proposal: "processRBCProposal env i cid q bet a s = Inr s' \<Longrightarrow> queues s' = queues s"
  by (auto simp: processRBCProposal_def Let_def dest!: queues_check queues_reject split: if_splits)

lemma queues_slow_value: "processRBCSlowValue env i cid q bet a s = Inr s' \<Longrightarrow> queues s' = queues s"
  by (auto simp: processRBCSlowValue_def Let_def dest!: queues_check queues_reject split: if_splits option.splits)

lemma queues_slow_proposal [simp]: "queues (processRBCSlowProposal env i cid q bet a s) = queues s"
  by (simp add: processRBCSlowProposal_def Let_def)

lemma queues_initialize [simp]: "queues (initializeCandidate env now req s) = queues s"
proof -
  have "queues (s\<lparr>fl_clientCurrentBets := a, fl_candidatePool := d\<rparr>) = queues s" for a d s by (simp add: queues_def)
  then show ?thesis by (simp add: initializeCandidate_def Let_def split: option.split)
qed

lemma queues_time: "processFlutterTime env i t s = Inr s' \<Longrightarrow> queues s' = queues s"
proof -
  have "queues (s\<lparr>fl_replicaClocks := a, fl_lockTime := d\<rparr>) = queues s" for a d by (simp add: queues_def)
  then show "processFlutterTime env i t s = Inr s' \<Longrightarrow> queues s' = queues s"
    by (auto simp: processFlutterTime_def updateLockTime_def Let_def elim!: bindE_InrE dest!: queues_check split: if_splits)
qed

lemma queues_process: "flutter_process env now fr s = Inr s' \<Longrightarrow> queues s' = queues s"
  by (auto simp: flutter_process_def processFlutterMessage_def dest: queues_time queues_proposal queues_slow_value
      split: if_splits option.splits flutter_payload.splits)

section \<open>Reachable states\<close>

lemma process_safe:
  assumes "flutter_ok env (heard env net) s" and "admitted env net fr"
  shows "safe_step env (heard env net) (flutter_process env now fr s)"
proof -
  have msg: "safe_step env (heard env net) (processFlutterMessage env now m s)" if "heard env net m" for m
  proof -
    have m: "fm_payload m = p \<Longrightarrow> heard env net \<lparr>fm_sender_id = fm_sender_id m, fm_payload = p\<rparr>" for p using that by (cases m) simp
    show ?thesis
      using assms(1) m time_safe [OF assms(1)] proposal_safe [OF assms(1)] slow_value_safe [OF assms(1)]
      by (auto simp: processFlutterMessage_def slow_proposal_safe initialize_ok split: flutter_payload.split option.split)
  qed
  have "heard env net m" if "type_of_code (fr_type fr) = Some FLUTTER_REPLICA_MSG" "fe_parseMessage env (fr_body fr) = Some m" for m
    using assms(2) that by (auto simp: heard_def)
  then show ?thesis using assms(1) msg by (auto simp: flutter_process_def initialize_ok split: option.split)
qed

definition queues_admitted :: "'k flutter_env \<Rightarrow> (bytes \<Rightarrow> frame \<Rightarrow> bool) \<Rightarrow> flutter \<Rightarrow> bool" where
  "queues_admitted env net s \<longleftrightarrow> (\<forall>fr \<in> set (fl_processQueue s). admitted env net fr) \<and>
     (\<forall>fr \<in> set (fl_verifyQueue s). \<exists>sender. net sender fr)"

definition flutter_inv :: "'k flutter_env \<Rightarrow> (bytes \<Rightarrow> frame \<Rightarrow> bool) \<Rightarrow> flutter \<Rightarrow> bool" where
  "flutter_inv env net s \<longleftrightarrow> flutter_ok env (heard env net) s \<and> queues_admitted env net s"

lemma broadcastClock_ok [simp]:
  "flutter_ok env H (broadcastClock env now s) = flutter_ok env H s" "queues (broadcastClock env now s) = queues s"
  by (simp_all add: broadcastClock_def flutter_ok_def)

lemma queues_admitted_eq: "queues s' = queues s \<Longrightarrow> queues_admitted env net s \<Longrightarrow> queues_admitted env net s'"
  by (simp add: queues_admitted_def queues_def)

lemma verify_inv:
  assumes "flutter_inv env net s" and "flutter_verify_turn env s = Inr s'"
  shows "flutter_inv env net s'"
proof (cases "fl_verifyQueue s")
  case (Cons fr q)
  then obtain ok where "flutter_check env fr = Inr ok" "s' = (if ok then s\<lparr>fl_verifyQueue := q, fl_processQueue := fl_processQueue s @ [fr]\<rparr>
      else s\<lparr>fl_verifyQueue := q\<rparr>)"
    using assms(2) by (auto simp: flutter_verify_turn_def elim!: bindE_InrE)
  then show ?thesis
    using assms(1) Cons by (auto simp: flutter_inv_def flutter_ok_def queues_admitted_def admitted_def pool_ok_def replies_ok_def)
qed (use assms in \<open>simp add: flutter_verify_turn_def\<close>)

lemma message_inv:
  assumes "flutter_inv env net s" and "net sender fr"
  shows "flutter_inv env net (flutter_handleMessage env now sender fr s)"
proof -
  define s1 where "s1 = (if sender = fe_ownAddr env then s\<lparr>fl_processQueue := fl_processQueue s @ [fr]\<rparr>
    else s\<lparr>fl_verifyQueue := fl_verifyQueue s @ [fr]\<rparr>)"
  have s1: "flutter_ok env (heard env net) s1" "queues_admitted env net s1"
    using assms by (auto simp: s1_def flutter_inv_def flutter_ok_def queues_admitted_def admitted_def)
  then have "queues_admitted env net (broadcastClock env now s1)" using queues_admitted_eq by (metis broadcastClock_ok(2))
  then show ?thesis using s1 by (simp add: flutter_handleMessage_def Let_def s1_def [symmetric] flutter_inv_def)
qed

lemma turn_inv:
  assumes "flutter_inv env net s" and "flutter_process_turn env now s = Inr s'"
  shows "flutter_inv env net s'"
proof (cases "fl_processQueue s")
  case (Cons fr q)
  let ?s = "s\<lparr>fl_processQueue := q\<rparr>"
  have p: "flutter_process env now fr ?s = Inr s'" using assms(2) Cons by (simp add: flutter_process_turn_def)
  have ok: "flutter_ok env (heard env net) ?s" "queues_admitted env net ?s" "admitted env net fr"
    using assms(1) Cons by (auto simp: flutter_inv_def flutter_ok_def queues_admitted_def)
  then show ?thesis
    using process_safe [OF ok(1,3), of now] p queues_admitted_eq [OF queues_process [OF p] ok(2)]
    by (simp add: safe_step_def flutter_inv_def)
qed (use assms in \<open>simp add: flutter_process_turn_def\<close>)

lemma flutter_reach_inv: "flutter_reach env net s \<Longrightarrow> flutter_inv env net s"
proof (induction rule: flutter_reach.induct)
  case (init now)
  then show ?case
    by (simp add: flutter_inv_def flutter_ok_def flutter_init_def pool_ok_def replies_ok_def queues_admitted_def)
next
  case (clock s now)
  then show ?case using queues_admitted_eq by (metis broadcastClock_ok flutter_inv_def)
qed (use message_inv verify_inv turn_inv in blast)+

end
