(* ===== verification/FlutterBehaviour.thy ===== *)
theory FlutterBehaviour
  imports FlutterSafety
begin

text \<open>
  What the baseline replica does: the commits of a check as the longest committable prefix of the pool, the tracker
  of committed numbers against a set, the votes behind an accepted reply, and the cases in which the replica stops
  committing, commits a request twice or reads its clocks out of range.
\<close>

section \<open>The prefix that a check commits\<close>

definition commit_reply :: "'k flutter_env \<Rightarrow> candidate_key \<times> candidate \<Rightarrow> flutter_dst \<times> message_type \<times> flutter_out" where
  "commit_reply env p =
     (case fst p of (bet, c, q) \<Rightarrow> (Fl_Client c, FLUTTER_REPLY,
        FO_Reply \<lparr>frp_replica_id = fe_id env, frp_client_id = c, frp_client_seq = q, frp_bet = bet, frp_accepted = True,
          frp_result = executed_text\<rparr>))"

lemma mark_committed_sel [simp]:
  "fl_out (mark_committed c q s) = fl_out s" "fl_lockTime (mark_committed c q s) = fl_lockTime s"
  "fl_candidatePool (mark_committed c q s) = fl_candidatePool s" "fl_replicaClocks (mark_committed c q s) = fl_replicaClocks s"
  by (simp_all add: mark_committed_def)

lemma fl_send_sel [simp]:
  "fl_out (fl_send dst ty m s) = fl_out s @ [(dst, ty, m)]" "fl_lockTime (fl_send dst ty m s) = fl_lockTime s"
  "fl_replicaClocks (fl_send dst ty m s) = fl_replicaClocks s"
  by (simp_all add: fl_send_def)

lemma commit_loop_prefix:
  assumes "\<forall>p \<in> set pool. candidate_ok env H (fst p) (snd p) \<and> unat (fst (snd (fst p))) < fe_numClients env"
  shows "\<exists>s'. commit_loop env pool s = Inr (map fst (takeWhile (\<lambda>p. committable env s (snd p)) pool), s') \<and>
    fl_candidatePool s' = fl_candidatePool s \<and> fl_lockTime s' = fl_lockTime s \<and>
    fl_out s' = fl_out s @ map (commit_reply env) (takeWhile (\<lambda>p. committable env s (snd p)) pool)"
  using assms
proof (induction pool arbitrary: s)
  case (Cons p pool)
  obtain k c where p: "p = (k, c)" by (cases p)
  have c: "candidate_ok env H k c" and client: "unat (fst (snd k)) < fe_numClients env" using Cons.prems p by simp_all
  show ?case
  proof (cases "committable env s c")
    case True
    define s1 where "s1 = fl_send (Fl_Client (fst (snd k))) FLUTTER_REPLY
      (FO_Reply \<lparr>frp_replica_id = fe_id env, frp_client_id = fst (snd k), frp_client_seq = snd (snd k), frp_bet = fst k,
         frp_accepted = True, frp_result = executed_text\<rparr>) (mark_committed (fst (snd k)) (snd (snd k)) s)"
    have reply: "fl_reply env c (cd_clientId c) True executed_text (mark_committed (cd_clientId c) (cd_clientSeq c) s) = Inr s1"
      using c client by (simp add: fl_reply_def s1_def candidate_ok_def)
    have s1: "committable env s1 = committable env s" "fl_candidatePool s1 = fl_candidatePool s" "fl_lockTime s1 = fl_lockTime s"
      "fl_out s1 = fl_out s @ [commit_reply env (k, c)]"
      by (auto simp: s1_def committable_def commit_reply_def fun_eq_iff split: prod.split)
    show ?thesis
      using Cons.IH [of s1] Cons.prems True p reply s1 by (auto simp: commit_loop_turn [OF c] simp del: commit_loop.simps)
  qed (simp add: p commit_loop_turn [OF c] del: commit_loop.simps)
qed simp

lemma remove_candidates_sel:
  "fl_candidatePool (fold remove_candidate ks s) = filter (\<lambda>p. fst p \<notin> set ks) (fl_candidatePool s)"
  "fl_out (fold remove_candidate ks s) = fl_out s" "fl_lockTime (fold remove_candidate ks s) = fl_lockTime s"
  by (induction ks arbitrary: s) (simp_all add: remove_candidate_def sm_del_def conj_commute)

lemma filter_not_prefix:
  assumes "distinct (map fst m)"
  shows "filter (\<lambda>p. fst p \<notin> fst ` set (takeWhile P m)) m = dropWhile P m"
  using assms
proof (induction m)
  case (Cons p m)
  then have "\<forall>r \<in> set m. fst r \<noteq> fst p" by (auto simp: image_iff)
  then have "filter (\<lambda>r. fst r \<noteq> fst p \<and> fst r \<notin> fst ` set (takeWhile P m)) m = filter (\<lambda>r. fst r \<notin> fst ` set (takeWhile P m)) m"
    by (intro filter_cong) auto
  moreover have "fst ` {x. x = p \<or> x \<in> S} = insert (fst p) (fst ` S)" for S by auto
  ultimately show ?case using Cons by auto
qed simp

text \<open>C18: a check in a reachable state commits the longest prefix of the pool, in the order of the bets, whose
  candidates are below the lock time, have their request and are agreed on; each is answered with an accepted reply
  and just these leave the pool.\<close>

theorem flutter_commits_prefix:
  assumes "flutter_reach env net s" and "list_all (\<lambda>p. unat (fst (snd (fst p))) < fe_numClients env) (fl_candidatePool s)"
  shows "\<exists>s'. checkCandidatesForCommit env s = Inr s' \<and>
    fl_candidatePool s' = dropWhile (\<lambda>p. committable env s (snd p)) (fl_candidatePool s) \<and>
    fl_out s' = fl_out s @ map (commit_reply env) (takeWhile (\<lambda>p. committable env s (snd p)) (fl_candidatePool s)) \<and>
    sorted (map fst (fl_candidatePool s))"
proof -
  have "flutter_inv env net s" by (rule flutter_reach_inv [OF assms(1)])
  then have pool: "sm_ok (fl_candidatePool s)"
      "\<forall>p \<in> set (fl_candidatePool s). candidate_ok env (heard env net) (fst p) (snd p)"
    by (auto simp: flutter_inv_def flutter_ok_def pool_ok_def sm_get_in_set simp del: split_paired_All)
  then have "\<forall>p \<in> set (fl_candidatePool s). candidate_ok env (heard env net) (fst p) (snd p) \<and> unat (fst (snd (fst p))) < fe_numClients env"
    using assms(2) by (simp add: list_all_iff)
  from commit_loop_prefix [OF this, of s] pool(1) show ?thesis
    by (auto simp: checkCandidatesForCommit_def remove_candidates_sel filter_not_prefix sm_ok_distinct
        sm_ok_def strict_sorted_iff)
qed

section \<open>The tracker of committed numbers\<close>

lemma word_le_Suc: "(l :: u32) + 1 \<noteq> 0 \<Longrightarrow> x \<le> l + 1 \<longleftrightarrow> x \<le> l \<or> x = l + 1"
  by unat_arith

lemma advance_committed:
  assumes "0 \<notin> S"
  shows "isCommitted x (advance_tracker l S) \<longleftrightarrow> x \<le> l \<or> x \<in> S"
    and "0 \<notin> tr_outOfOrderCommits (advance_tracker l S)"
proof -
  have "(isCommitted x (advance_tracker l S) \<longleftrightarrow> x \<le> l \<or> x \<in> S) \<and> 0 \<notin> tr_outOfOrderCommits (advance_tracker l S)"
    using assms
  proof (induction l S rule: advance_tracker.induct)
    case (1 l S)
    show ?case
    proof (cases "l + 1 \<in> S")
      case True
      then have "l + 1 \<noteq> 0" using "1.prems" by metis
      then show ?thesis using "1.IH" [OF True] "1.prems" True by (auto simp: advance_tracker.simps [of l S] word_le_Suc)
    next
      case False
      then show ?thesis using "1.prems" by (simp add: advance_tracker.simps [of l S] isCommitted_def)
    qed
  qed
  then show "isCommitted x (advance_tracker l S) \<longleftrightarrow> x \<le> l \<or> x \<in> S" and "0 \<notin> tr_outOfOrderCommits (advance_tracker l S)"
    by simp_all
qed

lemma commit_refines:
  assumes "0 \<notin> tr_outOfOrderCommits t"
  shows "isCommitted x (tracker_commit q t) \<longleftrightarrow> isCommitted x t \<or> x = q"
    and "0 \<notin> tr_outOfOrderCommits (tracker_commit q t)"
proof -
  have "\<not> q \<le> tr_lastCommitted t \<Longrightarrow> q \<noteq> 0" by auto
  then show "isCommitted x (tracker_commit q t) \<longleftrightarrow> isCommitted x t \<or> x = q"
    and "0 \<notin> tr_outOfOrderCommits (tracker_commit q t)"
    using assms advance_committed [OF assms] word_le_Suc [of "tr_lastCommitted t" x]
    by (auto simp: tracker_commit_def isCommitted_def)
qed

text \<open>A number counts as committed exactly when it was committed, in whatever order, or is zero: the first number of a
  client must not be zero.\<close>

theorem tracker_refines_set: "isCommitted x (fold tracker_commit qs tracker_init) \<longleftrightarrow> x = 0 \<or> x \<in> set qs"
proof -
  have "(isCommitted x (fold tracker_commit qs t) \<longleftrightarrow> isCommitted x t \<or> x \<in> set qs)" if "0 \<notin> tr_outOfOrderCommits t" for t
    using that by (induction qs arbitrary: t) (auto simp: commit_refines)
  then show ?thesis by (simp add: tracker_init_def isCommitted_def)
qed

section \<open>Evidence for an accepted reply\<close>

lemma accepted_reply_evidence:
  assumes "flutter_reach env net s" and "(dst, ty, FO_Reply r) \<in> set (fl_out s)" and "frp_accepted r"
  shows "accept_evidence env (heard env net) (key_of_reply r)"
  using flutter_reach_inv [OF assms(1)] assms(2,3) by (auto simp: flutter_inv_def flutter_ok_def replies_ok_def)

text \<open>A reply goes to the client it names, and names the replica that sends it.\<close>

lemma reply_addressed:
  assumes "flutter_reach env net s" and "(dst, ty, FO_Reply r) \<in> set (fl_out s)"
  shows "dst = Fl_Client (frp_client_id r) \<and> frp_replica_id r = fe_id env"
  using flutter_reach_inv [OF assms(1)] assms(2) by (auto simp: flutter_inv_def flutter_ok_def replies_ok_def)

text \<open>An accepted reply leaves a replica only when, for that very request and bet, it heard accepting votes of a super
  quorum of different replicas, each in a message that it checked, or a decision of the leader.\<close>

theorem flutter_accept_evidence:
  assumes "flutter_reach env net s" and "(dst, ty, FO_Reply r) \<in> set (fl_out s)" and "frp_accepted r"
  shows "accept_evidence env (heard env net) (key_of_reply r)"
  using assms by (rule accepted_reply_evidence)

text \<open>C17: no assertion of the commit loop fails: whatever the replica received, a turn of its process thread does not
  find a candidate agreed on both ways with different results, or one agreed to be rejected.\<close>

theorem flutter_asserts_hold:
  assumes "flutter_reach env net s"
  shows "flutter_process_turn env now s \<noteq> Inl AssertFailed"
proof (cases "fl_processQueue s")
  case (Cons fr q)
  have "flutter_inv env net s" by (rule flutter_reach_inv [OF assms])
  then have "flutter_ok env (heard env net) (s\<lparr>fl_processQueue := q\<rparr>)" "admitted env net fr"
    using Cons by (auto simp: flutter_inv_def flutter_ok_def queues_admitted_def)
  then show ?thesis
    using process_safe [of env net "s\<lparr>fl_processQueue := q\<rparr>" fr now] Cons by (simp add: flutter_process_turn_def safe_step_def)
qed (simp add: flutter_process_turn_def)

section \<open>The lock time\<close>

lemma check_keeps:
  assumes "flutter_ok env H s" and "list_all (\<lambda>p. unat (fst (snd (fst p))) < fe_numClients env) (fl_candidatePool s)"
  shows "\<exists>s'. checkCandidatesForCommit env s = Inr s' \<and> fl_lockTime s' = fl_lockTime s"
proof -
  have "\<forall>p \<in> set (fl_candidatePool s). candidate_ok env H (fst p) (snd p)"
    using assms(1) by (auto simp: flutter_ok_def pool_ok_def sm_get_in_set simp del: split_paired_All)
  then have "\<forall>p \<in> set (fl_candidatePool s). candidate_ok env H (fst p) (snd p) \<and> unat (fst (snd (fst p))) < fe_numClients env"
    using assms(2) by (simp add: list_all_iff)
  from commit_loop_prefix [OF this, of s] show ?thesis
    by (auto simp: checkCandidatesForCommit_def remove_candidates_sel)
qed

lemma lock_index:
  assumes "0 < fe_numReplicas env"
  shows "unat (fe_numReplicas env - fe_superQuorumSize env) = unat (fe_numReplicas env) - (4 * ((unat (fe_numReplicas env) - 1) div 5) + 1)"
proof -
  let ?n = "unat (fe_numReplicas env)"
  have n: "0 < ?n" using assms by (simp add: word_less_nat_alt)
  have f: "unat (fe_f env) = (?n - 1) div 5" using n assms by (simp add: fe_f_def unat_div unat_sub word_le_nat_alt)
  have "4 * ((?n - 1) div 5) + 1 \<le> ?n" using n by linarith
  then show ?thesis using super_quorum [of env] f by (simp add: unat_sub word_le_nat_alt)
qed

lemma small_case: "n = 5 * m + r + 1 \<Longrightarrow> r \<le> 4 \<Longrightarrow> 8 * m + 2 \<le> n \<Longrightarrow> n \<in> {2, 3, 4, 5, 10}" for m n r :: nat
  unfolding insert_iff empty_iff by presburger

text \<open>With a super quorum of clocks known, but no more than \<open>numReplicas_ - superQuorumSize_\<close>, the lock time is read
  behind the end of the sorted clocks; this happens only with two to five replicas, or ten.\<close>

theorem flutter_lock_index_faults:
  assumes "0 < fe_numReplicas env" and "unat (fe_superQuorumSize env) \<le> length (fl_replicaClocks s)"
    and "length (fl_replicaClocks s) \<le> unat (fe_numReplicas env - fe_superQuorumSize env)"
  shows "updateLockTime env s = Inl Undefined \<and> unat (fe_numReplicas env) \<in> {2, 3, 4, 5, 10}"
proof
  show "updateLockTime env s = Inl Undefined" using assms(2,3) by (simp add: updateLockTime_def Let_def vec_at_def)
  let ?n = "unat (fe_numReplicas env)"
  have n: "0 < ?n" using assms(1) by (simp add: word_less_nat_alt)
  have f: "unat (fe_f env) = (?n - 1) div 5" using n assms(1) by (simp add: fe_f_def unat_div unat_sub word_le_nat_alt)
  have "4 * ((?n - 1) div 5) + 1 \<le> ?n - (4 * ((?n - 1) div 5) + 1)"
    using assms(2,3) lock_index [OF assms(1)] super_quorum [of env] f by simp
  then have le: "8 * ((?n - 1) div 5) + 2 \<le> ?n" by linarith
  define m where "m = (?n - 1) div 5"
  define r where "r = (?n - 1) mod 5"
  have "?n = 5 * m + r + 1" "r \<le> 4" using n by (simp_all add: m_def r_def)
  moreover have "8 * m + 2 \<le> ?n" using le by (simp add: m_def)
  ultimately show "?n \<in> {2, 3, 4, 5, 10}" using small_case by blast
qed

section \<open>A vote before its request\<close>

definition head_waits :: "flutter \<Rightarrow> bool" where
  "head_waits s \<longleftrightarrow> (case fl_candidatePool s of [] \<Rightarrow> False | p # _ \<Rightarrow> cd_request (snd p) = None)"

lemma head_waits_check: "head_waits s \<Longrightarrow> checkCandidatesForCommit env s = Inr s"
  by (cases "fl_candidatePool s") (auto simp: head_waits_def checkCandidatesForCommit_def)

lemma head_waits_time:
  assumes "head_waits s" and "unat (fe_numReplicas env) = 5 * unat (fe_f env) + 1"
  shows "\<exists>s'. processFlutterTime env i t s = Inr s' \<and> head_waits s' \<and> fl_candidatePool s' = fl_candidatePool s \<and> fl_out s' = fl_out s"
proof -
  have "0 < fe_numReplicas env" using assms(2) by (simp add: word_less_nat_alt)
  then have index: "unat (fe_numReplicas env - fe_superQuorumSize env) = unat (fe_f env)" using lock_index [of env] assms(2) by simp
  have w: "head_waits (s\<lparr>fl_replicaClocks := cs\<rparr>)" "head_waits (s\<lparr>fl_replicaClocks := cs, fl_lockTime := l\<rparr>)" for cs l
    using assms(1) by (simp_all add: head_waits_def)
  then show ?thesis
    using super_quorum [of env]
    by (auto simp: w head_waits_check processFlutterTime_def updateLockTime_def Let_def index vec_at_def)
qed

lemma head_waits_clocks:
  assumes "head_waits s" and "unat (fe_numReplicas env) = 5 * unat (fe_f env) + 1"
  shows "\<exists>s'. foldE (\<lambda>x. processFlutterTime env (fst x) (snd x)) clocks s = Inr s' \<and>
    fl_candidatePool s' = fl_candidatePool s \<and> fl_out s' = fl_out s"
  using assms(1)
proof (induction clocks arbitrary: s)
  case (Cons x clocks)
  then show ?case using head_waits_time [OF Cons.prems assms(2), of "fst x" "snd x"] by fastforce
qed simp

lemma touch_tracker_same [simp]:
  "fl_committed c q (touch_tracker c s) = fl_committed c q s" "stale_bet c q bet (touch_tracker c' s) = stale_bet c q bet s"
  "fl_out (touch_tracker c s) = fl_out s"
  by (auto simp: fl_committed_def touch_tracker_def stale_bet_def sm_insert_def sm_has_def sm_at_def split: option.split)

text \<open>One vote of a single replica about a request that no client sent, with a bet below those in the pool, stops the
  replica: a candidate without a request becomes the head of the pool and from then on no clock, however late,
  commits anything, with as many replicas as the protocol asks for.\<close>

theorem flutter_placeholder_blocks:
  assumes "unat (fe_numReplicas env) = 5 * unat (fe_f env) + 1" and "0 < fe_f env"
    and "\<not> fl_committed c q s" and "\<not> stale_bet c q bet s" and "list_all (\<lambda>p. (bet, c, q) < fst p) (fl_candidatePool s)"
  shows "\<exists>s1 s2. processRBCProposal env i c q bet accept s = Inr s1 \<and>
    foldE (\<lambda>x. processFlutterTime env (fst x) (snd x)) clocks s1 = Inr s2 \<and>
    fl_out s2 = fl_out s \<and> map fst (fl_candidatePool s2) = (bet, c, q) # map fst (fl_candidatePool s)"
proof -
  define k where "k = (bet, c, q)"
  define cd where "cd = record_vote i accept (candidate_init k)"
  define s1 where "s1 = put_candidate k cd (put_candidate k (candidate_init k) (touch_tracker c s))"
  have fresh: "map_of (fl_candidatePool s) k = None" using assms(5) by (auto simp: k_def list_all_iff map_of_eq_None_iff)
  have sq: "1 < fe_superQuorumSize env" using super_quorum [of env] assms(2) by (simp add: word_less_nat_alt)
  then have sq': "\<not> fe_superQuorumSize env \<le> 1" "fe_superQuorumSize env \<noteq> 1" by auto
  have votes: "cd_acceptVotes cd = (if accept then 1 else 0)" "cd_rejectVotes cd = (if accept then 0 else 1)" "cd_request cd = None"
    by (simp_all add: cd_def record_vote_def candidate_init_def Let_def)
  have proposal: "processRBCProposal env i c q bet accept s = Inr s1"
    using assms(3,4) fresh sq' votes
    by (simp add: processRBCProposal_def Let_def k_def [symmetric] candidate_at_def cd_def [symmetric] s1_def [symmetric])
      (auto simp: candidate_init_def)
  have "sm_put k v (fl_candidatePool s) = (k, v) # fl_candidatePool s" for v :: candidate
    using assms(5) by (cases "fl_candidatePool s") (auto simp: k_def)
  then have pool: "fl_candidatePool s1 = (k, cd) # fl_candidatePool s" "fl_out s1 = fl_out s"
    by (simp_all add: s1_def put_candidate_def)
  then have "head_waits s1" using votes by (simp add: head_waits_def)
  from head_waits_clocks [OF this assms(1), of clocks] show ?thesis
    using proposal pool by (auto simp: k_def)
qed

section \<open>A replica of six\<close>

text \<open>A wire for examples: a request is its bet, a message four bytes: its kind, its sender, a bet or a time and a
  vote. The requests are of client 7, those with an even bet of number 1, the others of number 2.\<close>

definition demo_flutter_request :: "bytes \<Rightarrow> flutter_request option" where
  "demo_flutter_request b =
     (if length b = 1 then Some \<lparr>frq_client_id = 7, frq_client_seq = ucast (b ! 0) mod 2 + 1, frq_bet = ucast (b ! 0), frq_num_retries = 0, frq_req_data = []\<rparr>
      else None)"

definition demo_flutter_message :: "bytes \<Rightarrow> flutter_message option" where
  "demo_flutter_message b =
     (if length b = 4 then Some \<lparr>fm_sender_id = ucast (b ! 1), fm_payload =
        (if b ! 0 = 1 then FM_Time (ucast (b ! 2)) else if b ! 0 = 2 then FM_RBCProposal 7 (ucast (b ! 2) mod 2 + 1) (ucast (b ! 2)) (b ! 3 = 1)
         else FM_Observe 7 [b ! 2] (ucast (b ! 2)))\<rparr>
      else None)"

definition demo_flutter :: "unit flutter_env" where
  "demo_flutter =
     \<lparr>fe_id = 1, fe_numReplicas = 6, fe_numClients = 8, fe_useHMAC = False, fe_clockBroadcastInterval = 1000, fe_ownAddr = [],
      fe_sha = (\<lambda>b. b), fe_parseRequest = demo_flutter_request, fe_parseMessage = demo_flutter_message,
      fe_serRequest = (\<lambda>r. [ucast (frq_bet r)]),
      fe_sig = \<lparr>sp_pubKeys = (\<lambda>n. Some ()), sp_verifier = (\<lambda>_ d sig. sig = d), sp_sign = (\<lambda>d. d), sp_maxSigLen = 4\<rparr>,
      fe_hmac = (\<lambda>k b. b), fe_hmacKeys = (\<lambda>n. None)\<rparr>"

definition demo_flutter_frame :: "bytes \<Rightarrow> frame" where
  "demo_flutter_frame b = \<lparr>fr_type = code_of_type FLUTTER_REPLICA_MSG, fr_body = b, fr_sig = b\<rparr>"

text \<open>The frames of a run one after the other, each at the time 5.\<close>

definition flutter_run :: "'k flutter_env \<Rightarrow> bytes list \<Rightarrow> flutter \<Rightarrow> flutter res" where
  "flutter_run env bs s = foldE (\<lambda>b. flutter_process env 5 (demo_flutter_frame b)) bs s"

definition accepted_replies :: "flutter \<Rightarrow> (u32 \<times> u32 \<times> u64) list" where
  "accepted_replies s = concat (map (\<lambda>x. case snd (snd x) of FO_Message m \<Rightarrow> []
     | FO_Reply p \<Rightarrow> if frp_accepted p then [(frp_client_id p, frp_client_seq p, frp_bet p)] else []) (fl_out s))"

text \<open>Votes of the replicas 0 to \<open>n - 1\<close>, and their clocks.\<close>

definition votes_for :: "u8 \<Rightarrow> u8 \<Rightarrow> nat \<Rightarrow> bytes list" where
  "votes_for bet vote n = map (\<lambda>i. [2, of_nat i, bet, vote]) [0..<n]"

definition clocks_at :: "u8 \<Rightarrow> nat \<Rightarrow> bytes list" where
  "clocks_at t n = map (\<lambda>i. [1, of_nat i, t, 0]) [0..<n]"

lemma flutter_frame_reach:
  assumes "flutter_reach env net s" and "queues s = ([], [])" and "0 < fe_clockBroadcastInterval env"
    and "net sender fr" and "sender \<noteq> fe_ownAddr env" and "flutter_check env fr = Inr True" and "flutter_process env now fr s = Inr s'"
  shows "flutter_reach env net s' \<and> queues s' = ([], [])"
proof -
  have empty: "fl_verifyQueue s = []" "fl_processQueue s = []" using assms(2) by (simp_all add: queues_def)
  have "flutter_handleMessage env (fl_lastClockBroadcast s) sender fr s = s\<lparr>fl_verifyQueue := [fr]\<rparr>"
    using assms(3,5) empty by (simp add: flutter_handleMessage_def Let_def)
  then have "flutter_reach env net (s\<lparr>fl_verifyQueue := [fr]\<rparr>)"
    using flutter_reach.message [OF assms(1,4), of "fl_lastClockBroadcast s"] by simp
  moreover have "flutter_verify_turn env (s\<lparr>fl_verifyQueue := [fr]\<rparr>) = Inr (s\<lparr>fl_verifyQueue := [], fl_processQueue := [fr]\<rparr>)"
    using assms(6) empty by (simp add: flutter_verify_turn_def)
  ultimately have r: "flutter_reach env net (s\<lparr>fl_verifyQueue := [], fl_processQueue := [fr]\<rparr>)" by (rule flutter_reach.verify)
  have "s\<lparr>fl_verifyQueue := [], fl_processQueue := []\<rparr> = s" using empty by simp
  then have "flutter_process_turn env now (s\<lparr>fl_verifyQueue := [], fl_processQueue := [fr]\<rparr>) = Inr s'"
    using assms(7) by (simp add: flutter_process_turn_def)
  from flutter_reach.turn [OF r this] show ?thesis using queues_process [OF assms(7)] assms(2) by simp
qed

lemma flutter_run_reach:
  assumes "flutter_reach env net s" and "queues s = ([], [])" and "0 < fe_clockBroadcastInterval env"
    and "sender \<noteq> fe_ownAddr env" and "\<forall>b \<in> set bs. net sender (demo_flutter_frame b) \<and> flutter_check env (demo_flutter_frame b) = Inr True"
    and "flutter_run env bs s = Inr s'"
  shows "flutter_reach env net s'"
proof -
  have "flutter_reach env net s' \<and> queues s' = ([], [])"
    using assms(1,2,5,6)
  proof (induction bs arbitrary: s)
    case (Cons b bs)
    obtain s1 where s1: "flutter_process env 5 (demo_flutter_frame b) s = Inr s1" "flutter_run env bs s1 = Inr s'"
      using Cons.prems(4) by (auto simp: flutter_run_def elim!: bindE_InrE)
    have "flutter_reach env net s1 \<and> queues s1 = ([], [])"
      by (rule flutter_frame_reach [OF Cons.prems(1,2) assms(3) _ assms(4) _ s1(1)]) (use Cons.prems(3) in simp_all)
    then show ?case using Cons.IH [of s1] Cons.prems(3) s1(2) by simp
  qed (simp add: flutter_run_def)
  then show ?thesis by simp
qed

text \<open>The network delivers whatever is signed.\<close>

definition signed_net :: "bytes \<Rightarrow> frame \<Rightarrow> bool" where
  "signed_net sender fr \<longleftrightarrow> fr_sig fr = fr_body fr"

lemma flutter_demo_reach:
  assumes "flutter_run demo_flutter bs (flutter_init demo_flutter 0) = Inr s" and "list_all (\<lambda>b. length b = 4) bs"
  shows "flutter_reach demo_flutter signed_net s"
proof (rule flutter_run_reach [OF flutter_reach.init [of _ _ 0], of _ "[1]", OF _ _ _ _ assms(1)])
  show "\<forall>b \<in> set bs. signed_net [1] (demo_flutter_frame b) \<and> flutter_check demo_flutter (demo_flutter_frame b) = Inr True"
    using assms(2) by (auto simp: list_all_iff flutter_check_def demo_flutter_frame_def demo_flutter_def demo_flutter_message_def
        flutter_verified_def sig_verify_frame_def sig_verify_def signed_net_def)
qed (simp_all add: queues_def flutter_init_def demo_flutter_def)

lemma flutter_demo_run:
  assumes "case_sum (\<lambda>e. False) Q (flutter_run demo_flutter bs (flutter_init demo_flutter 0))" and "list_all (\<lambda>b. length b = 4) bs"
  obtains s where "flutter_reach demo_flutter signed_net s" and "Q s"
  using assms flutter_demo_reach [of bs] by (auto split: sum.splits)

text \<open>A request with its votes and clocks.\<close>

lemma demo_accepted:
  obtains s where "flutter_reach demo_flutter signed_net s" and "accepted_replies s = [(7, 1, 10)]"
    and "(Fl_Client 7, FLUTTER_REPLY, FO_Reply \<lparr>frp_replica_id = 1, frp_client_id = 7, frp_client_seq = 1, frp_bet = 10,
      frp_accepted = True, frp_result = executed_text\<rparr>) \<in> set (fl_out s)"
  by (rule flutter_demo_run [of "\<lambda>s. accepted_replies s = [(7, 1, 10)] \<and> (Fl_Client 7, FLUTTER_REPLY, FO_Reply \<lparr>frp_replica_id = 1,
      frp_client_id = 7, frp_client_seq = 1, frp_bet = 10, frp_accepted = True, frp_result = executed_text\<rparr>) \<in> set (fl_out s)"
      "[3, 0, 10, 0] # votes_for 10 1 5 @ clocks_at 100 5"], code_simp, code_simp) blast

theorem flutter_accept_evidence_witness:
  "\<exists>s. flutter_reach demo_flutter signed_net s \<and> accepted_replies s = [(7, 1, 10)] \<and>
     accept_evidence demo_flutter (heard demo_flutter signed_net) (10, 7, 1)"
proof -
  obtain s where s: "flutter_reach demo_flutter signed_net s" "accepted_replies s = [(7, 1, 10)]"
    "(Fl_Client 7, FLUTTER_REPLY, FO_Reply \<lparr>frp_replica_id = 1, frp_client_id = 7, frp_client_seq = 1, frp_bet = 10,
      frp_accepted = True, frp_result = executed_text\<rparr>) \<in> set (fl_out s)" by (rule demo_accepted)
  then show ?thesis using flutter_accept_evidence [OF s(1,3)] by (auto simp: key_of_reply_def)
qed

theorem flutter_asserts_hold_witness:
  "flutter_process_turn demo_flutter 5 (flutter_handleMessage demo_flutter 0 [] (demo_flutter_frame [1, 0, 100, 0])
     (flutter_init demo_flutter 0)) \<noteq> Inl AssertFailed"
  by (rule flutter_asserts_hold [of _ signed_net], rule flutter_reach.message [OF flutter_reach.init])
    (simp add: signed_net_def demo_flutter_frame_def)

text \<open>The head of the pool is rejected after the lock time passed the next candidate, which a check then commits.\<close>

definition pool_summary :: "flutter \<Rightarrow> u64 \<times> (candidate_key \<times> bool \<times> u64 \<times> u32) list" where
  "pool_summary s = (fl_lockTime s, map (\<lambda>p. (fst p, Option.is_none (cd_request (snd p)), cd_bet (snd p), cd_acceptVotes (snd p))) (fl_candidatePool s))"

theorem flutter_commits_prefix_witness:
  "\<exists>s s'. flutter_reach demo_flutter signed_net s \<and> map fst (fl_candidatePool s) = [(12, 7, 1)] \<and>
     checkCandidatesForCommit demo_flutter s = Inr s' \<and> fl_candidatePool s' = [] \<and>
     fl_out s' = fl_out s @ [commit_reply demo_flutter (hd (fl_candidatePool s))]"
proof -
  obtain s where s: "flutter_reach demo_flutter signed_net s" and pool: "pool_summary s = (100, [((12, 7, 1), False, 12, 5)])"
    by (rule flutter_demo_run [of "\<lambda>s. pool_summary s = (100, [((12, 7, 1), False, 12, 5)])"
        "votes_for 11 0 4 @ [3, 0, 12, 0] # votes_for 12 1 5 @ clocks_at 100 5 @ [[2, 4, 11, 0]]"], code_simp, code_simp) blast
  then obtain c where c: "fl_candidatePool s = [((12, 7, 1), c)]" "committable demo_flutter s c"
    by (auto simp: pool_summary_def committable_def fe_superQuorumSize_def fe_f_def demo_flutter_def Option.is_none_def)
  have "list_all (\<lambda>p. unat (fst (snd (fst p))) < fe_numClients demo_flutter) (fl_candidatePool s)"
    using c by (simp add: demo_flutter_def)
  from flutter_commits_prefix [OF s this] show ?thesis using s c by auto
qed

theorem flutter_lock_index_faults_witness:
  "updateLockTime (demo_flutter\<lparr>fe_numReplicas := 10\<rparr>) ((flutter_init demo_flutter 0)\<lparr>fl_replicaClocks := [(0, 9), (1, 9), (2, 9), (3, 9), (4, 9)]\<rparr>) =
     Inl Undefined"
  by (rule conjunct1 [OF flutter_lock_index_faults]) code_simp+

theorem flutter_placeholder_blocks_witness:
  "\<exists>s1 s2. processRBCProposal demo_flutter 5 7 1 3 True (flutter_init demo_flutter 0) = Inr s1 \<and>
     foldE (\<lambda>x. processFlutterTime demo_flutter (fst x) (snd x)) [(0, 90), (1, 91), (2, 92), (3, 93), (4, 94), (5, 95)] s1 = Inr s2 \<and>
     fl_out s2 = [] \<and> map fst (fl_candidatePool s2) = [(3, 7, 1)]"
  using flutter_placeholder_blocks [of demo_flutter 7 1 "flutter_init demo_flutter 0" 3 5 True
      "[(0, 90), (1, 91), (2, 92), (3, 93), (4, 94), (5, 95)]"]
  by (simp add: flutter_init_def fl_committed_def isCommitted_def stale_bet_def sm_at_def tracker_init_def demo_flutter_def fe_f_def)

section \<open>A request committed twice\<close>

text \<open>A replica commits one request of a client twice, with two bets, though every vote and request in the run is one
  that a correct replica or client sends: rejecting the request with a third bet moves the bet recorded for it although
  a candidate with the first is pooled, so the request with the second no longer displaces it.\<close>

theorem flutter_commits_twice:
  "\<exists>s. flutter_reach demo_flutter signed_net s \<and> accepted_replies s = [(7, 1, 10), (7, 1, 12)]"
  by (rule flutter_demo_run [of "\<lambda>s. accepted_replies s = [(7, 1, 10), (7, 1, 12)]"
      "[3, 0, 10, 0] # votes_for 10 1 5 @ votes_for 12 1 5 @ votes_for 20 0 5 @ [3, 0, 12, 0] # clocks_at 100 5"], code_simp, code_simp) blast

end
