(* ===== verification/FlutterClient.thy ===== *)
theory FlutterClient
  imports Client Flutter
begin

text \<open>
  The client of the baseline protocol (\<open>processes/flutter/flutter_client.h\<close> and \<open>.cc\<close>): it gives each request a bet,
  counts the votes in the replies, commits on \<open>f + 1\<close> accepting ones and sends the request again with a later bet
  on \<open>f + 1\<close> rejecting ones. A task of the thread pool is the request it sends to every replica; the line that the client logs
  on a commit is an entry of \<open>fc_commits\<close>.
\<close>

section \<open>State\<close>

record flutter_request_state =
  fs_request :: flutter_request
  fs_bet :: u64
  fs_submitTime :: u64
  fs_numRetries :: u64
  fs_acceptVotes :: u32
  fs_rejectVotes :: u32
  fs_votedReplicas :: "u32 set"

definition flutter_request_state_init :: "flutter_request \<Rightarrow> u64 \<Rightarrow> u64 \<Rightarrow> flutter_request_state" where
  "flutter_request_state_init req bet now =
     \<lparr>fs_request = req, fs_bet = bet, fs_submitTime = now, fs_numRetries = 0, fs_acceptVotes = 0, fs_rejectVotes = 0, fs_votedReplicas = {}\<rparr>"

record flutter_client_env =
  fce_id :: u32
  fce_numReplicas :: nat
  fce_f :: u32
  fce_baseBetOffset :: u64
  fce_betIncrement :: u64
  fce_sendMode :: send_mode
  fce_sendRate :: u32
  fce_maxInFlight :: u32
  fce_requestSize :: u32
  fce_useHMAC :: bool
  fce_parseReply :: "bytes \<Rightarrow> flutter_reply option"

record flutter_client =
  fc_pendingRequests :: "(u32, flutter_request_state) smap"
  fc_nextSeq :: u32
  fc_numInFlight :: u32
  fc_lastSendTime :: u64
  fc_firstRequestCommitted :: bool
  fc_tasks :: "flutter_request list"
  fc_commits :: "(u32 \<times> u64) list"

definition flutter_client_init :: flutter_client where
  "flutter_client_init =
     \<lparr>fc_pendingRequests = [], fc_nextSeq = 1, fc_numInFlight = 0, fc_lastSendTime = 0, fc_firstRequestCommitted = False,
      fc_tasks = [], fc_commits = []\<rparr>"

section \<open>Sending\<close>

text \<open>What a task sends: the request to every replica, with a MAC for replica 0 or a signature.\<close>

definition task_messages :: "flutter_client_env \<Rightarrow> flutter_request \<Rightarrow> (nat \<times> message_type \<times> flutter_request \<times> u32 option) list" where
  "task_messages env req =
     map (\<lambda>i. (i, FLUTTER_CLIENT_REQUEST, req, if fce_useHMAC env then Some 0 else None)) [0..<fce_numReplicas env]"

text \<open>\<open>sendRequest\<close> on the pending request of a number: its bet, the task.\<close>

definition fc_sendRequest :: "flutter_client_env \<Rightarrow> u64 \<Rightarrow> u32 \<Rightarrow> flutter_request_state \<Rightarrow> flutter_client \<Rightarrow> flutter_client" where
  "fc_sendRequest env now q st s =
     (let bet = now + fce_baseBetOffset env + fs_numRetries st * fce_betIncrement env;
          req = (fs_request st)\<lparr>frq_bet := bet, frq_num_retries := fs_numRetries st\<rparr>
      in s\<lparr>fc_pendingRequests := sm_put q (st\<lparr>fs_bet := bet, fs_request := req\<rparr>) (fc_pendingRequests s), fc_tasks := fc_tasks s @ [req]\<rparr>)"

definition fc_submitRequest :: "flutter_client_env \<Rightarrow> u64 \<Rightarrow> bytes \<Rightarrow> flutter_client \<Rightarrow> flutter_client" where
  "fc_submitRequest env now payload s =
     (let q = fc_nextSeq s;
          req = \<lparr>frq_client_id = fce_id env, frq_client_seq = q, frq_bet = 0, frq_num_retries = 0, frq_req_data = payload\<rparr>;
          st = flutter_request_state_init req (now + fce_baseBetOffset env) now;
          s1 = fc_sendRequest env now q st (s\<lparr>fc_pendingRequests := sm_put q st (fc_pendingRequests s)\<rparr>)
      in s1\<lparr>fc_nextSeq := q + 1, fc_numInFlight := fc_numInFlight s1 + 1\<rparr>)"

text \<open>\<open>std::string(requestSize_, 'x')\<close> and \<open>request_data\<close>.\<close>

definition filler :: "flutter_client_env \<Rightarrow> bytes" where
  "filler env = replicate (unat (fce_requestSize env)) 120"

definition request_data_text :: bytes where
  "request_data_text = ascii [114, 101, 113, 117, 101, 115, 116, 95, 100, 97, 116, 97]"

text \<open>The loop of a burst; as in the other client its counter cannot wrap before the window is full.\<close>

fun fc_burst :: "flutter_client_env \<Rightarrow> u64 \<Rightarrow> nat \<Rightarrow> flutter_client \<Rightarrow> flutter_client" where
  "fc_burst env now 0 s = s"
| "fc_burst env now (Suc n) s =
     (if fce_maxInFlight env \<le> fc_numInFlight s then s else fc_burst env now n (fc_submitRequest env now (filler env) s))"

definition fc_submitRequestsOpenLoop :: "flutter_client_env \<Rightarrow> u64 \<Rightarrow> flutter_client \<Rightarrow> flutter_client res" where
  "fc_submitRequestsOpenLoop env now s =
     (if \<not> fc_firstRequestCommitted s then Inr s
      else
        let n = num_to_send (now - fc_lastSendTime s) (fce_sendRate env)
        in if n = 0 then Inr s
           else bindE (advance_send_time (fc_lastSendTime s) n (fce_sendRate env)) (\<lambda>t.
                Inr (fc_burst env now n (s\<lparr>fc_lastSendTime := t\<rparr>))))"

section \<open>Replies\<close>

definition fc_commitRequest :: "flutter_client_env \<Rightarrow> u64 \<Rightarrow> u32 \<Rightarrow> flutter_client \<Rightarrow> flutter_client" where
  "fc_commitRequest env now q s =
     (if \<not> sm_has q (fc_pendingRequests s) then s
      else
        let s1 = s\<lparr>fc_pendingRequests := sm_del q (fc_pendingRequests s), fc_numInFlight := fc_numInFlight s - 1\<rparr>;
            s2 = (if fc_firstRequestCommitted s1 then s1
                  else s1\<lparr>fc_firstRequestCommitted := True,
                          fc_lastSendTime := (if fce_sendMode env = RateBased then now else fc_lastSendTime s1)\<rparr>)
        in if fce_sendMode env = MaxInFlightBased then fc_submitRequest env now request_data_text s2 else s2)"

definition processFlutterReply :: "flutter_client_env \<Rightarrow> u64 \<Rightarrow> flutter_reply \<Rightarrow> flutter_client \<Rightarrow> flutter_client" where
  "processFlutterReply env now rp s =
     (let q = frp_client_seq rp; i = frp_replica_id rp
      in case map_of (fc_pendingRequests s) q of None \<Rightarrow> s
         | Some st \<Rightarrow>
             if i \<in> fs_votedReplicas st then s
             else if frp_bet rp < fs_bet st then s
             else
               let st1 = st\<lparr>fs_votedReplicas := insert i (fs_votedReplicas st)\<rparr>
               in if frp_accepted rp then
                    let st2 = st1\<lparr>fs_acceptVotes := fs_acceptVotes st1 + 1\<rparr>;
                        s1 = s\<lparr>fc_pendingRequests := sm_put q st2 (fc_pendingRequests s)\<rparr>
                    in if fce_f env + 1 \<le> fs_acceptVotes st2
                       then fc_commitRequest env now q (s1\<lparr>fc_commits := fc_commits s1 @ [(q, fs_numRetries st2)]\<rparr>)
                       else s1
                  else
                    let st2 = st1\<lparr>fs_rejectVotes := fs_rejectVotes st1 + 1\<rparr>;
                        s1 = s\<lparr>fc_pendingRequests := sm_put q st2 (fc_pendingRequests s)\<rparr>
                    in if fce_f env + 1 \<le> fs_rejectVotes st2
                       then fc_sendRequest env now q
                              (st2\<lparr>fs_acceptVotes := 0, fs_rejectVotes := 0, fs_votedReplicas := {}, fs_numRetries := fs_numRetries st2 + 1\<rparr>) s1
                       else s1)"

definition fc_handleMessage :: "flutter_client_env \<Rightarrow> u64 \<Rightarrow> frame \<Rightarrow> flutter_client \<Rightarrow> flutter_client" where
  "fc_handleMessage env now fr s =
     (if type_of_code (fr_type fr) = Some FLUTTER_REPLY then
        (case fce_parseReply env (fr_body fr) of None \<Rightarrow> s | Some rp \<Rightarrow> processFlutterReply env now rp s)
      else s)"

text \<open>The handler that the constructor registers, and the first requests.\<close>

definition fc_handler :: "flutter_client_env \<Rightarrow> u64 \<Rightarrow> frame \<Rightarrow> flutter_client \<Rightarrow> flutter_client res" where
  "fc_handler env now fr s =
     (let s1 = fc_handleMessage env now fr s
      in if fce_sendMode env = RateBased then fc_submitRequestsOpenLoop env now s1 else Inr s1)"

definition flutter_client_start :: "flutter_client_env \<Rightarrow> u64 \<Rightarrow> flutter_client" where
  "flutter_client_start env now =
     (case fce_sendMode env of RateBased \<Rightarrow> fc_submitRequest env now (filler env) flutter_client_init
      | MaxInFlightBased \<Rightarrow> (fc_submitRequest env now (filler env) ^^ unat (fce_maxInFlight env)) flutter_client_init)"

text \<open>The steps: a frame that \<open>net\<close> delivers, the send timer.\<close>

inductive flutter_client_reach :: "flutter_client_env \<Rightarrow> (frame \<Rightarrow> bool) \<Rightarrow> flutter_client \<Rightarrow> bool" for env net where
  start: "flutter_client_reach env net (flutter_client_start env now)"
| message: "flutter_client_reach env net s \<Longrightarrow> net fr \<Longrightarrow> fc_handler env now fr s = Inr s' \<Longrightarrow> flutter_client_reach env net s'"
| send: "flutter_client_reach env net s \<Longrightarrow> fce_sendMode env = RateBased \<Longrightarrow> fc_submitRequestsOpenLoop env now s = Inr s' \<Longrightarrow>
    flutter_client_reach env net s'"

section \<open>Votes behind a commit\<close>

text \<open>The replicas heard to accept a number with at least a bet. Replies are not authenticated.\<close>

definition accepts_heard :: "flutter_client_env \<Rightarrow> (frame \<Rightarrow> bool) \<Rightarrow> u32 \<Rightarrow> u64 \<Rightarrow> u32 set" where
  "accepts_heard env net q bet =
     {i. \<exists>fr rp. net fr \<and> type_of_code (fr_type fr) = Some FLUTTER_REPLY \<and> fce_parseReply env (fr_body fr) = Some rp \<and>
        frp_replica_id rp = i \<and> frp_client_seq rp = q \<and> frp_accepted rp \<and> bet \<le> frp_bet rp}"

definition sent_request :: "flutter_client \<Rightarrow> u32 \<Rightarrow> u64 \<Rightarrow> u64 \<Rightarrow> bool" where
  "sent_request s q retries bet \<longleftrightarrow>
     (\<exists>req \<in> set (fc_tasks s). frq_client_seq req = q \<and> frq_num_retries req = retries \<and> frq_bet req = bet)"

definition pending_ok :: "flutter_client_env \<Rightarrow> (frame \<Rightarrow> bool) \<Rightarrow> flutter_client \<Rightarrow> u32 \<Rightarrow> flutter_request_state \<Rightarrow> bool" where
  "pending_ok env net s q st \<longleftrightarrow>
     frq_client_seq (fs_request st) = q \<and> sent_request s q (fs_numRetries st) (fs_bet st) \<and>
     unat (fs_acceptVotes st) \<le> card (fs_votedReplicas st \<inter> accepts_heard env net q (fs_bet st))"

definition commit_ok :: "flutter_client_env \<Rightarrow> (frame \<Rightarrow> bool) \<Rightarrow> flutter_client \<Rightarrow> u32 \<times> u64 \<Rightarrow> bool" where
  "commit_ok env net s c \<longleftrightarrow>
     (\<exists>bet. sent_request s (fst c) (snd c) bet \<and> unat (fce_f env + 1) \<le> card (accepts_heard env net (fst c) bet))"

definition fc_ok :: "flutter_client_env \<Rightarrow> (frame \<Rightarrow> bool) \<Rightarrow> flutter_client \<Rightarrow> bool" where
  "fc_ok env net s \<longleftrightarrow>
     (\<forall>q st. map_of (fc_pendingRequests s) q = Some st \<longrightarrow> pending_ok env net s q st) \<and>
     (\<forall>c \<in> set (fc_commits s). commit_ok env net s c)"

lemma sent_more: "sent_request s q r b \<Longrightarrow> fc_tasks s' = fc_tasks s @ extra \<Longrightarrow> sent_request s' q r b"
  by (auto simp: sent_request_def)

lemma fc_ok_more:
  assumes "fc_ok env net s" and "fc_tasks s' = fc_tasks s @ extra" and "fc_commits s' = fc_commits s"
    and "\<And>q st. map_of (fc_pendingRequests s') q = Some st \<Longrightarrow> map_of (fc_pendingRequests s) q = Some st \<or> pending_ok env net s' q st"
  shows "fc_ok env net s'"
proof -
  note keep = sent_more [OF _ assms(2)]
  have "pending_ok env net s' q st" if "map_of (fc_pendingRequests s') q = Some st" for q st
    using assms(4) [OF that] assms(1) keep by (auto simp: fc_ok_def pending_ok_def)
  moreover have "commit_ok env net s' c" if "c \<in> set (fc_commits s')" for c
    using that assms(1,3) keep unfolding fc_ok_def commit_ok_def by metis
  ultimately show ?thesis by (simp add: fc_ok_def)
qed

lemma fc_ok_send:
  assumes "fc_ok env net s" and "frq_client_seq (fs_request st) = q" and "fs_acceptVotes st = 0"
  shows "fc_ok env net (fc_sendRequest env now q st s)"
  by (rule fc_ok_more [OF assms(1), where extra = "[(fs_request st)\<lparr>frq_bet := now + fce_baseBetOffset env + fs_numRetries st * fce_betIncrement env,
      frq_num_retries := fs_numRetries st\<rparr>]"])
    (use assms(2,3) in \<open>auto simp: fc_sendRequest_def Let_def pending_ok_def sent_request_def split: if_splits\<close>)

lemma fc_ok_submit:
  assumes "fc_ok env net s"
  shows "fc_ok env net (fc_submitRequest env now payload s)"
proof -
  define req where "req = \<lparr>frq_client_id = fce_id env, frq_client_seq = fc_nextSeq s, frq_bet = now + fce_baseBetOffset env,
    frq_num_retries = 0, frq_req_data = payload\<rparr>"
  show ?thesis
    by (rule fc_ok_more [OF assms, where extra = "[req]"])
      (auto simp: fc_submitRequest_def fc_sendRequest_def Let_def pending_ok_def sent_request_def req_def
        flutter_request_state_init_def split: if_splits)
qed

lemma fc_ok_frame:
  "fc_ok env net s \<Longrightarrow> fc_tasks s' = fc_tasks s \<Longrightarrow> fc_commits s' = fc_commits s \<Longrightarrow>
     fc_pendingRequests s' = fc_pendingRequests s \<Longrightarrow> fc_ok env net s'"
  by (rule fc_ok_more [where extra = "[]"]) auto

lemma fc_ok_burst: "fc_ok env net s \<Longrightarrow> fc_ok env net (fc_burst env now n s)"
  by (induction n arbitrary: s) (simp_all add: fc_ok_submit)

lemma fc_ok_open_loop:
  assumes "fc_ok env net s" and "fc_submitRequestsOpenLoop env now s = Inr s'"
  shows "fc_ok env net s'"
proof -
  have "fc_ok env net (fc_burst env now n (s\<lparr>fc_lastSendTime := t\<rparr>))" for n t
    by (rule fc_ok_burst, rule fc_ok_frame [OF assms(1)]) simp_all
  then show ?thesis
    using assms by (auto simp: fc_submitRequestsOpenLoop_def Let_def elim!: bindE_InrE split: if_splits)
qed

lemma fc_ok_commit:
  assumes "fc_ok env net s"
  shows "fc_ok env net (fc_commitRequest env now q s)"
proof -
  define s2 where "s2 = (let s1 = s\<lparr>fc_pendingRequests := sm_del q (fc_pendingRequests s), fc_numInFlight := fc_numInFlight s - 1\<rparr>
    in if fc_firstRequestCommitted s1 then s1
       else s1\<lparr>fc_firstRequestCommitted := True, fc_lastSendTime := (if fce_sendMode env = RateBased then now else fc_lastSendTime s1)\<rparr>)"
  have "fc_ok env net s2"
    by (rule fc_ok_more [OF assms, where extra = "[]"]) (auto simp: s2_def Let_def split: if_splits)
  then have "fc_ok env net (fc_submitRequest env now request_data_text s2)" by (rule fc_ok_submit)
  then show ?thesis
    using assms \<open>fc_ok env net s2\<close> by (simp add: fc_commitRequest_def s2_def Let_def)
qed

lemma card_vote:
  assumes "unat a \<le> card (V \<inter> A)" and "i \<in> A" and "(i :: u32) \<notin> V"
  shows "unat (a + 1 :: u32) \<le> card (insert i V \<inter> A)"
proof -
  have "unat (a + 1) \<le> Suc (unat a)" by (simp add: unat_word_ariths)
  moreover have "card (insert i V \<inter> A) = Suc (card (V \<inter> A))" using assms(2,3) by (simp add: Int_insert_left)
  ultimately show ?thesis using assms(1) by simp
qed

lemma fc_ok_reply:
  assumes "fc_ok env net s" and "net fr" and "type_of_code (fr_type fr) = Some FLUTTER_REPLY"
    and "fce_parseReply env (fr_body fr) = Some rp"
  shows "fc_ok env net (processFlutterReply env now rp s)"
proof (cases "map_of (fc_pendingRequests s) (frp_client_seq rp)")
  case (Some st)
  define q where "q = frp_client_seq rp"
  define i where "i = frp_replica_id rp"
  define st1 where "st1 = st\<lparr>fs_votedReplicas := insert i (fs_votedReplicas st)\<rparr>"
  define sa where "sa = st1\<lparr>fs_acceptVotes := fs_acceptVotes st1 + 1\<rparr>"
  define sr where "sr = st1\<lparr>fs_rejectVotes := fs_rejectVotes st1 + 1\<rparr>"
  define sn where "sn = sr\<lparr>fs_acceptVotes := 0, fs_rejectVotes := 0, fs_votedReplicas := {}, fs_numRetries := fs_numRetries sr + 1\<rparr>"
  have st: "pending_ok env net s q st" using assms(1) Some by (simp add: fc_ok_def q_def)
  have put: "fc_ok env net (s\<lparr>fc_pendingRequests := sm_put q x (fc_pendingRequests s)\<rparr>)" if "pending_ok env net s q x" for x
    by (rule fc_ok_more [OF assms(1), where extra = "[]"])
      (use that in \<open>auto simp: pending_ok_def sent_request_def split: if_splits\<close>)
  have voted: "card (fs_votedReplicas st \<inter> accepts_heard env net q b) \<le> card (insert i (fs_votedReplicas st) \<inter> accepts_heard env net q b)" for b
    by (rule card_mono) auto
  have rejected: "pending_ok env net s q sr" using st voted [of "fs_bet st"] by (simp add: pending_ok_def sr_def st1_def)
  have accepted: "pending_ok env net s q sa" if "i \<notin> fs_votedReplicas st" "fs_bet st \<le> frp_bet rp" "frp_accepted rp"
  proof -
    have "i \<in> accepts_heard env net q (fs_bet st)" using assms(2-4) that by (auto simp: accepts_heard_def i_def q_def)
    then show ?thesis using st card_vote that(1) by (auto simp: pending_ok_def sa_def st1_def)
  qed
  have commit: "fc_ok env net (fc_commitRequest env now q (s1\<lparr>fc_commits := fc_commits s1 @ [(q, fs_numRetries sa)]\<rparr>))"
    if "pending_ok env net s q sa" "fce_f env + 1 \<le> fs_acceptVotes sa" "s1 = s\<lparr>fc_pendingRequests := sm_put q sa (fc_pendingRequests s)\<rparr>" for s1
  proof (rule fc_ok_commit)
    have "card (fs_votedReplicas sa \<inter> accepts_heard env net q (fs_bet sa)) \<le> card (accepts_heard env net q (fs_bet sa))"
      by (rule card_mono) auto
    then have "commit_ok env net s (q, fs_numRetries sa)"
      using that(1,2) by (auto simp: commit_ok_def pending_ok_def word_le_nat_alt)
    then show "fc_ok env net (s1\<lparr>fc_commits := fc_commits s1 @ [(q, fs_numRetries sa)]\<rparr>)"
      using put [OF that(1)] that(3) by (auto simp: fc_ok_def pending_ok_def commit_ok_def sent_request_def)
  qed
  have resend: "fc_ok env net (fc_sendRequest env now q sn (s\<lparr>fc_pendingRequests := sm_put q sr (fc_pendingRequests s)\<rparr>))"
    by (rule fc_ok_send [OF put [OF rejected]]) (use rejected in \<open>auto simp: sn_def pending_ok_def\<close>)
  show ?thesis
    unfolding processFlutterReply_def Let_def q_def [symmetric] i_def [symmetric]
    using Some assms(1) put [OF rejected] put [OF accepted] commit [OF accepted] resend
    by (simp add: q_def [symmetric] st1_def [symmetric] sa_def [symmetric] sr_def [symmetric] sn_def [symmetric] not_less)
qed (use assms(1) in \<open>simp add: processFlutterReply_def Let_def\<close>)

lemma fc_ok_submits: "fc_ok env net s \<Longrightarrow> fc_ok env net ((fc_submitRequest env now payload ^^ n) s)"
  by (induction n) (simp_all add: fc_ok_submit)

lemma flutter_client_reach_ok: "flutter_client_reach env net s \<Longrightarrow> fc_ok env net s"
proof (induction rule: flutter_client_reach.induct)
  case (start now)
  have "fc_ok env net flutter_client_init" by (simp add: fc_ok_def flutter_client_init_def)
  then show ?case by (cases "fce_sendMode env") (simp_all add: flutter_client_start_def fc_ok_submit fc_ok_submits)
next
  case (message s fr now s')
  have "fc_ok env net (fc_handleMessage env now fr s)"
    using message.IH message.hyps(2) fc_ok_reply by (auto simp: fc_handleMessage_def split: option.split)
  then show ?case
    using message.hyps(3) fc_ok_open_loop by (auto simp: fc_handler_def Let_def split: if_splits)
qed (use fc_ok_open_loop in blast)

end
