(* ===== verification/FlutterSystem.thy ===== *)
theory FlutterSystem
  imports FlutterBehaviour FlutterClient
begin

text \<open>
  The baseline protocol as a whole: what a commit of its client says about its replicas.
\<close>

text \<open>The client takes a reply for what it says: its signature or MAC plays no part.\<close>

lemma flutter_client_ignores_signature:
  "fc_handler env now (fr\<lparr>fr_sig := sig\<rparr>) s = fc_handler env now fr s"
  by (simp add: fc_handler_def fc_handleMessage_def)

text \<open>C16: assume that every reply that a client takes in and that names a correct replica was sent to this client by that replica, and
  that at most \<open>f\<close> other replicas are named in replies. Then the client commits a request only if a correct
  replica accepted its request of that number, with a bet not below the one that the client sent last, on
  the votes of a super quorum of replicas or the decision of the leader, heard in messages that it checked. The
  first assumption is one on the network and the replicas: the client checks neither the signature of a reply
  (\<open>flutter_client_ignores_signature\<close>) nor the client number in it, so \<open>f + 1\<close> forged replies make it commit.\<close>

theorem flutter_commit_end_to_end:
  assumes "flutter_client_reach cenv cnet c" and "(q, retries) \<in> set (fc_commits c)"
    and "\<And>i. i \<in> C \<Longrightarrow> flutter_reach (env i) (net i) (state i)"
    and "\<And>fr rp. cnet fr \<Longrightarrow> fce_parseReply cenv (fr_body fr) = Some rp \<Longrightarrow> frp_replica_id rp \<in> C \<Longrightarrow>
      \<exists>ty. (Fl_Client (fce_id cenv), ty, FO_Reply rp) \<in> set (fl_out (state (frp_replica_id rp)))"
    and "\<And>fr rp. cnet fr \<Longrightarrow> fce_parseReply cenv (fr_body fr) = Some rp \<Longrightarrow> frp_replica_id rp \<notin> C \<Longrightarrow> frp_replica_id rp \<in> F"
    and "card F < unat (fce_f cenv + 1)"
  shows "\<exists>i rp bet. i \<in> C \<and> accept_evidence (env i) (heard (env i) (net i)) (key_of_reply rp) \<and>
    frp_client_id rp = fce_id cenv \<and> frp_client_seq rp = q \<and> sent_request c q retries bet \<and> bet \<le> frp_bet rp"
proof -
  have "commit_ok cenv cnet c (q, retries)" using flutter_client_reach_ok [OF assms(1)] assms(2) by (auto simp: fc_ok_def)
  then obtain bet where bet: "sent_request c q retries bet" "unat (fce_f cenv + 1) \<le> card (accepts_heard cenv cnet q bet)"
    by (auto simp: commit_ok_def)
  have "\<not> accepts_heard cenv cnet q bet \<subseteq> F"
    using card_mono [of F "accepts_heard cenv cnet q bet"] assms(6) bet(2) by (auto dest: finite_subset)
  then obtain i where i: "i \<in> accepts_heard cenv cnet q bet" "i \<notin> F" by blast
  then obtain fr rp where rp: "cnet fr" "fce_parseReply cenv (fr_body fr) = Some rp" "frp_replica_id rp = i" "frp_client_seq rp = q"
    "frp_accepted rp" "bet \<le> frp_bet rp" by (auto simp: accepts_heard_def)
  have C: "i \<in> C" using assms(5) [OF rp(1,2)] rp(3) i(2) by blast
  then obtain ty where out: "(Fl_Client (fce_id cenv), ty, FO_Reply rp) \<in> set (fl_out (state i))" using assms(4) [OF rp(1,2)] rp(3) by blast
  have "frp_client_id rp = fce_id cenv" using reply_addressed [OF assms(3) [OF C] out] by simp
  then show ?thesis using accepted_reply_evidence [OF assms(3) [OF C] out rp(5)] C rp(4,6) bet(1) by blast
qed

text \<open>A client of one replica, which parses any reply as the accepted one of the example.\<close>

definition demo_flutter_reply :: flutter_reply where
  "demo_flutter_reply = \<lparr>frp_replica_id = 1, frp_client_id = 7, frp_client_seq = 1, frp_bet = 10, frp_accepted = True, frp_result = executed_text\<rparr>"

definition demo_flutter_client :: flutter_client_env where
  "demo_flutter_client =
     \<lparr>fce_id = 7, fce_numReplicas = 1, fce_f = 0, fce_baseBetOffset = 10, fce_betIncrement = 1, fce_sendMode = MaxInFlightBased,
      fce_sendRate = 1, fce_maxInFlight = 1, fce_requestSize = 0, fce_useHMAC = False, fce_parseReply = (\<lambda>b. Some demo_flutter_reply)\<rparr>"

lemma demo_flutter_client_commits:
  "\<exists>c. flutter_client_reach demo_flutter_client (\<lambda>fr. True) c \<and> fc_commits c = [(1, 0)]"
proof -
  let ?fr = "\<lparr>fr_type = code_of_type FLUTTER_REPLY, fr_body = [], fr_sig = []\<rparr>"
  obtain c where c: "fc_handler demo_flutter_client 0 ?fr (flutter_client_start demo_flutter_client 0) = Inr c" "fc_commits c = [(1, 0)]"
  proof -
    have "case_sum (\<lambda>e. False) (\<lambda>c. fc_commits c = [(1, 0)])
        (fc_handler demo_flutter_client 0 ?fr (flutter_client_start demo_flutter_client 0))" by code_simp
    then show thesis using that by (auto split: sum.splits)
  qed
  then show ?thesis using flutter_client_reach.message [OF flutter_client_reach.start, of "\<lambda>fr. True"] by blast
qed

theorem flutter_commit_end_to_end_witness:
  "\<exists>c s rp. flutter_client_reach demo_flutter_client (\<lambda>fr. True) c \<and> fc_commits c = [(1, 0)] \<and>
     flutter_reach demo_flutter signed_net s \<and> accept_evidence demo_flutter (heard demo_flutter signed_net) (key_of_reply rp) \<and>
     frp_client_id rp = 7 \<and> frp_client_seq rp = 1"
proof -
  obtain c where c: "flutter_client_reach demo_flutter_client (\<lambda>fr. True) c" "fc_commits c = [(1, 0)]"
    using demo_flutter_client_commits by blast
  obtain s where s: "flutter_reach demo_flutter signed_net s"
    "(Fl_Client 7, FLUTTER_REPLY, FO_Reply \<lparr>frp_replica_id = 1, frp_client_id = 7, frp_client_seq = 1, frp_bet = 10,
      frp_accepted = True, frp_result = executed_text\<rparr>) \<in> set (fl_out s)" by (rule demo_accepted)
  have "\<exists>i rp bet. i \<in> {1 :: u32} \<and> accept_evidence demo_flutter (heard demo_flutter signed_net) (key_of_reply rp) \<and>
    frp_client_id rp = fce_id demo_flutter_client \<and> frp_client_seq rp = 1 \<and> sent_request c 1 0 bet \<and> bet \<le> frp_bet rp"
    by (rule flutter_commit_end_to_end [OF c(1), where env = "\<lambda>i. demo_flutter" and net = "\<lambda>i. signed_net" and state = "\<lambda>i. s" and F = "{}"])
      (use c(2) s in \<open>auto simp: demo_flutter_client_def demo_flutter_reply_def\<close>)
  then have "\<exists>rp. accept_evidence demo_flutter (heard demo_flutter signed_net) (key_of_reply rp) \<and> frp_client_id rp = 7 \<and> frp_client_seq rp = 1"
    by (auto simp: demo_flutter_client_def)
  then show ?thesis using c s(1) by blast
qed

end
