(* ===== verification/Transport.thy ===== *)
theory Transport
  imports Wire "HOL-Library.Multiset"
begin

text \<open>
  The endpoints (\<open>lib/transport\<close>): the threaded NNG endpoint, whose sending threads put several messages into one
  and whose receiving side takes them apart again, the plain NNG and UDP endpoints, and the endpoint over RPC.
  Sockets, the event loops and the RPC library are not modelled: what a socket delivers is an argument, whether a
  send succeeds is a parameter. A handler is any function from frames and a state to a state or a fault.
\<close>

section \<open>Receiving\<close>

definition NNG_BUFFER_SIZE :: nat where
  "NNG_BUFFER_SIZE = 200000000"

definition UDP_BUFFER_SIZE :: nat where
  "UDP_BUFFER_SIZE = 1024"

text \<open>The difference of two \<open>size_t\<close>.\<close>

definition size_diff :: "nat \<Rightarrow> nat \<Rightarrow> nat" where
  "size_diff a b = unat (of_nat a - of_nat b :: u64)"

text \<open>\<open>sizeof(MessageHeader) + hdr->msgLen + hdr->sigLen\<close>\<close>

definition frame_length :: "message_header \<Rightarrow> nat" where
  "frame_length hdr = header_size + unat (mh_msgLen hdr) + unat (mh_sigLen hdr)"

text \<open>The loop that the threaded NNG endpoint and the RPC endpoint run over a received buffer. A message that claims
  more than the buffer holds is skipped by its claimed length, after which the difference wraps.\<close>

function recv_loop :: "(frame \<Rightarrow> 's \<Rightarrow> 's res) \<Rightarrow> bytes \<Rightarrow> nat \<Rightarrow> 's \<Rightarrow> 's res" where
  "recv_loop h buf offset s =
     (if size_diff (length buf) offset \<le> header_size then Inr s
      else if length buf < offset + header_size then Inl Undefined
      else
        case read_header (drop offset buf) of
          Inl e \<Rightarrow> Inl e
        | Inr hdr \<Rightarrow>
            if offset + frame_length hdr \<le> length buf
            then bindE (bindE (read_frame (drop offset buf)) (\<lambda>fr. h fr s)) (\<lambda>s'. recv_loop h buf (offset + frame_length hdr) s')
            else recv_loop h buf (offset + frame_length hdr) s)"
  by auto
termination
  by (relation "measure (\<lambda>(h, buf, offset, s). length buf - offset)") (auto simp: frame_length_def header_size_def)

declare recv_loop.simps [simp del]

text \<open>The plain endpoints handle one message per buffer, and only if the buffer holds all of it.\<close>

definition recv_one :: "(frame \<Rightarrow> 's \<Rightarrow> 's res) \<Rightarrow> bytes \<Rightarrow> 's \<Rightarrow> 's res" where
  "recv_one h buf s =
     (if length buf \<le> header_size then Inr s
      else
        case read_header buf of
          Inl e \<Rightarrow> Inl e
        | Inr hdr \<Rightarrow> if length buf < frame_length hdr then Inr s else bindE (read_frame buf) (\<lambda>fr. h fr s))"

text \<open>\<open>recvfrom\<close> cuts a datagram at the size of the buffer.\<close>

definition udp_receive :: "(frame \<Rightarrow> 's \<Rightarrow> 's res) \<Rightarrow> bytes \<Rightarrow> 's \<Rightarrow> 's res" where
  "udp_receive h datagram s = recv_one h (take UDP_BUFFER_SIZE datagram) s"

section \<open>The sending threads of NNG\<close>

text \<open>\<open>curMsg\<close> grows by the next messages until it would exceed the buffer.\<close>

fun batch_messages :: "bytes \<Rightarrow> bytes list \<Rightarrow> bytes list" where
  "batch_messages curMsg [] = [curMsg]"
| "batch_messages curMsg (m # ms) =
     (if NNG_BUFFER_SIZE < length curMsg + length m then curMsg # batch_messages m ms else batch_messages (curMsg @ m) ms)"

definition bulk_chunks :: "bytes list \<Rightarrow> bytes list" where
  "bulk_chunks msgs = (case msgs of [] \<Rightarrow> [] | m # ms \<Rightarrow> batch_messages m ms)"

text \<open>Sending stops at the first failure, with what is left of the bulk lost.\<close>

fun send_chunks :: "(bytes \<Rightarrow> bool) \<Rightarrow> bytes list \<Rightarrow> bytes list" where
  "send_chunks nng_send [] = []"
| "send_chunks nng_send (c # cs) = (if nng_send c then c # send_chunks nng_send cs else [])"

record nng_sender =
  ns_queue :: "bytes list"
  ns_stopping :: bool
  ns_sent :: "bytes list"

definition nng_sender_init :: nng_sender where
  "nng_sender_init = \<lparr>ns_queue = [], ns_stopping = False, ns_sent = []\<rparr>"

definition nng_sendMsg :: "bytes \<Rightarrow> nng_sender \<Rightarrow> nng_sender" where
  "nng_sendMsg msg s = s\<lparr>ns_queue := ns_queue s @ [msg]\<rparr>"

text \<open>One turn of the loop of \<open>send_cb\<close> on the messages that the concurrent queue gives, up to five; the queue
  keeps the order of each thread that filled it only, so these are any of its messages.\<close>

definition nng_send_turn :: "(bytes \<Rightarrow> bool) \<Rightarrow> bytes list \<Rightarrow> nng_sender \<Rightarrow> nng_sender" where
  "nng_send_turn nng_send msgs s =
     (let s1 = s\<lparr>ns_queue := fold remove1 msgs (ns_queue s)\<rparr>
      in if ns_stopping s then s1 else s1\<lparr>ns_sent := ns_sent s1 @ send_chunks nng_send (bulk_chunks msgs)\<rparr>)"

text \<open>The steps of a sending thread: a message is handed to it, a turn in which every send succeeds.\<close>

inductive nng_reach :: "bytes list \<Rightarrow> nng_sender \<Rightarrow> bytes list \<Rightarrow> bool" where
  init: "nng_reach [] nng_sender_init []"
| enqueue: "nng_reach msgs s sent \<Longrightarrow> nng_reach (msgs @ [m]) (nng_sendMsg m s) sent"
| turn: "nng_reach msgs s sent \<Longrightarrow> ms \<noteq> [] \<Longrightarrow> length ms \<le> 5 \<Longrightarrow> mset ms \<subseteq># mset (ns_queue s) \<Longrightarrow> \<not> ns_stopping s \<Longrightarrow>
    nng_reach msgs (nng_send_turn (\<lambda>c. True) ms s) (sent @ ms)"

section \<open>The endpoint of NNG\<close>

type_synonym address = "bytes \<times> int"

text \<open>The index of a socket is that of its sending thread; every socket opens.\<close>

record nng_endpoint =
  ep_loopbackAddr :: "address option"
  ep_addrToSocketIdx :: "address \<rightharpoonup> nat"
  ep_sendThreads :: "nng_sender list"
  ep_recvQueue :: "(bytes \<times> address) list"

definition nng_endpoint_init :: "(address \<times> address) list \<Rightarrow> address option \<Rightarrow> nng_endpoint" where
  "nng_endpoint_init addrPairs loopback =
     \<lparr>ep_loopbackAddr = loopback,
      ep_addrToSocketIdx = map_of (rev (map (\<lambda>(i, p). (snd p, i)) (enumerate 0 addrPairs))),
      ep_sendThreads = replicate (length addrPairs) nng_sender_init, ep_recvQueue = []\<rparr>"

definition nng_SendPreparedMsgTo :: "address \<Rightarrow> frame \<Rightarrow> nng_endpoint \<Rightarrow> int \<times> nng_endpoint" where
  "nng_SendPreparedMsgTo dstAddr fr ep =
     (if ep_loopbackAddr ep = Some dstAddr then (0, ep\<lparr>ep_recvQueue := ep_recvQueue ep @ [(frame_bytes fr, dstAddr)]\<rparr>)
      else case ep_addrToSocketIdx ep dstAddr of None \<Rightarrow> (-1, ep)
           | Some i \<Rightarrow> (0, ep\<lparr>ep_sendThreads := (ep_sendThreads ep)[i := nng_sendMsg (frame_bytes fr) (ep_sendThreads ep ! i)]\<rparr>))"

text \<open>A socket delivers a buffer from the address it is connected to; the event loop empties the queue.\<close>

definition nng_deliver :: "bytes \<Rightarrow> address \<Rightarrow> nng_endpoint \<Rightarrow> nng_endpoint" where
  "nng_deliver buf connAddr ep = ep\<lparr>ep_recvQueue := ep_recvQueue ep @ [(buf, connAddr)]\<rparr>"

definition nng_handle_queue :: "(address \<Rightarrow> frame \<Rightarrow> 's \<Rightarrow> 's res) \<Rightarrow> nng_endpoint \<Rightarrow> 's \<Rightarrow> (nng_endpoint \<times> 's) res" where
  "nng_handle_queue h ep s =
     bindE (foldE (\<lambda>(buf, addr). recv_loop (h addr) buf 0) (ep_recvQueue ep) s) (\<lambda>s'. Inr (ep\<lparr>ep_recvQueue := []\<rparr>, s'))"

section \<open>The endpoint over RPC\<close>

record ooo_request =
  ooo_senderIPInt :: u32
  ooo_senderPort :: u32
  ooo_length :: u32
  ooo_content :: bytes

text \<open>\<open>operator<<\<close> and \<open>operator>>\<close>: the numbers as four bytes, which the library verifies to be there; of the content
  reading takes what the buffer holds and leaves the rest zero.\<close>

definition ooo_marshal :: "ooo_request \<Rightarrow> bytes res" where
  "ooo_marshal r =
     (if length (ooo_content r) < unat (ooo_length r) then Inl Undefined
      else Inr (le32 (ooo_senderIPInt r) @ le32 (ooo_senderPort r) @ le32 (ooo_length r) @ take (unat (ooo_length r)) (ooo_content r)))"

definition ooo_unmarshal :: "bytes \<Rightarrow> ooo_request res" where
  "ooo_unmarshal b =
     (if length b < 12 then Inl AssertFailed
      else let n = of_le32 (take 4 (drop 8 b)); content = take (unat n) (drop 12 b)
      in Inr \<lparr>ooo_senderIPInt = of_le32 (take 4 b), ooo_senderPort = of_le32 (take 4 (drop 4 b)), ooo_length = n,
              ooo_content = content @ replicate (unat n - length content) 0\<rparr>)"

text \<open>The request that carries a prepared message: the sender is what the sender says it is.\<close>

definition ooo_send :: "u32 \<Rightarrow> u32 \<Rightarrow> frame \<Rightarrow> ooo_request" where
  "ooo_send myIP myListeningPort fr =
     \<lparr>ooo_senderIPInt = myIP, ooo_senderPort = myListeningPort, ooo_length = of_nat (length (frame_bytes fr)),
      ooo_content = take (unat (of_nat (length (frame_bytes fr)) :: u32)) (frame_bytes fr)\<rparr>"

text \<open>Sending to an address without a connection ends the process; the result is always -1.\<close>

definition ooo_SendPreparedMsgTo :: "address list \<Rightarrow> u32 \<Rightarrow> u32 \<Rightarrow> address \<Rightarrow> frame \<Rightarrow> (int \<times> ooo_request) res" where
  "ooo_SendPreparedMsgTo proxies myIP myListeningPort dstAddr fr =
     (if dstAddr \<in> set proxies then Inr (-1, ooo_send myIP myListeningPort fr) else Inl ExitProcess)"

text \<open>What the handler of the service uses of the library: the text of an address (\<open>inet_ntoa\<close>) and whether bytes parse
  as a DOM request.\<close>

record ooo_env =
  oe_ipText :: "u32 \<Rightarrow> bytes"
  oe_domParses :: "bytes \<Rightarrow> bool"

text \<open>The queue of received messages and the number of replies to be sent.\<close>

record ooo_endpoint =
  oo_recvQueue :: "(bytes \<times> address) list"
  oo_replies :: nat

definition ooo_receive :: "ooo_env \<Rightarrow> ooo_request \<Rightarrow> ooo_endpoint \<Rightarrow> ooo_endpoint res" where
  "ooo_receive env req ep =
     (let content = ooo_content req; senderAddr = (oe_ipText env (ooo_senderIPInt req), int (unat (ooo_senderPort req)))
      in if length content \<noteq> unat (ooo_length req) then Inl AssertFailed
         else if length content < header_size then Inl AssertFailed
         else bindE (read_header content) (\<lambda>hdr.
              if type_of_code (mh_msgType hdr) = Some DOM_REQUEST \<and>
                 \<not> oe_domParses env (take (unat (mh_msgLen hdr)) (drop header_size content)) then Inr ep
              else Inr (ep\<lparr>oo_recvQueue := oo_recvQueue ep @ [(content, senderAddr)], oo_replies := oo_replies ep + 1\<rparr>)))"

definition ooo_handle_queue :: "(address \<Rightarrow> frame \<Rightarrow> 's \<Rightarrow> 's res) \<Rightarrow> ooo_endpoint \<Rightarrow> 's \<Rightarrow> (ooo_endpoint \<times> 's) res" where
  "ooo_handle_queue h ep s =
     bindE (foldE (\<lambda>(buf, addr). recv_loop (h addr) buf 0) (oo_recvQueue ep) s) (\<lambda>s'. Inr (ep\<lparr>oo_recvQueue := []\<rparr>, s'))"

section \<open>Handlers\<close>

text \<open>What an endpoint promises of the handler it calls: an invariant that the handler keeps for every frame that meets a
  condition is kept by a buffer all of whose frames meet it.\<close>

definition frames_meet :: "(frame \<Rightarrow> bool) \<Rightarrow> bytes \<Rightarrow> bool" where
  "frames_meet good buf \<longleftrightarrow> (\<forall>offset fr. read_frame (drop offset buf) = Inr fr \<longrightarrow> good fr)"

locale kept_by_handler =
  fixes h :: "frame \<Rightarrow> 's \<Rightarrow> 's res" and good :: "frame \<Rightarrow> bool" and P :: "'s \<Rightarrow> bool"
  assumes keeps: "P s \<Longrightarrow> good fr \<Longrightarrow> h fr s = Inr s' \<Longrightarrow> P s'"
begin

lemma recv_loop_keeps:
  "P s \<Longrightarrow> frames_meet good buf \<Longrightarrow> recv_loop h buf offset s = Inr s' \<Longrightarrow> P s'"
proof (induction "length buf - offset" arbitrary: offset s rule: less_induct)
  case less
  show ?case
  proof (cases "size_diff (length buf) offset \<le> header_size")
    case True
    then show ?thesis using less.prems by (subst (asm) recv_loop.simps) simp
  next
    case False
    then have inside: "offset + header_size \<le> length buf" using less.prems(3) by (subst (asm) recv_loop.simps) (auto split: if_splits)
    then obtain hdr where hdr: "read_header (drop offset buf) = Inr hdr"
      using less.prems(3) False by (subst (asm) recv_loop.simps) (auto split: sum.splits)
    have smaller: "length buf - (offset + frame_length hdr) < length buf - offset"
      using inside by (simp add: frame_length_def header_size_def)
    show ?thesis
    proof (cases "offset + frame_length hdr \<le> length buf")
      case True
      then obtain fr t where turn: "read_frame (drop offset buf) = Inr fr" "h fr s = Inr t" "recv_loop h buf (offset + frame_length hdr) t = Inr s'"
        using less.prems(3) False inside hdr by (subst (asm) recv_loop.simps) (auto elim!: bindE_InrE)
      have "good fr" using less.prems(2) turn(1) by (auto simp: frames_meet_def)
      then have "P t" using keeps [OF less.prems(1) _ turn(2)] by blast
      then show ?thesis by (rule less.hyps [OF smaller _ less.prems(2) turn(3)])
    next
      case out: False
      then have "recv_loop h buf (offset + frame_length hdr) s = Inr s'"
        using less.prems(3) False inside hdr by (subst (asm) recv_loop.simps) auto
      then show ?thesis using less.hyps [OF smaller less.prems(1,2)] by blast
    qed
  qed
qed

lemma recv_one_keeps:
  assumes "P s" and "frames_meet good buf" and "recv_one h buf s = Inr s'"
  shows "P s'"
proof -
  have "good fr" if "read_frame buf = Inr fr" for fr
    using assms(2) that unfolding frames_meet_def by (metis drop0)
  then show ?thesis using assms(1,3) keeps by (auto simp: recv_one_def elim!: bindE_InrE split: if_splits sum.splits)
qed

end

section \<open>Taking buffers apart\<close>

text \<open>Frames that fit their header and are more than a header.\<close>

definition frame_ok :: "frame \<Rightarrow> bool" where
  "frame_ok fr \<longleftrightarrow> length (fr_body fr) < 2 ^ 32 \<and> length (fr_sig fr) < 2 ^ 32 \<and> 0 < length (fr_body fr) + length (fr_sig fr) \<and>
     length (frame_bytes fr) \<le> NNG_BUFFER_SIZE"

lemma length_frame_bytes: "length (frame_bytes fr) = header_size + length (fr_body fr) + length (fr_sig fr)"
  by (simp add: frame_bytes_def)

lemma read_header_frame:
  "read_header (frame_bytes fr @ rest) =
     Inr \<lparr>mh_msgType = fr_type fr, mh_msgLen = of_nat (length (fr_body fr)), mh_sigLen = of_nat (length (fr_sig fr))\<rparr>"
  by (simp add: frame_bytes_def)

lemma frame_length_frame:
  assumes "frame_ok fr"
  shows "frame_length \<lparr>mh_msgType = fr_type fr, mh_msgLen = of_nat (length (fr_body fr)), mh_sigLen = of_nat (length (fr_sig fr))\<rparr> =
    length (frame_bytes fr)"
  using assms by (simp add: frame_length_def length_frame_bytes frame_ok_def unat_of_nat)

lemma size_diff_le: "b \<le> a \<Longrightarrow> a < 2 ^ 64 \<Longrightarrow> size_diff a b = a - b"
  by (simp add: size_diff_def unat_sub unat_of_nat word_le_nat_alt)

lemma size_diff_wraps:
  assumes "a < b" and "b \<le> a + 2 ^ 34" and "a < 2 ^ 63"
  shows "header_size < size_diff a b"
proof -
  have b: "b < 2 ^ 64" using assms by simp
  have "unat (of_nat a - of_nat b :: u64) = 2 ^ 64 - (b - a)"
    using assms(1,3) b by (simp add: unat_sub_if_size unat_of_nat word_size)
  then show ?thesis using assms(1,2) by (simp add: size_diff_def header_size_def)
qed

text \<open>The loop after the frames at the front of a buffer.\<close>

lemma recv_loop_frames:
  assumes "list_all frame_ok fs" and "length (pre @ concat (map frame_bytes fs) @ rest) < 2 ^ 64"
  shows "recv_loop h (pre @ concat (map frame_bytes fs) @ rest) (length pre) s =
    bindE (foldE h fs s) (recv_loop h (pre @ concat (map frame_bytes fs) @ rest) (length pre + length (concat (map frame_bytes fs))))"
  using assms
proof (induction fs arbitrary: pre s)
  case (Cons fr fs)
  define buf where "buf = pre @ concat (map frame_bytes (fr # fs)) @ rest"
  have ok: "frame_ok fr" "list_all frame_ok fs" using Cons.prems(1) by simp_all
  have buf: "buf = pre @ frame_bytes fr @ concat (map frame_bytes fs) @ rest" by (simp add: buf_def)
  have drop: "drop (length pre) buf = frame_bytes fr @ concat (map frame_bytes fs) @ rest" by (simp add: buf)
  have len: "length buf < 2 ^ 64" using Cons.prems(2) by (simp add: buf_def)
  have long: "header_size < length (frame_bytes fr)" using ok(1) by (auto simp: frame_ok_def length_frame_bytes)
  then have big: "\<not> size_diff (length buf) (length pre) \<le> header_size" "\<not> length buf < length pre + header_size"
    using len by (auto simp: size_diff_le buf)
  have fits: "length pre + length (frame_bytes fr) \<le> length buf" by (simp add: buf)
  have frame: "read_frame (drop (length pre) buf) = Inr fr"
    unfolding drop by (rule frame_roundtrip) (use ok(1) in \<open>simp_all add: frame_ok_def\<close>)
  have turn: "recv_loop h buf (length pre) s = bindE (h fr s) (\<lambda>s'. recv_loop h buf (length pre + length (frame_bytes fr)) s')"
    using big fits frame by (subst recv_loop.simps) (simp add: drop read_header_frame frame_length_frame [OF ok(1)])
  have "recv_loop h buf (length (pre @ frame_bytes fr)) t =
      bindE (foldE h fs t) (recv_loop h buf (length (pre @ frame_bytes fr) + length (concat (map frame_bytes fs))))" for t
    using Cons.IH [OF ok(2), of "pre @ frame_bytes fr" t] len by (simp add: buf)
  then show ?case
    unfolding buf_def [symmetric] turn by (cases "h fr s") (simp_all add: add.assoc)
qed simp

lemma recv_loop_end: "length buf < 2 ^ 64 \<Longrightarrow> recv_loop h buf (length buf) s = Inr s"
  by (subst recv_loop.simps) (simp add: size_diff_le)

lemma bindE_Inr [simp]: "bindE r Inr = r"
  by (cases r) simp_all

lemma recv_loop_all:
  assumes "list_all frame_ok fs" and "length (concat (map frame_bytes fs)) < 2 ^ 64"
  shows "recv_loop h (concat (map frame_bytes fs)) 0 s = foldE h fs s"
proof -
  have "recv_loop h (concat (map frame_bytes fs)) (length (concat (map frame_bytes fs))) = Inr"
    using recv_loop_end [OF assms(2)] by (rule ext)
  then show ?thesis using recv_loop_frames [OF assms(1), of "[]" "[]" h s] assms(2) by simp
qed

section \<open>Batches\<close>

lemma recv_batches:
  assumes "list_all frame_ok fs" and "list_all frame_ok gs" and "length (concat (map frame_bytes gs)) \<le> NNG_BUFFER_SIZE"
  shows "foldE (\<lambda>buf. recv_loop h buf 0) (batch_messages (concat (map frame_bytes gs)) (map frame_bytes fs)) s = foldE h (gs @ fs) s"
  using assms
proof (induction fs arbitrary: gs s)
  case Nil
  then show ?case by (cases "foldE h gs s") (simp_all add: recv_loop_all NNG_BUFFER_SIZE_def)
next
  case (Cons fr fs)
  have cur: "recv_loop h (concat (map frame_bytes gs)) 0 s = foldE h gs s"
    using Cons.prems(2,3) by (intro recv_loop_all) (simp_all add: NNG_BUFFER_SIZE_def)
  have one: "foldE (\<lambda>buf. recv_loop h buf 0) (batch_messages (frame_bytes fr) (map frame_bytes fs)) t = foldE h (fr # fs) t" for t
    using Cons.IH [of "[fr]" t] Cons.prems(1) by (simp add: frame_ok_def)
  show ?case
  proof (cases "NNG_BUFFER_SIZE < length (concat (map frame_bytes gs)) + length (frame_bytes fr)")
    case True
    then show ?thesis
      using cur one by (cases "foldE h gs s") (simp_all add: foldE_append)
  next
    case False
    then show ?thesis using Cons.IH [of "gs @ [fr]" s] Cons.prems(1,2) by simp
  qed
qed

lemma recv_bulk:
  assumes "list_all frame_ok fs"
  shows "foldE (\<lambda>buf. recv_loop h buf 0) (bulk_chunks (map frame_bytes fs)) s = foldE h fs s"
proof (cases fs)
  case (Cons fr fs')
  then show ?thesis using recv_batches [of fs' "[fr]" h s] assms by (simp add: bulk_chunks_def frame_ok_def)
qed (simp add: bulk_chunks_def)

lemma batches_bounded:
  assumes "length curMsg \<le> NNG_BUFFER_SIZE" and "list_all (\<lambda>m. length m \<le> NNG_BUFFER_SIZE) ms"
  shows "list_all (\<lambda>c. length c \<le> NNG_BUFFER_SIZE) (batch_messages curMsg ms)"
  using assms by (induction curMsg ms rule: batch_messages.induct) auto

lemma bulk_bounded:
  "list_all (\<lambda>m. length m \<le> NNG_BUFFER_SIZE) ms \<Longrightarrow> list_all (\<lambda>c. length c \<le> NNG_BUFFER_SIZE) (bulk_chunks ms)"
  by (cases ms) (simp_all add: bulk_chunks_def batches_bounded)

lemma send_all: "send_chunks (\<lambda>c. True) cs = cs"
  by (induction cs) simp_all

lemma mset_fold_remove1: "mset (fold remove1 ms q) = mset q - mset ms"
  by (induction ms arbitrary: q) simp_all

lemma nng_reach_frames:
  assumes "nng_reach msgs s sent" and "set msgs \<subseteq> frame_bytes ` {fr. frame_ok fr}"
  shows "\<exists>gs. sent = map frame_bytes gs \<and> list_all frame_ok gs \<and> mset sent + mset (ns_queue s) = mset msgs \<and>
    (\<forall>(h :: frame \<Rightarrow> 's \<Rightarrow> 's res) t. foldE (\<lambda>buf. recv_loop h buf 0) (ns_sent s) t = foldE h gs t) \<and>
    list_all (\<lambda>c. length c \<le> NNG_BUFFER_SIZE) (ns_sent s)"
  using assms
proof (induction rule: nng_reach.induct)
  case init
  then show ?case by (simp add: nng_sender_init_def)
next
  case (enqueue msgs s sent m)
  then show ?case by (auto simp: nng_sendMsg_def)
next
  case (turn msgs s sent ms)
  then obtain gs where gs: "sent = map frame_bytes gs" "list_all frame_ok gs" "mset sent + mset (ns_queue s) = mset msgs"
    "\<And>(h :: frame \<Rightarrow> 's \<Rightarrow> 's res) t. foldE (\<lambda>buf. recv_loop h buf 0) (ns_sent s) t = foldE h gs t" "list_all (\<lambda>c. length c \<le> NNG_BUFFER_SIZE) (ns_sent s)"
    by blast
  have "set ms \<subseteq> set (ns_queue s)" using turn.hyps(4) by (metis set_mset_mset set_mset_mono)
  also have "\<dots> \<subseteq> set msgs" using gs(3) by (metis mset_subset_eq_add_right set_mset_mono set_mset_mset)
  finally have "\<forall>m \<in> set ms. \<exists>fr. m = frame_bytes fr \<and> frame_ok fr" using turn.prems by blast
  then have "\<exists>fs. ms = map frame_bytes fs \<and> list_all frame_ok fs"
  proof (induction ms)
    case (Cons m ms)
    then obtain fr fs where "m = frame_bytes fr" "frame_ok fr" "ms = map frame_bytes fs" "list_all frame_ok fs" by auto
    then show ?case by (intro exI [of _ "fr # fs"]) simp
  qed simp
  then obtain fs where fs: "ms = map frame_bytes fs" "list_all frame_ok fs" by blast
  have sent: "ns_sent (nng_send_turn (\<lambda>c. True) ms s) = ns_sent s @ bulk_chunks ms"
    and queue: "ns_queue (nng_send_turn (\<lambda>c. True) ms s) = fold remove1 ms (ns_queue s)"
    using turn.hyps(5) by (simp_all add: nng_send_turn_def Let_def send_all)
  have "list_all (\<lambda>m. length m \<le> NNG_BUFFER_SIZE) ms" using fs by (auto simp: list_all_iff frame_ok_def)
  moreover have "foldE (\<lambda>buf. recv_loop h buf 0) (bulk_chunks ms) = foldE h fs" for h :: "frame \<Rightarrow> 's \<Rightarrow> 's res"
    by (rule ext) (simp add: recv_bulk [OF fs(2)] fs(1))
  moreover have "mset ms + mset (fold remove1 ms (ns_queue s)) = mset (ns_queue s)"
    using turn.hyps(4) by (simp add: mset_fold_remove1)
  ultimately show ?case
    using gs fs bulk_bounded [of ms]
    by (intro exI [of _ "gs @ fs"]) (simp add: sent [unfolded fs(1)] queue [unfolded fs(1)] foldE_append gs(3) [symmetric] ac_simps)
qed

section \<open>Properties\<close>

text \<open>C31: what the sending thread of an endpoint makes of the messages handed to it, the receiving side takes apart
  again: whatever messages the thread puts into one, the handler sees exactly the frames that were taken from the queue,
  in that order, each as it was sent; none is lost or doubled, and no buffer is too large for the receiver.\<close>

theorem nng_roundtrip:
  assumes "nng_reach (map frame_bytes fs) s sent" and "list_all frame_ok fs"
  shows "\<exists>gs. sent = map frame_bytes gs \<and> mset (map frame_bytes gs) + mset (ns_queue s) = mset (map frame_bytes fs) \<and>
    foldE (\<lambda>buf. recv_loop h buf 0) (ns_sent s) t = foldE h gs t \<and> list_all (\<lambda>c. length c \<le> NNG_BUFFER_SIZE) (ns_sent s)"
proof -
  have "set (map frame_bytes fs) \<subseteq> frame_bytes ` {fr. frame_ok fr}" using assms(2) by (auto simp: list_all_iff)
  from nng_reach_frames [OF assms(1) this] show ?thesis by fastforce
qed

definition demo_wire_frame :: "u8 \<Rightarrow> frame" where
  "demo_wire_frame b = \<lparr>fr_type = 1, fr_body = [b], fr_sig = []\<rparr>"

lemma demo_wire_frame_ok [simp]: "frame_ok (demo_wire_frame b)"
  by (simp add: frame_ok_def demo_wire_frame_def length_frame_bytes header_size_def NNG_BUFFER_SIZE_def)

lemma demo_wire_frame_length: "length (frame_bytes (demo_wire_frame b)) = 13"
  by (simp add: length_frame_bytes demo_wire_frame_def header_size_def)

theorem nng_roundtrip_witness:
  "\<exists>gs. foldE (\<lambda>buf. recv_loop (\<lambda>fr seen. Inr (seen @ [fr])) buf 0) [frame_bytes (demo_wire_frame 7) @ frame_bytes (demo_wire_frame 8)] [] =
     foldE (\<lambda>fr seen. Inr (seen @ [fr])) gs [] \<and> map frame_bytes gs = map frame_bytes [demo_wire_frame 7, demo_wire_frame 8]"
proof -
  let ?fs = "[demo_wire_frame 7, demo_wire_frame 8]"
  let ?s = "nng_sendMsg (frame_bytes (demo_wire_frame 8)) (nng_sendMsg (frame_bytes (demo_wire_frame 7)) nng_sender_init)"
  have s: "ns_queue ?s = map frame_bytes ?fs" "\<not> ns_stopping ?s" "ns_sent ?s = []" by (simp_all add: nng_sendMsg_def nng_sender_init_def)
  have "nng_reach (map frame_bytes ?fs) ?s []"
    using nng_reach.enqueue [OF nng_reach.enqueue [OF nng_reach.init]] by simp
  then have reach: "nng_reach (map frame_bytes ?fs) (nng_send_turn (\<lambda>c. True) (map frame_bytes ?fs) ?s) ([] @ map frame_bytes ?fs)"
    by (rule nng_reach.turn) (simp_all only: s, simp_all)
  have "\<not> NNG_BUFFER_SIZE < length (frame_bytes (demo_wire_frame 7)) + length (frame_bytes (demo_wire_frame 8))"
    by (simp add: NNG_BUFFER_SIZE_def length_frame_bytes demo_wire_frame_def header_size_def)
  then have "ns_sent (nng_send_turn (\<lambda>c. True) (map frame_bytes ?fs) ?s) = [frame_bytes (demo_wire_frame 7) @ frame_bytes (demo_wire_frame 8)]"
    using s by (simp add: nng_send_turn_def Let_def send_all bulk_chunks_def)
  with nng_roundtrip [OF reach, of "\<lambda>fr seen. Inr (seen @ [fr])" "[]"] show ?thesis by fastforce
qed

text \<open>C32: a message that claims more than its buffer holds makes the loop read behind the buffer, after the messages before
  it are handled: the claimed length is added to the offset, the difference of the two wraps and the loop goes on.\<close>

theorem recv_truncated_faults:
  assumes "list_all frame_ok fs" and "foldE h fs s = Inr s'" and "header_size < length rest" and "read_header rest = Inr hdr"
    and "length rest < frame_length hdr" and "length (concat (map frame_bytes fs) @ rest) < 2 ^ 63"
  shows "recv_loop h (concat (map frame_bytes fs) @ rest) 0 s = Inl Undefined"
proof -
  define buf where "buf = concat (map frame_bytes fs) @ rest"
  define n where "n = length (concat (map frame_bytes fs))"
  have len: "length buf = n + length rest" "length buf < 2 ^ 63" using assms(6) by (simp_all add: buf_def n_def)
  have big: "\<not> size_diff (length buf) n \<le> header_size" "\<not> length buf < n + header_size"
    using len assms(3) by (simp_all add: size_diff_le)
  have "drop n buf = rest" by (simp add: buf_def n_def)
  then have skip: "recv_loop h buf n s' = recv_loop h buf (n + frame_length hdr) s'"
    using big assms(4,5) len(1) by (subst recv_loop.simps) simp
  have "unat (mh_msgLen hdr) < 2 ^ 32" "unat (mh_sigLen hdr) < 2 ^ 32"
    using unsigned_less [of "mh_msgLen hdr", where ?'a = nat] unsigned_less [of "mh_sigLen hdr", where ?'a = nat] by simp_all
  then have "frame_length hdr \<le> 2 ^ 34" by (simp add: frame_length_def header_size_def)
  then have "header_size < size_diff (length buf) (n + frame_length hdr)"
    using len assms(5) by (intro size_diff_wraps) simp_all
  then have "recv_loop h buf (n + frame_length hdr) s' = Inl Undefined"
    using len(1) assms(5) by (subst recv_loop.simps) simp
  then show ?thesis
    using recv_loop_frames [OF assms(1), of "[]" rest h s] assms(2,6) skip by (simp add: buf_def [symmetric] n_def [symmetric])
qed

theorem recv_truncated_faults_witness:
  "recv_loop (\<lambda>fr seen. Inr (seen @ [fr])) (concat (map frame_bytes [demo_wire_frame 7]) @ [1, 0, 0, 0, 200, 0, 0, 0, 0, 0, 0, 0, 5]) 0 [] = Inl Undefined"
proof (rule recv_truncated_faults)
  show "read_header [1, 0, 0, 0, 200, 0, 0, 0, 0, 0, 0, 0, 5] = Inr \<lparr>mh_msgType = 1, mh_msgLen = 200, mh_sigLen = 0\<rparr>" by code_simp
qed (simp_all add: header_size_def frame_length_def demo_wire_frame_length)

text \<open>The plain endpoints never read behind a buffer: they hand on a frame that is at its front, or nothing. A datagram that
  does not fit the buffer of the UDP endpoint is dropped.\<close>

lemma recv_one_cases:
  "recv_one h buf s = Inr s \<or> (\<exists>fr. read_frame buf = Inr fr \<and> recv_one h buf s = h fr s)"
proof (cases "length buf \<le> header_size")
  case False
  then obtain hdr where hdr: "read_header buf = Inr hdr" by (simp add: read_header_def)
  show ?thesis
  proof (cases "length buf < frame_length hdr")
    case True
    then show ?thesis using False hdr by (simp add: recv_one_def)
  next
    case fits: False
    have "\<exists>fr. read_frame buf = Inr fr" using fits hdr by (auto simp: read_frame_def frame_length_def Let_def)
    then show ?thesis using False fits hdr by (auto simp: recv_one_def)
  qed
qed (simp add: recv_one_def)

theorem udp_large_dropped:
  assumes "frame_ok fr" and "UDP_BUFFER_SIZE < length (frame_bytes fr)"
  shows "udp_receive h (frame_bytes fr) s = Inr s"
proof -
  let ?buf = "take UDP_BUFFER_SIZE (frame_bytes fr)"
  have len: "length ?buf = UDP_BUFFER_SIZE" using assms(2) by simp
  have "read_header ?buf = read_header (frame_bytes fr @ [])"
    using len assms(2) by (simp add: read_header_def UDP_BUFFER_SIZE_def header_size_def drop_take)
  then show ?thesis
    using len assms by (simp add: udp_receive_def recv_one_def read_header_frame [of fr "[]", simplified] frame_length_frame)
qed

end
