(* ===== verification/TransportNode.thy ===== *)
theory TransportNode
  imports Transport NodeSafety
begin

text \<open>
  The replica process behind its endpoint: fed with bytes it stays in its reachable states (the handler reads the time once
  per queue). Over RPC the request that carries a message names its sender itself, and a replica does not verify what comes
  from its own address.
\<close>

lemma frame_type_header: "read_header (frame_bytes fr) = Inr \<lparr>mh_msgType = fr_type fr, mh_msgLen = of_nat (length (fr_body fr)), mh_sigLen = of_nat (length (fr_sig fr))\<rparr>"
  using read_header_frame [of fr "[]"] by simp

text \<open>What is sent over RPC arrives, under the address that the sender gives.\<close>

lemma rpc_content:
  assumes "frame_ok fr"
  shows "ooo_content (ooo_send ip port fr) = frame_bytes fr" and "unat (ooo_length (ooo_send ip port fr)) = length (frame_bytes fr)"
  using assms by (simp_all add: ooo_send_def frame_ok_def NNG_BUFFER_SIZE_def unat_of_nat)

lemma rpc_roundtrip:
  assumes "frame_ok fr"
  shows "bindE (ooo_marshal (ooo_send ip port fr)) ooo_unmarshal = Inr (ooo_send ip port fr)"
  using rpc_content [OF assms, of ip port]
  by (simp add: ooo_marshal_def ooo_unmarshal_def ooo_send_def)

lemma rpc_receive:
  assumes "frame_ok fr" and "type_of_code (fr_type fr) \<noteq> Some DOM_REQUEST"
  shows "ooo_receive env (ooo_send ip port fr) ep =
    Inr (ep\<lparr>oo_recvQueue := oo_recvQueue ep @ [(frame_bytes fr, oe_ipText env ip, int (unat port))], oo_replies := oo_replies ep + 1\<rparr>)"
  using rpc_content [OF assms(1), of ip port] assms(2)
  by (simp add: ooo_receive_def frame_type_header length_frame_bytes Let_def) (simp add: ooo_send_def)

lemma rpc_handled:
  assumes "frame_ok fr" and "oo_recvQueue ep = [(frame_bytes fr, addr)]"
  shows "ooo_handle_queue h ep s = bindE (h addr fr s) (\<lambda>s'. Inr (ep\<lparr>oo_recvQueue := []\<rparr>, s'))"
proof -
  have "recv_loop (h addr) (frame_bytes fr) 0 s = h addr fr s"
    using recv_loop_all [of "[fr]" "h addr" s] assms(1)
    by (cases "h addr fr s") (simp_all add: frame_ok_def NNG_BUFFER_SIZE_def)
  then show ?thesis by (cases "h addr fr s") (simp_all add: ooo_handle_queue_def assms(2))
qed

section \<open>The handler of a replica\<close>

text \<open>The handler keeps a process in its reachable states, if what comes from the own address is the replica's own.\<close>

interpretation on_message: kept_by_handler "onMessage ne now sender" "\<lambda>fr. sender = ne_ip ne \<longrightarrow> own fr" "node_reach ne own app"
  by unfold_locales (rule node_reach.net)

text \<open>Whatever is in the buffers, malformed ones included, a queue handled without a fault keeps the process in its reachable
  states.\<close>

lemma queue_keeps:
  assumes "node_reach ne own app nd"
    and "list_all (\<lambda>(buf, addr). fst addr = ne_ip ne \<longrightarrow> frames_meet own buf) q"
    and "foldE (\<lambda>(buf, addr). recv_loop (onMessage ne now (fst addr)) buf 0) q nd = Inr nd'"
  shows "node_reach ne own app nd'"
  using assms
proof (induction q arbitrary: nd)
  case (Cons x q)
  obtain buf addr where x: "x = (buf, addr)" by (cases x)
  with Cons.prems(3) obtain nd1 where 1: "recv_loop (onMessage ne now (fst addr)) buf 0 nd = Inr nd1"
    "foldE (\<lambda>(buf, addr). recv_loop (onMessage ne now (fst addr)) buf 0) q nd1 = Inr nd'" by (auto elim: bindE_InrE)
  have "frames_meet (\<lambda>fr. fst addr = ne_ip ne \<longrightarrow> own fr) buf" using Cons.prems(2) by (auto simp: x frames_meet_def)
  then have "node_reach ne own app nd1" by (rule on_message.recv_loop_keeps [OF Cons.prems(1) _ 1(1)])
  then show ?case using Cons.IH [OF _ _ 1(2)] Cons.prems(2) by simp
qed simp

lemma frames_reach:
  assumes "node_reach ne own app nd" and "list_all (\<lambda>(addr, fr). fst addr = ne_ip ne \<longrightarrow> own fr) fs"
    and "foldE (\<lambda>(addr, fr). onMessage ne now (fst addr) fr) fs nd = Inr nd'"
  shows "node_reach ne own app nd'"
  using assms
proof (induction fs arbitrary: nd)
  case (Cons x fs)
  obtain addr fr where x: "x = (addr, fr)" by (cases x)
  obtain nd1 where "onMessage ne now (fst addr) fr nd = Inr nd1" "foldE (\<lambda>(addr, fr). onMessage ne now (fst addr) fr) fs nd1 = Inr nd'"
    using Cons.prems(3) x by (auto elim: bindE_InrE)
  then show ?case using Cons.IH [of nd1] Cons.prems(1,2) x node_reach.net [of ne own app nd "fst addr" fr now nd1] by simp
qed simp

text \<open>A buffer made of frames, with the bytes behind them and the address it comes from.\<close>

type_synonym parcel = "frame list \<times> bytes \<times> address"

fun parcel :: "parcel \<Rightarrow> bytes \<times> address" where
  "parcel (fs, rest, addr) = (concat (map frame_bytes fs) @ rest, addr)"

fun parcel_ok :: "parcel \<Rightarrow> bool" where
  "parcel_ok (fs, rest, addr) =
     (list_all frame_ok fs \<and> length rest \<le> header_size \<and> length (concat (map frame_bytes fs) @ rest) < 2 ^ 64)"

definition parcel_frames :: "parcel list \<Rightarrow> (address \<times> frame) list" where
  "parcel_frames ps = concat (map (\<lambda>(fs, rest, addr). map (Pair addr) fs) ps)"

lemma foldE_map: "foldE f (map g xs) s = foldE (\<lambda>x. f (g x)) xs s"
  by (induction xs arbitrary: s) (auto simp: bindE_def split: sum.split)

lemma parcel_handled:
  assumes "parcel_ok (fs, rest, addr)"
  shows "recv_loop h (concat (map frame_bytes fs) @ rest) 0 s = foldE h fs s"
proof -
  let ?b = "concat (map frame_bytes fs) @ rest" and ?n = "length (concat (map frame_bytes fs))"
  have "recv_loop h ?b ?n = Inr"
    using assms by (intro ext, subst recv_loop.simps) (simp add: size_diff_le)
  then show ?thesis using recv_loop_frames [of fs "[]" rest h s] assms by simp
qed

lemma parcels_handled:
  "list_all parcel_ok ps \<Longrightarrow> foldE (\<lambda>(buf, addr). recv_loop (h addr) buf 0) (map parcel ps) s = foldE (\<lambda>(addr, fr). h addr fr) (parcel_frames ps) s"
proof (induction ps arbitrary: s)
  case (Cons p ps)
  obtain fs rest addr where p: "p = (fs, rest, addr)" by (cases p)
  have "recv_loop (h addr) (concat (map frame_bytes fs) @ rest) 0 s = foldE (\<lambda>(addr, fr). h addr fr) (map (Pair addr) fs) s"
    using parcel_handled [of fs rest addr "h addr" s] Cons.prems p by (simp add: foldE_map)
  then show ?case
    using Cons by (simp add: p parcel_frames_def foldE_append bindE_def split: sum.split)
qed (simp add: parcel_frames_def)

section \<open>Properties\<close>

text \<open>C29: over RPC anybody can put any message past the verification of a replica: a request whose sender field holds the
  replica's own address makes the message inside it go straight to the process queue, whatever its type (requests and
  their batches apart), its content and its signature.\<close>

theorem rpc_sender_spoofed:
  assumes "frame_ok fr" and "oe_ipText env ip = ne_ip ne" and "oo_recvQueue ep = []" and "\<not> 1000 < now - nd_lastCheckTime nd"
    and "type_of_code (fr_type fr) \<notin> {Some DOM_REQUEST, Some DOM_BATCH_REQUEST, Some PS_CLIENT}"
  shows "\<exists>b req ep'. ooo_marshal (ooo_send ip port fr) = Inr b \<and> ooo_unmarshal b = Inr req \<and> ooo_receive env req ep = Inr ep' \<and>
    ooo_handle_queue (\<lambda>addr. onMessage ne now (fst addr)) ep' nd =
      Inr (ep'\<lparr>oo_recvQueue := []\<rparr>, nd\<lparr>nd_receiver := (nd_receiver nd)\<lparr>rv_processQueue := rv_processQueue (nd_receiver nd) @ [fr]\<rparr>\<rparr>)"
proof -
  define ep' where "ep' = ep\<lparr>oo_recvQueue := [(frame_bytes fr, ne_ip ne, int (unat port))], oo_replies := oo_replies ep + 1\<rparr>"
  obtain b where b: "ooo_marshal (ooo_send ip port fr) = Inr b" "ooo_unmarshal b = Inr (ooo_send ip port fr)"
    using rpc_roundtrip [OF assms(1), of ip port] by (cases "ooo_marshal (ooo_send ip port fr)") auto
  have "ooo_receive env (ooo_send ip port fr) ep = Inr ep'"
    using rpc_receive [OF assms(1), of env ip port ep] assms(2,3,5) by (simp add: ep'_def)
  moreover have "onMessage ne now (ne_ip ne) fr nd =
      Inr (nd\<lparr>nd_receiver := (nd_receiver nd)\<lparr>rv_processQueue := rv_processQueue (nd_receiver nd) @ [fr]\<rparr>\<rparr>)"
    using assms(4,5) by (simp add: onMessage_def handleMessage_def Let_def)
  then have "ooo_handle_queue (\<lambda>addr. onMessage ne now (fst addr)) ep' nd =
      Inr (ep'\<lparr>oo_recvQueue := []\<rparr>, nd\<lparr>nd_receiver := (nd_receiver nd)\<lparr>rv_processQueue := rv_processQueue (nd_receiver nd) @ [fr]\<rparr>\<rparr>)"
    by (subst rpc_handled [OF assms(1), where addr = "(ne_ip ne, int (unat port))"]) (simp_all add: ep'_def)
  ultimately show ?thesis using b by blast
qed

text \<open>C30: what a replica does with the buffers that its sockets deliver is what its process model does with the frames in them:
  when each buffer holds valid frames, with at most the length of a header of other bytes behind them, handling the queue
  runs the handler on every frame exactly once, in order and under the address of its buffer, faults as the first handler that
  faults, and otherwise empties the queue; and it leads from a reachable state to a reachable state, as long as
  the frames from the own address are the replica's own.\<close>

theorem node_handles_frames:
  assumes "ep_recvQueue ep = map parcel ps" and "list_all parcel_ok ps"
    and "node_reach ne own app nd" and "list_all (\<lambda>(addr, fr). fst addr = ne_ip ne \<longrightarrow> own fr) (parcel_frames ps)"
  shows "nng_handle_queue (\<lambda>addr. onMessage ne now (fst addr)) ep nd =
      bindE (foldE (\<lambda>(addr, fr). onMessage ne now (fst addr) fr) (parcel_frames ps) nd) (\<lambda>nd'. Inr (ep\<lparr>ep_recvQueue := []\<rparr>, nd')) \<and>
    (\<forall>ep' nd'. nng_handle_queue (\<lambda>addr. onMessage ne now (fst addr)) ep nd = Inr (ep', nd') \<longrightarrow>
      ep_recvQueue ep' = [] \<and> node_reach ne own app nd')"
proof -
  have eq: "nng_handle_queue (\<lambda>addr. onMessage ne now (fst addr)) ep nd =
      bindE (foldE (\<lambda>(addr, fr). onMessage ne now (fst addr) fr) (parcel_frames ps) nd) (\<lambda>nd'. Inr (ep\<lparr>ep_recvQueue := []\<rparr>, nd'))"
    using parcels_handled [OF assms(2), of "\<lambda>addr. onMessage ne now (fst addr)" nd] by (simp add: nng_handle_queue_def assms(1))
  then show ?thesis using frames_reach [OF assms(3,4)] by (auto elim!: bindE_InrE)
qed

text \<open>A vote of the repair without a signature, from the replica's own address.\<close>

definition demo_forged :: frame where
  "demo_forged = \<lparr>fr_type = code_of_type PBFT_PREPARE, fr_body = [2], fr_sig = []\<rparr>"

definition demo_ooo_env :: ooo_env where
  "demo_ooo_env = \<lparr>oe_ipText = (\<lambda>ip. [ucast ip]), oe_domParses = (\<lambda>b. False)\<rparr>"

theorem rpc_sender_spoofed_witness:
  "\<exists>ep1 ep2 nd. ooo_receive demo_ooo_env (ooo_send 9 7 demo_forged) \<lparr>oo_recvQueue = [], oo_replies = 0\<rparr> = Inr ep1 \<and>
     ooo_handle_queue (\<lambda>addr. onMessage demo_node 1 (fst addr)) ep1 (node_init demo_node ()) = Inr (ep2, nd) \<and>
     rv_processQueue (nd_receiver nd) = [demo_forged]"
proof -
  have ok: "frame_ok demo_forged" by (simp add: frame_ok_def demo_forged_def length_frame_bytes header_size_def NNG_BUFFER_SIZE_def)
  have "\<exists>b req ep'. ooo_marshal (ooo_send 9 7 demo_forged) = Inr b \<and> ooo_unmarshal b = Inr req \<and>
      ooo_receive demo_ooo_env req \<lparr>oo_recvQueue = [], oo_replies = 0\<rparr> = Inr ep' \<and>
      ooo_handle_queue (\<lambda>addr. onMessage demo_node 1 (fst addr)) ep' (node_init demo_node ()) =
        Inr (ep'\<lparr>oo_recvQueue := []\<rparr>, (node_init demo_node ())\<lparr>nd_receiver :=
          (nd_receiver (node_init demo_node ()))\<lparr>rv_processQueue := rv_processQueue (nd_receiver (node_init demo_node ())) @ [demo_forged]\<rparr>\<rparr>)"
    by (rule rpc_sender_spoofed [OF ok]) (simp_all add: demo_ooo_env_def demo_node_def node_init_def demo_forged_def)
  then show ?thesis
    using rpc_roundtrip [OF ok, of 9 7] by (fastforce simp: node_init_def receiver_init_def)
qed

text \<open>The same vote, twice in one buffer from another address, with bytes behind it that are no frame.\<close>

theorem node_handles_frames_witness:
  "\<exists>ep' nd'. nng_handle_queue (\<lambda>addr. onMessage demo_node 1 (fst addr))
       (nng_deliver (frame_bytes demo_forged @ frame_bytes demo_forged @ [1, 2, 3]) ([4], 7) (nng_endpoint_init [] None)) (node_init demo_node ()) =
         Inr (ep', nd') \<and>
     node_reach demo_node (\<lambda>_. False) () nd' \<and> nd_verifyQueue nd' = [demo_forged, demo_forged]"
proof -
  let ?ep = "nng_deliver (frame_bytes demo_forged @ frame_bytes demo_forged @ [1, 2, 3]) ([4], 7) (nng_endpoint_init [] None)"
  let ?ps = "[([demo_forged, demo_forged], [1, 2, 3], [4], 7)] :: parcel list"
  have ok: "list_all parcel_ok ?ps"
    by (simp add: frame_ok_def demo_forged_def length_frame_bytes header_size_def NNG_BUFFER_SIZE_def)
  have q: "ep_recvQueue ?ep = map parcel ?ps" by (simp add: nng_deliver_def nng_endpoint_init_def)
  have own: "list_all (\<lambda>(addr, fr). fst addr = ne_ip demo_node \<longrightarrow> False) (parcel_frames ?ps)"
    by (simp add: parcel_frames_def demo_node_def)
  obtain nd' where nd': "foldE (\<lambda>(addr, fr). onMessage demo_node 1 (fst addr) fr) (parcel_frames ?ps) (node_init demo_node ()) = Inr nd'"
      "nd_verifyQueue nd' = [demo_forged, demo_forged]"
    by (simp add: parcel_frames_def onMessage_def handleMessage_def demo_node_def demo_forged_def node_init_def Let_def)
  show ?thesis
    using node_handles_frames [OF q ok node_reach.init own, of 1] nd' by (fastforce simp: bindE_def)
qed

end
