(* ===== verification/ThreadPoolModel.thy ===== *)
theory ThreadPoolModel
  imports Prelude "HOL-Library.Multiset"
begin

text \<open>
  The thread pool (\<open>lib/threadpool.h\<close> and \<open>.cc\<close>) on which the processes send: a queue of tasks, the workers that take
  them, and the destructor, which waits for the workers. A step is one critical section, or the end of a task; the lists
  of started and finished tasks are there for the statements only.
\<close>

datatype 't worker = Waiting | Running 't | Ended

record 't threadpool =
  tp_tasks :: "'t list"
  tp_stop :: bool
  tp_workers :: "'t worker list"
  tp_started :: "'t list"
  tp_finished :: "'t list"

definition threadpool_init :: "nat \<Rightarrow> 't threadpool" where
  "threadpool_init n = \<lparr>tp_tasks = [], tp_stop = False, tp_workers = replicate n Waiting, tp_started = [], tp_finished = []\<rparr>"

definition tp_enqueueTask :: "'t \<Rightarrow> 't threadpool \<Rightarrow> 't threadpool" where
  "tp_enqueueTask t s = s\<lparr>tp_tasks := tp_tasks s @ [t]\<rparr>"

text \<open>The critical section of the worker \<open>i\<close>, once its condition holds: the end of the loop, or the oldest task.\<close>

definition worker_ready :: "'t threadpool \<Rightarrow> bool" where
  "worker_ready s \<longleftrightarrow> tp_stop s \<or> tp_tasks s \<noteq> []"

definition worker_take :: "nat \<Rightarrow> 't threadpool \<Rightarrow> 't threadpool" where
  "worker_take i s =
     (case tp_tasks s of
        [] \<Rightarrow> if tp_stop s then s\<lparr>tp_workers := (tp_workers s)[i := Ended]\<rparr> else s
      | t # ts \<Rightarrow> s\<lparr>tp_tasks := ts, tp_workers := (tp_workers s)[i := Running t], tp_started := tp_started s @ [t]\<rparr>)"

definition worker_finish :: "nat \<Rightarrow> 't threadpool \<Rightarrow> 't threadpool" where
  "worker_finish i s =
     (case tp_workers s ! i of
        Running t \<Rightarrow> s\<lparr>tp_workers := (tp_workers s)[i := Waiting], tp_finished := tp_finished s @ [t]\<rparr>
      | _ \<Rightarrow> s)"

text \<open>The destructor up to the loop that joins the threads, and the condition under which that loop is done.\<close>

definition threadpool_stop :: "'t threadpool \<Rightarrow> 't threadpool" where
  "threadpool_stop s = s\<lparr>tp_stop := True\<rparr>"

definition threadpool_joined :: "'t threadpool \<Rightarrow> bool" where
  "threadpool_joined s \<longleftrightarrow> tp_stop s \<and> list_all (\<lambda>w. w = Ended) (tp_workers s)"

section \<open>Steps\<close>

text \<open>Once the destructor has started, only a running task may hand in another one.\<close>

inductive tp_reach :: "nat \<Rightarrow> 't list \<Rightarrow> 't threadpool \<Rightarrow> bool" for n where
  init: "tp_reach n [] (threadpool_init n)"
| enqueue: "tp_reach n ts s \<Longrightarrow> \<not> tp_stop s \<or> (\<exists>t'. Running t' \<in> set (tp_workers s)) \<Longrightarrow> tp_reach n (ts @ [t]) (tp_enqueueTask t s)"
| take: "tp_reach n ts s \<Longrightarrow> i < n \<Longrightarrow> tp_workers s ! i = Waiting \<Longrightarrow> worker_ready s \<Longrightarrow> tp_reach n ts (worker_take i s)"
| finish: "tp_reach n ts s \<Longrightarrow> i < n \<Longrightarrow> tp_workers s ! i = Running t \<Longrightarrow> tp_reach n ts (worker_finish i s)"
| stop: "tp_reach n ts s \<Longrightarrow> tp_reach n ts (threadpool_stop s)"

definition running :: "'t worker \<Rightarrow> 't multiset" where
  "running w = (case w of Running t \<Rightarrow> {#t#} | _ \<Rightarrow> {#})"

lemma running_simps [simp]: "running Waiting = {#}" "running Ended = {#}" "running (Running t) = {#t#}"
  by (simp_all add: running_def)

definition in_progress :: "'t worker list \<Rightarrow> 't multiset" where
  "in_progress ws = sum_list (map running ws)"

lemma in_progress_update:
  "i < length ws \<Longrightarrow> in_progress (ws[i := w]) + running (ws ! i) = in_progress ws + running w"
proof (induction ws arbitrary: i)
  case (Cons v ws)
  then show ?case by (cases i) (auto simp: in_progress_def add.assoc add.left_commute)
qed simp

lemma in_progress_idle: "list_all (\<lambda>w. w = Ended) ws \<Longrightarrow> in_progress ws = {#}"
  by (induction ws) (simp_all add: in_progress_def)

definition tp_ok :: "nat \<Rightarrow> 't list \<Rightarrow> 't threadpool \<Rightarrow> bool" where
  "tp_ok n ts s \<longleftrightarrow>
     length (tp_workers s) = n \<and> ts = tp_started s @ tp_tasks s \<and>
     mset (tp_started s) = mset (tp_finished s) + in_progress (tp_workers s) \<and>
     (Ended \<in> set (tp_workers s) \<longrightarrow> tp_stop s) \<and>
     (n \<noteq> 0 \<longrightarrow> list_all (\<lambda>w. w = Ended) (tp_workers s) \<longrightarrow> tp_tasks s = [])"

lemma tp_ok_take:
  assumes "tp_ok n ts s" and "i < n" and "tp_workers s ! i = Waiting"
  shows "tp_ok n ts (worker_take i s)"
proof (cases "tp_tasks s")
  case Nil
  then show ?thesis
    using assms Nil in_progress_update [of i "tp_workers s" Ended] by (auto simp: tp_ok_def worker_take_def)
next
  case (Cons t rest)
  have "Ended \<in> set (tp_workers s)" if "Ended \<in> set ((tp_workers s)[i := Running t])"
    using that set_update_subset_insert [of "tp_workers s" i "Running t"] by auto
  moreover have "\<not> list_all (\<lambda>w. w = Ended) ((tp_workers s)[i := Running t])"
    using assms(1,2) by (auto simp: list_all_length tp_ok_def intro!: exI [of _ i])
  ultimately show ?thesis
    using assms Cons in_progress_update [of i "tp_workers s" "Running t"] by (auto simp: tp_ok_def worker_take_def)
qed

lemma tp_ok_finish:
  assumes "tp_ok n ts s" and "i < n" and "tp_workers s ! i = Running t"
  shows "tp_ok n ts (worker_finish i s)"
proof -
  have "Ended \<in> set (tp_workers s)" if "Ended \<in> set ((tp_workers s)[i := Waiting])"
    using that set_update_subset_insert [of "tp_workers s" i Waiting] by auto
  moreover have "\<not> list_all (\<lambda>w. w = Ended) ((tp_workers s)[i := Waiting])"
    using assms(1,2) by (auto simp: list_all_length tp_ok_def intro!: exI [of _ i])
  ultimately show ?thesis
    using assms in_progress_update [of i "tp_workers s" Waiting] by (auto simp: tp_ok_def worker_finish_def)
qed

lemma tp_reach_ok: "tp_reach n ts s \<Longrightarrow> tp_ok n ts s"
proof (induction rule: tp_reach.induct)
  case init
  have "in_progress (replicate n Waiting) = ({#} :: 't multiset)" by (induction n) (simp_all add: in_progress_def)
  then show ?case by (cases n) (simp_all add: tp_ok_def threadpool_init_def)
next
  case (enqueue ts s t)
  have "\<not> list_all (\<lambda>w. w = Ended) (tp_workers s)" if "n \<noteq> 0"
    using enqueue.hyps(2) enqueue.IH that by (cases "tp_workers s") (auto simp: tp_ok_def list_all_iff)
  then show ?case using enqueue.IH by (auto simp: tp_ok_def tp_enqueueTask_def)
next
  case (take ts s i)
  then show ?case by (intro tp_ok_take)
next
  case (finish ts s i t)
  then show ?case by (intro tp_ok_finish)
next
  case (stop ts s)
  then show ?case by (auto simp: tp_ok_def threadpool_stop_def)
qed

section \<open>Properties\<close>

text \<open>C35: the tasks of a pool are started in the order in which they were handed in, each at most once, those in the queue
  next; when the destructor of a pool with workers is done, every task has been run to its end exactly once.\<close>

theorem threadpool_runs_all:
  assumes "tp_reach n ts s"
  shows "ts = tp_started s @ tp_tasks s \<and> (n \<noteq> 0 \<and> threadpool_joined s \<longrightarrow> tp_started s = ts \<and> mset (tp_finished s) = mset ts)"
  using tp_reach_ok [OF assms] by (auto simp: tp_ok_def threadpool_joined_def in_progress_idle)

text \<open>The destructor does not hang: until all workers have ended, one can take a step, if the tasks end.\<close>

lemma stopped_progress:
  assumes "tp_stop s" and "\<not> threadpool_joined s"
  shows "\<exists>i < length (tp_workers s). (tp_workers s ! i = Waiting \<and> worker_ready s) \<or> (\<exists>t. tp_workers s ! i = Running t)"
proof -
  obtain i where "i < length (tp_workers s)" "tp_workers s ! i \<noteq> Ended"
    using assms by (auto simp: threadpool_joined_def list_all_length)
  then show ?thesis using assms(1) by (cases "tp_workers s ! i") (auto simp: worker_ready_def)
qed

text \<open>Two workers, two tasks; the first task outlasts the second and the stop.\<close>

definition demo_pool_run :: "nat threadpool" where
  "demo_pool_run =
     threadpool_stop (worker_finish 1 (worker_take 1 (tp_enqueueTask 8 (worker_take 0 (tp_enqueueTask 7 (threadpool_init 2))))))"

definition demo_pool_end :: "nat threadpool" where
  "demo_pool_end = worker_take 0 (worker_finish 0 (worker_take 1 demo_pool_run))"

lemmas pool_defs = threadpool_init_def tp_enqueueTask_def worker_take_def worker_finish_def threadpool_stop_def numeral_2_eq_2

lemma demo_pool_run_eq:
  "demo_pool_run = \<lparr>tp_tasks = [], tp_stop = True, tp_workers = [Running 7, Waiting], tp_started = [7, 8], tp_finished = [8]\<rparr>"
  by (simp add: demo_pool_run_def pool_defs)

lemma demo_pool_end_reach: "tp_reach 2 (([] @ [7]) @ [8]) demo_pool_end"
proof -
  have "tp_reach 2 ([] @ [7]) (tp_enqueueTask 7 (threadpool_init 2))"
    by (rule tp_reach.enqueue [OF tp_reach.init]) (simp add: pool_defs)
  then have "tp_reach 2 ([] @ [7]) (worker_take 0 (tp_enqueueTask 7 (threadpool_init 2)))"
    by (rule tp_reach.take) (simp_all add: pool_defs worker_ready_def)
  then have "tp_reach 2 (([] @ [7]) @ [8]) (tp_enqueueTask 8 (worker_take 0 (tp_enqueueTask 7 (threadpool_init 2))))"
    by (rule tp_reach.enqueue) (simp add: pool_defs)
  then have "tp_reach 2 (([] @ [7]) @ [8]) (worker_take 1 (tp_enqueueTask 8 (worker_take 0 (tp_enqueueTask 7 (threadpool_init 2)))))"
    by (rule tp_reach.take) (simp_all add: pool_defs worker_ready_def)
  then have "tp_reach 2 (([] @ [7]) @ [8]) (worker_finish 1 (worker_take 1 (tp_enqueueTask 8 (worker_take 0 (tp_enqueueTask 7 (threadpool_init 2))))))"
    by (rule tp_reach.finish [where t = 8]) (simp_all add: pool_defs)
  then have "tp_reach 2 (([] @ [7]) @ [8]) demo_pool_run" unfolding demo_pool_run_def by (rule tp_reach.stop)
  then have "tp_reach 2 (([] @ [7]) @ [8]) (worker_take 1 demo_pool_run)"
    by (rule tp_reach.take) (simp_all add: demo_pool_run_eq worker_ready_def)
  then have "tp_reach 2 (([] @ [7]) @ [8]) (worker_finish 0 (worker_take 1 demo_pool_run))"
    by (rule tp_reach.finish [where t = 7]) (simp_all add: demo_pool_run_eq worker_take_def)
  then show ?thesis
    unfolding demo_pool_end_def
    by (rule tp_reach.take) (simp_all add: demo_pool_run_eq worker_take_def worker_finish_def worker_ready_def)
qed

theorem threadpool_runs_all_witness:
  "threadpool_joined demo_pool_end \<and> tp_started demo_pool_end = [7, 8] \<and> mset (tp_finished demo_pool_end) = mset [7, 8]"
proof -
  have "threadpool_joined demo_pool_end"
    by (simp add: demo_pool_end_def demo_pool_run_eq worker_take_def worker_finish_def threadpool_joined_def)
  moreover have "(2 :: nat) \<noteq> 0" by simp
  ultimately have "tp_started demo_pool_end = ([] @ [7]) @ [8] \<and> mset (tp_finished demo_pool_end) = mset (([] @ [7]) @ [8])"
    using threadpool_runs_all [OF demo_pool_end_reach] by blast
  with \<open>threadpool_joined demo_pool_end\<close> show ?thesis by simp
qed

end
