(* ===== verification/ConfigFile.thy ===== *)
theory ConfigFile
  imports Config
begin

text \<open>
  Reading the configuration file (\<open>lib/config/process_config.h\<close>). The YAML library is a parameter: what loading the
  file gives, what a key of a node holds, and the conversions of a node, which may fail. The memory of the
  configuration before it is read is an argument: the processes declare it without a value.
\<close>

section \<open>The library\<close>

text \<open>What may be thrown: \<open>ConfigParseException\<close>, an exception of the library, \<open>std::out_of_range\<close>; a division by
  zero ends the process.\<close>

datatype config_error = ConfigParseError | YamlError | OutOfRange | DivByZero

datatype 'n lookup = Throws | Absent | Found 'n

datatype 'n loaded = BadFile | BadSyntax | Loaded 'n

text \<open>A conversion that fails is \<open>BadConversion\<close>. An \<open>int\<close> is a word read with its sign. The type of \<open>float\<close>s is open;
  \<open>y_float_default\<close> is the number 1.5 of the source.\<close>

record ('n, 'f) yaml =
  y_get :: "'n \<Rightarrow> string \<Rightarrow> 'n lookup"
  y_size :: "'n \<Rightarrow> nat"
  y_elem :: "'n \<Rightarrow> nat \<Rightarrow> 'n lookup"
  y_string :: "'n \<Rightarrow> string option"
  y_int :: "'n \<Rightarrow> u32 option"
  y_uint32 :: "'n \<Rightarrow> u32 option"
  y_uint64 :: "'n \<Rightarrow> u64 option"
  y_bool :: "'n \<Rightarrow> bool option"
  y_float :: "'n \<Rightarrow> 'f option"
  y_map :: "'n \<Rightarrow> (string \<rightharpoonup> u32) option"
  y_float_default :: 'f

text \<open>A key of a node that is not there cannot be looked up.\<close>

definition subnode :: "('n, 'f) yaml \<Rightarrow> 'n lookup \<Rightarrow> string \<Rightarrow> 'n lookup" where
  "subnode y parent key = (case parent of Found n \<Rightarrow> y_get y n key | _ \<Rightarrow> Throws)"

section \<open>Exceptions\<close>

definition bindC :: "config_error + 'a \<Rightarrow> ('a \<Rightarrow> config_error + 'b) \<Rightarrow> config_error + 'b" where
  "bindC r k = (case r of Inl e \<Rightarrow> Inl e | Inr x \<Rightarrow> k x)"

lemma bindC_simps [simp]: "bindC (Inl e) k = Inl e" "bindC (Inr x) k = k x"
  by (simp_all add: bindC_def)

lemma bindC_assoc: "bindC (bindC r f) g = bindC r (\<lambda>x. bindC (f x) g)"
  by (cases r) simp_all

lemma bindC_InrE:
  assumes "bindC r k = Inr z"
  obtains x where "r = Inr x" and "k x = Inr z"
  using assms by (cases r) simp_all

lemma bindC_cong: "(\<And>x. r = Inr x \<Longrightarrow> k x = k' x) \<Longrightarrow> bindC r k = bindC r k'"
  by (cases r) simp_all

fun steps :: "('c \<Rightarrow> config_error + 'c) list \<Rightarrow> 'c \<Rightarrow> config_error + 'c" where
  "steps [] c = Inr c"
| "steps (f # fs) c = bindC (f c) (steps fs)"

text \<open>A field is set to the value that is read.\<close>

definition assign :: "('a \<Rightarrow> 'c \<Rightarrow> 'c) \<Rightarrow> config_error + 'a \<Rightarrow> 'c \<Rightarrow> config_error + 'c" where
  "assign upd r c = bindC r (\<lambda>v. Inr (upd v c))"

lemma steps_append: "steps (fs @ gs) c = bindC (steps fs c) (steps gs)"
  by (induction fs arbitrary: c) (auto simp: bindC_assoc intro: bindC_cong)

text \<open>What no step changes.\<close>

lemma steps_keep:
  assumes "steps fs c = Inr c'" and "\<And>f a b. f \<in> set fs \<Longrightarrow> f a = Inr b \<Longrightarrow> g b = g a"
  shows "g c' = g c"
  using assms
proof (induction fs arbitrary: c)
  case (Cons f fs)
  from Cons.prems(1) obtain d where d: "f c = Inr d" "steps fs d = Inr c'" by (auto elim: bindC_InrE)
  then have "g d = g c" using Cons.prems(2) by auto
  moreover have "g c' = g d" using Cons.IH [OF d(2)] Cons.prems(2) by auto
  ultimately show ?case by simp
qed simp

lemma assign_InrD: "assign upd r a = Inr b \<Longrightarrow> \<exists>v. r = Inr v \<and> b = upd v a"
  by (auto simp: assign_def elim: bindC_InrE)

section \<open>Fields\<close>

definition convert :: "('n \<Rightarrow> 'a option) \<Rightarrow> 'n \<Rightarrow> config_error + 'a" where
  "convert as n = (case as n of None \<Rightarrow> Inl ConfigParseError | Some v \<Rightarrow> Inr v)"

definition parseField :: "('n, 'f) yaml \<Rightarrow> ('n \<Rightarrow> 'a option) \<Rightarrow> 'n lookup \<Rightarrow> string \<Rightarrow> config_error + 'a" where
  "parseField y as parent key =
     (case subnode y parent key of Throws \<Rightarrow> Inl YamlError | Absent \<Rightarrow> Inl ConfigParseError | Found n \<Rightarrow> convert as n)"

definition parseFieldDefault :: "('n, 'f) yaml \<Rightarrow> ('n \<Rightarrow> 'a option) \<Rightarrow> 'n lookup \<Rightarrow> string \<Rightarrow> 'a \<Rightarrow> config_error + 'a" where
  "parseFieldDefault y as parent key default_value =
     (case subnode y parent key of Throws \<Rightarrow> Inl YamlError | Absent \<Rightarrow> Inr default_value | Found n \<Rightarrow> convert as n)"

text \<open>The loop over the elements, which are appended to what the vector holds.\<close>

fun push_strings :: "('n, 'f) yaml \<Rightarrow> 'n \<Rightarrow> nat list \<Rightarrow> string list \<Rightarrow> config_error + string list" where
  "push_strings y n [] xs = Inr xs"
| "push_strings y n (i # is) xs =
     (case y_elem y n i of Found m \<Rightarrow> bindC (convert (y_string y) m) (\<lambda>s. push_strings y n is (xs @ [s])) | _ \<Rightarrow> Inl YamlError)"

definition parseStringVector :: "('n, 'f) yaml \<Rightarrow> 'n lookup \<Rightarrow> string \<Rightarrow> string list \<Rightarrow> config_error + string list" where
  "parseStringVector y parent key xs =
     (case subnode y parent key of Throws \<Rightarrow> Inl YamlError | Absent \<Rightarrow> Inl ConfigParseError
      | Found n \<Rightarrow> push_strings y n [0..<y_size y n] xs)"

section \<open>The configuration\<close>

datatype app_type = COUNTER | KV_STORE

record 'f config_file =
  pc_transport :: string
  pc_app :: app_type
  pc_appStr :: string
  pc_f :: u32
  pc_e :: u32
  pc_clientIps :: "string list"
  pc_clientPort :: u32
  pc_clientKeysDir :: string
  pc_clientRuntimeSeconds :: u32
  pc_clientNormalPathTimeout :: u32
  pc_clientRequestTimeout :: u32
  pc_clientMaxInFlight :: u32
  pc_clientSendRate :: u32
  pc_clientSendMode :: string
  pc_clientRequestSize :: u32
  pc_clientUseHMAC :: bool
  pc_clientSendProofs :: bool
  pc_clientNormalPathEnabled :: bool
  pc_rateIncrease_enabled :: bool
  pc_rateIncrease_seqThreshold :: u32
  pc_rateIncrease_durationUs :: u32
  pc_rateIncrease_increasedSendRate :: u32
  pc_rateIncrease_increasedMaxInFlight :: u32
  pc_proxyIps :: "string list"
  pc_proxyForwardPort :: u32
  pc_proxyOffsetCoefficient :: 'f
  pc_proxyKeysDir :: string
  pc_proxyMaxOwd :: u32
  pc_proxyBatchEnabled :: bool
  pc_proxyBatchMaxCount :: u32
  pc_proxyBatchMaxDelay :: u32
  pc_replicaIps :: "string list"
  pc_replicaPort :: u32
  pc_replicaCheckpointTimeout :: u32
  pc_replicaRepairTimeout :: u32
  pc_replicaRepairViewTimeout :: u32
  pc_replicaKeysDir :: string
  pc_replicaNumSendThreads :: u32
  pc_replicaNumVerifyThreads :: u32
  pc_replicaCheckpointInterval :: u32
  pc_replicaSnapshotInterval :: u32
  pc_replicaIncludeFullRequests :: bool
  pc_replicaSkipAlignment :: bool
  pc_preserializationMode :: string
  pc_useProxy :: bool
  pc_sendToLeader :: bool


section \<open>Sections of the file\<close>

text \<open>A failure of one of the program's own checks.\<close>

definition require :: "('c \<Rightarrow> bool) \<Rightarrow> 'c \<Rightarrow> config_error + 'c" where
  "require P c = (if P c then Inr c else Inl ConfigParseError)"

text \<open>A section is looked up by a key of the root.\<close>

definition in_section :: "('n, 'f) yaml \<Rightarrow> 'n lookup \<Rightarrow> string \<Rightarrow> ('n lookup \<Rightarrow> config_error + 'c) \<Rightarrow> config_error + 'c" where
  "in_section y root key k = (case subnode y root key of Throws \<Rightarrow> Inl YamlError | node \<Rightarrow> k node)"

definition parseRateIncrease :: "('n, 'f) yaml \<Rightarrow> 'n lookup \<Rightarrow> 'f config_file \<Rightarrow> config_error + 'f config_file" where
  "parseRateIncrease y clientNode c =
     (case subnode y clientNode ''temporaryRateIncrease'' of
        Throws \<Rightarrow> Inl YamlError
      | Absent \<Rightarrow>
          Inr (c\<lparr>pc_rateIncrease_enabled := False, pc_rateIncrease_seqThreshold := 0, pc_rateIncrease_durationUs := 10000000,
                 pc_rateIncrease_increasedSendRate := 0, pc_rateIncrease_increasedMaxInFlight := 0\<rparr>)
      | node \<Rightarrow> steps
          [assign (\<lambda>v c. c\<lparr>pc_rateIncrease_enabled := v\<rparr>) (parseFieldDefault y (y_bool y) node ''enabled'' False),
           assign (\<lambda>v c. c\<lparr>pc_rateIncrease_seqThreshold := v\<rparr>) (parseFieldDefault y (y_uint32 y) node ''seqThreshold'' 0),
           assign (\<lambda>v c. c\<lparr>pc_rateIncrease_durationUs := v\<rparr>) (parseFieldDefault y (y_uint32 y) node ''durationUs'' 10000000),
           assign (\<lambda>v c. c\<lparr>pc_rateIncrease_increasedSendRate := v\<rparr>) (parseFieldDefault y (y_uint32 y) node ''increasedSendRate'' 0),
           assign (\<lambda>v c. c\<lparr>pc_rateIncrease_increasedMaxInFlight := v\<rparr>)
             (parseFieldDefault y (y_uint32 y) node ''increasedMaxInFlight'' 0)] c)"

definition client_steps :: "('n, 'f) yaml \<Rightarrow> 'n lookup \<Rightarrow> ('f config_file \<Rightarrow> config_error + 'f config_file) list" where
  "client_steps y node =
     [\<lambda>c. assign (\<lambda>v c. c\<lparr>pc_clientIps := v\<rparr>) (parseStringVector y node ''ips'' (pc_clientIps c)) c,
      assign (\<lambda>v c. c\<lparr>pc_clientPort := v\<rparr>) (parseField y (y_int y) node ''port''),
      assign (\<lambda>v c. c\<lparr>pc_clientKeysDir := v\<rparr>) (parseFieldDefault y (y_string y) node ''keysDir'' ''keys/client''),
      assign (\<lambda>v c. c\<lparr>pc_clientRuntimeSeconds := v\<rparr>) (parseField y (y_int y) node ''runtimeSeconds''),
      assign (\<lambda>v c. c\<lparr>pc_clientNormalPathTimeout := v\<rparr>) (parseFieldDefault y (y_int y) node ''normalPathTimeout'' 100000),
      assign (\<lambda>v c. c\<lparr>pc_clientRequestTimeout := v\<rparr>) (parseFieldDefault y (y_int y) node ''requestTimeout'' 1000000),
      assign (\<lambda>v c. c\<lparr>pc_clientMaxInFlight := v\<rparr>) (parseField y (y_int y) node ''maxInFlight''),
      assign (\<lambda>v c. c\<lparr>pc_clientSendRate := v\<rparr>) (parseField y (y_int y) node ''sendRate''),
      assign (\<lambda>v c. c\<lparr>pc_clientSendMode := v\<rparr>) (parseField y (y_string y) node ''sendMode''),
      assign (\<lambda>v c. c\<lparr>pc_clientRequestSize := v\<rparr>) (parseField y (y_int y) node ''requestSize''),
      assign (\<lambda>v c. c\<lparr>pc_clientUseHMAC := v\<rparr>) (parseFieldDefault y (y_bool y) node ''useHMAC'' False),
      assign (\<lambda>v c. c\<lparr>pc_clientSendProofs := v\<rparr>) (parseFieldDefault y (y_bool y) node ''sendProofs'' False),
      assign (\<lambda>v c. c\<lparr>pc_clientNormalPathEnabled := v\<rparr>) (parseFieldDefault y (y_bool y) node ''normalPathEnabled'' False),
      parseRateIncrease y node]"

definition parseClientConfig :: "('n, 'f) yaml \<Rightarrow> 'n lookup \<Rightarrow> 'f config_file \<Rightarrow> config_error + 'f config_file" where
  "parseClientConfig y root c = in_section y root ''client'' (\<lambda>node. steps (client_steps y node) c)"

definition proxy_steps :: "('n, 'f) yaml \<Rightarrow> 'n lookup \<Rightarrow> ('f config_file \<Rightarrow> config_error + 'f config_file) list" where
  "proxy_steps y node =
     [\<lambda>c. assign (\<lambda>v c. c\<lparr>pc_proxyIps := v\<rparr>) (parseStringVector y node ''ips'' (pc_proxyIps c)) c,
      assign (\<lambda>v c. c\<lparr>pc_proxyForwardPort := v\<rparr>) (parseField y (y_int y) node ''forwardPort''),
      assign (\<lambda>v c. c\<lparr>pc_proxyKeysDir := v\<rparr>) (parseField y (y_string y) node ''keysDir''),
      assign (\<lambda>v c. c\<lparr>pc_proxyMaxOwd := v\<rparr>) (parseFieldDefault y (y_int y) node ''maxOwd'' 100000),
      assign (\<lambda>v c. c\<lparr>pc_proxyOffsetCoefficient := v\<rparr>) (parseFieldDefault y (y_float y) node ''offsetCoefficient'' (y_float_default y)),
      assign (\<lambda>v c. c\<lparr>pc_proxyBatchEnabled := v\<rparr>) (parseFieldDefault y (y_bool y) node ''proxyBatchEnabled'' False),
      assign (\<lambda>v c. c\<lparr>pc_proxyBatchMaxCount := v\<rparr>) (parseFieldDefault y (y_uint32 y) node ''proxyBatchMaxCount'' 50),
      assign (\<lambda>v c. c\<lparr>pc_proxyBatchMaxDelay := v\<rparr>) (parseFieldDefault y (y_uint32 y) node ''proxyBatchMaxDelay'' 5000)]"

definition parseProxyConfig :: "('n, 'f) yaml \<Rightarrow> 'n lookup \<Rightarrow> 'f config_file \<Rightarrow> config_error + 'f config_file" where
  "parseProxyConfig y root c = in_section y root ''proxy'' (\<lambda>node. steps (proxy_steps y node) c)"

text \<open>The intervals are read as \<open>int\<close> and stored without sign.\<close>

definition check_intervals :: "'f config_file \<Rightarrow> config_error + 'f config_file" where
  "check_intervals c =
     (if pc_replicaCheckpointInterval c = 0 then Inl DivByZero
      else require (\<lambda>c. unat (pc_replicaSnapshotInterval c) mod unat (pc_replicaCheckpointInterval c) = 0) c)"

definition replica_steps :: "('n, 'f) yaml \<Rightarrow> 'n lookup \<Rightarrow> ('f config_file \<Rightarrow> config_error + 'f config_file) list" where
  "replica_steps y node =
     [\<lambda>c. assign (\<lambda>v c. c\<lparr>pc_replicaIps := v\<rparr>) (parseStringVector y node ''ips'' (pc_replicaIps c)) c,
      assign (\<lambda>v c. c\<lparr>pc_replicaPort := v\<rparr>) (parseField y (y_int y) node ''port''),
      assign (\<lambda>v c. c\<lparr>pc_replicaKeysDir := v\<rparr>) (parseField y (y_string y) node ''keysDir''),
      assign (\<lambda>v c. c\<lparr>pc_replicaRepairTimeout := v\<rparr>) (parseFieldDefault y (y_int y) node ''repairTimeout'' 500000),
      assign (\<lambda>v c. c\<lparr>pc_replicaCheckpointTimeout := v\<rparr>) (parseFieldDefault y (y_int y) node ''checkpointTimeout'' 100000),
      assign (\<lambda>v c. c\<lparr>pc_replicaRepairViewTimeout := v\<rparr>) (parseFieldDefault y (y_int y) node ''repairViewTimeout'' 1000000),
      assign (\<lambda>v c. c\<lparr>pc_replicaNumVerifyThreads := v\<rparr>) (parseFieldDefault y (y_int y) node ''numVerifyThreads'' 2),
      assign (\<lambda>v c. c\<lparr>pc_replicaNumSendThreads := v\<rparr>) (parseFieldDefault y (y_int y) node ''numSendThreads'' 2),
      assign (\<lambda>v c. c\<lparr>pc_replicaCheckpointInterval := v\<rparr>) (parseFieldDefault y (y_int y) node ''checkpointInterval'' 1000),
      \<lambda>c. assign (\<lambda>v c. c\<lparr>pc_replicaSnapshotInterval := v\<rparr>)
            (parseFieldDefault y (y_int y) node ''snapshotInterval'' (pc_replicaCheckpointInterval c)) c,
      check_intervals,
      assign (\<lambda>v c. c\<lparr>pc_replicaIncludeFullRequests := v\<rparr>) (parseFieldDefault y (y_bool y) node ''includeFullRequests'' True),
      assign (\<lambda>v c. c\<lparr>pc_replicaSkipAlignment := v\<rparr>) (parseFieldDefault y (y_bool y) node ''skipAlignment'' False)]"

definition parseReplicaConfig :: "('n, 'f) yaml \<Rightarrow> 'n lookup \<Rightarrow> 'f config_file \<Rightarrow> config_error + 'f config_file" where
  "parseReplicaConfig y root c = in_section y root ''replica'' (\<lambda>node. steps (replica_steps y node) c)"

section \<open>The file\<close>

definition check_app :: "'f config_file \<Rightarrow> config_error + 'f config_file" where
  "check_app c =
     (if pc_appStr c = ''counter'' then Inr (c\<lparr>pc_app := COUNTER\<rparr>)
      else if pc_appStr c = ''kv_store'' then Inr (c\<lparr>pc_app := KV_STORE\<rparr>)
      else Inl ConfigParseError)"

definition at :: "(string \<rightharpoonup> u32) \<Rightarrow> string \<Rightarrow> config_error + u32" where
  "at m k = (case m k of None \<Rightarrow> Inl OutOfRange | Some v \<Rightarrow> Inr v)"

definition parse_resiliency :: "('n, 'f) yaml \<Rightarrow> 'n lookup \<Rightarrow> 'f config_file \<Rightarrow> config_error + 'f config_file" where
  "parse_resiliency y root c =
     bindC (parseFieldDefault y (y_map y) root ''resiliency'' [''f'' \<mapsto> 1, ''e'' \<mapsto> 1]) (\<lambda>m.
     steps [assign (\<lambda>v c. c\<lparr>pc_f := v\<rparr>) (at m ''f''), assign (\<lambda>v c. c\<lparr>pc_e := v\<rparr>) (at m ''e'')] c)"

text \<open>The checks of the mode; the third reads what \<open>parseClientConfig\<close> sets only later.\<close>

definition check_mode :: "'f config_file \<Rightarrow> config_error + 'f config_file" where
  "check_mode c =
     (if pc_preserializationMode c \<noteq> ''disabled'' \<and>
         (pc_useProxy c \<or> pc_clientUseHMAC c \<or> (pc_preserializationMode c = ''full'' \<and> \<not> pc_sendToLeader c) \<or>
          (pc_preserializationMode c = ''order'' \<and> pc_sendToLeader c))
      then Inl ConfigParseError else Inr c)"

definition top_steps :: "('n, 'f) yaml \<Rightarrow> 'n lookup \<Rightarrow> ('f config_file \<Rightarrow> config_error + 'f config_file) list" where
  "top_steps y root =
     [assign (\<lambda>v c. c\<lparr>pc_transport := v\<rparr>) (parseField y (y_string y) root ''transport''),
      assign (\<lambda>v c. c\<lparr>pc_app := (if v = ''counter'' then COUNTER else KV_STORE)\<rparr>) (parseField y (y_string y) root ''app''),
      assign (\<lambda>v c. c\<lparr>pc_appStr := v\<rparr>) (parseField y (y_string y) root ''app''),
      check_app,
      parse_resiliency y root,
      assign (\<lambda>v c. c\<lparr>pc_preserializationMode := v\<rparr>) (parseFieldDefault y (y_string y) root ''preserializationMode'' ''disabled''),
      require (\<lambda>c. pc_preserializationMode c \<in> {''disabled'', ''full'', ''order''}),
      assign (\<lambda>v c. c\<lparr>pc_useProxy := v\<rparr>) (parseFieldDefault y (y_bool y) root ''useProxy'' True),
      assign (\<lambda>v c. c\<lparr>pc_sendToLeader := v\<rparr>) (parseFieldDefault y (y_bool y) root ''sendToLeader'' False),
      check_mode]"

definition parseConfig :: "('n, 'f) yaml \<Rightarrow> 'n loaded \<Rightarrow> 'f config_file \<Rightarrow> config_error + 'f config_file" where
  "parseConfig y file c =
     (case file of
        BadFile \<Rightarrow> Inl ConfigParseError
      | BadSyntax \<Rightarrow> Inl YamlError
      | Loaded root \<Rightarrow>
          steps (top_steps y (Found root) @
            [parseClientConfig y (Found root), parseProxyConfig y (Found root), parseReplicaConfig y (Found root)]) c)"


section \<open>What an accepted configuration has\<close>

text \<open>The fields that the file sets outside its sections.\<close>

definition top_fields :: "'f config_file \<Rightarrow> app_type \<times> string \<times> string \<times> bool \<times> bool" where
  "top_fields c = (pc_app c, pc_appStr c, pc_preserializationMode c, pc_useProxy c, pc_sendToLeader c)"

lemma in_section_InrE:
  assumes "in_section y root key k = Inr z"
  obtains node where "k node = Inr z"
  using assms by (auto simp: in_section_def split: lookup.splits)

lemma require_InrD: "require P a = Inr b \<Longrightarrow> b = a \<and> P a"
  by (simp add: require_def split: if_splits)

lemma check_intervals_InrD:
  "check_intervals a = Inr b \<Longrightarrow>
     b = a \<and> pc_replicaCheckpointInterval a \<noteq> 0 \<and> unat (pc_replicaSnapshotInterval a) mod unat (pc_replicaCheckpointInterval a) = 0"
  by (auto simp: check_intervals_def dest: require_InrD split: if_splits)

lemma rate_keeps: "parseRateIncrease y node a = Inr b \<Longrightarrow> top_fields b = top_fields a"
  by (auto simp: parseRateIncrease_def top_fields_def assign_def elim!: bindC_InrE split: lookup.splits)

lemma client_keeps:
  assumes "parseClientConfig y root c = Inr c'"
  shows "top_fields c' = top_fields c"
proof -
  from assms obtain node where *: "steps (client_steps y node) c = Inr c'"
    unfolding parseClientConfig_def by (rule in_section_InrE)
  show ?thesis
    by (rule steps_keep [OF *]) (auto simp: client_steps_def dest: rate_keeps dest!: assign_InrD, simp_all add: top_fields_def)
qed

lemma proxy_keeps:
  assumes "parseProxyConfig y root c = Inr c'"
  shows "top_fields c' = top_fields c"
proof -
  from assms obtain node where *: "steps (proxy_steps y node) c = Inr c'"
    unfolding parseProxyConfig_def by (rule in_section_InrE)
  show ?thesis by (rule steps_keep [OF *]) (auto simp: proxy_steps_def top_fields_def dest!: assign_InrD)
qed

lemma replica_keeps:
  assumes "parseReplicaConfig y root c = Inr c'"
  shows "top_fields c' = top_fields c"
proof -
  from assms obtain node where *: "steps (replica_steps y node) c = Inr c'"
    unfolding parseReplicaConfig_def by (rule in_section_InrE)
  show ?thesis
    by (rule steps_keep [OF *]) (auto simp: replica_steps_def top_fields_def dest!: assign_InrD check_intervals_InrD)
qed

lemma replica_intervals:
  assumes "parseReplicaConfig y root c = Inr c'"
  shows "pc_replicaCheckpointInterval c' \<noteq> 0" and "unat (pc_replicaSnapshotInterval c') mod unat (pc_replicaCheckpointInterval c') = 0"
proof -
  from assms obtain node where "steps (replica_steps y node) c = Inr c'"
    unfolding parseReplicaConfig_def by (rule in_section_InrE)
  then have "pc_replicaCheckpointInterval c' \<noteq> 0 \<and> unat (pc_replicaSnapshotInterval c') mod unat (pc_replicaCheckpointInterval c') = 0"
    by (auto simp: replica_steps_def elim!: bindC_InrE dest!: assign_InrD check_intervals_InrD)
  then show "pc_replicaCheckpointInterval c' \<noteq> 0" and "unat (pc_replicaSnapshotInterval c') mod unat (pc_replicaCheckpointInterval c') = 0"
    by simp_all
qed

definition top_ok :: "'f config_file \<Rightarrow> bool" where
  "top_ok c \<longleftrightarrow>
     (case top_fields c of (app, appStr, mode, useProxy, sendToLeader) \<Rightarrow>
        appStr = (case app of COUNTER \<Rightarrow> ''counter'' | KV_STORE \<Rightarrow> ''kv_store'') \<and>
        mode \<in> {''disabled'', ''full'', ''order''} \<and>
        (mode = ''disabled'' \<or> (\<not> useProxy \<and> (sendToLeader \<longleftrightarrow> mode = ''full''))))"

lemma resiliency_keeps: "parse_resiliency y root a = Inr b \<Longrightarrow> top_fields b = top_fields a \<and> pc_clientUseHMAC b = pc_clientUseHMAC a"
  by (auto simp: parse_resiliency_def top_fields_def elim!: bindC_InrE dest!: assign_InrD)

lemma check_app_InrD:
  "check_app a = Inr b \<Longrightarrow> b = a\<lparr>pc_app := pc_app b\<rparr> \<and> pc_appStr a = (case pc_app b of COUNTER \<Rightarrow> ''counter'' | KV_STORE \<Rightarrow> ''kv_store'')"
  by (auto simp: check_app_def split: if_splits)

lemma top_steps_ok:
  assumes "steps (top_steps y root) c = Inr c'"
  shows "top_ok c'" and "pc_clientUseHMAC c' = pc_clientUseHMAC c" and "pc_preserializationMode c' \<noteq> ''disabled'' \<longrightarrow> \<not> pc_clientUseHMAC c"
proof -
  from assms obtain c1 c2 c3 t a s m p l where
    1: "check_app (c\<lparr>pc_transport := t, pc_app := a, pc_appStr := s\<rparr>) = Inr c1" and
    2: "parse_resiliency y root c1 = Inr c2" and
    3: "require (\<lambda>c. pc_preserializationMode c \<in> {''disabled'', ''full'', ''order''}) (c2\<lparr>pc_preserializationMode := m\<rparr>) = Inr c3" and
    4: "check_mode (c3\<lparr>pc_useProxy := p, pc_sendToLeader := l\<rparr>) = Inr c'"
    unfolding top_steps_def by (auto elim!: bindC_InrE dest!: assign_InrD)
  note facts = check_app_InrD [OF 1] resiliency_keeps [OF 2] require_InrD [OF 3]
  have c3: "c3 = c2\<lparr>pc_preserializationMode := m\<rparr>" "m \<in> {''disabled'', ''full'', ''order''}" using facts(3) by simp_all
  have c': "c' = c3\<lparr>pc_useProxy := p, pc_sendToLeader := l\<rparr>" using 4 by (simp add: check_mode_def split: if_splits)
  have mode: "m = ''disabled'' \<or> (\<not> p \<and> \<not> pc_clientUseHMAC c3 \<and> (l \<longleftrightarrow> m = ''full''))"
    using 4 c3 by (auto simp: check_mode_def split: if_splits)
  have "pc_clientUseHMAC c1 = pc_clientUseHMAC c" using arg_cong [of _ _ pc_clientUseHMAC, OF conjunct1 [OF facts(1)]] by simp
  then have hmac: "pc_clientUseHMAC c3 = pc_clientUseHMAC c" using facts(2) c3 by simp
  have app: "pc_appStr c1 = s" using arg_cong [of _ _ pc_appStr, OF conjunct1 [OF facts(1)]] by simp
  then show "top_ok c'" using facts(1,2) c3 c' mode by (auto simp: top_ok_def top_fields_def)
  show "pc_clientUseHMAC c' = pc_clientUseHMAC c" using c' hmac by simp
  show "pc_preserializationMode c' \<noteq> ''disabled'' \<longrightarrow> \<not> pc_clientUseHMAC c" using c' c3 mode hmac by auto
qed

lemma parseConfig_InrE:
  assumes "parseConfig y file c = Inr c'"
  obtains root c1 c2 c3 where "file = Loaded root" "steps (top_steps y (Found root)) c = Inr c1"
    "parseClientConfig y (Found root) c1 = Inr c2" "parseProxyConfig y (Found root) c2 = Inr c3"
    "parseReplicaConfig y (Found root) c3 = Inr c'"
  using assms by (auto simp: parseConfig_def steps_append split: loaded.splits elim!: bindC_InrE)

lemma parseConfig_top:
  assumes "parseConfig y file c = Inr c'"
  shows "top_ok c'" and "pc_preserializationMode c' \<noteq> ''disabled'' \<longrightarrow> \<not> pc_clientUseHMAC c"
proof -
  from assms obtain root c1 c2 c3 where parts: "steps (top_steps y (Found root)) c = Inr c1"
    "parseClientConfig y (Found root) c1 = Inr c2" "parseProxyConfig y (Found root) c2 = Inr c3"
    "parseReplicaConfig y (Found root) c3 = Inr c'" by (rule parseConfig_InrE)
  have same: "top_fields c' = top_fields c1"
    using client_keeps [OF parts(2)] proxy_keeps [OF parts(3)] replica_keeps [OF parts(4)] by simp
  show "top_ok c'" using top_steps_ok(1) [OF parts(1)] by (simp add: top_ok_def same)
  have "pc_preserializationMode c' = pc_preserializationMode c1" using same by (simp add: top_fields_def)
  then show "pc_preserializationMode c' \<noteq> ''disabled'' \<longrightarrow> \<not> pc_clientUseHMAC c" using top_steps_ok(3) [OF parts(1)] by simp
qed

section \<open>The memory before\<close>

lemma bindC_if: "bindC (if b then r else r') k = (if b then bindC r k else bindC r' k)"
  by simp

lemma bindC_lookup:
  "bindC (case l of Throws \<Rightarrow> r | Absent \<Rightarrow> a | Found n \<Rightarrow> b n) k =
     (case l of Throws \<Rightarrow> bindC r k | Absent \<Rightarrow> bindC a k | Found n \<Rightarrow> bindC (b n) k)"
  by (cases l) simp_all

lemma vector_absent: "parseStringVector y Absent key xs = Inl YamlError"
  by (simp add: parseStringVector_def subnode_def)

lemmas section_defs = in_section_def parseClientConfig_def client_steps_def parseRateIncrease_def parseProxyConfig_def proxy_steps_def
  parseReplicaConfig_def replica_steps_def check_intervals_def require_def

lemmas top_defs = top_steps_def check_app_def parse_resiliency_def check_mode_def require_def

lemma config_overwrites:
  "parseConfig y file
    (c\<lparr>pc_transport := x0, pc_app := x1, pc_appStr := x2, pc_f := x3, pc_e := x4, pc_clientPort := x5,
     pc_clientKeysDir := x6, pc_clientRuntimeSeconds := x7, pc_clientNormalPathTimeout := x8,
     pc_clientRequestTimeout := x9, pc_clientMaxInFlight := x10, pc_clientSendRate := x11,
     pc_clientSendMode := x12, pc_clientRequestSize := x13, pc_clientSendProofs := x14,
     pc_clientNormalPathEnabled := x15, pc_rateIncrease_enabled := x16, pc_rateIncrease_seqThreshold := x17,
     pc_rateIncrease_durationUs := x18, pc_rateIncrease_increasedSendRate := x19,
     pc_rateIncrease_increasedMaxInFlight := x20, pc_proxyForwardPort := x21, pc_proxyOffsetCoefficient := x22,
     pc_proxyKeysDir := x23, pc_proxyMaxOwd := x24, pc_proxyBatchEnabled := x25, pc_proxyBatchMaxCount := x26,
     pc_proxyBatchMaxDelay := x27, pc_replicaPort := x28, pc_replicaCheckpointTimeout := x29,
     pc_replicaRepairTimeout := x30, pc_replicaRepairViewTimeout := x31, pc_replicaKeysDir := x32,
     pc_replicaNumSendThreads := x33, pc_replicaNumVerifyThreads := x34, pc_replicaCheckpointInterval := x35,
     pc_replicaSnapshotInterval := x36, pc_replicaIncludeFullRequests := x37, pc_replicaSkipAlignment := x38,
     pc_preserializationMode := x39, pc_useProxy := x40, pc_sendToLeader := x41\<rparr>) = parseConfig y file c"
  by (cases "file")
    (simp_all add: parseConfig_def top_defs section_defs assign_def bindC_assoc bindC_if bindC_lookup vector_absent
      cong: if_cong lookup.case_cong)

lemma top_hmac:
  assumes "steps (top_steps y root) c = Inr c'" and "pc_preserializationMode c' \<noteq> ''disabled''"
  shows "steps (top_steps y root) (c\<lparr>pc_clientUseHMAC := True\<rparr>) = Inl ConfigParseError"
  using assms
  by (auto simp: top_defs assign_def elim!: bindC_InrE split: if_splits)

section \<open>Properties\<close>

text \<open>A configuration that is read without an exception names a known application and a known mode; a mode other than
  \<open>disabled\<close> comes without the proxies and with \<open>sendToLeader\<close> exactly for \<open>full\<close>; and the snapshot interval is a multiple of
  the checkpoint interval, which is not zero.\<close>

theorem config_accepted_valid:
  assumes "parseConfig y file c = Inr c'"
  shows "pc_appStr c' = (case pc_app c' of COUNTER \<Rightarrow> ''counter'' | KV_STORE \<Rightarrow> ''kv_store'') \<and>
    pc_preserializationMode c' \<in> {''disabled'', ''full'', ''order''} \<and>
    (pc_preserializationMode c' = ''disabled'' \<or>
      (\<not> pc_useProxy c' \<and> (pc_sendToLeader c' \<longleftrightarrow> pc_preserializationMode c' = ''full''))) \<and>
    pc_replicaCheckpointInterval c' \<noteq> 0 \<and> unat (pc_replicaSnapshotInterval c') mod unat (pc_replicaCheckpointInterval c') = 0"
proof -
  from assms obtain root c3 where "parseReplicaConfig y (Found root) c3 = Inr c'" by (rule parseConfig_InrE)
  then show ?thesis
    using parseConfig_top(1) [OF assms] replica_intervals by (auto simp: top_ok_def top_fields_def)
qed

text \<open>What is read depends on the memory before only in the three vectors, to which the addresses are appended, and in
  \<open>clientUseHMAC\<close>: every other field is set before it is used.\<close>

theorem config_memory_independent:
  assumes "pc_clientIps d = pc_clientIps c" and "pc_proxyIps d = pc_proxyIps c" and "pc_replicaIps d = pc_replicaIps c"
    and "pc_clientUseHMAC d = pc_clientUseHMAC c"
  shows "parseConfig y file d = parseConfig y file c"
proof -
  have "d = c\<lparr>pc_transport := pc_transport d, pc_app := pc_app d, pc_appStr := pc_appStr d, pc_f := pc_f d, pc_e := pc_e d,
     pc_clientPort := pc_clientPort d, pc_clientKeysDir := pc_clientKeysDir d,
     pc_clientRuntimeSeconds := pc_clientRuntimeSeconds d,
     pc_clientNormalPathTimeout := pc_clientNormalPathTimeout d,
     pc_clientRequestTimeout := pc_clientRequestTimeout d, pc_clientMaxInFlight := pc_clientMaxInFlight d,
     pc_clientSendRate := pc_clientSendRate d, pc_clientSendMode := pc_clientSendMode d,
     pc_clientRequestSize := pc_clientRequestSize d, pc_clientSendProofs := pc_clientSendProofs d,
     pc_clientNormalPathEnabled := pc_clientNormalPathEnabled d,
     pc_rateIncrease_enabled := pc_rateIncrease_enabled d,
     pc_rateIncrease_seqThreshold := pc_rateIncrease_seqThreshold d,
     pc_rateIncrease_durationUs := pc_rateIncrease_durationUs d,
     pc_rateIncrease_increasedSendRate := pc_rateIncrease_increasedSendRate d,
     pc_rateIncrease_increasedMaxInFlight := pc_rateIncrease_increasedMaxInFlight d,
     pc_proxyForwardPort := pc_proxyForwardPort d, pc_proxyOffsetCoefficient := pc_proxyOffsetCoefficient d,
     pc_proxyKeysDir := pc_proxyKeysDir d, pc_proxyMaxOwd := pc_proxyMaxOwd d,
     pc_proxyBatchEnabled := pc_proxyBatchEnabled d, pc_proxyBatchMaxCount := pc_proxyBatchMaxCount d,
     pc_proxyBatchMaxDelay := pc_proxyBatchMaxDelay d, pc_replicaPort := pc_replicaPort d,
     pc_replicaCheckpointTimeout := pc_replicaCheckpointTimeout d,
     pc_replicaRepairTimeout := pc_replicaRepairTimeout d,
     pc_replicaRepairViewTimeout := pc_replicaRepairViewTimeout d, pc_replicaKeysDir := pc_replicaKeysDir d,
     pc_replicaNumSendThreads := pc_replicaNumSendThreads d,
     pc_replicaNumVerifyThreads := pc_replicaNumVerifyThreads d,
     pc_replicaCheckpointInterval := pc_replicaCheckpointInterval d,
     pc_replicaSnapshotInterval := pc_replicaSnapshotInterval d,
     pc_replicaIncludeFullRequests := pc_replicaIncludeFullRequests d,
     pc_replicaSkipAlignment := pc_replicaSkipAlignment d, pc_preserializationMode := pc_preserializationMode d,
     pc_useProxy := pc_useProxy d, pc_sendToLeader := pc_sendToLeader d\<rparr>"
    by (rule config_file.equality) (simp_all add: assms)
  then show ?thesis by (metis config_overwrites)
qed

text \<open>C36: the check that excludes a MAC for the modes with preserialisation reads \<open>clientUseHMAC\<close> before the file sets it:
  a file with such a mode is accepted only if the memory of the new configuration holds no, whatever the file says, and with
  a yes there the same file is refused.\<close>

theorem config_hmac_unset:
  assumes "parseConfig y file c = Inr c'" and "pc_preserializationMode c' \<noteq> ''disabled''"
  shows "\<not> pc_clientUseHMAC c \<and> parseConfig y file (c\<lparr>pc_clientUseHMAC := True\<rparr>) = Inl ConfigParseError"
proof -
  from assms(1) obtain root c1 c2 c3 where parts: "file = Loaded root" "steps (top_steps y (Found root)) c = Inr c1"
    "parseClientConfig y (Found root) c1 = Inr c2" "parseProxyConfig y (Found root) c2 = Inr c3"
    "parseReplicaConfig y (Found root) c3 = Inr c'" by (rule parseConfig_InrE)
  have "top_fields c' = top_fields c1"
    using client_keeps [OF parts(3)] proxy_keeps [OF parts(4)] replica_keeps [OF parts(5)] by simp
  then have "pc_preserializationMode c1 \<noteq> ''disabled''" using assms(2) by (simp add: top_fields_def)
  then have "steps (top_steps y (Found root)) (c\<lparr>pc_clientUseHMAC := True\<rparr>) = Inl ConfigParseError" by (rule top_hmac [OF parts(2)])
  then show ?thesis using parseConfig_top(2) [OF assms(1)] assms(2) parts(1) by (simp add: parseConfig_def steps_append)
qed

section \<open>A file\<close>

datatype demo_node = Num u32 | Flag bool | Str string | Mapping "(string \<times> demo_node) list" | Items "demo_node list"

definition demo_yaml :: "(demo_node, unit) yaml" where
  "demo_yaml =
     \<lparr>y_get = (\<lambda>n key. case n of Mapping m \<Rightarrow> (case map_of m key of None \<Rightarrow> Absent | Some v \<Rightarrow> Found v) | _ \<Rightarrow> Throws),
      y_size = (\<lambda>n. case n of Items xs \<Rightarrow> length xs | Mapping m \<Rightarrow> length m | _ \<Rightarrow> 0),
      y_elem = (\<lambda>n i. case n of Items xs \<Rightarrow> (if i < length xs then Found (xs ! i) else Absent) | Mapping m \<Rightarrow> Absent | _ \<Rightarrow> Throws),
      y_string = (\<lambda>n. case n of Str s \<Rightarrow> Some s | _ \<Rightarrow> None), y_int = (\<lambda>n. case n of Num w \<Rightarrow> Some w | _ \<Rightarrow> None),
      y_uint32 = (\<lambda>n. case n of Num w \<Rightarrow> Some w | _ \<Rightarrow> None),
      y_uint64 = (\<lambda>n. case n of Num w \<Rightarrow> Some (ucast w) | _ \<Rightarrow> None), y_bool = (\<lambda>n. case n of Flag b \<Rightarrow> Some b | _ \<Rightarrow> None),
      y_float = (\<lambda>n. None), y_map = (\<lambda>n. None), y_float_default = ()\<rparr>"

definition demo_memory :: "unit config_file" where
  "demo_memory =
     \<lparr>pc_transport = '''', pc_app = COUNTER, pc_appStr = '''', pc_f = 0, pc_e = 0, pc_clientIps = [],
      pc_clientPort = 0, pc_clientKeysDir = '''', pc_clientRuntimeSeconds = 0, pc_clientNormalPathTimeout = 0,
      pc_clientRequestTimeout = 0, pc_clientMaxInFlight = 0, pc_clientSendRate = 0, pc_clientSendMode = '''',
      pc_clientRequestSize = 0, pc_clientUseHMAC = False, pc_clientSendProofs = False,
      pc_clientNormalPathEnabled = False, pc_rateIncrease_enabled = False, pc_rateIncrease_seqThreshold = 0,
      pc_rateIncrease_durationUs = 0, pc_rateIncrease_increasedSendRate = 0,
      pc_rateIncrease_increasedMaxInFlight = 0, pc_proxyIps = [], pc_proxyForwardPort = 0,
      pc_proxyOffsetCoefficient = (), pc_proxyKeysDir = '''', pc_proxyMaxOwd = 0, pc_proxyBatchEnabled = False,
      pc_proxyBatchMaxCount = 0, pc_proxyBatchMaxDelay = 0, pc_replicaIps = [], pc_replicaPort = 0,
      pc_replicaCheckpointTimeout = 0, pc_replicaRepairTimeout = 0, pc_replicaRepairViewTimeout = 0,
      pc_replicaKeysDir = '''', pc_replicaNumSendThreads = 0, pc_replicaNumVerifyThreads = 0,
      pc_replicaCheckpointInterval = 0, pc_replicaSnapshotInterval = 0, pc_replicaIncludeFullRequests = False,
      pc_replicaSkipAlignment = False, pc_preserializationMode = '''', pc_useProxy = False,
      pc_sendToLeader = False\<rparr>"

definition demo_file :: "string \<Rightarrow> demo_node" where
  "demo_file mode = Mapping
     [(''transport'', Str ''nng''), (''app'', Str ''counter''), (''preserializationMode'', Str mode),
      (''useProxy'', Flag False), (''sendToLeader'', Flag (mode = ''full'')),
      (''client'', Mapping [(''ips'', Items [Str ''10.0.0.1'']), (''port'', Num 33000), (''runtimeSeconds'', Num 300),
         (''maxInFlight'', Num 10), (''sendRate'', Num 100), (''sendMode'', Str ''sendRate''), (''requestSize'', Num 512),
         (''useHMAC'', Flag True)]),
      (''proxy'', Mapping [(''ips'', Items [Str ''10.0.0.2'']), (''forwardPort'', Num 31000), (''keysDir'', Str ''keys/proxy'')]),
      (''replica'', Mapping [(''ips'', Items (map (\<lambda>i. Str [i]) ''abcdef'')), (''port'', Num 34000), (''keysDir'', Str ''keys/replica''),
         (''checkpointInterval'', Num 5000), (''snapshotInterval'', Num 25000)])]"

definition demo_read :: "string \<Rightarrow> unit config_file" where
  "demo_read mode =
     \<lparr>pc_transport = ''nng'', pc_app = COUNTER, pc_appStr = ''counter'', pc_f = 1, pc_e = 1,
      pc_clientIps = [''10.0.0.1''], pc_clientPort = 33000, pc_clientKeysDir = ''keys/client'',
      pc_clientRuntimeSeconds = 300, pc_clientNormalPathTimeout = 100000, pc_clientRequestTimeout = 1000000,
      pc_clientMaxInFlight = 10, pc_clientSendRate = 100, pc_clientSendMode = ''sendRate'',
      pc_clientRequestSize = 512, pc_clientUseHMAC = True, pc_clientSendProofs = False,
      pc_clientNormalPathEnabled = False, pc_rateIncrease_enabled = False, pc_rateIncrease_seqThreshold = 0,
      pc_rateIncrease_durationUs = 10000000, pc_rateIncrease_increasedSendRate = 0,
      pc_rateIncrease_increasedMaxInFlight = 0, pc_proxyIps = [''10.0.0.2''], pc_proxyForwardPort = 31000,
      pc_proxyOffsetCoefficient = (), pc_proxyKeysDir = ''keys/proxy'', pc_proxyMaxOwd = 100000,
      pc_proxyBatchEnabled = False, pc_proxyBatchMaxCount = 50, pc_proxyBatchMaxDelay = 5000,
      pc_replicaIps = map (\<lambda>i. [i]) ''abcdef'', pc_replicaPort = 34000,
      pc_replicaCheckpointTimeout = 100000, pc_replicaRepairTimeout = 500000,
      pc_replicaRepairViewTimeout = 1000000, pc_replicaKeysDir = ''keys/replica'',
      pc_replicaNumSendThreads = 2, pc_replicaNumVerifyThreads = 2, pc_replicaCheckpointInterval = 5000,
      pc_replicaSnapshotInterval = 25000, pc_replicaIncludeFullRequests = True,
      pc_replicaSkipAlignment = False, pc_preserializationMode = mode, pc_useProxy = False,
      pc_sendToLeader = (mode = ''full'')\<rparr>"

lemma demo_file_accepted: "parseConfig demo_yaml (Loaded (demo_file ''full'')) demo_memory = Inr (demo_read ''full'')"
  by (simp add: parseConfig_def top_defs section_defs assign_def parseField_def parseFieldDefault_def parseStringVector_def subnode_def
      convert_def at_def demo_yaml_def demo_file_def demo_memory_def demo_read_def upt_rec)

lemma demo_read_full:
  "pc_preserializationMode (demo_read ''full'') = ''full''" "pc_clientUseHMAC (demo_read ''full'')"
  by (simp_all add: demo_read_def)

theorem config_accepted_valid_witness:
  "\<not> pc_useProxy (demo_read ''full'') \<and> pc_sendToLeader (demo_read ''full'')"
  using config_accepted_valid [OF demo_file_accepted] by (simp add: demo_read_full)

theorem config_hmac_unset_witness:
  "parseConfig demo_yaml (Loaded (demo_file ''full'')) (demo_memory\<lparr>pc_clientUseHMAC := True\<rparr>) = Inl ConfigParseError \<and>
     pc_clientUseHMAC (demo_read ''full'')"
  using config_hmac_unset [OF demo_file_accepted] by (simp add: demo_read_full)

theorem config_memory_independent_witness:
  "parseConfig demo_yaml (Loaded (demo_file ''full'')) (demo_memory\<lparr>pc_replicaCheckpointInterval := 7, pc_useProxy := True\<rparr>) =
     Inr (demo_read ''full'')"
  using config_memory_independent [of "demo_memory\<lparr>pc_replicaCheckpointInterval := 7, pc_useProxy := True\<rparr>" demo_memory
      demo_yaml "Loaded (demo_file ''full'')"]
  by (simp add: demo_file_accepted)

end
