(* ===== verification/Ports.thy ===== *)
theory Ports
  imports Prelude
begin

text \<open>
  The port mapping of the pair sockets (\<open>lib/config/config_util.cc\<close>): for each process the pairs of a
  local and a remote address, one per peer. A port is the \<open>uint32_t\<close> the sums have in C++; an
  identifier out of range is an access out of range.
\<close>

section \<open>The mapping\<close>

text \<open>The network fields of \<open>ProcessConfig\<close>, and \<open>Address\<close>.\<close>

record net_config =
  nc_replicaIps :: "bytes list"
  nc_clientIps :: "bytes list"
  nc_proxyIps :: "bytes list"
  nc_replicaPort :: u32
  nc_clientPort :: u32
  nc_proxyForwardPort :: u32

type_synonym address = "bytes \<times> u32"

abbreviation size32 :: "'a list \<Rightarrow> u32" where
  "size32 xs \<equiv> of_nat (length xs)"

definition addAddrPairs :: "bytes \<Rightarrow> u32 \<Rightarrow> bytes list \<Rightarrow> u32 \<Rightarrow> (address \<times> address) list" where
  "addAddrPairs myIp myBasePort theirIps theirPort =
     map (\<lambda>i. ((myIp, myBasePort + of_nat i), (theirIps ! i, theirPort))) [0..<length theirIps]"

definition addAddrPairsToClient :: "bytes \<Rightarrow> u32 \<Rightarrow> bytes list \<Rightarrow> u32 \<Rightarrow> u32 \<Rightarrow> (address \<times> address) list" where
  "addAddrPairsToClient myIp myBasePort theirIps theirPort portRangeWidth =
     map (\<lambda>i. ((myIp, myBasePort + of_nat i), (theirIps ! i, theirPort + of_nat i * portRangeWidth))) [0..<length theirIps]"

definition ip_at :: "bytes list \<Rightarrow> u32 \<Rightarrow> bytes res" where
  "ip_at ips i = (if unat i < length ips then Inr (ips ! unat i) else Inl Undefined)"

definition port_width :: "net_config \<Rightarrow> u32" where
  "port_width c = of_nat (length (nc_proxyIps c) + length (nc_replicaIps c))"

definition getClientAddrs :: "net_config \<Rightarrow> u32 \<Rightarrow> (address \<times> address) list res" where
  "getClientAddrs c i =
     bindE (ip_at (nc_clientIps c) i) (\<lambda>clientIp.
     let clientBase = nc_clientPort c + i * port_width c
     in Inr (addAddrPairs clientIp clientBase (nc_replicaIps c) (nc_replicaPort c + i) @
             addAddrPairs clientIp (clientBase + size32 (nc_replicaIps c)) (nc_proxyIps c) (nc_proxyForwardPort c + i)))"

definition getProxyAddrs :: "net_config \<Rightarrow> u32 \<Rightarrow> (address \<times> address) list res" where
  "getProxyAddrs c i =
     bindE (ip_at (nc_proxyIps c) i) (\<lambda>proxyIp.
     Inr (addAddrPairsToClient proxyIp (nc_proxyForwardPort c) (nc_clientIps c)
            (nc_clientPort c + size32 (nc_replicaIps c) + i) (port_width c) @
          addAddrPairs proxyIp (nc_proxyForwardPort c + size32 (nc_clientIps c)) (nc_replicaIps c)
            (nc_replicaPort c + size32 (nc_clientIps c) + i)))"

definition getReplicaAddrs :: "net_config \<Rightarrow> u32 \<Rightarrow> (address \<times> address) list res" where
  "getReplicaAddrs c i =
     bindE (ip_at (nc_replicaIps c) i) (\<lambda>replicaIp.
     let base = nc_replicaPort c + size32 (nc_clientIps c) + size32 (nc_proxyIps c)
     in Inr (addAddrPairsToClient replicaIp (nc_replicaPort c) (nc_clientIps c) (nc_clientPort c + i) (port_width c) @
             addAddrPairs replicaIp (nc_replicaPort c + size32 (nc_clientIps c)) (nc_proxyIps c)
               (nc_proxyForwardPort c + size32 (nc_clientIps c) + i) @
             map (\<lambda>j. ((replicaIp, base + of_nat j), (nc_replicaIps c ! j, base + i))) [0..<length (nc_replicaIps c)]))"

section \<open>Links\<close>

datatype process = P_Client u32 | P_Proxy u32 | P_Replica u32

fun addrs :: "net_config \<Rightarrow> process \<Rightarrow> (address \<times> address) list res" where
  "addrs c (P_Client i) = getClientAddrs c i"
| "addrs c (P_Proxy i) = getProxyAddrs c i"
| "addrs c (P_Replica i) = getReplicaAddrs c i"

text \<open>Where the pair for the peer stands in the list of a process.\<close>

fun slot :: "net_config \<Rightarrow> process \<Rightarrow> process \<Rightarrow> nat option" where
  "slot c (P_Client _) (P_Replica j) = Some (unat j)"
| "slot c (P_Client _) (P_Proxy j) = Some (length (nc_replicaIps c) + unat j)"
| "slot c (P_Proxy _) (P_Client j) = Some (unat j)"
| "slot c (P_Proxy _) (P_Replica j) = Some (length (nc_clientIps c) + unat j)"
| "slot c (P_Replica _) (P_Client j) = Some (unat j)"
| "slot c (P_Replica _) (P_Proxy j) = Some (length (nc_clientIps c) + unat j)"
| "slot c (P_Replica _) (P_Replica j) = Some (length (nc_clientIps c) + length (nc_proxyIps c) + unat j)"
| "slot c _ _ = None"

fun process_ok :: "net_config \<Rightarrow> process \<Rightarrow> bool" where
  "process_ok c (P_Client i) = (unat i < length (nc_clientIps c))"
| "process_ok c (P_Proxy i) = (unat i < length (nc_proxyIps c))"
| "process_ok c (P_Replica i) = (unat i < length (nc_replicaIps c))"

lemmas addr_defs = getClientAddrs_def getProxyAddrs_def getReplicaAddrs_def ip_at_def addAddrPairs_def addAddrPairsToClient_def
  port_width_def Let_def

lemma client_replica:
  assumes "unat i < length (nc_clientIps c)" and "unat j < length (nc_replicaIps c)"
  shows "\<exists>ps qs. getClientAddrs c i = Inr ps \<and> getReplicaAddrs c j = Inr qs \<and> unat j < length ps \<and> unat i < length qs \<and>
    qs ! unat i = prod.swap (ps ! unat j)"
  using assms by (simp add: addr_defs nth_append algebra_simps)

lemma client_proxy:
  assumes "unat i < length (nc_clientIps c)" and "unat j < length (nc_proxyIps c)"
  shows "\<exists>ps qs. getClientAddrs c i = Inr ps \<and> getProxyAddrs c j = Inr qs \<and>
    length (nc_replicaIps c) + unat j < length ps \<and> unat i < length qs \<and>
    qs ! unat i = prod.swap (ps ! (length (nc_replicaIps c) + unat j))"
  using assms by (simp add: addr_defs nth_append algebra_simps)

lemma proxy_replica:
  assumes "unat i < length (nc_proxyIps c)" and "unat j < length (nc_replicaIps c)"
  shows "\<exists>ps qs. getProxyAddrs c i = Inr ps \<and> getReplicaAddrs c j = Inr qs \<and>
    length (nc_clientIps c) + unat j < length ps \<and> length (nc_clientIps c) + unat i < length qs \<and>
    qs ! (length (nc_clientIps c) + unat i) = prod.swap (ps ! (length (nc_clientIps c) + unat j))"
  using assms by (simp add: addr_defs nth_append algebra_simps)

lemma replica_replica:
  assumes "unat i < length (nc_replicaIps c)" and "unat j < length (nc_replicaIps c)"
  shows "\<exists>ps qs. getReplicaAddrs c i = Inr ps \<and> getReplicaAddrs c j = Inr qs \<and>
    length (nc_clientIps c) + length (nc_proxyIps c) + unat j < length ps \<and>
    length (nc_clientIps c) + length (nc_proxyIps c) + unat i < length qs \<and>
    qs ! (length (nc_clientIps c) + length (nc_proxyIps c) + unat i) =
      prod.swap (ps ! (length (nc_clientIps c) + length (nc_proxyIps c) + unat j))"
  using assms by (simp add: addr_defs nth_append algebra_simps)

section \<open>Properties\<close>

text \<open>The two ends of every link are configured alike: where a process has a pair of a local and a remote address for a
  peer, the peer has the same pair swapped, at the place for this process, for all identifiers in range and
  whatever the base ports are, sums that wrap included.\<close>

theorem ports_links_symmetric:
  assumes "process_ok c p" and "process_ok c q" and "slot c p q = Some k" and "slot c q p = Some l"
  shows "\<exists>ps qs. addrs c p = Inr ps \<and> addrs c q = Inr qs \<and> k < length ps \<and> l < length qs \<and> qs ! l = prod.swap (ps ! k)"
proof (cases p; cases q)
  fix i j assume pq: "p = P_Client i" "q = P_Replica j"
  then show ?thesis using assms client_replica [of i c j] by simp
next
  fix i j assume pq: "p = P_Replica j" "q = P_Client i"
  then show ?thesis using assms client_replica [of i c j] by fastforce
next
  fix i j assume pq: "p = P_Client i" "q = P_Proxy j"
  then show ?thesis using assms client_proxy [of i c j] by simp
next
  fix i j assume pq: "p = P_Proxy j" "q = P_Client i"
  then show ?thesis using assms client_proxy [of i c j] by fastforce
next
  fix i j assume pq: "p = P_Proxy i" "q = P_Replica j"
  then show ?thesis using assms proxy_replica [of i c j] by simp
next
  fix i j assume pq: "p = P_Replica j" "q = P_Proxy i"
  then show ?thesis using assms proxy_replica [of i c j] by fastforce
next
  fix i j assume pq: "p = P_Replica i" "q = P_Replica j"
  then show ?thesis using assms replica_replica [of i c j] by simp
qed (use assms in simp_all)

definition demo_net :: net_config where
  "demo_net = \<lparr>nc_replicaIps = [[1], [2]], nc_clientIps = [[3]], nc_proxyIps = [[4]], nc_replicaPort = 33000, nc_clientPort = 32000,
     nc_proxyForwardPort = 31000\<rparr>"

theorem ports_links_symmetric_witness:
  "\<exists>qs. addrs demo_net (P_Replica 1) = Inr qs \<and> qs ! 0 = (([2], 33000), ([3], 32001))"
proof -
  have "addrs demo_net (P_Client 0) = Inr [(([3], 32000), [1], 33000), (([3], 32001), [2], 33000), (([3], 32002), [4], 31000)]"
    by (simp add: addr_defs demo_net_def)
  then show ?thesis
    using ports_links_symmetric [of demo_net "P_Client 0" "P_Replica 1" 1 0] by (auto simp: demo_net_def)
qed

end
