(* ===== verification/Dummy.thy ===== *)
theory Dummy
  imports Wire
begin

text \<open>
  The dummy replica (\<open>processes/replica/dummy_replica.h\<close> and \<open>.cc\<close>), which answers clients without executing
  requests, in the message pattern of one of three protocols: a PBFT that counts prepares and commits per
  sequence number, a Zyzzyva in which every replica answers the leader's order, and replies alone. Sending, which
  the code leaves to a thread pool, appends to \<open>dr_out\<close>; signing is not modelled.
\<close>

section \<open>Messages and state\<close>

record dummy_request =
  dq_client_id :: u32
  dq_client_seq :: u32
  dq_req :: "client_request option"
  dq_sig :: bytes

record dummy_message =
  dm_phase :: u32
  dm_replica_id :: u32
  dm_seq :: u32
  dm_client_reqs :: "dummy_request list"

datatype dummy_protocol = Dummy_PBFT | Dummy_ZYZ | Dummy_DOM_BFT | Full_DOM_BFT

datatype dummy_dst = Du_Replicas | Du_Client u32

datatype dummy_out = DO_Message dummy_message | DO_Reply reply | DO_Summary repair_summary

record 'k dummy_env =
  de_id :: u32
  de_prot :: dummy_protocol
  de_batchSize :: u32
  de_quorumSize :: u32
  de_numClients :: nat
  de_useHMAC :: bool
  de_ownAddr :: bytes
  de_wire :: "'k wire_params"
  de_parse :: "bytes \<Rightarrow> dummy_message option"

record dummy_replica =
  dr_verifyQueue :: "frame list"
  dr_processQueue :: "frame list"
  dr_processEnded :: bool
  dr_nextSeq :: u32
  dr_committedSeq :: u32
  dr_prepareCounts :: "(u32, u32) smap"
  dr_commitCounts :: "(u32, u32) smap"
  dr_batchQueue :: "(client_request \<times> bytes) list"
  dr_out :: "(dummy_dst \<times> message_type \<times> dummy_out) list"

definition dummy_init :: "'k dummy_env \<Rightarrow> dummy_replica" where
  "dummy_init env =
     \<lparr>dr_verifyQueue = [], dr_processQueue = [], dr_processEnded = False, dr_nextSeq = de_batchSize env, dr_committedSeq = 0,
      dr_prepareCounts = [], dr_commitCounts = [], dr_batchQueue = [], dr_out = []\<rparr>"

section \<open>Sending\<close>

definition dr_send :: "dummy_dst \<Rightarrow> message_type \<Rightarrow> dummy_out \<Rightarrow> dummy_replica \<Rightarrow> dummy_replica" where
  "dr_send dst t m s = s\<lparr>dr_out := dr_out s @ [(dst, t, m)]\<rparr>"

definition dr_broadcast :: "dummy_message \<Rightarrow> dummy_replica \<Rightarrow> dummy_replica" where
  "dr_broadcast m s = dr_send Du_Replicas DUMMY_PROTO (DO_Message m) s"

text \<open>\<open>clientAddrs_[clientId]\<close>\<close>

definition dr_to_client :: "'k dummy_env \<Rightarrow> u32 \<Rightarrow> message_type \<Rightarrow> dummy_out \<Rightarrow> dummy_replica \<Rightarrow> dummy_replica res" where
  "dr_to_client env c t m s = (if de_numClients env \<le> unat c then Inl Undefined else Inr (dr_send (Du_Client c) t m s))"

definition dummy_reply :: "'k dummy_env \<Rightarrow> u32 \<Rightarrow> u32 \<Rightarrow> u32 \<Rightarrow> reply" where
  "dummy_reply env c q n =
     \<lparr>rep_client_id = c, rep_client_seq = q, rep_round = 0, rep_seq = n, rep_replica_id = de_id env, rep_result = [],
      rep_digest = replicate 32 0, rep_queued = False\<rparr>"

section \<open>Client requests\<close>

text \<open>The queue of the leader becomes one message when it holds a batch.\<close>

definition dummy_processClientRequest :: "'k dummy_env \<Rightarrow> client_request \<Rightarrow> bytes \<Rightarrow> dummy_replica \<Rightarrow> dummy_replica res" where
  "dummy_processClientRequest env request sig s =
     (if de_prot env = Dummy_DOM_BFT then
        dr_to_client env (crq_client_id request) REPLY (DO_Reply (dummy_reply env (crq_client_id request) (crq_client_seq request) 0))
          (s\<lparr>dr_nextSeq := dr_nextSeq s + 1\<rparr>)
      else if de_id env \<noteq> 0 then Inr s
      else
        let s1 = s\<lparr>dr_batchQueue := dr_batchQueue s @ [(request, sig)]\<rparr>
        in if length (dr_batchQueue s1) < unat (de_batchSize env) then Inr s1
           else
             let preprepare = \<lparr>dm_phase = 0, dm_replica_id = de_id env, dm_seq = dr_nextSeq s1,
                   dm_client_reqs = map (\<lambda>(req, sig). \<lparr>dq_client_id = crq_client_id req, dq_client_seq = crq_client_seq req,
                     dq_req = Some req, dq_sig = sig\<rparr>) (dr_batchQueue s1)\<rparr>
             in Inr ((dr_broadcast preprepare (s1\<lparr>dr_batchQueue := []\<rparr>))\<lparr>dr_nextSeq := dr_nextSeq s1 + de_batchSize env\<rparr>))"

section \<open>Protocol messages\<close>

definition dummy_preprepare :: "'k dummy_env \<Rightarrow> dummy_message \<Rightarrow> dummy_replica \<Rightarrow> dummy_replica res" where
  "dummy_preprepare env m s =
     (if de_prot env = Dummy_PBFT then
        Inr (dr_broadcast (m\<lparr>dm_phase := 1, dm_replica_id := de_id env,
               dm_client_reqs := map (\<lambda>r. r\<lparr>dq_req := None\<rparr>) (dm_client_reqs m)\<rparr>) s)
      else if de_prot env = Dummy_ZYZ then
        foldE (\<lambda>(i, r) t. dr_to_client env (dq_client_id r) REPLY
                 (DO_Reply (dummy_reply env (dq_client_id r) (dq_client_seq r) (dm_seq m + of_nat i))) t)
          (enumerate 0 (dm_client_reqs m)) s
      else Inr s)"

text \<open>\<open>counts[seq]++\<close>\<close>

definition count_up :: "u32 \<Rightarrow> (u32, u32) smap \<Rightarrow> (u32, u32) smap" where
  "count_up q m = sm_put q (sm_at 0 m q + 1) m"

definition dummy_prepare :: "'k dummy_env \<Rightarrow> dummy_message \<Rightarrow> dummy_replica \<Rightarrow> dummy_replica" where
  "dummy_prepare env m s =
     (if de_prot env \<noteq> Dummy_PBFT \<or> dm_seq m \<le> dr_committedSeq s then s
      else
        let s1 = s\<lparr>dr_prepareCounts := count_up (dm_seq m) (dr_prepareCounts s)\<rparr>
        in if sm_at 0 (dr_prepareCounts s1) (dm_seq m) = de_quorumSize env
           then dr_broadcast (m\<lparr>dm_phase := 2, dm_replica_id := de_id env\<rparr>) s1 else s1)"

text \<open>The numbers of each client in a committed batch, and the summary for the client.\<close>

definition client_seqs :: "dummy_request list \<Rightarrow> (u32, u32 list) smap" where
  "client_seqs rs = fold (\<lambda>r m. sm_put (dq_client_id r) (insort_insert (dq_client_seq r) (sm_at [] m (dq_client_id r))) m) rs []"

definition dummy_summary :: "'k dummy_env \<Rightarrow> u32 \<Rightarrow> u32 \<Rightarrow> u32 list \<Rightarrow> repair_summary" where
  "dummy_summary env n c qs =
     \<lparr>sum_round = 0, sum_replica_id = de_id env,
      sum_replies = map (\<lambda>q. \<lparr>cr_replica_id = de_id env, cr_client_id = c, cr_client_seq = q, cr_seq = n, cr_result = [],
        cr_is_repair = False\<rparr>) qs,
      sum_pbft_view = 0, sum_committed_seqs = \<lparr>csp_client_id = 0, csp_last_seq = 0, csp_missed_seqs = []\<rparr>\<rparr>"

text \<open>The loop that forgets the counts of the numbers committed so far. It does not end when the quorum is zero.\<close>

partial_function (option) dummy_cleanup :: "u32 \<Rightarrow> u32 \<Rightarrow> dummy_replica \<Rightarrow> dummy_replica option" where
  "dummy_cleanup quorum batch s =
     (let k = dr_committedSeq s + batch; s1 = s\<lparr>dr_commitCounts := sm_insert k 0 (dr_commitCounts s)\<rparr>
      in if quorum \<le> sm_at 0 (dr_commitCounts s1) k
         then dummy_cleanup quorum batch (s1\<lparr>dr_committedSeq := k, dr_commitCounts := filter (\<lambda>p. k < fst p) (dr_commitCounts s1),
                dr_prepareCounts := filter (\<lambda>p. k < fst p) (dr_prepareCounts s1)\<rparr>)
         else Some s1)"

definition dummy_commit :: "'k dummy_env \<Rightarrow> dummy_message \<Rightarrow> dummy_replica \<Rightarrow> dummy_replica res option" where
  "dummy_commit env m s =
     (if de_prot env \<noteq> Dummy_PBFT \<or> dm_seq m \<le> dr_committedSeq s then Some (Inr s)
      else
        let s1 = s\<lparr>dr_commitCounts := count_up (dm_seq m) (dr_commitCounts s)\<rparr>
        in if sm_at 0 (dr_commitCounts s1) (dm_seq m) \<noteq> de_quorumSize env then Some (Inr s1)
           else
             case foldE (\<lambda>(c, qs) t. dr_to_client env c REPAIR_SUMMARY (DO_Summary (dummy_summary env (dm_seq m) c qs)) t)
                    (client_seqs (dm_client_reqs m)) s1 of
               Inl e \<Rightarrow> Some (Inl e)
             | Inr s2 \<Rightarrow> map_option Inr (dummy_cleanup (de_quorumSize env) (de_batchSize env) s2))"

definition dummy_proto :: "'k dummy_env \<Rightarrow> dummy_message \<Rightarrow> dummy_replica \<Rightarrow> dummy_replica res option" where
  "dummy_proto env m s =
     (if dm_phase m = 0 then Some (dummy_preprepare env m s)
      else if dm_phase m = 1 then Some (Inr (dummy_prepare env m s))
      else if dm_phase m = 2 then dummy_commit env m s
      else Some (Inr s))"

section \<open>The process\<close>

definition is_client_type :: "message_type option \<Rightarrow> bool" where
  "is_client_type t \<longleftrightarrow> t \<in> {Some CLIENT_REQUEST, Some PS_CLIENT, Some PS_LEADER_FORWARD}"

definition parse_client :: "'k dummy_env \<Rightarrow> bytes \<Rightarrow> client_request option" where
  "parse_client env b = (case wp_parse (de_wire env) CLIENT_REQUEST b of Some (M_ClientRequest r) \<Rightarrow> Some r | _ \<Rightarrow> None)"

definition parse_dom :: "'k dummy_env \<Rightarrow> bytes \<Rightarrow> dom_request option" where
  "parse_dom env b = (case wp_parse (de_wire env) DOM_REQUEST b of Some (M_DOMRequest r) \<Rightarrow> Some r | _ \<Rightarrow> None)"

text \<open>A DOM request is replaced by the client's message inside it.\<close>

definition dummy_handleMessage :: "'k dummy_env \<Rightarrow> bytes \<Rightarrow> frame \<Rightarrow> dummy_replica \<Rightarrow> dummy_replica res" where
  "dummy_handleMessage env sender fr s =
     (let enqueue = (\<lambda>x. if sender = de_ownAddr env then s\<lparr>dr_processQueue := dr_processQueue s @ [x]\<rparr>
                         else s\<lparr>dr_verifyQueue := dr_verifyQueue s @ [x]\<rparr>)
      in if type_of_code (fr_type fr) = Some DOM_REQUEST then
           (case parse_dom env (fr_body fr) of None \<Rightarrow> Inr s
            | Some r \<Rightarrow> bindE (read_frame (dom_client_req r)) (\<lambda>x. Inr (enqueue x)))
         else Inr (enqueue fr))"

text \<open>The request of a \<open>DummyClientRequest\<close>, by default the empty one.\<close>

definition dq_request :: "dummy_request \<Rightarrow> client_request" where
  "dq_request r = (case dq_req r of Some req \<Rightarrow> req
     | None \<Rightarrow> \<lparr>crq_client_id = 0, crq_client_seq = 0, crq_send_time = 0, crq_deadline = 0, crq_is_write = False, crq_req_data = []\<rparr>)"

definition dummy_check :: "'k dummy_env \<Rightarrow> frame \<Rightarrow> bool res" where
  "dummy_check env fr =
     (let w = de_wire env
      in if is_client_type (type_of_code (fr_type fr)) then
           (case parse_client env (fr_body fr) of None \<Rightarrow> Inr False
            | Some r \<Rightarrow>
                if de_useHMAC env then hmac_verify (wp_hmac w) (wp_hmacKeys w) fr (CLIENT, crq_client_id r)
                else Inr (sig_verify_frame (wp_sig w) fr (CLIENT, crq_client_id r)))
         else if type_of_code (fr_type fr) = Some DUMMY_PROTO then
           (case de_parse env (fr_body fr) of None \<Rightarrow> Inr False
            | Some m \<Rightarrow>
                Inr (sig_verify_frame (wp_sig w) fr (REPLICA, dm_replica_id m) \<and>
                     (dm_phase m = 0 \<longrightarrow>
                        list_all (\<lambda>r. sig_verify (wp_sig w) (wp_ser w (M_ClientRequest (dq_request r))) (dq_sig r)
                           (CLIENT, crq_client_id (dq_request r))) (dm_client_reqs m))))
         else Inr False)"

definition dummy_verify_turn :: "'k dummy_env \<Rightarrow> dummy_replica \<Rightarrow> dummy_replica res" where
  "dummy_verify_turn env s =
     (case dr_verifyQueue s of [] \<Rightarrow> Inr s
      | fr # q \<Rightarrow>
          bindE (dummy_check env fr) (\<lambda>ok.
          Inr (if ok then s\<lparr>dr_verifyQueue := q, dr_processQueue := dr_processQueue s @ [fr]\<rparr> else s\<lparr>dr_verifyQueue := q\<rparr>)))"

text \<open>A DOM request that does not parse ends the process thread.\<close>

definition dummy_process :: "'k dummy_env \<Rightarrow> frame \<Rightarrow> dummy_replica \<Rightarrow> dummy_replica res option" where
  "dummy_process env fr s =
     (if type_of_code (fr_type fr) = Some DOM_REQUEST then
        (case parse_dom env (fr_body fr) of None \<Rightarrow> Some (Inr (s\<lparr>dr_processEnded := True\<rparr>))
         | Some d \<Rightarrow> Some (bindE (read_frame (dom_client_req d)) (\<lambda>x.
             case parse_client env (fr_body x) of None \<Rightarrow> Inr (s\<lparr>dr_processEnded := True\<rparr>)
             | Some r \<Rightarrow> dummy_processClientRequest env r (fr_sig x) s)))
      else if is_client_type (type_of_code (fr_type fr)) then
        (case parse_client env (fr_body fr) of None \<Rightarrow> Some (Inr s)
         | Some r \<Rightarrow> Some (dummy_processClientRequest env r (fr_sig fr) s))
      else if type_of_code (fr_type fr) = Some DUMMY_PROTO then
        (case de_parse env (fr_body fr) of None \<Rightarrow> Some (Inr s) | Some m \<Rightarrow> dummy_proto env m s)
      else Some (Inr s))"

definition dummy_process_turn :: "'k dummy_env \<Rightarrow> dummy_replica \<Rightarrow> dummy_replica res option" where
  "dummy_process_turn env s =
     (if dr_processEnded s then Some (Inr s)
      else case dr_processQueue s of [] \<Rightarrow> Some (Inr s) | fr # q \<Rightarrow> dummy_process env fr (s\<lparr>dr_processQueue := q\<rparr>))"

inductive dummy_reach :: "'k dummy_env \<Rightarrow> dummy_replica \<Rightarrow> bool" for env where
  init: "dummy_reach env (dummy_init env)"
| message: "dummy_reach env s \<Longrightarrow> dummy_handleMessage env sender fr s = Inr s' \<Longrightarrow> dummy_reach env s'"
| verify: "dummy_reach env s \<Longrightarrow> dummy_verify_turn env s = Inr s' \<Longrightarrow> dummy_reach env s'"
| turn: "dummy_reach env s \<Longrightarrow> dummy_process_turn env s = Some (Inr s') \<Longrightarrow> dummy_reach env s'"

section \<open>The loop over the committed numbers ends\<close>

text \<open>Every turn forgets the count it found.\<close>

lemma dummy_cleanup_ends:
  assumes "0 < quorum"
  shows "\<exists>s'. dummy_cleanup quorum batch s = Some s'"
proof (induction "length (dr_commitCounts s)" arbitrary: s rule: less_induct)
  case less
  define k where "k = dr_committedSeq s + batch"
  define s1 where "s1 = s\<lparr>dr_commitCounts := sm_insert k 0 (dr_commitCounts s)\<rparr>"
  have sel: "dr_commitCounts s1 = sm_insert k 0 (dr_commitCounts s)" by (simp add: s1_def)
  show ?case
  proof (cases "quorum \<le> sm_at 0 (dr_commitCounts s1) k")
    case True
    let ?s2 = "s1\<lparr>dr_committedSeq := k, dr_commitCounts := filter (\<lambda>p. k < fst p) (dr_commitCounts s1),
      dr_prepareCounts := filter (\<lambda>p. k < fst p) (dr_prepareCounts s1)\<rparr>"
    have "sm_at 0 (dr_commitCounts s1) k \<noteq> 0" using True assms by auto
    then have has: "map_of (dr_commitCounts s) k \<noteq> None"
      by (auto simp: s1_def sm_at_def sm_insert_def sm_has_def split: if_splits option.splits)
    then have same: "dr_commitCounts s1 = dr_commitCounts s" by (simp add: s1_def sm_insert_def sm_has_def)
    from has obtain v where "(k, v) \<in> set (dr_commitCounts s)" by (auto dest: map_of_SomeD)
    then have "length (filter (\<lambda>p. k < fst p) (dr_commitCounts s)) < length (dr_commitCounts s)"
      by (rule length_filter_less) simp
    then have "length (dr_commitCounts ?s2) < length (dr_commitCounts s)" using same by simp
    from less [OF this] show ?thesis
      using True by (subst dummy_cleanup.simps) (simp add: Let_def k_def [symmetric] s1_def [symmetric])
  next
    case False
    then show ?thesis by (subst dummy_cleanup.simps) (simp add: Let_def k_def [symmetric] s1_def [symmetric] sel)
  qed
qed

text \<open>With a quorum that is not empty a turn of the process thread ends, in a state or in a fault.\<close>

theorem dummy_turn_ends:
  assumes "0 < de_quorumSize env"
  shows "\<exists>r. dummy_process_turn env s = Some r"
proof -
  have "\<exists>r. dummy_commit env m t = Some r" for m t
    using dummy_cleanup_ends [OF assms] by (auto simp: dummy_commit_def Let_def split: sum.split)
  then have "\<exists>r. dummy_proto env m t = Some r" for m t by (simp add: dummy_proto_def)
  then show ?thesis
    by (auto simp: dummy_process_turn_def dummy_process_def split: list.split option.split)
qed

theorem dummy_turn_ends_witness:
  "\<exists>r. dummy_process_turn (env\<lparr>de_quorumSize := 3\<rparr>) (dummy_init env) = Some r"
  by (rule dummy_turn_ends) simp

section \<open>Counting\<close>

text \<open>Prepares are counted whoever sent them: a quorum of copies of one message of one replica makes the replica
  broadcast its commit.\<close>

theorem dummy_counts_copies:
  assumes "de_prot env = Dummy_PBFT" and "dr_committedSeq s < dm_seq m" and "map_of (dr_prepareCounts s) (dm_seq m) = None"
    and "0 < de_quorumSize env"
  shows "dr_out ((dummy_prepare env m ^^ unat (de_quorumSize env)) s) =
    dr_out s @ [(Du_Replicas, DUMMY_PROTO, DO_Message (m\<lparr>dm_phase := 2, dm_replica_id := de_id env\<rparr>))]"
proof -
  let ?q = "de_quorumSize env"
  have step: "dr_out ((dummy_prepare env m ^^ n) s) =
      (if n < unat ?q then dr_out s else dr_out s @ [(Du_Replicas, DUMMY_PROTO, DO_Message (m\<lparr>dm_phase := 2, dm_replica_id := de_id env\<rparr>))]) \<and>
      sm_at 0 (dr_prepareCounts ((dummy_prepare env m ^^ n) s)) (dm_seq m) = of_nat n \<and>
      dr_committedSeq ((dummy_prepare env m ^^ n) s) = dr_committedSeq s" if "n \<le> unat ?q" for n
    using that
  proof (induction n)
    case 0
    then show ?case using assms(3,4) by (simp add: sm_at_def word_less_nat_alt)
  next
    case (Suc n)
    define t where "t = (dummy_prepare env m ^^ n) s"
    have t: "dr_out t = dr_out s" "sm_at 0 (dr_prepareCounts t) (dm_seq m) = of_nat n" "dr_committedSeq t = dr_committedSeq s"
      using Suc unfolding t_def by simp_all
    have open_seq: "\<not> dm_seq m \<le> dr_committedSeq s" using assms(2) by (simp add: not_le)
    have eq: "(of_nat (Suc n) = ?q) = (Suc n = unat ?q)"
    proof
      assume "of_nat (Suc n) = ?q"
      then have "unat ?q = unat (of_nat (Suc n) :: u32)" by simp
      also have "\<dots> = Suc n mod 2 ^ 32" by (simp only: unat_of_nat) simp
      also have "\<dots> = Suc n" using Suc.prems unsigned_less [of ?q, where ?'a = nat] by simp
      finally show "Suc n = unat ?q" by simp
    qed simp
    have "sm_at 0 (count_up (dm_seq m) (dr_prepareCounts t)) (dm_seq m) = of_nat (Suc n)"
      using t(2) by (simp add: count_up_def sm_at_def)
    then have "dr_out (dummy_prepare env m t) = (if Suc n < unat ?q then dr_out s
        else dr_out s @ [(Du_Replicas, DUMMY_PROTO, DO_Message (m\<lparr>dm_phase := 2, dm_replica_id := de_id env\<rparr>))]) \<and>
      sm_at 0 (dr_prepareCounts (dummy_prepare env m t)) (dm_seq m) = of_nat (Suc n) \<and>
      dr_committedSeq (dummy_prepare env m t) = dr_committedSeq s"
      using t(1,3) assms(1) open_seq eq Suc.prems unfolding dummy_prepare_def Let_def dr_broadcast_def dr_send_def by simp
    then show ?case by (simp add: t_def)
  qed
  show ?thesis using step [of "unat ?q"] by simp
qed

end
