(* ===== verification/KeyFiles.thy ===== *)
theory KeyFiles
  imports Application Wire
begin

text \<open>
  Loading the public keys of a directory (\<open>SignatureProvider::loadPublicKeys\<close>, \<open>lib/crypto/sig_provider.cc\<close>): the number of
  a node is read from the name of its file. The directory is an argument: its regular files, their names in the order in
  which the library lists them, and what reading a key gives.
\<close>

text \<open>The name is split into the part before the last dot and the rest; a key that cannot be read is an exception.\<close>

record 'k key_file =
  kf_regular :: bool
  kf_extension :: bytes
  kf_stem :: bytes
  kf_key :: "'k option"

definition pub_extension :: bytes where
  "pub_extension = [46, 112, 117, 98]"

text \<open>\<open>stem.substr(stem.find_first_of("0123456789"))\<close>, which throws when there is no digit, and \<open>std::stoi\<close>.\<close>

definition key_id :: "bytes \<Rightarrow> u32 res" where
  "key_id stem = (case dropWhile (\<lambda>b. \<not> is_digit b) stem of [] \<Rightarrow> Inl RuntimeError | t \<Rightarrow> stoi t)"

text \<open>The loop returns at the first exception, with the keys that it has stored.\<close>

fun load_key_files :: "node_type \<Rightarrow> 'k key_file list \<Rightarrow> (node_id \<rightharpoonup> 'k) \<Rightarrow> bool \<times> (node_id \<rightharpoonup> 'k)" where
  "load_key_files t [] keys = (True, keys)"
| "load_key_files t (f # fs) keys =
     (if \<not> kf_regular f \<or> kf_extension f \<noteq> pub_extension then load_key_files t fs keys
      else case kf_key f of None \<Rightarrow> (False, keys)
           | Some k \<Rightarrow> (case key_id (kf_stem f) of Inl _ \<Rightarrow> (False, keys) | Inr i \<Rightarrow> load_key_files t fs (keys((t, i) \<mapsto> k))))"

text \<open>The directory is opened outside of the part that catches exceptions.\<close>

definition loadPublicKeys :: "node_type \<Rightarrow> 'k key_file list option \<Rightarrow> 'k sig_provider \<Rightarrow> (bool \<times> 'k sig_provider) res" where
  "loadPublicKeys t dir p =
     (case dir of None \<Rightarrow> Inl RuntimeError
      | Some fs \<Rightarrow> let (ok, keys) = load_key_files t fs (sp_pubKeys p) in Inr (ok, p\<lparr>sp_pubKeys := keys\<rparr>))"

section \<open>Names\<close>

text \<open>The file of the key \<open>k\<close> of the node \<open>i\<close>.\<close>

definition key_file_of :: "bytes \<Rightarrow> nat \<times> 'k \<Rightarrow> 'k key_file" where
  "key_file_of prefix x =
     \<lparr>kf_regular = True, kf_extension = pub_extension, kf_stem = prefix @ digits_of (fst x), kf_key = Some (snd x)\<rparr>"

lemma dropWhile_prefix: "\<forall>b \<in> set p. \<not> is_digit b \<Longrightarrow> dropWhile (\<lambda>b. \<not> is_digit b) (p @ digits_of n @ rest) = digits_of n @ rest"
  using digits_of_digits [of n] digits_of_nonempty [of n] by (cases "digits_of n") (simp_all add: dropWhile_append2)

lemma key_id_number:
  assumes "\<forall>b \<in> set p. \<not> is_digit b" and "i < 2 ^ 31"
  shows "key_id (p @ digits_of i) = Inr (of_nat i)"
proof -
  obtain d ds where eq: "digits_of i = d # ds" using digits_of_nonempty [of i] by (cases "digits_of i") auto
  then show ?thesis using dropWhile_prefix [OF assms(1), of i "[]"] stoi_digits [OF assms(2)] by (simp add: key_id_def)
qed

lemma of_nat_u32_inj: "i < 2 ^ 31 \<Longrightarrow> j < 2 ^ 31 \<Longrightarrow> (of_nat i :: u32) = of_nat j \<longleftrightarrow> i = j"
  by (auto simp: unat_of_nat dest: arg_cong [of _ _ unat])

definition put_key :: "node_type \<Rightarrow> nat \<times> 'k \<Rightarrow> (node_id \<rightharpoonup> 'k) \<Rightarrow> (node_id \<rightharpoonup> 'k)" where
  "put_key t x m = m((t, of_nat (fst x)) \<mapsto> snd x)"

lemma put_key_at:
  "fst x < 2 ^ 31 \<Longrightarrow> i < 2 ^ 31 \<Longrightarrow> put_key t x m (t, of_nat i) = (if i = fst x then Some (snd x) else m (t, of_nat i))"
  using of_nat_u32_inj [of i "fst x"] by (simp add: put_key_def)

lemma load_key_files_named:
  assumes "\<forall>b \<in> set p. \<not> is_digit b" and "\<forall>x \<in> set ks. fst x < 2 ^ 31"
  shows "load_key_files t (map (key_file_of p) ks) keys = (True, fold (put_key t) ks keys)"
  using assms(2) by (induction ks arbitrary: keys) (simp_all add: key_file_of_def put_key_def key_id_number [OF assms(1)])

lemma fold_keys_other:
  assumes "i \<notin> fst ` set ks" and "\<forall>x \<in> set ks. fst x < 2 ^ 31" and "i < 2 ^ 31"
  shows "fold (put_key t) ks keys (t, of_nat i) = keys (t, of_nat i)"
  using assms by (induction ks arbitrary: keys) (auto simp: put_key_at)

lemma fold_keys:
  assumes "distinct (map fst ks)" and "\<forall>x \<in> set ks. fst x < 2 ^ 31" and "(i, k) \<in> set ks"
  shows "fold (put_key t) ks keys (t, of_nat i) = Some k"
  using assms
proof (induction ks arbitrary: keys)
  case (Cons x ks)
  then show ?case
    by (cases "(i, k) = x") (auto simp: fold_keys_other put_key_at)
qed simp

section \<open>Properties\<close>

text \<open>With file names of a prefix without a digit and a number, no number twice, every key is stored under its number: a
  signature in the name of a node passes exactly when it passes with the key in that node's file.\<close>

theorem keys_of_files:
  assumes "\<forall>b \<in> set prefix. \<not> is_digit b" and "distinct (map fst ks)" and "\<forall>x \<in> set ks. fst x < 2 ^ 31" and "(i, k) \<in> set ks"
  shows "\<exists>p'. loadPublicKeys t (Some (map (key_file_of prefix) ks)) p = Inr (True, p') \<and>
    sig_verify p' dat sig (t, of_nat i) = sp_verifier p k dat sig"
proof -
  show ?thesis
    using fold_keys [OF assms(2-4), of t "sp_pubKeys p"]
    by (simp add: loadPublicKeys_def load_key_files_named [OF assms(1,3)] sig_verify_def)
qed

theorem keys_of_files_witness:
  "\<exists>p'. loadPublicKeys REPLICA (Some (map (key_file_of [114]) [(0, 5 :: nat), (11, 6)]))
     \<lparr>sp_pubKeys = (\<lambda>_. None), sp_verifier = (\<lambda>k dat sig. length sig = k), sp_sign = (\<lambda>dat. []), sp_maxSigLen = 0\<rparr> = Inr (True, p') \<and>
     sig_verify p' [] [1, 1, 1, 1, 1, 1] (REPLICA, 11)"
  using keys_of_files [of "[114]" "[(0, 5 :: nat), (11, 6)]" 11 6 REPLICA
      "\<lparr>sp_pubKeys = (\<lambda>_. None), sp_verifier = (\<lambda>k dat sig. length sig = k), sp_sign = (\<lambda>dat. []), sp_maxSigLen = 0\<rparr>" "[]" "[1, 1, 1, 1, 1, 1]"]
  by (simp add: is_digit_def)

text \<open>The number is the first one in the name, not the one at its end as the comments say.\<close>

lemma key_id_first_number:
  assumes "\<forall>b \<in> set p. \<not> is_digit b" and "i < 2 ^ 31" and "\<not> is_digit c"
  shows "key_id (p @ digits_of i @ c # rest) = Inr (of_nat i)"
proof -
  obtain d ds where eq: "digits_of i = d # ds" using digits_of_nonempty [of i] by (cases "digits_of i") auto
  have d: "is_digit d" "takeWhile is_digit (digits_of i @ c # rest) = digits_of i"
    using digits_of_digits [of i] assms(3) by (simp_all add: eq takeWhile_tail)
  have "parse_number (digits_of i @ c # rest) = Some (int i)"
    using digit_not_special [OF d(1)] d(2) digits_value_digits_of [of i] by (simp add: parse_number_def eq)
  then show ?thesis
    using dropWhile_prefix [OF assms(1), of i "c # rest"] assms(2) by (simp add: key_id_def stoi_def eq)
qed

end
