(* ===== verification/Startup.thy ===== *)
theory Startup
  imports ConfigFile NodeSafety Ports Dummy FlutterClient Proxy KeyFiles
begin

text \<open>
  From the configuration file to a running process: the configuration singleton (\<open>lib/config/config_manager.cc\<close>), the
  constructors of the client and of the replica (\<open>processes/client/client.cc\<close>, \<open>processes/replica/replica.cc\<close>), those of
  the baseline, and the main programs, as far as they depend on the configuration. Whether the key files can be read is a
  parameter.
\<close>

section \<open>The fields that the processes read\<close>

text \<open>An \<open>int\<close> that is stored as 64 bits keeps its sign.\<close>

definition process_config_of :: "'f config_file \<Rightarrow> process_config" where
  "process_config_of c =
     \<lparr>cfg_f = pc_f c, cfg_e = pc_e c, cfg_replicaIps_size = length (pc_replicaIps c), cfg_clientIps_size = length (pc_clientIps c),
      cfg_proxyIps_size = length (pc_proxyIps c), cfg_clientNormalPathEnabled = pc_clientNormalPathEnabled c,
      cfg_clientSendProofs = pc_clientSendProofs c, cfg_replicaCheckpointTimeout = scast (pc_replicaCheckpointTimeout c),
      cfg_replicaRepairViewTimeout = scast (pc_replicaRepairViewTimeout c),
      cfg_replicaCheckpointInterval = pc_replicaCheckpointInterval c, cfg_replicaSnapshotInterval = pc_replicaSnapshotInterval c,
      cfg_replicaIncludeFullRequests = pc_replicaIncludeFullRequests c, cfg_replicaSkipAlignment = pc_replicaSkipAlignment c,
      cfg_preserializationMode =
        (if pc_preserializationMode c = ''full'' then PS_Full else if pc_preserializationMode c = ''order'' then PS_Order
         else PS_Disabled)\<rparr>"

definition chars :: "string \<Rightarrow> bytes" where
  "chars s = map of_char s"

definition net_config_of :: "'f config_file \<Rightarrow> net_config" where
  "net_config_of c =
     \<lparr>nc_replicaIps = map chars (pc_replicaIps c), nc_clientIps = map chars (pc_clientIps c), nc_proxyIps = map chars (pc_proxyIps c),
      nc_replicaPort = pc_replicaPort c, nc_clientPort = pc_clientPort c, nc_proxyForwardPort = pc_proxyForwardPort c\<rparr>"

section \<open>The singleton\<close>

definition ConfigManager_initialize :: "process_config \<Rightarrow> config_manager option \<Rightarrow> config_manager option res" where
  "ConfigManager_initialize config inst = bindE (calculateDerivedValues config) (\<lambda>m. Inr (Some m))"

definition ConfigManager_getInstance :: "config_manager option \<Rightarrow> config_manager res" where
  "ConfigManager_getInstance inst = (case inst of None \<Rightarrow> Inl RuntimeError | Some m \<Rightarrow> Inr m)"

definition ConfigManager_isInitialized :: "config_manager option \<Rightarrow> bool" where
  "ConfigManager_isInitialized inst = (inst \<noteq> None)"

definition ConfigManager_reset :: "config_manager option \<Rightarrow> config_manager option" where
  "ConfigManager_reset inst = None"

text \<open>An exception that a main program does not catch ends it, as the fault \<open>RuntimeError\<close>; the result is the configuration
  and the instance.\<close>

definition load_config ::
  "('n, 'f) yaml \<Rightarrow> 'n loaded \<Rightarrow> 'f config_file \<Rightarrow> config_manager option \<Rightarrow> ('f config_file \<times> config_manager option) res" where
  "load_config y file memory inst =
     (case parseConfig y file memory of
        Inl DivByZero \<Rightarrow> Inl Undefined
      | Inl _ \<Rightarrow> Inl RuntimeError
      | Inr c \<Rightarrow> bindE (ConfigManager_initialize (process_config_of c) inst) (\<lambda>i. Inr (c, i)))"

section \<open>The client\<close>

text \<open>The argument \<open>env\<close> holds the parameters of the libraries, and the send mode that remains when the file names none.\<close>

definition Client_new :: "'f config_file \<Rightarrow> config_manager option \<Rightarrow> bool \<Rightarrow> u32 \<Rightarrow> 'k client_env \<Rightarrow> 'k client_env res" where
  "Client_new c inst keys i env =
     bindE (ConfigManager_getInstance inst) (\<lambda>cm.
     if length (pc_clientIps c) \<le> unat i then Inl Undefined
     else if \<not> keys then Inl ExitProcess
     else Inr (env\<lparr>ce_cm := cm, ce_id := i, ce_useProxy := pc_useProxy c, ce_sendToLeader := pc_sendToLeader c,
       ce_sendMode := (if pc_clientSendMode c = ''sendRate'' then RateBased
                       else if pc_clientSendMode c = ''maxInFlight'' then MaxInFlightBased else ce_sendMode env),
       ce_sendRate := pc_clientSendRate c, ce_maxInFlight := pc_clientMaxInFlight c, ce_requestSize := pc_clientRequestSize c,
       ce_normalPathTimeout := scast (pc_clientNormalPathTimeout c), ce_requestTimeout := scast (pc_clientRequestTimeout c),
       ce_useHMAC := pc_clientUseHMAC c, ce_rateIncreaseEnabled := pc_rateIncrease_enabled c,
       ce_rateIncreaseSeqThreshold := pc_rateIncrease_seqThreshold c, ce_rateIncreaseDurationUs := pc_rateIncrease_durationUs c,
       ce_increasedSendRate := pc_rateIncrease_increasedSendRate c,
       ce_increasedMaxInFlight := pc_rateIncrease_increasedMaxInFlight c,
       ce_runtimeSeconds := sint (pc_clientRuntimeSeconds c), ce_numProxies := length (pc_proxyIps c)\<rparr>))"

definition client_main ::
  "('n, 'f) yaml \<Rightarrow> 'n loaded \<Rightarrow> 'f config_file \<Rightarrow> bool \<Rightarrow> u32 \<Rightarrow> 'k client_env \<Rightarrow> ('f config_file \<times> 'k client_env) res" where
  "client_main y file memory keys i env =
     bindE (load_config y file memory None) (\<lambda>(c, inst). bindE (Client_new c inst keys i env) (\<lambda>env'. Inr (c, env')))"

section \<open>Addresses\<close>

text \<open>The addresses of the clients, of the proxies and of the replicas that a replica sends to, for the three transports.\<close>

definition Replica_addrs :: "'f config_file \<Rightarrow> u32 \<Rightarrow> (address list \<times> address list \<times> address list) res" where
  "Replica_addrs c i =
     (let net = net_config_of c; clients = nc_clientIps net; proxies = nc_proxyIps net; replicas = nc_replicaIps net;
          at_port = (\<lambda>port. map (\<lambda>ip. (ip, port)))
      in if pc_transport c = ''nng'' then
           bindE (getReplicaAddrs net i) (\<lambda>ps. let as = map snd ps in
           Inr (take (length clients) as, take (length proxies) (drop (length clients) as), drop (length clients + length proxies) as))
         else bindE (ip_at replicas i) (\<lambda>_.
           Inr (if pc_transport c = ''simple-rpc''
                then map (\<lambda>k. (clients ! k, pc_clientPort c + of_nat k)) [0..<length clients] else at_port (pc_clientPort c) clients,
                at_port (pc_proxyForwardPort c) proxies, at_port (pc_replicaPort c) replicas)))"

text \<open>Those of a client: the address it binds to unless each peer has a port of its own, the proxies and the replicas.\<close>

definition Client_addrs :: "'f config_file \<Rightarrow> u32 \<Rightarrow> (address option \<times> address list \<times> address list) res" where
  "Client_addrs c i =
     (let net = net_config_of c; at_port = (\<lambda>port. map (\<lambda>ip. (ip, port)))
      in if pc_transport c = ''nng'' then
           bindE (getClientAddrs net i) (\<lambda>ps. let as = map snd ps in
           Inr (None, drop (length (nc_replicaIps net)) as, take (length (nc_replicaIps net)) as))
         else bindE (ip_at (nc_clientIps net) i) (\<lambda>ip.
           Inr (Some (ip, if pc_transport c = ''simple-rpc'' then pc_clientPort c + i else pc_clientPort c),
                at_port (pc_proxyForwardPort c) (nc_proxyIps net), at_port (pc_replicaPort c) (nc_replicaIps net))))"

text \<open>The replicas that a replica of the baseline sends to over UDP: its own address is left out of the list.\<close>

definition Flutter_udp_addrs :: "'f config_file \<Rightarrow> u32 \<Rightarrow> address list" where
  "Flutter_udp_addrs c i =
     map (\<lambda>k. (chars (pc_replicaIps c ! k), pc_replicaPort c)) (filter (\<lambda>k. k \<noteq> unat i) [0..<length (pc_replicaIps c)])"

lemma Replica_addrs_ip:
  assumes "Replica_addrs c i = Inr (clients, proxies, replicas)"
  shows "map fst clients = map chars (pc_clientIps c)" and "map fst proxies = map chars (pc_proxyIps c)"
    and "map fst replicas = map chars (pc_replicaIps c)"
  using assms
  by (auto simp: Replica_addrs_def net_config_of_def addr_defs map_nth comp_def split: if_splits intro!: nth_equalityI)

lemma Replica_addrs_ok: "unat i < length (pc_replicaIps c) \<Longrightarrow> \<exists>a. Replica_addrs c i = Inr a"
  by (simp add: Replica_addrs_def net_config_of_def addr_defs)

section \<open>The replica\<close>

record replica_flags =
  fl_replicaId :: u32
  fl_crashed :: bool
  fl_swapFreq :: u32
  fl_viewChangeFreq :: u32
  fl_viewChangeNum :: u32
  fl_checkpointDropFreq :: u32
  fl_commitLocalInViewChange :: bool

text \<open>The number of threads is that of a loop with an \<open>int\<close> counter, here of a configured number below \<open>2 ^ 31\<close>. The
  receiver takes the deadlines into account.\<close>

definition Replica_new ::
  "'f config_file \<Rightarrow> config_manager option \<Rightarrow> bool \<Rightarrow> replica_flags \<Rightarrow> ('s, 'k) node_env \<Rightarrow> ('s, 'k) node_env res" where
  "Replica_new c inst keys flags ne =
     bindE (ConfigManager_getInstance inst) (\<lambda>cm.
     if length (pc_replicaIps c) \<le> unat (fl_replicaId flags) then Inl Undefined
     else if \<not> keys then Inl ExitProcess
     else bindE (Replica_addrs c (fl_replicaId flags)) (\<lambda>(clients, proxies, replicas).
     Inr (ne\<lparr>
       ne_replica := (ne_replica ne)\<lparr>re_cm := cm, re_id := fl_replicaId flags, re_crashed := fl_crashed flags,
         re_swapFreq := fl_swapFreq flags, re_checkpointDropFreq := fl_checkpointDropFreq flags,
         re_viewChangeFreq := fl_viewChangeFreq flags, re_viewChangeNum := fl_viewChangeNum flags,
         re_commitLocalInViewChange := fl_commitLocalInViewChange flags\<rparr>,
       ne_receiver := (ne_receiver ne)\<lparr>rx_replicaId := fl_replicaId flags, rx_numProxies := length (pc_proxyIps c),
         rx_ignoreDeadlines := False, rx_useHMAC := pc_clientUseHMAC c\<rparr>,
       ne_ip := fst (replicas ! unat (fl_replicaId flags)), ne_numVerifyThreads := unat (pc_replicaNumVerifyThreads c)\<rparr>)))"

datatype 'e replica_program = Run_Dummy u32 dummy_protocol u32 | Run_Replica 'e

definition replica_main ::
  "('n, 'f) yaml \<Rightarrow> 'n loaded \<Rightarrow> 'f config_file \<Rightarrow> bool \<Rightarrow> string \<Rightarrow> u32 \<Rightarrow> replica_flags \<Rightarrow> ('s, 'k) node_env \<Rightarrow>
     ('f config_file \<times> ('s, 'k) node_env replica_program) res" where
  "replica_main y file memory keys prot batchSize flags ne =
     bindE (load_config y file memory None) (\<lambda>(c, inst).
     if prot = ''PBFT'' then Inr (c, Run_Dummy (fl_replicaId flags) Dummy_PBFT batchSize)
     else if prot = ''ZYZ'' then Inr (c, Run_Dummy (fl_replicaId flags) Dummy_ZYZ batchSize)
     else if prot = ''DUMMY_DOMBFT'' then Inr (c, Run_Dummy (fl_replicaId flags) Dummy_DOM_BFT 1)
     else bindE (Replica_new c inst keys flags ne) (\<lambda>ne'. Inr (c, Run_Replica ne')))"

section \<open>The proxy\<close>

text \<open>The addresses of the receivers, by the number of the replica; all are read before a socket is bound.\<close>

definition Proxy_addrs :: "'f config_file \<Rightarrow> u32 \<Rightarrow> address list res" where
  "Proxy_addrs c i =
     (let net = net_config_of c
      in if pc_transport c = ''nng'' then
           bindE (getProxyAddrs net i) (\<lambda>ps. Inr (map snd (drop (length (nc_clientIps net)) ps)))
         else bindE (ip_at (nc_proxyIps net) i) (\<lambda>_. Inr (map (\<lambda>ip. (ip, nc_replicaPort net)) (nc_replicaIps net))))"

definition Proxy_new ::
  "frac config_file \<Rightarrow> config_manager option \<Rightarrow> bool \<Rightarrow> u32 \<Rightarrow> 'k proxy_env \<Rightarrow> ('k proxy_env \<times> address list) res" where
  "Proxy_new c inst keys i env =
     bindE (ConfigManager_getInstance inst) (\<lambda>cm.
     if \<not> keys then Inl ExitProcess
     else bindE (Proxy_addrs c i) (\<lambda>receivers.
       Inr (env\<lparr>pe_proxyId := i, pe_numReceivers := cm_numReplicas cm, pe_maxOWD := pc_proxyMaxOwd c,
                pe_offsetCoefficient := pc_proxyOffsetCoefficient c, pe_batchEnabled := pc_proxyBatchEnabled c,
                pe_batchMaxCount := pc_proxyBatchMaxCount c, pe_batchMaxDelay := pc_proxyBatchMaxDelay c\<rparr>, receivers)))"

definition proxy_main ::
  "('n, frac) yaml \<Rightarrow> 'n loaded \<Rightarrow> frac config_file \<Rightarrow> bool \<Rightarrow> u32 \<Rightarrow> 'k proxy_env \<Rightarrow>
     (frac config_file \<times> 'k proxy_env \<times> address list) res" where
  "proxy_main y file memory keys i env =
     bindE (load_config y file memory None) (\<lambda>(c, inst). bindE (Proxy_new c inst keys i env) (\<lambda>px. Inr (c, px)))"

lemma Proxy_addrs_ip: "Proxy_addrs c i = Inr receivers \<Longrightarrow> map fst receivers = map chars (pc_replicaIps c)"
  by (auto simp: Proxy_addrs_def net_config_of_def addr_defs map_nth comp_def split: if_splits intro!: nth_equalityI)

section \<open>The baseline\<close>

text \<open>The interval of the clock broadcasts: the flag, unless it is zero; else what a second reading of the file gives, with a
  default for every exception.\<close>

definition flutter_interval :: "('n, 'f) yaml \<Rightarrow> 'n loaded \<Rightarrow> u64 \<Rightarrow> u64" where
  "flutter_interval y file flag =
     (if flag \<noteq> 0 then flag
      else case file of
        Loaded root \<Rightarrow>
          (case y_get y root ''replica'' of
             Found r \<Rightarrow> (case y_get y r ''clockBroadcastInterval'' of
                Found n \<Rightarrow> (case y_uint64 y n of Some v \<Rightarrow> v | None \<Rightarrow> 50000)
              | _ \<Rightarrow> 50000)
           | _ \<Rightarrow> 50000)
      | _ \<Rightarrow> 50000)"

definition FlutterReplica_new ::
  "'f config_file \<Rightarrow> config_manager option \<Rightarrow> bool \<Rightarrow> u32 \<Rightarrow> u64 \<Rightarrow> 'k flutter_env \<Rightarrow> 'k flutter_env res" where
  "FlutterReplica_new c inst keys i interval env =
     bindE (ConfigManager_getInstance inst) (\<lambda>cm.
     if length (pc_replicaIps c) \<le> unat i then Inl Undefined
     else if \<not> keys then Inl ExitProcess
     else Inr (env\<lparr>fe_id := i, fe_numReplicas := cm_numReplicas cm, fe_numClients := unat (cm_numClients cm),
                   fe_useHMAC := pc_clientUseHMAC c, fe_clockBroadcastInterval := interval\<rparr>))"

definition FlutterClient_new ::
  "'f config_file \<Rightarrow> config_manager option \<Rightarrow> bool \<Rightarrow> u32 \<Rightarrow> u64 \<Rightarrow> u64 \<Rightarrow> flutter_client_env \<Rightarrow> flutter_client_env res" where
  "FlutterClient_new c inst keys i baseBetOffset betIncrement env =
     bindE (ConfigManager_getInstance inst) (\<lambda>cm.
     if pc_clientSendMode c \<noteq> ''sendRate'' \<and> pc_clientSendMode c \<noteq> ''maxInFlight'' then Inl ExitProcess
     else if \<not> keys then Inl ExitProcess
     else if length (pc_clientIps c) \<le> unat i then Inl Undefined
     else if pc_transport c \<notin> {''udp'', ''nng'', ''simple-rpc''} then Inl ExitProcess
     else Inr (env\<lparr>fce_id := i, fce_numReplicas := length (pc_replicaIps c), fce_f := pc_f c, fce_baseBetOffset := baseBetOffset,
       fce_betIncrement := betIncrement,
       fce_sendMode := (if pc_clientSendMode c = ''sendRate'' then RateBased else MaxInFlightBased),
       fce_sendRate := pc_clientSendRate c, fce_maxInFlight := pc_clientMaxInFlight c, fce_requestSize := pc_clientRequestSize c,
       fce_useHMAC := pc_clientUseHMAC c\<rparr>))"

section \<open>What a started process has\<close>

lemma calculateDerivedValues_config: "calculateDerivedValues c = Inr m \<Longrightarrow> cm_config m = c"
  by (auto simp: calculateDerivedValues_def Let_def split: if_splits)

lemma calculateDerivedValues_replicas: "calculateDerivedValues c = Inr m \<Longrightarrow> cm_numReplicas m = of_nat (cfg_replicaIps_size c)"
  by (auto simp: calculateDerivedValues_def Let_def split: if_splits)

lemma load_config_InrD:
  assumes "load_config y file memory inst = Inr (c, inst')"
  shows "parseConfig y file memory = Inr c" and "\<exists>m. inst' = Some m \<and> calculateDerivedValues (process_config_of c) = Inr m"
  using assms
  by (auto simp: load_config_def ConfigManager_initialize_def split: sum.splits config_error.splits elim!: bindE_InrE)

lemma manager_valid:
  assumes "calculateDerivedValues (process_config_of c) = Inr m" and "3 * unat (pc_f c) + 2 * unat (pc_e c) + 1 < 2 ^ 32"
  shows "cm_valid m" and "cm_config m = process_config_of c"
proof -
  show config: "cm_config m = process_config_of c" by (rule calculateDerivedValues_config [OF assms(1)])
  show "cm_valid m" using assms by (simp add: cm_valid_def config getF_def getE_def) (simp add: process_config_of_def)
qed

lemma manager_replicas:
  assumes "calculateDerivedValues (process_config_of c) = Inr m" and "3 * unat (pc_f c) + 2 * unat (pc_e c) + 1 < 2 ^ 32"
  shows "pc_replicaIps c \<noteq> []"
proof
  assume "pc_replicaIps c = []"
  then have "getNumReplicas m = 0"
    using calculateDerivedValues_replicas [OF assms(1)] by (simp add: getNumReplicas_def process_config_of_def)
  then show False using cm_valid_sizes(1) [OF manager_valid(1) [OF assms]] by simp
qed

text \<open>Whether a client's destination is in the configuration, and where it sends a request.\<close>

definition client_dst_ok :: "'f config_file \<Rightarrow> client_dest \<Rightarrow> bool" where
  "client_dst_ok c dst =
     (case dst of Cl_Proxy k \<Rightarrow> k < length (pc_proxyIps c) | Cl_Replica k \<Rightarrow> k < length (pc_replicaIps c))"

lemma sendRequest_destinations:
  assumes "ce_useProxy env \<Longrightarrow> cfg_preserializationMode (ce_config env) = PS_Disabled \<and> pc_proxyIps c \<noteq> []"
    and "ce_numProxies env = length (pc_proxyIps c)" and "cfg_replicaIps_size (ce_config env) = length (pc_replicaIps c)"
    and "pc_replicaIps c \<noteq> []"
  shows "\<exists>ms. ms \<noteq> [] \<and> sendRequest env request s = Inr (s\<lparr>cl_out := cl_out s @ ms\<rparr>) \<and>
    list_all (\<lambda>(dst, t, m). client_dst_ok c dst \<and> m = M_ClientRequest request) ms"
proof -
  let ?m = "M_ClientRequest request" and ?t = "if cfg_preserializationMode (ce_config env) \<noteq> PS_Disabled then PS_CLIENT else CLIENT_REQUEST"
  have some: "0 < length (pc_replicaIps c)" using assms(4) by simp
  have sent: ?thesis if "sendRequest env request s = Inr (s\<lparr>cl_out := cl_out s @ ms\<rparr>)" "ms \<noteq> []"
      "list_all (\<lambda>(dst, t, m). client_dst_ok c dst \<and> m = ?m) ms" for ms
    using that by blast
  show ?thesis
  proof (cases "ce_useProxy env")
    case True
    then show ?thesis using assms
      by (intro sent [of "[(Cl_Proxy (unat (ce_id env) mod length (pc_proxyIps c)), CLIENT_REQUEST, ?m)]"])
        (simp_all add: sendRequest_def client_dst_ok_def)
  next
    case replicas: False
    show ?thesis
    proof (cases "ce_sendToLeader env \<or> cfg_preserializationMode (ce_config env) = PS_Full")
      case True
      then show ?thesis using replicas assms(3) some
        by (intro sent [of "[(Cl_Replica 0, ?t, ?m)]"]) (auto simp: sendRequest_def client_dst_ok_def Let_def)
    next
      case False
      then show ?thesis using replicas assms(3) some
        by (intro sent [of "to_replicas env ?t ?m"])
          (auto simp: sendRequest_def to_replicas_def client_dst_ok_def list_all_iff Let_def)
    qed
  qed
qed

section \<open>Properties\<close>

text \<open>C34: a client that has started from an accepted file, whose fault bounds do not overflow, sends every request to destinations of
  the configuration, at least one, and no assertion fails: the file excludes the mode that asserts against the use of the
  proxies, and has replicas. The exception is a file that turns the proxies on and lists none, which is accepted: the client
  then divides by zero with its first request.\<close>

theorem startup_client_sends:
  assumes "client_main y file memory keys i env0 = Inr (c, env)" and "3 * unat (pc_f c) + 2 * unat (pc_e c) + 1 < 2 ^ 32"
  shows "cm_valid (ce_cm env) \<and>
    (if pc_useProxy c \<and> pc_proxyIps c = [] then sendRequest env request s = Inl Undefined
     else \<exists>ms. ms \<noteq> [] \<and> sendRequest env request s = Inr (s\<lparr>cl_out := cl_out s @ ms\<rparr>) \<and>
       list_all (\<lambda>(dst, t, m). client_dst_ok c dst \<and> m = M_ClientRequest request) ms)"
proof -
  from assms(1) obtain m where load: "load_config y file memory None = Inr (c, Some m)" and new: "Client_new c (Some m) keys i env0 = Inr env"
    by (auto simp: client_main_def dest: load_config_InrD(2) elim!: bindE_InrE)
  note parsed = load_config_InrD(1) [OF load]
  have manager: "calculateDerivedValues (process_config_of c) = Inr m" using load_config_InrD(2) [OF load] by simp
  have env: "ce_cm env = m" "ce_useProxy env = pc_useProxy c" "ce_numProxies env = length (pc_proxyIps c)"
    using new by (auto simp: Client_new_def ConfigManager_getInstance_def split: if_splits)
  note valid = manager_valid [OF manager assms(2)] and replicas = manager_replicas [OF manager assms(2)]
  have mode: "ce_useProxy env \<Longrightarrow> cfg_preserializationMode (ce_config env) = PS_Disabled"
    using parseConfig_top(1) [OF parsed] env valid(2) by (auto simp: top_ok_def top_fields_def process_config_of_def)
  have size: "cfg_replicaIps_size (ce_config env) = length (pc_replicaIps c)" using env valid(2) by (simp add: process_config_of_def)
  show ?thesis
  proof (cases "pc_useProxy c \<and> pc_proxyIps c = []")
    case True
    then show ?thesis using env valid(1) mode by (simp add: sendRequest_def)
  next
    case False
    then show ?thesis using sendRequest_destinations [of env c request s] env mode size replicas valid(1) by auto
  qed
qed

text \<open>C33: a replica that has started satisfies what the properties of the protocol assume: its manager holds the sizes for
  the bounds of the file, its number is one of the replicas', the intervals divide without a fault, and the address it takes
  for its own is the one configured for it.\<close>

theorem startup_replica_valid:
  assumes "replica_main y file memory keys prot batchSize flags ne0 = Inr (c, Run_Replica ne)" and "3 * unat (pc_f c) + 2 * unat (pc_e c) + 1 < 2 ^ 32"
    and "length (pc_replicaIps c) < 2 ^ 32"
  shows "cm_valid (re_cm (ne_replica ne)) \<and> unat (re_id (ne_replica ne)) < getNumReplicas (re_cm (ne_replica ne)) \<and>
    cfg_replicaCheckpointInterval (re_config (ne_replica ne)) \<noteq> 0 \<and>
    unat (cfg_replicaSnapshotInterval (re_config (ne_replica ne))) mod unat (cfg_replicaCheckpointInterval (re_config (ne_replica ne))) = 0 \<and>
    ne_ip ne = chars (pc_replicaIps c ! unat (re_id (ne_replica ne)))"
proof -
  from assms(1) obtain m where load: "load_config y file memory None = Inr (c, Some m)" and new: "Replica_new c (Some m) keys flags ne0 = Inr ne"
    by (auto simp: replica_main_def dest: load_config_InrD(2) split: if_splits elim!: bindE_InrE)
      (metis load_config_InrD(2))
  note parsed = load_config_InrD(1) [OF load]
  have manager: "calculateDerivedValues (process_config_of c) = Inr m" using load_config_InrD(2) [OF load] by simp
  note valid = manager_valid [OF manager assms(2)]
  have ne: "re_cm (ne_replica ne) = m" "re_id (ne_replica ne) = fl_replicaId flags" "unat (fl_replicaId flags) < length (pc_replicaIps c)"
    "\<exists>clients proxies replicas. Replica_addrs c (fl_replicaId flags) = Inr (clients, proxies, replicas) \<and> ne_ip ne = fst (replicas ! unat (fl_replicaId flags))"
    using new by (auto simp: Replica_new_def ConfigManager_getInstance_def split: if_splits elim!: bindE_InrE)
  have ip: "ne_ip ne = chars (pc_replicaIps c ! unat (fl_replicaId flags))"
  proof -
    from ne(4) obtain clients proxies replicas where
      addrs: "Replica_addrs c (fl_replicaId flags) = Inr (clients, proxies, replicas)" "ne_ip ne = fst (replicas ! unat (fl_replicaId flags))"
      by blast
    note ips = Replica_addrs_ip(3) [OF addrs(1)]
    then have "length replicas = length (pc_replicaIps c)" by (metis length_map)
    then show ?thesis using arg_cong [OF ips, of "\<lambda>xs. xs ! unat (fl_replicaId flags)"] ne(3) addrs(2) by simp
  qed
  have "getNumReplicas m = length (pc_replicaIps c)"
    using calculateDerivedValues_replicas [OF manager] assms(3) by (simp add: getNumReplicas_def unat_of_nat) (simp add: process_config_of_def)
  moreover from parsed obtain root c3 where "parseReplicaConfig y (Found root) c3 = Inr c" by (rule parseConfig_InrE)
  note intervals = replica_intervals [OF this]
  ultimately show ?thesis using ne(1-3) ip valid intervals by (simp add: process_config_of_def)
qed

text \<open>The baseline wants \<open>5 f + 1\<close> replicas, but the configuration is checked for \<open>3 f + 2 e + 1\<close>: its replicas derive their
  bound from the number of replicas, its clients read \<open>f\<close>. The two agree for \<open>e = f\<close> only.\<close>

lemma flutter_bounds:
  assumes "FlutterReplica_new c (Some m) keys i interval env0 = Inr renv"
    and "FlutterClient_new c (Some m) keys j base incr cenv0 = Inr cenv"
    and "calculateDerivedValues (process_config_of c) = Inr m" and "3 * unat (pc_f c) + 2 * unat (pc_e c) + 1 < 2 ^ 32"
  shows "unat (fe_f renv) = (3 * unat (pc_f c) + 2 * unat (pc_e c)) div 5 \<and> fce_f cenv = pc_f c"
proof -
  have "fe_numReplicas renv = cm_numReplicas m" "fce_f cenv = pc_f c"
    using assms(1,2) by (auto simp: FlutterReplica_new_def FlutterClient_new_def ConfigManager_getInstance_def split: if_splits)
  moreover have "unat (cm_numReplicas m) = 3 * unat (pc_f c) + 2 * unat (pc_e c) + 1"
    using cm_valid_sizes(1) [OF manager_valid(1) [OF assms(3,4)]] manager_valid(2) [OF assms(3,4)]
    by (simp add: getNumReplicas_def getF_def getE_def process_config_of_def)
  then have "unat (cm_numReplicas m - 1) = 3 * unat (pc_f c) + 2 * unat (pc_e c)" by (subst unat_minus_one) auto
  ultimately show ?thesis by (simp add: fe_f_def unat_div)
qed

text \<open>Over UDP the index in the list of a replica of the baseline is no longer the number of the replica: for every replica
  from its own number on it sends to the next one, so replica 0 takes replica 1 for the leader.\<close>

lemma flutter_udp_shifted:
  assumes "unat i \<le> j" and "Suc j < length (pc_replicaIps c)"
  shows "Flutter_udp_addrs c i ! j = (chars (pc_replicaIps c ! Suc j), pc_replicaPort c)"
proof -
  let ?n = "length (pc_replicaIps c)"
  have "[0..<?n] = [0..<unat i] @ unat i # [Suc (unat i)..<?n]"
    using assms upt_add_eq_append [of 0 "unat i" "?n - unat i"] by (simp add: upt_conv_Cons)
  then have "filter (\<lambda>k. k \<noteq> unat i) [0..<?n] = [0..<unat i] @ [Suc (unat i)..<?n]" by (auto simp: filter_id_conv)
  moreover have "([0..<unat i] @ [Suc (unat i)..<?n]) ! j = Suc j" and "j < length ([0..<unat i] @ [Suc (unat i)..<?n])"
    using assms by (auto simp: nth_append)
  ultimately show ?thesis unfolding Flutter_udp_addrs_def by (metis (no_types, lifting) nth_map)
qed

text \<open>A proxy that has started has exactly one address for every receiver it sends to, that of the replica of the number.\<close>

lemma startup_proxy_receivers:
  assumes "proxy_main y file memory keys i env0 = Inr (c, env, receivers)" and "length (pc_replicaIps c) < 2 ^ 32"
  shows "length receivers = unat (pe_numReceivers env) \<and> map fst receivers = map chars (pc_replicaIps c)"
proof -
  from assms(1) obtain m where load: "load_config y file memory None = Inr (c, Some m)" and new: "Proxy_new c (Some m) keys i env0 = Inr (env, receivers)"
    by (auto simp: proxy_main_def dest: load_config_InrD(2) elim!: bindE_InrE)
  have manager: "calculateDerivedValues (process_config_of c) = Inr m" using load_config_InrD(2) [OF load] by simp
  have "pe_numReceivers env = cm_numReplicas m" "Proxy_addrs c i = Inr receivers"
    using new by (auto simp: Proxy_new_def ConfigManager_getInstance_def split: if_splits elim!: bindE_InrE)
  moreover have "unat (cm_numReplicas m) = length (pc_replicaIps c)"
    using calculateDerivedValues_replicas [OF manager] assms(2) by (simp add: unat_of_nat) (simp add: process_config_of_def)
  ultimately show ?thesis using Proxy_addrs_ip [of c i receivers] by (metis length_map)
qed

section \<open>Processes of a file\<close>

definition demo_client_params :: "unit client_env" where
  "demo_client_params =
     \<lparr>ce_cm = demo_config, ce_wire = demo_wire, ce_id = 0, ce_useProxy = False, ce_sendToLeader = False, ce_sendMode = RateBased,
      ce_sendRate = 0, ce_maxInFlight = 0, ce_requestSize = 0, ce_normalPathTimeout = 0, ce_requestTimeout = 0, ce_useHMAC = False,
      ce_rateIncreaseEnabled = False, ce_rateIncreaseSeqThreshold = 0, ce_rateIncreaseDurationUs = 0, ce_increasedSendRate = 0,
      ce_increasedMaxInFlight = 0, ce_runtimeSeconds = 0, ce_numProxies = 0, ce_appRequest = (\<lambda>n. []), ce_paddedData = (\<lambda>d p. d)\<rparr>"

definition demo_flags :: replica_flags where
  "demo_flags = \<lparr>fl_replicaId = 2, fl_crashed = False, fl_swapFreq = 0, fl_viewChangeFreq = 0, fl_viewChangeNum = 0,
     fl_checkpointDropFreq = 0, fl_commitLocalInViewChange = False\<rparr>"

lemma demo_load: "\<exists>m. load_config demo_yaml (Loaded (demo_file ''full'')) demo_memory None = Inr (demo_read ''full'', Some m)"
  by (simp add: load_config_def demo_file_accepted ConfigManager_initialize_def calculateDerivedValues_def process_config_of_def
      demo_read_def Let_def)

definition demo_first_request :: client_request where
  "demo_first_request = \<lparr>crq_client_id = 0, crq_client_seq = 1, crq_send_time = 0, crq_deadline = 0, crq_is_write = True, crq_req_data = []\<rparr>"

theorem startup_client_sends_witness:
  "\<exists>env ms. client_main demo_yaml (Loaded (demo_file ''full'')) demo_memory True 0 demo_client_params = Inr (demo_read ''full'', env) \<and>
     sendRequest env demo_first_request (client_init 0) = Inr ((client_init 0)\<lparr>cl_out := ms\<rparr>) \<and> ms \<noteq> []"
proof -
  obtain env where env: "client_main demo_yaml (Loaded (demo_file ''full'')) demo_memory True 0 demo_client_params = Inr (demo_read ''full'', env)"
    using demo_load by (auto simp: client_main_def Client_new_def ConfigManager_getInstance_def demo_read_def)
  have "cm_valid (ce_cm env) \<and>
    (if pc_useProxy (demo_read ''full'') \<and> pc_proxyIps (demo_read ''full'') = [] then sendRequest env demo_first_request (client_init 0) = Inl Undefined
     else \<exists>ms. ms \<noteq> [] \<and> sendRequest env demo_first_request (client_init 0) = Inr ((client_init 0)\<lparr>cl_out := cl_out (client_init 0) @ ms\<rparr>) \<and>
       list_all (\<lambda>(dst, t, m). client_dst_ok (demo_read ''full'') dst \<and> m = M_ClientRequest demo_first_request) ms)"
    by (rule startup_client_sends [OF env]) (simp add: demo_read_def)
  then show ?thesis using env by (auto simp: demo_read_def client_init_def)
qed

theorem startup_replica_valid_witness:
  "\<exists>ne. replica_main demo_yaml (Loaded (demo_file ''full'')) demo_memory True ''dombft'' 1 demo_flags demo_node = Inr (demo_read ''full'', Run_Replica ne) \<and>
     cm_valid (re_cm (ne_replica ne)) \<and> ne_ip ne = chars ''c''"
proof -
  obtain ne where ne: "replica_main demo_yaml (Loaded (demo_file ''full'')) demo_memory True ''dombft'' 1 demo_flags demo_node = Inr (demo_read ''full'', Run_Replica ne)"
    "re_id (ne_replica ne) = 2"
    using demo_load by (auto simp: replica_main_def Replica_new_def ConfigManager_getInstance_def demo_flags_def demo_read_def Replica_addrs_def
      net_config_of_def addr_defs)
  show ?thesis
    using startup_replica_valid [OF ne(1)] ne by (simp add: demo_read_def)
qed

end
