(* ===== verification/Generators.thy ===== *)
theory Generators
  imports KVStore Counter
begin

text \<open>
  The clients' generators of requests (\<open>CounterClient\<close> and \<open>KVStoreClient\<close>, \<open>lib/apps/counter.cc\<close> and \<open>kv_store.cc\<close>), and the
  key-value store under their load. The keys that the constructor draws at random are an argument.
\<close>

definition counter_generateAppRequest :: counter_operation where
  "counter_generateAppRequest = INCREMENT"

text \<open>The number is a static variable; without keys the remainder is a division by zero.\<close>

definition kv_generateAppRequest :: "u32 list \<Rightarrow> u64 \<Rightarrow> (kv_request \<times> u64) res" where
  "kv_generateAppRequest keyDist num =
     (if keyDist = [] then Inl Undefined
      else Inr (\<lparr>kvr_msg_type = SET, kvr_key = digits_of (unat (keyDist ! (unat num mod length keyDist))),
                 kvr_value = Some (digits_of (unat num))\<rparr>, num + 1))"

definition kv_generated :: "u32 list \<Rightarrow> kv_request \<Rightarrow> bool" where
  "kv_generated keyDist req \<longleftrightarrow> (\<exists>num num'. kv_generateAppRequest keyDist num = Inr (req, num'))"

text \<open>A store that executes generated requests only, with commits and aborts at any time.\<close>

inductive kv_load :: "(bytes \<Rightarrow> kv_request option) \<Rightarrow> (kv_response \<Rightarrow> bytes option) \<Rightarrow> u32 list \<Rightarrow> kvstore \<Rightarrow> bool" for parse ser keyDist where
  init: "kv_load parse ser keyDist (kv_init garbage numKeys)"
| execute: "kv_load parse ser keyDist s \<Longrightarrow> parse r = Some req \<Longrightarrow> kv_generated keyDist req \<Longrightarrow>
    kv_execute parse ser r i s = Inr (ret, s') \<Longrightarrow> kv_load parse ser keyDist s'"
| commit: "kv_load parse ser keyDist s \<Longrightarrow> kv_commit i s = Inr (b, s') \<Longrightarrow> kv_load parse ser keyDist s'"
| abort: "kv_load parse ser keyDist s \<Longrightarrow> kv_abort i s = Inr (b, s') \<Longrightarrow> kv_load parse ser keyDist s'"

section \<open>The delimiters of a snapshot\<close>

lemma digits_free: "{44, 58} \<inter> set (digits_of n) = {}"
proof -
  have "\<not> is_digit (44 :: u8)" "\<not> is_digit (58 :: u8)" by (simp_all add: is_digit_def)
  then show ?thesis using digits_of_digits [of n] by auto
qed

definition free_request :: "kvstore_request \<Rightarrow> bool" where
  "free_request r \<longleftrightarrow> {44, 58} \<inter> (set (kq_key r) \<union> set (kq_value r)) = {}"

lemma kv_apply_free:
  assumes "delimiter_free d" and "free_request r"
  shows "delimiter_free (kv_apply r d)"
proof -
  have upd: "set (AList.update k v d) \<subseteq> insert (k, v) (set d)" for k v by (induction d) auto
  have del: "set (AList.delete k d) \<subseteq> set d" for k by (induction d) auto
  show ?thesis
    using assms upd [of "kq_key r" "kq_value r"] del [of "kq_key r"]
    by (cases "kq_type r") (auto simp: kv_apply_def delimiter_free_def free_request_def)
qed

lemma fold_kv_apply_free: "delimiter_free d \<Longrightarrow> list_all free_request rs \<Longrightarrow> delimiter_free (fold kv_apply rs d)"
  by (induction rs arbitrary: d) (simp_all add: kv_apply_free)

definition free_store :: "kvstore \<Rightarrow> bool" where
  "free_store s \<longleftrightarrow> list_all free_request (kv_requests s) \<and> delimiter_free (kv_committedData s) \<and> distinct (map fst (kv_committedData s))"

lemma free_store_init: "free_store (kv_init garbage numKeys)"
proof -
  have "inj_on digits_of {0..<numKeys}" by (rule inj_on_inverseI [of _ digits_value]) (simp add: digits_value_digits_of)
  then show ?thesis
    using digits_free by (auto simp: free_store_def kv_init_def delimiter_free_def distinct_map comp_def Let_def)
qed

lemma kv_execute_set:
  assumes "parse r = Some \<lparr>kvr_msg_type = SET, kvr_key = k, kvr_value = Some v\<rparr>" and "kv_execute parse ser r i s = Inr (ret, s')"
  shows "kv_requests s' = kv_requests s @ [\<lparr>kq_idx = i, kq_key = k, kq_value = v, kq_type = SET\<rparr>] \<and> kv_committedData s' = kv_committedData s"
  using assms by (auto simp: kv_execute_def bytes_or_empty_def Let_def split: if_splits option.splits)

lemma free_store_execute:
  assumes "free_store s" and "parse r = Some req" and "kv_generated keyDist req" and "kv_execute parse ser r i s = Inr (ret, s')"
  shows "free_store s'"
proof -
  obtain m n where "req = \<lparr>kvr_msg_type = SET, kvr_key = digits_of m, kvr_value = Some (digits_of n)\<rparr>"
    using assms(3) by (auto simp: kv_generated_def kv_generateAppRequest_def split: if_splits)
  note set = kv_execute_set [OF assms(2) [unfolded this] assms(4)]
  have "free_request \<lparr>kq_idx = i, kq_key = digits_of m, kq_value = digits_of n, kq_type = SET\<rparr>"
    using digits_free [of m] digits_free [of n] unfolding free_request_def Int_Un_distrib by simp
  then show ?thesis
    using assms(1) unfolding free_store_def conjunct1 [OF set] conjunct2 [OF set] by simp
qed

lemma list_all_takeWhile: "list_all P xs \<Longrightarrow> list_all P (takeWhile Q xs)"
  by (induction xs) auto

lemma list_all_drop: "list_all P xs \<Longrightarrow> list_all P (drop n xs)"
  by (auto simp: list_all_iff dest: in_set_dropD)

lemma kv_load_free: "kv_load parse ser keyDist s \<Longrightarrow> free_store s"
proof (induction rule: kv_load.induct)
  case (init garbage numKeys)
  then show ?case by (rule free_store_init)
next
  case (execute s r req i ret s')
  from free_store_execute [OF execute.IH execute.hyps(2-4)] show ?case .
next
  case (commit s i b s')
  then show ?case
    by (auto simp: kv_commit_def free_store_def list_all_takeWhile list_all_drop fold_kv_apply_free fold_kv_apply_distinct Let_def)
next
  case (abort s i b s')
  then show ?case by (auto simp: kv_abort_def free_store_def list_all_takeWhile Let_def split: if_splits)
qed

section \<open>Properties\<close>

text \<open>Under the load of the clients a snapshot always carries over: whatever was executed, committed and aborted, a
  snapshot of the store, applied to any other store, is accepted and gives it the contents of the first, since neither the
  initial keys nor the generated requests contain a delimiter.\<close>

theorem kv_generated_snapshots:
  assumes "kv_load parse ser keyDist s" and "\<And>d. set (perm d) = set d" and "\<And>d. distinct (map fst d) \<Longrightarrow> distinct (map fst (perm d))"
  shows "\<exists>u'. kv_applySnapshot sha (snap_data (fst (kv_takeSnapshot sha perm s))) (snap_digest (fst (kv_takeSnapshot sha perm s))) i u =
      Inr (True, u') \<and> map_of (kv_data u') = map_of (fold kv_apply (kv_requests s) (kv_committedData s))"
proof -
  have free: "free_store s" by (rule kv_load_free [OF assms(1)])
  have "map_of (kv_parse (kv_text perm (fold kv_apply (kv_requests s) (kv_committedData s)))) =
      map_of (fold kv_apply (kv_requests s) (kv_committedData s))"
    using free by (intro kv_parse_text fold_kv_apply_free fold_kv_apply_distinct assms(2,3)) (simp_all add: free_store_def)
  then show ?thesis by (simp add: kv_takeSnapshot_def kv_applySnapshot_def Let_def)
qed

text \<open>One generated request, executed on a store with two keys.\<close>

definition demo_load_parse :: "bytes \<Rightarrow> kv_request option" where
  "demo_load_parse r = Some \<lparr>kvr_msg_type = SET, kvr_key = digits_of 1, kvr_value = Some (digits_of 0)\<rparr>"

lemma demo_load_generated: "kv_generated [1] \<lparr>kvr_msg_type = SET, kvr_key = digits_of 1, kvr_value = Some (digits_of 0)\<rparr>"
  unfolding kv_generated_def by (intro exI [of _ 0] exI [of _ 1]) (simp add: kv_generateAppRequest_def)

theorem kv_generated_snapshots_witness:
  "\<exists>s u'. kv_execute demo_load_parse (\<lambda>_. Some []) [] 1 (kv_init 0 2) = Inr ([], s) \<and>
     kv_applySnapshot id (snap_data (fst (kv_takeSnapshot id id s))) (snap_digest (fst (kv_takeSnapshot id id s))) 5 (kv_init 0 0) = Inr (True, u') \<and>
     map_of (kv_data u') (digits_of 1) = Some (digits_of 0)"
proof -
  let ?q = "\<lparr>kq_idx = 1, kq_key = digits_of 1, kq_value = digits_of 0, kq_type = SET\<rparr>"
  obtain s where s: "kv_execute demo_load_parse (\<lambda>_. Some []) [] 1 (kv_init 0 2) = Inr ([], s)" "kv_requests s = [?q]"
    by (simp add: kv_execute_def demo_load_parse_def kv_init_def bytes_or_empty_def Let_def)
  have "kv_load demo_load_parse (\<lambda>_. Some []) [1] s"
    by (rule kv_load.execute [OF kv_load.init _ demo_load_generated s(1)]) (simp add: demo_load_parse_def)
  from kv_generated_snapshots [OF this, of id id 5 "kv_init 0 0"] s show ?thesis
    by (fastforce simp: kv_apply_def update_Some_unfold update_conv')
qed

end
